(* ===== verification/Prelude.thy ===== *)
theory Prelude
  imports Complex_Main "HOL-Library.Word" "HOL-Library.AList" "HOL-Library.Multiset"
begin

text \<open>
  Shared vocabulary of the development: the JavaScript values the edge functions and the
  widget meet (numbers with their special values, parsed JSON), the string shapes the code
  tests with regular expressions, lemma collections, and generic facts on association lists
  and sorted lists that several components use.

  JavaScript numbers are modelled as exact rationals with \<open>NaN\<close> and the two infinities:
  block heights are PostgreSQL \<open>INT\<close> values, far inside the range where an IEEE double is
  exact, so rounding never matters for them.  Strings are lists of characters; a regular
  expression of the code is a boolean function on such a list.
\<close>

section \<open>Lemma collections\<close>

named_theorems js_simps \<open>evaluation of the JavaScript value helpers\<close>
named_theorems db_simps \<open>reading a table after a write\<close>

section \<open>JavaScript numbers\<close>

datatype jsnum = NaN | NegInf | PosInf | Fin rat

fun is_finite :: "jsnum \<Rightarrow> bool" where
  "is_finite (Fin _) = True"
| "is_finite _ = False"

definition rat_integral :: "rat \<Rightarrow> bool" where
  "rat_integral r \<longleftrightarrow> of_int \<lfloor>r\<rfloor> = r"

text \<open>\<open>Number.isInteger\<close>.\<close>

fun is_integer :: "jsnum \<Rightarrow> bool" where
  "is_integer (Fin r) = rat_integral r"
| "is_integer _ = False"

text \<open>The relational operators: every comparison with \<open>NaN\<close> is false.\<close>

fun js_lt :: "jsnum \<Rightarrow> jsnum \<Rightarrow> bool" where
  "js_lt (Fin a) (Fin b) = (a < b)"
| "js_lt NegInf (Fin _) = True"
| "js_lt NegInf PosInf = True"
| "js_lt (Fin _) PosInf = True"
| "js_lt _ _ = False"

fun js_le :: "jsnum \<Rightarrow> jsnum \<Rightarrow> bool" where
  "js_le (Fin a) (Fin b) = (a \<le> b)"
| "js_le NaN _ = False"
| "js_le _ NaN = False"
| "js_le NegInf _ = True"
| "js_le _ PosInf = True"
| "js_le _ _ = False"

text \<open>\<open>Math.max\<close> of two numbers: \<open>NaN\<close> is absorbing.\<close>

fun js_max :: "jsnum \<Rightarrow> jsnum \<Rightarrow> jsnum" where
  "js_max NaN _ = NaN"
| "js_max _ NaN = NaN"
| "js_max a b = (if js_lt a b then b else a)"

fun js_min :: "jsnum \<Rightarrow> jsnum \<Rightarrow> jsnum" where
  "js_min NaN _ = NaN"
| "js_min _ NaN = NaN"
| "js_min a b = (if js_lt b a then b else a)"

text \<open>Adding the integer \<open>n\<close>.\<close>

fun js_add :: "jsnum \<Rightarrow> int \<Rightarrow> jsnum" where
  "js_add (Fin a) n = Fin (a + of_int n)"
| "js_add a _ = a"

abbreviation jsint :: "int \<Rightarrow> jsnum" where
  "jsint n \<equiv> Fin (of_int n)"

text \<open>The integer value of a number that \<open>Number.isInteger\<close> accepts.\<close>

fun int_of_num :: "jsnum \<Rightarrow> int" where
  "int_of_num (Fin r) = \<lfloor>r\<rfloor>"
| "int_of_num _ = 0"

lemma rat_integral_of_int [simp]: "rat_integral (of_int n)"
  by (simp add: rat_integral_def)

lemma rat_integral_numerals [simp]: "rat_integral 0" "rat_integral 1" "rat_integral (numeral k)"
  using rat_integral_of_int [of 0] rat_integral_of_int [of 1] rat_integral_of_int [of "numeral k"]
  by simp_all

lemma is_integer_jsint [simp]: "is_integer (jsint n)"
  by simp

lemma is_integer_iff: "is_integer x \<longleftrightarrow> (\<exists>n. x = jsint n)"
proof (cases x)
  case (Fin r)
  then show ?thesis
    by (auto simp: rat_integral_def intro: exI [of _ "\<lfloor>r\<rfloor>"])
qed auto

lemma int_of_num_jsint [simp]: "int_of_num (jsint n) = n"
  by simp

lemma js_max_Fin [simp]: "js_max (Fin a) (Fin b) = Fin (max a b)"
  by (simp add: max_def not_less antisym_conv1)

lemma js_min_Fin [simp]: "js_min (Fin a) (Fin b) = Fin (min a b)"
  by (simp add: min_def not_less antisym_conv1)

lemma js_le_finite:
  "is_finite a \<Longrightarrow> is_finite b \<Longrightarrow> \<not> js_lt a b \<longleftrightarrow> js_le b a"
  by (cases a; cases b) auto

section \<open>Parsed JSON\<close>

text \<open>
  The result of \<open>JSON.parse\<close>, which is the type \<open>unknown\<close> of a request body: a missing
  property reads as \<open>undefined\<close>, modelled by \<open>None\<close>.  Of duplicate keys the last wins.
  Reading a property of \<open>null\<close> throws; \<open>field\<close> is only used after that case.
\<close>

datatype json =
  JNull
| JBool bool
| JNum jsnum
| JStr string
| JArr "json list"
| JObj "(string \<times> json) list"

fun field :: "json \<Rightarrow> string \<Rightarrow> json option" where
  "field (JObj kvs) k = map_of (rev kvs) k"
| "field _ k = None"

text \<open>JavaScript truthiness of a possibly missing property.\<close>

fun truthy :: "json option \<Rightarrow> bool" where
  "truthy None = False"
| "truthy (Some JNull) = False"
| "truthy (Some (JBool b)) = b"
| "truthy (Some (JNum x)) = (x \<noteq> NaN \<and> x \<noteq> Fin 0)"
| "truthy (Some (JStr s)) = (s \<noteq> [])"
| "truthy (Some (JArr _)) = True"
| "truthy (Some (JObj _)) = True"

text \<open>\<open>typeof x === 'number' && Number.isInteger(x) && x >= 0\<close>, with the value.\<close>

fun nonneg_integer :: "json option \<Rightarrow> int option" where
  "nonneg_integer (Some (JNum x)) =
     (if is_integer x \<and> 0 \<le> int_of_num x then Some (int_of_num x) else None)"
| "nonneg_integer _ = None"

section \<open>String shapes\<close>

definition is_digit :: "char \<Rightarrow> bool" where
  "is_digit c \<longleftrightarrow> c \<in> set ''0123456789''"

definition is_lower_hex :: "char \<Rightarrow> bool" where
  "is_lower_hex c \<longleftrightarrow> c \<in> set ''0123456789abcdef''"

definition is_hex :: "char \<Rightarrow> bool" where
  "is_hex c \<longleftrightarrow> c \<in> set ''0123456789abcdefABCDEF''"

text \<open>
  \<open>/^[0-9a-f]{8}-[0-9a-f]{4}-[0-9a-f]{4}-[0-9a-f]{4}-[0-9a-f]{12}$/i\<close>: thirty-six
  characters, a dash at the four fixed positions and hexadecimal digits elsewhere.
\<close>

definition is_uuid :: "string \<Rightarrow> bool" where
  "is_uuid s \<longleftrightarrow> length s = 36 \<and>
     list_all (\<lambda>(i, c). if i \<in> {8, 13, 18, 23} then c = CHR ''-'' else is_hex c)
       (zip [0..<36] s)"

text \<open>\<open>/^\d{4}-\d{2}-\d{2}$/\<close>.\<close>

definition is_iso_date :: "string \<Rightarrow> bool" where
  "is_iso_date s \<longleftrightarrow> length s = 10 \<and>
     list_all (\<lambda>(i, c). if i \<in> {4, 7} then c = CHR ''-'' else is_digit c)
       (zip [0..<10] s)"

text \<open>\<open>/^[0-9a-f]{64}$/\<close>.\<close>

definition is_hex64 :: "string \<Rightarrow> bool" where
  "is_hex64 s \<longleftrightarrow> length s = 64 \<and> list_all is_lower_hex s"

text \<open>
  \<open>UUID_RE.test(x)\<close> coerces its argument to a string.  A string is itself; an array of one
  element is that element's string, however deeply nested; no number, boolean, object, empty
  or longer array has a string of the UUID shape.  A boxed value reads as its text where the
  client library prints it into a URL, but it is not \<open>===\<close> any string, and a database function
  that takes a \<open>uuid\<close> refuses it.
\<close>

datatype uuid_arg = Plain (text_of: string) | Boxed (text_of: string)

fun single_text :: "json \<Rightarrow> string option" where
  "single_text (JStr s) = Some s"
| "single_text (JArr [x]) = single_text x"
| "single_text _ = None"

definition uuid_value :: "json option \<Rightarrow> uuid_arg option" where
  "uuid_value x =
     (case x of
        None \<Rightarrow> None
      | Some y \<Rightarrow> (case single_text y of
          None \<Rightarrow> None
        | Some s \<Rightarrow> if \<not> is_uuid s then None
                    else (case y of JStr _ \<Rightarrow> Some (Plain s) | _ \<Rightarrow> Some (Boxed s))))"

lemma uuid_value_string [simp]: "uuid_value (Some (JStr s)) = (if is_uuid s then Some (Plain s) else None)"
  by (simp add: uuid_value_def)

lemma uuid_value_None [simp]: "uuid_value None = None"
  by (simp add: uuid_value_def)

text \<open>\<open>!x || typeof x !== 'string'\<close> refuses; otherwise the string, which is not empty.\<close>

fun nonempty_string :: "json option \<Rightarrow> string option" where
  "nonempty_string (Some (JStr s)) = (if s \<noteq> [] then Some s else None)"
| "nonempty_string _ = None"

text \<open>PostgreSQL compares and prints values of type \<open>uuid\<close> in lower case.\<close>

definition lower_char :: "char \<Rightarrow> char" where
  "lower_char c = (if c \<in> set ''ABCDEFGHIJKLMNOPQRSTUVWXYZ''
                   then char_of (of_char c + (32 :: nat)) else c)"

definition pg_uuid :: "string \<Rightarrow> string" where
  "pg_uuid = map lower_char"

text \<open>A natural number in a template string.\<close>

fun nat_text :: "nat \<Rightarrow> string" where
  "nat_text n = (if n < 10 then [''0123456789'' ! n]
                 else nat_text (n div 10) @ [''0123456789'' ! (n mod 10)])"

declare nat_text.simps [simp del]

section \<open>Association lists in insertion order\<close>

text \<open>
  A JavaScript \<open>Map\<close> iterates in insertion order, and \<open>set\<close> on an existing key keeps its
  place: that is \<open>AList.update\<close>, with \<open>AList.delete\<close> for \<open>delete\<close> and \<open>map_of\<close> for \<open>get\<close>.
\<close>

lemma map_of_update: "map_of (AList.update k v m) = (map_of m)(k \<mapsto> v)"
  by (simp add: update_conv')

lemma map_of_delete: "map_of (AList.delete k m) = (map_of m)(k := None)"
  by (simp add: delete_conv')

lemma distinct_keys_update: "distinct (map fst m) \<Longrightarrow> distinct (map fst (AList.update k v m))"
  by (rule distinct_update)

lemma distinct_keys_delete: "distinct (map fst m) \<Longrightarrow> distinct (map fst (AList.delete k m))"
  by (rule distinct_delete)

lemmas assoc_simps [db_simps] =
  map_of_update map_of_delete distinct_keys_update distinct_keys_delete

end
