(* ===== verification/Ranges.thy ===== *)
theory Ranges
  imports Prelude
begin

text \<open>
  The resume rule of \<open>src/stealth/lib/ranges.ts\<close>: which block height a sync starts from,
  given the coverage intervals recorded for the connection, the legacy cursor and the wallet
  birthday.  Definitions follow the file's order; the lemmas reduce the loop to a maximum
  over the intervals that contain the birthday.
\<close>

section \<open>Data\<close>

record scan_range =
  from_height :: jsnum
  to_height :: jsnum

datatype range_error = BirthdayNotFinite

record scan_start_input =
  birthdayHeight :: jsnum
  lastBlockScanned :: "jsnum option"
  resumeFromHeight :: "jsnum option"

section \<open>Operations\<close>

definition contains :: "scan_range \<Rightarrow> jsnum \<Rightarrow> bool" where
  "contains r h \<longleftrightarrow> js_le (from_height r) h \<and> js_le h (to_height r)"

text \<open>The rows the loop skips: a non-finite bound, or an end before the start.\<close>

definition malformed :: "scan_range \<Rightarrow> bool" where
  "malformed r \<longleftrightarrow> \<not> is_finite (from_height r) \<or> \<not> is_finite (to_height r) \<or>
     js_lt (to_height r) (from_height r)"

text \<open>The \<open>for\<close> loop of \<open>resumeHeightFromRanges\<close>; \<open>resume\<close> is its accumulator.\<close>

fun resume_loop :: "scan_range list \<Rightarrow> jsnum \<Rightarrow> jsnum \<Rightarrow> jsnum" where
  "resume_loop [] birthday resume = resume"
| "resume_loop (r # rs) birthday resume =
     (if malformed r then resume_loop rs birthday resume
      else if contains r birthday \<and> js_lt resume (to_height r)
           then resume_loop rs birthday (to_height r)
           else resume_loop rs birthday resume)"

definition resumeHeightFromRanges ::
    "scan_range list option \<Rightarrow> jsnum \<Rightarrow> range_error + jsnum" where
  "resumeHeightFromRanges ranges birthday =
     (if \<not> is_finite birthday then Inl BirthdayNotFinite
      else case ranges of
             None \<Rightarrow> Inr birthday
           | Some rs \<Rightarrow> if rs = [] then Inr birthday
                        else Inr (resume_loop rs birthday birthday))"

text \<open>\<open>None\<close> on the right is \<open>undefined\<close>: the coverage cannot answer, use the cursor.\<close>

definition resumeHeightFromCoverage ::
    "scan_range list option \<Rightarrow> jsnum \<Rightarrow> range_error + jsnum option" where
  "resumeHeightFromCoverage ranges birthday =
     (case ranges of
        None \<Rightarrow> Inr None
      | Some rs \<Rightarrow>
          if rs = [] then Inr None
          else case resumeHeightFromRanges ranges birthday of
                 Inl e \<Rightarrow> Inl e
               | Inr h \<Rightarrow> Inr (Some h))"

text \<open>
  \<open>Math.max(birthdayHeight, resumeFromHeight ?? (lastBlockScanned ?? -1) + 1)\<close>; \<open>None\<close>
  stands for both \<open>undefined\<close> and \<open>null\<close>.
\<close>

definition scanStartHeight :: "scan_start_input \<Rightarrow> jsnum" where
  "scanStartHeight inp =
     js_max (birthdayHeight inp)
       (case resumeFromHeight inp of
          Some h \<Rightarrow> h
        | None \<Rightarrow> js_add (case lastBlockScanned inp of Some c \<Rightarrow> c | None \<Rightarrow> Fin (- 1)) 1)"

section \<open>Integer intervals\<close>

text \<open>The rows as they come out of the \<open>INT\<close> columns of \<open>stealth_scan_ranges\<close>.\<close>

definition range_of_row :: "int \<times> int \<Rightarrow> scan_range" where
  "range_of_row row = \<lparr>from_height = jsint (fst row), to_height = jsint (snd row)\<rparr>"

lemma malformed_row [simp]: "malformed (range_of_row row) \<longleftrightarrow> snd row < fst row"
  by (simp add: malformed_def range_of_row_def)

lemma contains_row [simp]:
  "contains (range_of_row row) (jsint b) \<longleftrightarrow> fst row \<le> b \<and> b \<le> snd row"
  by (simp add: contains_def range_of_row_def)

lemma to_height_row [simp]: "to_height (range_of_row row) = jsint (snd row)"
  by (simp add: range_of_row_def)

text \<open>The ends of the well-formed rows that contain \<open>b\<close>.\<close>

definition anchored_ends :: "(int \<times> int) list \<Rightarrow> int \<Rightarrow> int set" where
  "anchored_ends rows b = snd ` {row \<in> set rows. fst row \<le> b \<and> b \<le> snd row}"

lemma anchored_ends_simps [simp]:
  "anchored_ends [] b = {}"
  "anchored_ends (row # rows) b =
     (if fst row \<le> b \<and> b \<le> snd row then insert (snd row) (anchored_ends rows b)
      else anchored_ends rows b)"
  by (auto simp: anchored_ends_def)

lemma finite_anchored_ends [simp]: "finite (anchored_ends rows b)"
  by (simp add: anchored_ends_def)

lemma resume_loop_rows:
  "resume_loop (map range_of_row rows) (jsint b) (jsint r) =
     jsint (Max (insert r (anchored_ends rows b)))"
proof (induction rows arbitrary: r)
  case Nil
  then show ?case by simp
next
  case (Cons row rows)
  show ?case
  proof (cases "fst row \<le> b \<and> b \<le> snd row")
    case True
    have "Max (insert r (insert (snd row) (anchored_ends rows b))) =
      Max (insert (max r (snd row)) (anchored_ends rows b))"
      by (cases "anchored_ends rows b = {}") (simp_all add: max.assoc)
    then show ?thesis
      using True Cons.IH [of r] Cons.IH [of "snd row"]
      by (auto simp: max_def)
  next
    case False
    then show ?thesis using Cons.IH [of r] by auto
  qed
qed

lemma resumeHeightFromRanges_rows:
  "resumeHeightFromRanges (Some (map range_of_row rows)) (jsint b) =
     Inr (jsint (Max (insert b (anchored_ends rows b))))"
  by (simp add: resumeHeightFromRanges_def resume_loop_rows)

text \<open>The result of \<open>resumeHeightFromRanges\<close> on integer rows, as an integer.\<close>

definition resume_of_rows :: "(int \<times> int) list \<Rightarrow> int \<Rightarrow> int" where
  "resume_of_rows rows b =
     (case resumeHeightFromRanges (Some (map range_of_row rows)) (jsint b) of
        Inr h \<Rightarrow> int_of_num h | Inl _ \<Rightarrow> b)"

lemma resume_of_rows_Max: "resume_of_rows rows b = Max (insert b (anchored_ends rows b))"
  by (simp add: resume_of_rows_def resumeHeightFromRanges_rows)

lemma resume_of_rows_ge: "b \<le> resume_of_rows rows b"
  by (simp add: resume_of_rows_Max)

lemma resume_of_rows_cases:
  obtains (birthday) "resume_of_rows rows b = b"
  | (row) f t where "(f, t) \<in> set rows" "f \<le> b" "b \<le> t" "resume_of_rows rows b = t"
proof -
  have "Max (insert b (anchored_ends rows b)) \<in> insert b (anchored_ends rows b)"
    by (rule Max_in) auto
  then show thesis
    using birthday row by (auto simp: resume_of_rows_Max anchored_ends_def)
qed

lemma resume_of_rows_upper:
  "(f, t) \<in> set rows \<Longrightarrow> f \<le> b \<Longrightarrow> b \<le> t \<Longrightarrow> t \<le> resume_of_rows rows b"
  unfolding resume_of_rows_Max
  by (rule Max_ge) (force simp: anchored_ends_def)+

text \<open>With integer inputs the start height is an integer maximum.\<close>

lemma scanStartHeight_int:
  "scanStartHeight \<lparr>birthdayHeight = jsint b, lastBlockScanned = map_option jsint c,
     resumeFromHeight = map_option jsint r\<rparr> =
   jsint (max b (case r of Some h \<Rightarrow> h
                 | None \<Rightarrow> (case c of Some n \<Rightarrow> n | None \<Rightarrow> - 1) + 1))"
  by (cases r; cases c) (simp_all add: scanStartHeight_def of_int_max)

section \<open>Properties\<close>

text \<open>
  On the rows of the coverage table, the resume height is exactly the greatest end of a
  recorded interval that contains the birthday, or the birthday when no interval does:
  intervals ahead of the birthday and malformed rows never move it.
\<close>

theorem resume_is_max_anchored_end:
  "resumeHeightFromRanges (Some (map range_of_row rows)) (jsint b) =
     Inr (jsint (Max (insert b {t. \<exists>f. (f, t) \<in> set rows \<and> f \<le> b \<and> b \<le> t})))"
proof -
  have "anchored_ends rows b = {t. \<exists>f. (f, t) \<in> set rows \<and> f \<le> b \<and> b \<le> t}"
    by (force simp: anchored_ends_def)
  then show ?thesis by (simp add: resumeHeightFromRanges_rows)
qed

end
