(* ===== verification/CoverageTable.thy ===== *)
theory CoverageTable
  imports Ranges
begin

text \<open>
  The coverage table \<open>stealth_scan_ranges\<close> of one connection and the merge that
  \<open>record_stealth_scan_range()\<close> performs on it (migration 20260921180000), as a list of
  inclusive integer intervals.  The locale \<open>coverage_map\<close> states what the sync relies on: a
  map from recorded intervals to a resume height.  Its interpretation joins the SQL writer
  with the TypeScript reader of \<open>ranges.ts\<close>.
\<close>

section \<open>The merging writer\<close>

text \<open>Rows that overlap \<open>[p, q]\<close> or touch it: \<open>from_height <= q + 1 AND to_height >= p - 1\<close>.\<close>

definition touching :: "int \<Rightarrow> int \<Rightarrow> int \<times> int \<Rightarrow> bool" where
  "touching p q row \<longleftrightarrow> fst row \<le> q + 1 \<and> p - 1 \<le> snd row"

definition overlapping :: "int \<Rightarrow> int \<Rightarrow> int \<times> int \<Rightarrow> bool" where
  "overlapping p q row \<longleftrightarrow> fst row \<le> q \<and> p \<le> snd row"

definition merge_scan_range :: "(int \<times> int) list \<Rightarrow> int \<Rightarrow> int \<Rightarrow> (int \<times> int) list" where
  "merge_scan_range rows p q =
     (let ov = filter (touching p q) rows in
      if ov = [] then rows @ [(p, q)]
      else let mf = foldr min (map fst ov) p;
               mt = foldr max (map snd ov) q
           in filter (\<lambda>row. \<not> overlapping mf mt row) rows @ [(mf, mt)])"

section \<open>Normal form\<close>

text \<open>Non-empty intervals from height 0 up, pairwise neither overlapping nor adjacent.\<close>

definition separate :: "int \<times> int \<Rightarrow> int \<times> int \<Rightarrow> bool" where
  "separate x y \<longleftrightarrow> snd x + 1 < fst y \<or> snd y + 1 < fst x"

fun normalized :: "(int \<times> int) list \<Rightarrow> bool" where
  "normalized [] = True"
| "normalized (x # xs) = (fst x \<le> snd x \<and> list_all (separate x) xs \<and> normalized xs)"

definition covered :: "(int \<times> int) list \<Rightarrow> int set" where
  "covered rows = (\<Union>(f, t) \<in> set rows. {f..t})"

lemma covered_simps [simp]:
  "covered [] = {}"
  "covered (row # rows) = {fst row..snd row} \<union> covered rows"
  "covered (rows @ rows') = covered rows \<union> covered rows'"
  by (auto simp: covered_def)

lemma separate_sym: "separate x y \<longleftrightarrow> separate y x"
  by (auto simp: separate_def)

lemma normalized_append:
  "normalized (xs @ ys) \<longleftrightarrow>
     normalized xs \<and> normalized ys \<and> (\<forall>x \<in> set xs. list_all (separate x) ys)"
  by (induction xs) (auto simp: list_all_iff)

lemma normalized_filter: "normalized xs \<Longrightarrow> normalized (filter P xs)"
  by (induction xs) (auto simp: list_all_iff)

lemma normalized_nonempty: "normalized xs \<Longrightarrow> x \<in> set xs \<Longrightarrow> fst x \<le> snd x"
  by (induction xs) auto

lemma normalized_separate:
  "normalized xs \<Longrightarrow> x \<in> set xs \<Longrightarrow> y \<in> set xs \<Longrightarrow> x \<noteq> y \<Longrightarrow> separate x y"
  by (induction xs) (auto simp: list_all_iff separate_sym)

lemma foldr_min_le: "foldr min xs (p :: int) \<le> p \<and> (\<forall>x \<in> set xs. foldr min xs p \<le> x)"
  by (induction xs) auto

lemma foldr_min_in: "foldr min xs (p :: int) \<in> insert p (set xs)"
  by (induction xs) (auto simp: min_def)

lemma foldr_max_ge: "(p :: int) \<le> foldr max xs p \<and> (\<forall>x \<in> set xs. x \<le> foldr max xs p)"
  by (induction xs) auto

lemma foldr_max_in: "foldr max xs (p :: int) \<in> insert p (set xs)"
  by (induction xs) (auto simp: max_def)

text \<open>
  The two branches of the writer in one shape: the rows that touch the new interval are
  replaced by the hull of them all.
\<close>

lemma merge_hull:
  fixes rows :: "(int \<times> int) list" and p q :: int
  defines "ov \<equiv> filter (touching p q) rows"
  defines "mf \<equiv> foldr min (map fst ov) p" and "mt \<equiv> foldr max (map snd ov) q"
  assumes norm: "normalized rows" and pq: "p \<le> q"
  shows "merge_scan_range rows p q = filter (\<lambda>row. \<not> touching p q row) rows @ [(mf, mt)]"
proof -
  have mf: "mf \<le> p" "\<And>x. x \<in> set ov \<Longrightarrow> mf \<le> fst x" "mf \<in> insert p (fst ` set ov)"
    using foldr_min_le [of "map fst ov" p] foldr_min_in [of "map fst ov" p]
    by (auto simp: mf_def)
  have mt: "q \<le> mt" "\<And>x. x \<in> set ov \<Longrightarrow> snd x \<le> mt" "mt \<in> insert q (snd ` set ov)"
    using foldr_max_ge [of q "map snd ov"] foldr_max_in [of "map snd ov" q]
    by (auto simp: mt_def)
  have "overlapping mf mt row \<longleftrightarrow> touching p q row" if row: "row \<in> set rows" for row
  proof
    assume t: "touching p q row"
    then have "row \<in> set ov" using row by (simp add: ov_def)
    then have "mf \<le> fst row" "snd row \<le> mt" "fst row \<le> snd row"
      using mf mt norm row normalized_nonempty by auto
    then show "overlapping mf mt row" by (simp add: overlapping_def)
  next
    assume o: "overlapping mf mt row"
    show "touching p q row"
    proof (rule ccontr)
      assume nt: "\<not> touching p q row"
      then have sep: "separate row y" if "y \<in> set ov" for y
        using that nt by (intro normalized_separate [OF norm row]) (auto simp: ov_def)
      have ne: "fst row \<le> snd row" using norm row normalized_nonempty by blast
      have tch: "fst y \<le> q + 1 \<and> p - 1 \<le> snd y \<and> fst y \<le> snd y" if "y \<in> set ov" for y
        using that norm normalized_nonempty by (auto simp: ov_def touching_def)
      from nt consider "q + 1 < fst row" | "snd row < p - 1"
        by (auto simp: touching_def)
      then show False
      proof cases
        case 1
        then obtain y where "y \<in> set ov" "fst row \<le> snd y"
          using o mt(3) by (auto simp: overlapping_def)
        then show False using 1 sep [of y] tch [of y] ne by (auto simp: separate_def)
      next
        case 2
        then obtain y where "y \<in> set ov" "fst y \<le> snd row"
          using o mf(3) by (auto simp: overlapping_def)
        then show False using 2 sep [of y] tch [of y] ne by (auto simp: separate_def)
      qed
    qed
  qed
  then have same: "filter (\<lambda>row. \<not> overlapping mf mt row) rows =
      filter (\<lambda>row. \<not> touching p q row) rows"
    by (intro filter_cong) auto
  have body: "merge_scan_range rows p q = (if ov = [] then rows @ [(p, q)]
      else filter (\<lambda>row. \<not> overlapping mf mt row) rows @ [(mf, mt)])"
    unfolding merge_scan_range_def Let_def ov_def mf_def mt_def ..
  show ?thesis
  proof (cases "ov = []")
    case True
    then have "filter (\<lambda>row. \<not> touching p q row) rows = rows"
      unfolding ov_def filter_empty_conv by (intro filter_True) auto
    moreover have "mf = p" "mt = q"
      using True by (simp_all add: mf_def mt_def)
    ultimately show ?thesis using True body by simp
  next
    case False
    then show ?thesis using body same by simp
  qed
qed

lemma covered_filter_split:
  "covered rows = covered (filter P rows) \<union> covered (filter (\<lambda>x. \<not> P x) rows)"
  by (auto simp: covered_def)

text \<open>The hull of the touching rows and the new interval holds no height that neither has.\<close>

lemma covered_hull:
  fixes ov :: "(int \<times> int) list" and p q :: int
  assumes tch: "\<forall>row \<in> set ov. touching p q row \<and> fst row \<le> snd row" and pq: "p \<le> q"
  shows "{foldr min (map fst ov) p..foldr max (map snd ov) q} = covered ov \<union> {p..q}"
  using tch
proof (induction ov)
  case Nil
  then show ?case by simp
next
  case (Cons row ov)
  let ?mf = "foldr min (map fst ov) p" and ?mt = "foldr max (map snd ov) q"
  have "?mf \<le> p" "q \<le> ?mt"
    using foldr_min_le [of "map fst ov" p] foldr_max_ge [of q "map snd ov"] by auto
  moreover have "fst row \<le> q + 1" "p - 1 \<le> snd row" "fst row \<le> snd row"
    using Cons.prems by (auto simp: touching_def)
  ultimately have "{min (fst row) ?mf..max (snd row) ?mt} = {fst row..snd row} \<union> {?mf..?mt}"
    using pq by (auto simp: min_def max_def)
  then show ?case using Cons by auto
qed

lemma covered_merge:
  assumes "normalized rows" "p \<le> q"
  shows "covered (merge_scan_range rows p q) = covered rows \<union> {p..q}"
proof -
  let ?ov = "filter (touching p q) rows"
  have "\<forall>row \<in> set ?ov. touching p q row \<and> fst row \<le> snd row"
    using assms(1) normalized_nonempty by auto
  then show ?thesis
    using assms covered_filter_split [of rows "touching p q"]
    by (simp add: merge_hull covered_hull Un_ac)
qed

lemma normalized_merge:
  assumes norm: "normalized rows" and pq: "p \<le> q"
  shows "normalized (merge_scan_range rows p q)"
proof -
  let ?ov = "filter (touching p q) rows"
  let ?mf = "foldr min (map fst ?ov) p" and ?mt = "foldr max (map snd ?ov) q"
  have mf: "?mf \<le> p" "?mf \<in> insert p (fst ` set ?ov)"
    using foldr_min_le [of "map fst ?ov" p] foldr_min_in [of "map fst ?ov" p] by auto
  have mt: "q \<le> ?mt" "?mt \<in> insert q (snd ` set ?ov)"
    using foldr_max_ge [of q "map snd ?ov"] foldr_max_in [of "map snd ?ov" q] by auto
  have "separate x (?mf, ?mt)" if x: "x \<in> set rows" "\<not> touching p q x" for x
  proof -
    have sep: "separate x y" if "y \<in> set ?ov" for y
      using that x(2) by (intro normalized_separate [OF norm x(1)]) auto
    have ne: "fst x \<le> snd x" using norm x normalized_nonempty by blast
    have tch: "fst y \<le> q + 1 \<and> p - 1 \<le> snd y \<and> fst y \<le> snd y" if "y \<in> set ?ov" for y
      using that norm normalized_nonempty by (auto simp: touching_def)
    from x consider "q + 1 < fst x" | "snd x < p - 1" by (auto simp: touching_def)
    then show ?thesis
    proof cases
      case 1
      have "snd y + 1 < fst x" if "y \<in> set ?ov" for y
        using sep [OF that] tch [OF that] 1 ne by (auto simp: separate_def)
      then show ?thesis using mt 1 by (auto simp: separate_def)
    next
      case 2
      have "snd x + 1 < fst y" if "y \<in> set ?ov" for y
        using sep [OF that] tch [OF that] 2 ne by (auto simp: separate_def)
      then show ?thesis using mf 2 by (auto simp: separate_def)
    qed
  qed
  then show ?thesis
    using norm pq mf(1) mt(1)
    by (simp add: merge_hull normalized_append normalized_filter)
qed

lemma merge_nonneg:
  assumes "normalized rows" "p \<le> q" "0 \<le> p" "\<forall>row \<in> set rows. 0 \<le> fst row"
  shows "\<forall>row \<in> set (merge_scan_range rows p q). 0 \<le> fst row"
  using assms foldr_min_in [of "map fst (filter (touching p q) rows)" p]
  by (auto simp: merge_hull)

section \<open>What the sync relies on\<close>

text \<open>
  The contract between the writer of the coverage (the database function) and its reader
  (the resume rule in the browser): intervals are added and nothing else, and the resume
  height is the end of the gap-free stretch that starts at the birthday.
\<close>

locale coverage_map =
  fixes inv :: "'m \<Rightarrow> bool"
    and cov :: "'m \<Rightarrow> int set"
    and rec_range :: "'m \<Rightarrow> int \<Rightarrow> int \<Rightarrow> 'm"
    and resume :: "'m \<Rightarrow> int \<Rightarrow> int"
  assumes rec_inv: "inv m \<Longrightarrow> p \<le> q \<Longrightarrow> inv (rec_range m p q)"
    and rec_cov: "inv m \<Longrightarrow> p \<le> q \<Longrightarrow> cov (rec_range m p q) = cov m \<union> {p..q}"
    and resume_ge: "b \<le> resume m b"
    and resume_covered: "b \<in> cov m \<Longrightarrow> {b..resume m b} \<subseteq> cov m"
    and resume_uncovered: "b \<notin> cov m \<Longrightarrow> resume m b = b"
    and resume_end: "inv m \<Longrightarrow> b \<in> cov m \<Longrightarrow> resume m b + 1 \<notin> cov m"
begin

lemma resume_sound: "b \<le> h \<Longrightarrow> h < resume m b \<Longrightarrow> h \<in> cov m"
  by (cases "b \<in> cov m") (use resume_covered resume_uncovered in fastforce)+

lemma resume_least_unread:
  assumes "inv m" "{b..h} \<subseteq> cov m" "b \<le> h"
  shows "h \<le> resume m b"
proof (rule ccontr)
  assume "\<not> h \<le> resume m b"
  then have "resume m b + 1 \<in> {b..h}"
    using resume_ge [of b m] by simp
  then have "resume m b + 1 \<in> cov m" using assms(2) by blast
  moreover have "b \<in> cov m" using assms by auto
  ultimately show False using resume_end assms(1) by blast
qed

lemma resume_mono:
  assumes "inv m" "p \<le> q"
  shows "resume m b \<le> resume (rec_range m p q) b"
proof (cases "b \<in> cov m")
  case True
  then have "{b..resume m b} \<subseteq> cov (rec_range m p q)"
    using resume_covered [OF True] rec_cov [OF assms] by blast
  then show ?thesis
    using resume_least_unread rec_inv assms resume_ge by blast
next
  case False
  then show ?thesis using resume_uncovered resume_ge by metis
qed

lemma resume_progress:
  assumes "inv m" "resume m b \<le> q"
  shows "q \<le> resume (rec_range m (resume m b) q) b"
proof (rule resume_least_unread)
  show "inv (rec_range m (resume m b) q)" using assms rec_inv by blast
  show "{b..q} \<subseteq> cov (rec_range m (resume m b) q)"
    using resume_sound [of b _ m] rec_cov [OF assms] by force
  show "b \<le> q" using resume_ge [of b m] assms(2) by simp
qed

end

section \<open>The SQL writer with the TypeScript reader\<close>

lemma covered_iff: "h \<in> covered rows \<longleftrightarrow> (\<exists>f t. (f, t) \<in> set rows \<and> f \<le> h \<and> h \<le> t)"
  by (fastforce simp: covered_def)

lemma resume_rows_covered: "b \<in> covered rows \<Longrightarrow> {b..resume_of_rows rows b} \<subseteq> covered rows"
proof
  fix h assume b: "b \<in> covered rows" and h: "h \<in> {b..resume_of_rows rows b}"
  show "h \<in> covered rows"
    by (rule resume_of_rows_cases [of rows b]) (use b h in \<open>fastforce simp: covered_iff\<close>)+
qed

lemma resume_rows_uncovered:
  assumes "b \<notin> covered rows"
  shows "resume_of_rows rows b = b"
  by (rule resume_of_rows_cases [of rows b]) (use assms in \<open>auto simp: covered_iff\<close>)

lemma resume_rows_end:
  assumes norm: "normalized rows" and b: "b \<in> covered rows"
  shows "resume_of_rows rows b + 1 \<notin> covered rows"
proof
  let ?r = "resume_of_rows rows b"
  assume "?r + 1 \<in> covered rows"
  then obtain f t where next_row: "(f, t) \<in> set rows" "f \<le> ?r + 1" "?r + 1 \<le> t"
    by (auto simp: covered_iff)
  obtain f' t' where here: "(f', t') \<in> set rows" "f' \<le> b" "b \<le> t'" "t' \<le> ?r"
    using b resume_of_rows_upper by (fastforce simp: covered_iff)
  obtain f0 where row0: "(f0, ?r) \<in> set rows" "f0 \<le> b" "b \<le> ?r"
    by (rule resume_of_rows_cases [of rows b]) (use here in \<open>auto dest: that\<close>)
  have "separate (f, t) (f0, ?r)"
    using next_row row0 by (intro normalized_separate [OF norm]) auto
  then show False
    using next_row row0 normalized_nonempty [OF norm row0(1)] by (auto simp: separate_def)
qed

interpretation coverage: coverage_map normalized covered merge_scan_range resume_of_rows
  by unfold_locales
    (auto simp: normalized_merge covered_merge resume_of_rows_ge resume_rows_uncovered
      resume_rows_end dest: resume_rows_covered)

section \<open>Properties\<close>

text \<open>
  C9: the merge keeps the coverage table in its normal form (intervals that are not empty,
  do not overlap and do not touch) and adds exactly the heights of the recorded interval.
\<close>

theorem merge_refines_union:
  assumes "normalized rows" and "p \<le> q"
  shows "normalized (merge_scan_range rows p q) \<and>
    covered (merge_scan_range rows p q) = covered rows \<union> {p..q}"
  using coverage.rec_inv [OF assms] coverage.rec_cov [OF assms] by simp

theorem merge_refines_union_witness:
  "normalized [(10, 20), (30, 40)] \<and> (21 :: int) \<le> 28 \<and>
   normalized (merge_scan_range [(10, 20), (30, 40)] 21 28) \<and>
   covered (merge_scan_range [(10, 20), (30, 40)] 21 28) =
     covered [(10, 20), (30, 40)] \<union> {21..28}"
proof -
  have h: "normalized [(10, 20), (30, 40)]" "(21 :: int) \<le> 28"
    by (simp_all add: separate_def)
  show ?thesis using h merge_refines_union [OF h] by blast
qed



text \<open>
  Progress: a sync that starts at the resume height and records what it read up to \<open>q\<close>
  leaves a table from which the next sync resumes at \<open>q\<close> or later, however fragmented the
  table was.
\<close>

theorem resume_progress_after_record:
  assumes "normalized rows" and "resume_of_rows rows b \<le> q"
  shows "q \<le> resume_of_rows (merge_scan_range rows (resume_of_rows rows b) q) b"
  using assms by (rule coverage.resume_progress)

theorem resume_progress_after_record_witness:
  "resume_of_rows [(100, 200), (205, 400)] 100 = 200 \<and>
   220 \<le> resume_of_rows (merge_scan_range [(100, 200), (205, 400)] 200 220) 100"
proof -
  have h: "normalized [(100, 200), (205, 400 :: int)]"
    by (simp add: separate_def)
  have r: "resume_of_rows [(100, 200), (205, 400)] 100 = 200"
    by (simp add: resume_of_rows_Max)
  have "resume_of_rows [(100, 200), (205, 400)] 100 \<le> 220" by (simp add: r)
  from resume_progress_after_record [OF h this] show ?thesis using r by simp
qed

end
