(* ===== verification/BlockParser.thy ===== *)
theory BlockParser
  imports Prelude
begin

unbundle bit_operations_syntax

text \<open>
  The minimal block parser of \<open>src/stealth/lib/sync.ts\<close>: the byte helpers, the class
  \<open>Cursor\<close>, \<open>parseTx\<close>, \<open>parseBlockHeader\<close> and the hash check on a fetched block.  A read is
  a function from the cursor to an error or a value with the moved cursor, so that a throw
  of the code is a value.  The bitwise operators of JavaScript work on 32-bit integers:
  they are words here, read as unsigned after \<open>>>> 0\<close> and as signed where the code leaves
  that out.  SHA-256 comes from \<open>@noble/hashes\<close> and is a parameter.
\<close>

section \<open>Bytes and hexadecimal text\<close>

type_synonym byte = "8 word"
type_synonym bytes = "byte list"

definition hex_digit :: "nat \<Rightarrow> char" where
  "hex_digit n = ''0123456789abcdef'' ! n"

definition byte_hex :: "byte \<Rightarrow> string" where
  "byte_hex b = [hex_digit (unat b div 16), hex_digit (unat b mod 16)]"

definition bytesToHex :: "bytes \<Rightarrow> string" where
  "bytesToHex bs = concat (map byte_hex bs)"

definition reverseBytes :: "bytes \<Rightarrow> bytes" where
  "reverseBytes bs = rev bs"

definition dsha256 :: "(bytes \<Rightarrow> bytes) \<Rightarrow> bytes \<Rightarrow> bytes" where
  "dsha256 sha b = sha (sha b)"

definition bytesEqual :: "bytes \<Rightarrow> bytes \<Rightarrow> bool" where
  "bytesEqual a b \<longleftrightarrow> length a = length b \<and> list_all2 (=) a b"

text \<open>
  \<open>parseInt(pair, 16)\<close> stored into a \<open>Uint8Array\<close>: leading white space and a sign are
  accepted, parsing stops at the first character that is no digit, and \<open>NaN\<close> is stored
  as 0.
\<close>

fun hex_value :: "char \<Rightarrow> nat option" where
  "hex_value c =
     (let n = (of_char c :: nat) in
      if 48 \<le> n \<and> n \<le> 57 then Some (n - 48)
      else if 97 \<le> n \<and> n \<le> 102 then Some (n - 87)
      else if 65 \<le> n \<and> n \<le> 70 then Some (n - 55)
      else None)"

definition is_space :: "char \<Rightarrow> bool" where
  "is_space c \<longleftrightarrow> (let n = (of_char c :: nat) in n \<in> {9, 10, 11, 12, 13, 32, 160})"

definition parse_pair :: "char \<Rightarrow> char \<Rightarrow> byte" where
  "parse_pair a b =
     (case hex_value a of
        Some x \<Rightarrow> (case hex_value b of Some y \<Rightarrow> of_nat (16 * x + y) | None \<Rightarrow> of_nat x)
      | None \<Rightarrow>
          (case hex_value b of
             None \<Rightarrow> 0
           | Some y \<Rightarrow> if is_space a \<or> a = CHR ''+'' then of_nat y
                       else if a = CHR ''-'' then - of_nat y else 0))"

datatype parse_error =
  OddHexLength
| OutOfBounds nat nat
| VarIntTooLarge
| ShortHeader
| BlockContentMismatch int string string

fun hex_pairs :: "string \<Rightarrow> bytes" where
  "hex_pairs (a # b # s) = parse_pair a b # hex_pairs s"
| "hex_pairs _ = []"

definition hexToBytes :: "string \<Rightarrow> parse_error + bytes" where
  "hexToBytes s = (if odd (length s) then Inl OddHexLength else Inr (hex_pairs s))"

section \<open>The cursor\<close>

record cursor =
  pos :: nat
  buf :: bytes

type_synonym 'a parser = "cursor \<Rightarrow> parse_error + 'a \<times> cursor"

definition bindp :: "'a parser \<Rightarrow> ('a \<Rightarrow> 'b parser) \<Rightarrow> 'b parser" where
  "bindp p f c = (case p c of Inl e \<Rightarrow> Inl e | Inr xc \<Rightarrow> f (fst xc) (snd xc))"

definition retp :: "'a \<Rightarrow> 'a parser" where
  "retp x c = Inr (x, c)"

definition readBytes :: "nat \<Rightarrow> bytes parser" where
  "readBytes n c =
     (if pos c + n > length (buf c) then Inl (OutOfBounds (pos c) n)
      else Inr (take n (drop (pos c) (buf c)), c\<lparr>pos := pos c + n\<rparr>))"

text \<open>\<open>b[0] | (b[1] << 8) | (b[2] << 16) | (b[3] << 24)\<close> as a 32-bit integer.\<close>

definition le32 :: "bytes \<Rightarrow> 32 word" where
  "le32 b = ucast (b ! 0) OR push_bit 8 (ucast (b ! 1)) OR push_bit 16 (ucast (b ! 2))
     OR push_bit 24 (ucast (b ! 3))"

definition readU32LE :: "nat parser" where
  "readU32LE = bindp (readBytes 4) (\<lambda>b. retp (unat (le32 b)))"

text \<open>The loop \<open>for (i = 7; i >= 0; i--) n = (n << 8n) | BigInt(b[i])\<close>.\<close>

definition le64 :: "bytes \<Rightarrow> nat" where
  "le64 b = foldl (\<lambda>n x. push_bit 8 n OR unat x) 0 (rev b)"

definition readU64LE :: "nat parser" where
  "readU64LE = bindp (readBytes 8) (\<lambda>b. retp (le64 b))"

definition readVarInt :: "nat parser" where
  "readVarInt =
     bindp (readBytes 1) (\<lambda>t.
       let tag = t ! 0 in
       if tag < 0xfd then retp (unat tag)
       else if tag = 0xfd then
         bindp (readBytes 2) (\<lambda>b.
           retp (unat (ucast (b ! 0) OR push_bit 8 (ucast (b ! 1)) :: 32 word)))
       else if tag = 0xfe then bindp (readBytes 4) (\<lambda>b. retp (unat (le32 b)))
       else bindp readU64LE (\<lambda>big c. if big > 0xffffffff then Inl VarIntTooLarge else Inr (big, c)))"

text \<open>\<open>peek()\<close> and \<open>cur.buf[i]\<close>: \<open>undefined\<close> past the end.\<close>

definition byte_at :: "cursor \<Rightarrow> nat \<Rightarrow> byte option" where
  "byte_at c i = (if i < length (buf c) then Some (buf c ! i) else None)"

definition peek :: "cursor \<Rightarrow> byte option" where
  "peek c = byte_at c (pos c)"

text \<open>A counted \<open>for\<close> loop over a read.\<close>

primrec read_many :: "'a parser \<Rightarrow> nat \<Rightarrow> 'a list parser" where
  "read_many p 0 = retp []"
| "read_many p (Suc n) = bindp p (\<lambda>x. bindp (read_many p n) (\<lambda>xs. retp (x # xs)))"

section \<open>Transactions\<close>

record tx_input =
  prevTxid :: string
  voutIdx :: int

record tx_output =
  out_value :: nat
  out_script :: bytes

record parsed_tx =
  txid :: string
  vinCount :: nat
  voutCount :: nat
  inputs :: "tx_input list"
  outputs :: "tx_output list"

text \<open>
  One input: \<open>None\<close> for a coinbase input (previous txid all zero), which the code skips.  The
  output index is not followed by \<open>>>> 0\<close>, so it is read as a signed 32-bit integer.
\<close>

definition read_input :: "tx_input option parser" where
  "read_input =
     bindp (readBytes 32) (\<lambda>prevTxidLE.
     bindp (readBytes 4) (\<lambda>voutBytes.
     bindp readVarInt (\<lambda>scriptLen.
     bindp (readBytes scriptLen) (\<lambda>_.
     bindp (readBytes 4) (\<lambda>_.
     retp (if list_all (\<lambda>b. b = 0) prevTxidLE then None
           else Some \<lparr>prevTxid = bytesToHex (reverseBytes prevTxidLE),
                      voutIdx = sint (le32 voutBytes)\<rparr>))))))"

definition read_output :: "tx_output parser" where
  "read_output =
     bindp readU64LE (\<lambda>val.
     bindp readVarInt (\<lambda>scriptLen.
     bindp (readBytes scriptLen) (\<lambda>scr.
     retp \<lparr>out_value = val, out_script = scr\<rparr>)))"

definition read_witness :: "unit parser" where
  "read_witness =
     bindp readVarInt (\<lambda>witCount.
     bindp (read_many (bindp readVarInt (\<lambda>witLen. readBytes witLen)) witCount) (\<lambda>_.
     retp ()))"

text \<open>\<open>cur.buf.subarray(i, j)\<close>.\<close>

definition subarray :: "bytes \<Rightarrow> nat \<Rightarrow> nat \<Rightarrow> bytes" where
  "subarray b i j = take (j - i) (drop i b)"

definition is_segwit :: "cursor \<Rightarrow> bool" where
  "is_segwit c \<longleftrightarrow> peek c = Some 0 \<and> byte_at c (pos c + 1) = Some 1"

definition getc :: "cursor parser" where
  "getc c = Inr (c, c)"

definition skip_marker :: "bool parser" where
  "skip_marker c = (if is_segwit c then Inr (True, c\<lparr>pos := pos c + 2\<rparr>) else Inr (False, c))"

text \<open>
  \<open>parseTx\<close>: the txid is the double SHA-256 of version, inputs, outputs and locktime as they
  stand in the buffer, without the segwit marker, flag and witnesses.
\<close>

definition parseTx :: "(bytes \<Rightarrow> bytes) \<Rightarrow> parsed_tx parser" where
  "parseTx sha =
     bindp (readBytes 4) (\<lambda>versionBytes.
     bindp skip_marker (\<lambda>isSegwit.
     bindp getc (\<lambda>vinStart.
     bindp readVarInt (\<lambda>nin.
     bindp (read_many read_input nin) (\<lambda>ins.
     bindp getc (\<lambda>vinEnd.
     bindp readVarInt (\<lambda>nout.
     bindp (read_many read_output nout) (\<lambda>outs.
     bindp getc (\<lambda>voutEnd.
     bindp (if isSegwit then read_many read_witness nin else retp []) (\<lambda>_.
     bindp (readBytes 4) (\<lambda>locktimeBytes.
     retp \<lparr>txid = bytesToHex (reverseBytes (dsha256 sha
                (versionBytes @ subarray (buf vinEnd) (pos vinStart) (pos vinEnd)
                  @ subarray (buf voutEnd) (pos vinEnd) (pos voutEnd) @ locktimeBytes))),
           vinCount = nin, voutCount = nout,
           inputs = List.map_filter id ins, outputs = outs\<rparr>)))))))))))"

section \<open>Block headers\<close>

record block_header =
  header_hash :: string
  timestamp :: nat
  txCount :: nat
  txStart :: nat

definition parseBlockHeader :: "(bytes \<Rightarrow> bytes) \<Rightarrow> bytes \<Rightarrow> parse_error + block_header" where
  "parseBlockHeader sha raw =
     (if length raw < 80 then Inl ShortHeader
      else let header = take 80 raw in
           case readVarInt \<lparr>pos = 80, buf = raw\<rparr> of
             Inl e \<Rightarrow> Inl e
           | Inr (n, c) \<Rightarrow>
               Inr \<lparr>header_hash = bytesToHex (reverseBytes (dsha256 sha header)),
                    timestamp = unat (le32 (drop 68 header)),
                    txCount = n, txStart = pos c\<rparr>)"

definition to_lower :: "string \<Rightarrow> string" where
  "to_lower = map lower_char"

definition assertBlockContentMatchesHash ::
    "block_header \<Rightarrow> string \<Rightarrow> int \<Rightarrow> parse_error + unit" where
  "assertBlockContentMatchesHash header requestedHashHex height =
     (if to_lower (header_hash header) \<noteq> to_lower requestedHashHex
      then Inl (BlockContentMismatch height requestedHashHex (header_hash header))
      else Inr ())"

text \<open>
  The transaction list of a block, as the block loops of \<open>runSync\<close> walk it: \<open>txCount\<close> calls
  of \<open>parseTx\<close> on one cursor that starts at \<open>txStart\<close>.
\<close>

definition parse_block_txs ::
    "(bytes \<Rightarrow> bytes) \<Rightarrow> bytes \<Rightarrow> block_header \<Rightarrow> parse_error + parsed_tx list" where
  "parse_block_txs sha raw header =
     map_sum id fst (read_many (parseTx sha) (txCount header) \<lparr>pos = txStart header, buf = raw\<rparr>)"

end
