(* ===== verification/WireFormat.thy ===== *)
theory WireFormat
  imports BlockParser
begin

unbundle bit_operations_syntax

text \<open>
  The Bitcoin wire format that \<open>BlockParser\<close> reads, as encoders, and the proof that reading
  inverts writing: variable-length integers, transactions with and without witnesses, and
  whole blocks.  The encoders are the specification (BIP 144 and the protocol documentation),
  so they model no code of the repository; the theorems are about the parser.
\<close>

section \<open>Little-endian integers\<close>

lemma or_shift_add: "a < 2 ^ k \<Longrightarrow> a OR push_bit k b = a + 2 ^ k * (b :: nat)"
proof -
  assume "a < 2 ^ k"
  then have a: "take_bit k a = a" by (simp add: take_bit_nat_eq_self)
  have "a AND push_bit k b = 0"
    by (rule bit_eqI) (subst a [symmetric], auto simp: bit_simps)
  then show ?thesis
    by (simp add: disjunctive_add_eq_or [symmetric] push_bit_eq_mult)
qed

lemma unat_byte_lt: "unat (x :: byte) < 256"
  using unsigned_less [of x] by simp

lemma unat_ucast_byte: "unat (ucast (x :: byte) :: 32 word) = unat x"
  by (simp add: unsigned_ucast_eq take_bit_nat_eq_self order_less_trans [OF unat_byte_lt])

lemma unat_shift_byte:
  "k \<le> 24 \<Longrightarrow> unat (push_bit k (ucast (x :: byte)) :: 32 word) = push_bit k (unat x)"
proof -
  assume k: "k \<le> 24"
  have "(2 :: nat) ^ k \<le> 2 ^ 24" using k by (rule power_increasing) simp
  then have "unat x * 2 ^ k < 256 * 2 ^ 24"
    using unat_byte_lt [of x] by (intro mult_less_le_imp_less) simp_all
  then have "push_bit k (unat x) < 2 ^ 32" by (simp add: push_bit_eq_mult)
  moreover have "unat (push_bit k (ucast x) :: 32 word) = take_bit 32 (push_bit k (unat x))"
    by (simp add: unsigned_push_bit_eq unat_ucast_byte)
  ultimately show ?thesis by (simp add: take_bit_nat_eq_self)
qed

lemma unat_le32: "unat (le32 b) =
    unat (b ! 0) + 2 ^ 8 * unat (b ! 1) + 2 ^ 16 * unat (b ! 2) + 2 ^ 24 * unat (b ! 3)"
proof -
  have lt: "unat (b ! i) < 2 ^ 8" for i using unat_byte_lt [of "b ! i"] by simp
  have "unat (le32 b) =
    ((unat (b ! 0) OR push_bit 8 (unat (b ! 1))) OR push_bit 16 (unat (b ! 2)))
      OR push_bit 24 (unat (b ! 3))"
    by (simp add: le32_def unsigned_or_eq unat_ucast_byte unat_shift_byte or.assoc)
  also have "\<dots> = unat (b ! 0) + 2 ^ 8 * unat (b ! 1) + 2 ^ 16 * unat (b ! 2) + 2 ^ 24 * unat (b ! 3)"
  proof -
    have 1: "unat (b ! 0) OR push_bit 8 (unat (b ! 1)) = unat (b ! 0) + 2 ^ 8 * unat (b ! 1)"
      by (rule or_shift_add [OF lt])
    have b1: "unat (b ! 0) + 2 ^ 8 * unat (b ! 1) < 2 ^ 16" using lt[of 0] lt[of 1] by simp
    have b2: "unat (b ! 0) + 2 ^ 8 * unat (b ! 1) + 2 ^ 16 * unat (b ! 2) < 2 ^ 24"
      using lt[of 0] lt[of 1] lt[of 2] by simp
    show ?thesis unfolding 1 or_shift_add [OF b1] or_shift_add [OF b2] ..
  qed
  finally show ?thesis .
qed

primrec le_bytes :: "nat \<Rightarrow> nat \<Rightarrow> bytes" where
  "le_bytes 0 n = []"
| "le_bytes (Suc k) n = of_nat (n mod 256) # le_bytes k (n div 256)"

lemma length_le_bytes [simp]: "length (le_bytes k n) = k"
  by (induction k arbitrary: n) auto

lemma unat_of_nat_byte: "unat (of_nat (n mod 256) :: byte) = n mod 256"
  by (simp add: unat_of_nat take_bit_eq_mod)

fun le_value :: "bytes \<Rightarrow> nat" where
  "le_value [] = 0"
| "le_value (x # xs) = unat x + 256 * le_value xs"

lemma le64_value: "le64 b = le_value b"
proof (induction b)
  case (Cons x b)
  have "push_bit 8 (le_value b) OR unat x = unat x OR push_bit 8 (le_value b)" by (rule or.commute)
  also have "\<dots> = le_value (x # b)"
    using or_shift_add [of "unat x" 8 "le_value b"] unat_byte_lt [of x] by simp
  finally show ?case using Cons by (simp add: le64_def)
qed (simp add: le64_def)

lemma le_value_le_bytes: "n < 256 ^ k \<Longrightarrow> le_value (le_bytes k n) = n"
  by (induction k arbitrary: n) (auto simp: unat_of_nat_byte less_mult_imp_div_less)

lemma unat_le32_value: "length b = 4 \<Longrightarrow> unat (le32 b) = le_value b"
proof -
  assume "length b = 4"
  then obtain w x y z where "b = [w, x, y, z]"
    by (auto simp: length_Suc_conv numeral_eq_Suc)
  then show ?thesis by (simp add: unat_le32)
qed

section \<open>Reading back what was written\<close>

text \<open>
  \<open>decodes p bs x\<close>: wherever \<open>bs\<close> stands in a buffer, \<open>p\<close> started at its first byte returns
  \<open>x\<close> and stops right after it.
\<close>

definition decodes :: "'a parser \<Rightarrow> bytes \<Rightarrow> 'a \<Rightarrow> bool" where
  "decodes p bs x \<longleftrightarrow> (\<forall>pre post.
     p \<lparr>pos = length pre, buf = pre @ bs @ post\<rparr> =
       Inr (x, \<lparr>pos = length (pre @ bs), buf = (pre @ bs) @ post\<rparr>))"

lemma decodesD:
  "decodes p bs x \<Longrightarrow> p \<lparr>pos = length pre, buf = pre @ bs @ post\<rparr> =
     Inr (x, \<lparr>pos = length (pre @ bs), buf = (pre @ bs) @ post\<rparr>)"
  by (simp add: decodes_def)

lemma bindp_decodes:
  "decodes p bs x \<Longrightarrow> bindp p f \<lparr>pos = length pre, buf = pre @ bs @ post\<rparr> =
     f x \<lparr>pos = length (pre @ bs), buf = (pre @ bs) @ post\<rparr>"
  by (simp only: bindp_def decodesD sum.case fst_conv snd_conv)

lemma decodes_ret [intro]: "decodes (retp x) [] x"
  by (simp add: decodes_def retp_def)

lemma decodes_bind:
  assumes "decodes p bs x" and "decodes (f x) cs y"
  shows "decodes (bindp p f) (bs @ cs) y"
proof -
  have "bindp p f \<lparr>pos = length pre, buf = pre @ bs @ cs @ post\<rparr> =
    f x \<lparr>pos = length (pre @ bs), buf = (pre @ bs) @ cs @ post\<rparr>" for pre post
    by (rule bindp_decodes [OF assms(1)])
  then show ?thesis
    unfolding decodes_def
    by (metis append.assoc assms(2) decodesD)
qed

lemma decodes_bind_ret: "decodes p bs x \<Longrightarrow> decodes (bindp p (\<lambda>y. retp (g y))) bs (g x)"
  using decodes_bind [of p bs x "\<lambda>y. retp (g y)" "[]"] by auto

lemma decodes_readBytes: "length bs = n \<Longrightarrow> decodes (readBytes n) bs bs"
  by (simp add: decodes_def readBytes_def)

lemma decodes_read_many:
  "(\<And>x. x \<in> set xs \<Longrightarrow> decodes p (enc x) (val x)) \<Longrightarrow>
     decodes (read_many p (length xs)) (concat (map enc xs)) (map val xs)"
proof (induction xs)
  case (Cons x xs)
  have "decodes (bindp (read_many p (length xs)) (\<lambda>ys. retp (val x # ys)))
    (concat (map enc xs)) (val x # map val xs)"
    using Cons by (intro decodes_bind_ret) simp
  then show ?case
    using Cons.prems by (auto intro: decodes_bind)
qed auto

definition enc_varint :: "nat \<Rightarrow> bytes" where
  "enc_varint n =
     (if n < 0xfd then [of_nat n]
      else if n < 2 ^ 16 then 0xfd # le_bytes 2 n
      else if n < 2 ^ 32 then 0xfe # le_bytes 4 n
      else 0xff # le_bytes 8 n)"

lemma decodes_u64: "n < 2 ^ 64 \<Longrightarrow> decodes readU64LE (le_bytes 8 n) n"
  using decodes_bind_ret [OF decodes_readBytes [of "le_bytes 8 n" 8], of le64]
  by (simp add: readU64LE_def le64_value le_value_le_bytes)

lemma le16_value:
  "length b = 2 \<Longrightarrow>
     unat (ucast (b ! 0) OR push_bit 8 (ucast (b ! Suc 0)) :: 32 word) = le_value b"
proof -
  assume "length b = 2"
  then obtain x y where b: "b = [x, y]"
    by (auto simp: length_Suc_conv numeral_eq_Suc)
  have "unat (ucast x OR push_bit 8 (ucast y) :: 32 word) = unat x OR push_bit 8 (unat y)"
    by (simp add: unsigned_or_eq unat_ucast_byte unat_shift_byte)
  also have "\<dots> = unat x + 2 ^ 8 * unat y"
    using unat_byte_lt [of x] by (intro or_shift_add) simp
  finally show ?thesis by (simp add: b)
qed

lemma unat_of_nat_byte_lt: "n < 256 \<Longrightarrow> unat (of_nat n :: byte) = n"
  by (simp add: unat_of_nat take_bit_eq_mod)

lemma of_nat_byte_less: "n < 0xfd \<Longrightarrow> (of_nat n :: byte) < 0xfd"
  by (simp add: word_less_nat_alt unat_of_nat_byte_lt)

lemma decodes_varint: "n < 2 ^ 32 \<Longrightarrow> decodes readVarInt (enc_varint n) n"
proof -
  assume n: "n < 2 ^ 32"
  have one: "decodes (readBytes 1) [t] [t]" for t :: byte
    by (rule decodes_readBytes) simp
  consider "n < 0xfd" | "0xfd \<le> n" "n < 2 ^ 16" | "2 ^ 16 \<le> n" by linarith
  then show ?thesis
  proof cases
    case 1
    have "decodes readVarInt ([of_nat n] @ []) n"
      unfolding readVarInt_def
      by (rule decodes_bind [OF one]) (use 1 of_nat_byte_less in
        \<open>auto simp: unat_of_nat_byte_lt\<close>)
    then show ?thesis using 1 by (simp add: enc_varint_def)
  next
    case 2
    have "decodes readVarInt ([0xfd] @ le_bytes 2 n) n"
      unfolding readVarInt_def
      by (rule decodes_bind [OF one])
        (use 2 decodes_bind_ret [OF decodes_readBytes [of "le_bytes 2 n" 2],
             of "\<lambda>b. unat (ucast (b ! 0) OR push_bit 8 (ucast (b ! 1)) :: 32 word)"] in
          \<open>simp add: le16_value le_value_le_bytes\<close>)
    then show ?thesis using 2 by (simp add: enc_varint_def)
  next
    case 3
    have "decodes readVarInt ([0xfe] @ le_bytes 4 n) n"
      unfolding readVarInt_def
      by (rule decodes_bind [OF one])
        (use n decodes_bind_ret [OF decodes_readBytes [of "le_bytes 4 n" 4],
             of "\<lambda>b. unat (le32 b)"] in
          \<open>simp add: unat_le32_value le_value_le_bytes\<close>)
    then show ?thesis using 3 n by (simp add: enc_varint_def)
  qed
qed

section \<open>Transactions\<close>

record wire_input =
  wi_prev :: bytes
  wi_vout :: nat
  wi_script :: bytes
  wi_seq :: bytes

record wire_output =
  wo_value :: nat
  wo_script :: bytes

record wire_tx =
  wt_version :: bytes
  wt_ins :: "wire_input list"
  wt_outs :: "wire_output list"
  wt_witness :: "bytes list list option"
  wt_locktime :: bytes

definition wf_input :: "wire_input \<Rightarrow> bool" where
  "wf_input i \<longleftrightarrow> length (wi_prev i) = 32 \<and> wi_vout i < 2 ^ 32 \<and>
     length (wi_script i) < 2 ^ 32 \<and> length (wi_seq i) = 4"

definition wf_output :: "wire_output \<Rightarrow> bool" where
  "wf_output u \<longleftrightarrow> wo_value u < 2 ^ 64 \<and> length (wo_script u) < 2 ^ 32"

definition wf_stack :: "bytes list \<Rightarrow> bool" where
  "wf_stack w \<longleftrightarrow> length w < 2 ^ 32 \<and> (\<forall>x \<in> set w. length x < 2 ^ 32)"

text \<open>
  A transaction has an input (consensus requires it; with none, the count byte could not be
  told from the segwit marker), and a witness, if it has one, for each of them.
\<close>

definition wf_tx :: "wire_tx \<Rightarrow> bool" where
  "wf_tx t \<longleftrightarrow> length (wt_version t) = 4 \<and> length (wt_locktime t) = 4 \<and>
     wt_ins t \<noteq> [] \<and> length (wt_ins t) < 2 ^ 32 \<and> length (wt_outs t) < 2 ^ 32 \<and>
     list_all wf_input (wt_ins t) \<and> list_all wf_output (wt_outs t) \<and>
     (case wt_witness t of None \<Rightarrow> True
      | Some ws \<Rightarrow> length ws = length (wt_ins t) \<and> list_all wf_stack ws)"

definition enc_input :: "wire_input \<Rightarrow> bytes" where
  "enc_input i = wi_prev i @ le_bytes 4 (wi_vout i) @
     enc_varint (length (wi_script i)) @ wi_script i @ wi_seq i"

definition enc_output :: "wire_output \<Rightarrow> bytes" where
  "enc_output u = le_bytes 8 (wo_value u) @ enc_varint (length (wo_script u)) @ wo_script u"

definition enc_stack :: "bytes list \<Rightarrow> bytes" where
  "enc_stack w = enc_varint (length w) @ concat (map (\<lambda>x. enc_varint (length x) @ x) w)"

definition enc_ins :: "wire_tx \<Rightarrow> bytes" where
  "enc_ins t = enc_varint (length (wt_ins t)) @ concat (map enc_input (wt_ins t))"

definition enc_outs :: "wire_tx \<Rightarrow> bytes" where
  "enc_outs t = enc_varint (length (wt_outs t)) @ concat (map enc_output (wt_outs t))"

definition enc_tx :: "wire_tx \<Rightarrow> bytes" where
  "enc_tx t = wt_version t @ (if wt_witness t = None then [] else [0, 1]) @
     enc_ins t @ enc_outs t @
     (case wt_witness t of None \<Rightarrow> [] | Some ws \<Rightarrow> concat (map enc_stack ws)) @
     wt_locktime t"

text \<open>The serialization the txid hashes: no marker, no flag, no witnesses (BIP 141).\<close>

definition legacy_tx :: "wire_tx \<Rightarrow> bytes" where
  "legacy_tx t = wt_version t @ enc_ins t @ enc_outs t @ wt_locktime t"

text \<open>What the parser is to return.\<close>

definition signed32 :: "nat \<Rightarrow> int" where
  "signed32 n = (if n < 2 ^ 31 then int n else int n - 2 ^ 32)"

definition coinbase_input :: "wire_input \<Rightarrow> bool" where
  "coinbase_input i \<longleftrightarrow> list_all (\<lambda>b. b = 0) (wi_prev i)"

definition view_input :: "wire_input \<Rightarrow> tx_input" where
  "view_input i = \<lparr>prevTxid = bytesToHex (rev (wi_prev i)), voutIdx = signed32 (wi_vout i)\<rparr>"

definition view_output :: "wire_output \<Rightarrow> tx_output" where
  "view_output u = \<lparr>out_value = wo_value u, out_script = wo_script u\<rparr>"

definition wire_txid :: "(bytes \<Rightarrow> bytes) \<Rightarrow> wire_tx \<Rightarrow> string" where
  "wire_txid sha t = bytesToHex (rev (sha (sha (legacy_tx t))))"

definition view_tx :: "(bytes \<Rightarrow> bytes) \<Rightarrow> wire_tx \<Rightarrow> parsed_tx" where
  "view_tx sha t = \<lparr>txid = wire_txid sha t,
     vinCount = length (wt_ins t), voutCount = length (wt_outs t),
     inputs = map view_input (filter (\<lambda>i. \<not> coinbase_input i) (wt_ins t)),
     outputs = map view_output (wt_outs t)\<rparr>"

lemma sint_le32: "n < 2 ^ 32 \<Longrightarrow> sint (le32 (le_bytes 4 n)) = signed32 n"
proof -
  assume n: "n < 2 ^ 32"
  have "unat (le32 (le_bytes 4 n)) = n"
    using n by (simp add: unat_le32_value le_value_le_bytes)
  then have u: "uint (le32 (le_bytes 4 n)) = int n"
    by (simp add: uint_nat)
  have "sint (le32 (le_bytes 4 n)) = signed_take_bit 31 (uint (le32 (le_bytes 4 n)))"
    by (simp add: sint_uint)
  then have s: "sint (le32 (le_bytes 4 n)) = (int n + 2 ^ 31) mod 2 ^ 32 - 2 ^ 31"
    using u by (simp add: signed_take_bit_eq_take_bit_shift take_bit_eq_mod)
  show ?thesis
  proof (cases "n < 2 ^ 31")
    case True
    then have "(int n + 2 ^ 31) mod 2 ^ 32 = int n + 2 ^ 31" by simp
    with s True show ?thesis by (simp add: signed32_def)
  next
    case False
    have "(int n + 2 ^ 31) mod 2 ^ 32 = (int n - 2 ^ 31 + 2 ^ 32) mod 2 ^ 32"
      by (rule arg_cong [where f = "\<lambda>x. x mod 2 ^ 32"]) simp
    also have "\<dots> = (int n - 2 ^ 31) mod 2 ^ 32" by (rule mod_add_self2)
    also have "\<dots> = int n - 2 ^ 31" using False n by simp
    finally show ?thesis using s False by (simp add: signed32_def)
  qed
qed

lemma decodes_input:
  assumes "wf_input i"
  shows "decodes read_input (enc_input i) (if coinbase_input i then None else Some (view_input i))"
  using assms unfolding read_input_def enc_input_def
  by (intro decodes_bind [OF decodes_readBytes] decodes_bind [OF decodes_varint])
    (auto simp: wf_input_def coinbase_input_def view_input_def reverseBytes_def sint_le32
      intro!: decodes_bind_ret [OF decodes_readBytes])

lemma decodes_output:
  assumes "wf_output u"
  shows "decodes read_output (enc_output u) (view_output u)"
  using assms unfolding read_output_def enc_output_def view_output_def
  by (intro decodes_bind [OF decodes_u64] decodes_bind [OF decodes_varint]
      decodes_bind_ret [OF decodes_readBytes]) (auto simp: wf_output_def)

lemma decodes_stack:
  assumes "wf_stack w"
  shows "decodes read_witness (enc_stack w) ()"
proof -
  let ?item = "bindp readVarInt readBytes"
  have "decodes (read_many ?item (length w))
      (concat (map (\<lambda>x. enc_varint (length x) @ x) w)) (map id w)"
    using assms
    by (intro decodes_read_many)
      (auto simp: wf_stack_def intro!: decodes_bind [OF decodes_varint] decodes_readBytes)
  then show ?thesis
    using assms unfolding read_witness_def enc_stack_def
    by (intro decodes_bind [OF decodes_varint])
      (auto simp: wf_stack_def intro: decodes_bind_ret)
qed

lemma map_filter_inputs:
  "List.map_filter id (map (\<lambda>i. if P i then None else Some (f i)) xs) =
     map f (filter (\<lambda>i. \<not> P i) xs)"
  by (induction xs) (auto simp: List.map_filter_def)

lemma bindp_getc: "bindp getc f c = f c c"
  by (simp add: bindp_def getc_def)

lemma enc_varint_first: "0 < n \<Longrightarrow> n < 2 ^ 32 \<Longrightarrow> \<exists>b bs. enc_varint n = b # bs \<and> b \<noteq> 0"
proof -
  assume n: "0 < n" "n < 2 ^ 32"
  have "(of_nat n :: byte) \<noteq> 0" if "n < 0xfd"
  proof -
    have "unat (of_nat n :: byte) = n" using that by (intro unat_of_nat_byte_lt) simp
    then show ?thesis using n(1) by auto
  qed
  then show ?thesis by (auto simp: enc_varint_def)
qed

text \<open>One step of a reader on a fixed buffer.\<close>

lemma bindp_at:
  "decodes p bs x \<Longrightarrow> B = xs @ bs @ ys \<Longrightarrow> n = length xs \<Longrightarrow>
     bindp p f \<lparr>pos = n, buf = B\<rparr> = f x \<lparr>pos = n + length bs, buf = B\<rparr>"
  by (simp add: bindp_decodes)

lemma skip_marker_at:
  assumes B: "B = xs @ marker @ enc_varint k @ ys" and n: "n = length xs"
    and k: "0 < k" "k < 2 ^ 32" and m: "marker = (if segwit then [0, 1] else [])"
  shows "bindp skip_marker f \<lparr>pos = n, buf = B\<rparr> =
    f segwit \<lparr>pos = n + length marker, buf = B\<rparr>"
proof -
  obtain b bs where e: "enc_varint k = b # bs" "b \<noteq> 0"
    using enc_varint_first k by blast
  have "is_segwit \<lparr>pos = n, buf = B\<rparr> = segwit"
    using e by (auto simp: is_segwit_def peek_def byte_at_def B n m nth_append)
  then show ?thesis by (simp add: bindp_def skip_marker_def m)
qed

lemma subarray_at:
  "B = xs @ ys @ zs \<Longrightarrow> i = length xs \<Longrightarrow> j = i + length ys \<Longrightarrow> subarray B i j = ys"
  by (simp add: subarray_def)

text \<open>The reads of \<open>parseTx\<close>, one after the other, on a buffer cut into the pieces they read.\<close>

lemma parseTx_pieces:
  fixes V M ci bi co bo W L pre post B :: bytes
  defines "p2 \<equiv> length pre + 4 + length M"
  defines "p3 \<equiv> p2 + length ci + length bi"
  defines "p4 \<equiv> p3 + length co + length bo"
  assumes B: "B = pre @ V @ M @ ci @ bi @ co @ bo @ W @ L @ post"
    and len: "length V = 4" "length L = 4"
    and marker: "\<And>f :: bool \<Rightarrow> parsed_tx parser. bindp skip_marker f \<lparr>pos = length pre + 4, buf = B\<rparr> =
      f segwit \<lparr>pos = length pre + 4 + length M, buf = B\<rparr>"
    and d_ci: "decodes readVarInt ci k" and d_bi: "decodes (read_many read_input k) bi ins"
    and d_co: "decodes readVarInt co m" and d_bo: "decodes (read_many read_output m) bo outs"
    and d_w: "decodes (if segwit then read_many read_witness k else retp []) W us"
  shows "parseTx sha \<lparr>pos = length pre, buf = B\<rparr> = Inr
     (\<lparr>txid = bytesToHex (reverseBytes (dsha256 sha (V @ (ci @ bi) @ (co @ bo) @ L))),
       vinCount = k, voutCount = m, inputs = List.map_filter id ins, outputs = outs\<rparr>,
      \<lparr>pos = p4 + length W + 4, buf = B\<rparr>)"
proof -
  have d_V: "decodes (readBytes 4) V V" and d_L: "decodes (readBytes 4) L L"
    by (simp_all add: decodes_readBytes len)
  have vin: "subarray B p2 p3 = ci @ bi"
    by (rule subarray_at [of B "pre @ V @ M" _ "co @ bo @ W @ L @ post"])
      (simp_all add: B len p2_def p3_def)
  have vout: "subarray B p3 p4 = co @ bo"
    by (rule subarray_at [of B "pre @ V @ M @ ci @ bi" _ "W @ L @ post"])
      (simp_all add: B len p2_def p3_def p4_def)
  note step = bindp_at [where B = B]
  have "parseTx sha \<lparr>pos = length pre, buf = B\<rparr> = Inr
     (\<lparr>txid = bytesToHex (reverseBytes (dsha256 sha
          (V @ subarray B p2 p3 @ subarray B p3 p4 @ L))),
       vinCount = k, voutCount = m, inputs = List.map_filter id ins, outputs = outs\<rparr>,
      \<lparr>pos = p4 + length W + 4, buf = B\<rparr>)"
    unfolding parseTx_def
    apply (subst step [OF d_V, of "pre" "M @ ci @ bi @ co @ bo @ W @ L @ post"], simp add: B, simp add: len)
    apply (simp only: len marker bindp_getc)
    apply (subst step [OF d_ci, of "pre @ V @ M" "bi @ co @ bo @ W @ L @ post"], simp add: B, simp add: len)
    apply (subst step [OF d_bi, of "pre @ V @ M @ ci" "co @ bo @ W @ L @ post"], simp add: B, simp add: len)
    apply (simp only: bindp_getc)
    apply (subst step [OF d_co, of "pre @ V @ M @ ci @ bi" "bo @ W @ L @ post"], simp add: B, simp add: len)
    apply (subst step [OF d_bo, of "pre @ V @ M @ ci @ bi @ co" "W @ L @ post"], simp add: B, simp add: len)
    apply (simp only: bindp_getc)
    apply (subst step [OF d_w, of "pre @ V @ M @ ci @ bi @ co @ bo" "L @ post"], simp add: B, simp add: len)
    apply (subst step [OF d_L, of "pre @ V @ M @ ci @ bi @ co @ bo @ W" "post"], simp add: B, simp add: len)
    apply (simp add: retp_def len p2_def p3_def p4_def)
    done
  then show ?thesis by (simp add: vin vout)
qed

lemma decodes_witnesses:
  assumes "wf_tx t"
  shows "\<exists>us. decodes
    (if wt_witness t \<noteq> None then read_many read_witness (length (wt_ins t)) else retp [])
    (case wt_witness t of None \<Rightarrow> [] | Some ws \<Rightarrow> concat (map enc_stack ws)) us"
proof (cases "wt_witness t")
  case (Some ws)
  then have ws: "list_all wf_stack ws" "length ws = length (wt_ins t)"
    using assms by (simp_all add: wf_tx_def)
  have "decodes (read_many read_witness (length ws)) (concat (map enc_stack ws)) (map (\<lambda>_. ()) ws)"
    using ws(1) by (intro decodes_read_many decodes_stack) (auto simp: list_all_iff)
  then show ?thesis using Some ws(2) by auto
qed auto

lemma parseTx_at:
  assumes wf: "wf_tx t" and B: "B = pre @ enc_tx t @ post" and n: "n = length pre"
  shows "parseTx sha \<lparr>pos = n, buf = B\<rparr> =
    Inr (view_tx sha t, \<lparr>pos = n + length (enc_tx t), buf = B\<rparr>)"
proof -
  define segwit where "segwit = (wt_witness t \<noteq> None)"
  define M :: bytes where "M = (if segwit then [0, 1] else [])"
  define bi where "bi = concat (map enc_input (wt_ins t))"
  define bo where "bo = concat (map enc_output (wt_outs t))"
  define W where "W = (case wt_witness t of None \<Rightarrow> [] | Some ws \<Rightarrow> concat (map enc_stack ws))"
  let ?V = "wt_version t" and ?L = "wt_locktime t"
  let ?k = "length (wt_ins t)" and ?m = "length (wt_outs t)"
  let ?val = "\<lambda>i. if coinbase_input i then None else Some (view_input i)"
  have lens: "length ?V = 4" "length ?L = 4" "0 < ?k" "?k < 2 ^ 32" "?m < 2 ^ 32"
    using wf by (auto simp: wf_tx_def)
  have enc: "enc_tx t = ?V @ M @ enc_varint ?k @ bi @ enc_varint ?m @ bo @ W @ ?L"
    by (simp add: enc_tx_def M_def segwit_def bi_def bo_def W_def enc_ins_def enc_outs_def)
  have B': "B = pre @ ?V @ M @ enc_varint ?k @ bi @ enc_varint ?m @ bo @ W @ ?L @ post"
    by (simp add: B enc)
  have d_bi: "decodes (read_many read_input ?k) bi (map ?val (wt_ins t))"
    unfolding bi_def using wf
    by (intro decodes_read_many decodes_input) (auto simp: wf_tx_def list_all_iff)
  have d_bo: "decodes (read_many read_output ?m) bo (map view_output (wt_outs t))"
    unfolding bo_def using wf
    by (intro decodes_read_many decodes_output) (auto simp: wf_tx_def list_all_iff)
  obtain us where d_w: "decodes (if segwit then read_many read_witness ?k else retp []) W us"
    using decodes_witnesses [OF wf] unfolding segwit_def W_def by blast
  have marker: "bindp skip_marker f \<lparr>pos = length pre + 4, buf = B\<rparr> =
      f segwit \<lparr>pos = length pre + 4 + length M, buf = B\<rparr>" for f :: "bool \<Rightarrow> parsed_tx parser"
    by (rule skip_marker_at [of B "pre @ ?V" M ?k]) (use lens in \<open>simp_all add: B' M_def\<close>)
  have "legacy_tx t = ?V @ (enc_varint ?k @ bi) @ (enc_varint ?m @ bo) @ ?L"
    by (simp add: legacy_tx_def enc_ins_def enc_outs_def bi_def bo_def)
  then show ?thesis
    using parseTx_pieces [OF B' lens(1,2) marker decodes_varint [OF lens(4)] d_bi
        decodes_varint [OF lens(5)] d_bo d_w, of sha]
    by (simp add: n enc lens view_tx_def wire_txid_def dsha256_def reverseBytes_def
        map_filter_inputs add.assoc)
qed

section \<open>Blocks\<close>

definition enc_block :: "bytes \<Rightarrow> wire_tx list \<Rightarrow> bytes" where
  "enc_block hdr txs = hdr @ enc_varint (length txs) @ concat (map enc_tx txs)"

lemma decodes_tx: "wf_tx t \<Longrightarrow> decodes (parseTx sha) (enc_tx t) (view_tx sha t)"
  unfolding decodes_def by (simp add: parseTx_at)

lemma le32_take: "4 \<le> length b \<Longrightarrow> le32 (take 4 b) = le32 b"
  by (simp add: le32_def)

lemma parseBlockHeader_block:
  assumes "length hdr = 80" "length txs < 2 ^ 32"
  shows "parseBlockHeader sha (enc_block hdr txs) =
    Inr \<lparr>header_hash = bytesToHex (rev (sha (sha hdr))),
         timestamp = le_value (take 4 (drop 68 hdr)),
         txCount = length txs, txStart = 80 + length (enc_varint (length txs))\<rparr>"
proof -
  have ts: "unat (le32 (drop 68 hdr)) = le_value (take 4 (drop 68 hdr))"
    using assms(1) by (subst le32_take [symmetric]) (simp_all add: unat_le32_value)
  have "readVarInt \<lparr>pos = 80, buf = enc_block hdr txs\<rparr> =
    Inr (length txs, \<lparr>pos = 80 + length (enc_varint (length txs)), buf = enc_block hdr txs\<rparr>)"
    using decodesD [OF decodes_varint [OF assms(2)], of hdr "concat (map enc_tx txs)"]
    by (simp add: enc_block_def assms(1))
  then show ?thesis
    using assms(1) ts
    by (simp add: parseBlockHeader_def enc_block_def Let_def dsha256_def reverseBytes_def)
qed

lemma parse_block_txs_block:
  assumes "length hdr = 80" "list_all wf_tx txs"
    and "txCount h = length txs" "txStart h = 80 + length (enc_varint (length txs))"
  shows "parse_block_txs sha (enc_block hdr txs) h = Inr (map (view_tx sha) txs)"
proof -
  have "decodes (read_many (parseTx sha) (length txs)) (concat (map enc_tx txs))
      (map (view_tx sha) txs)"
    using assms(2) by (intro decodes_read_many decodes_tx) (simp add: list_all_iff)
  from decodesD [OF this, of "hdr @ enc_varint (length txs)" "[]"] show ?thesis
    by (simp add: parse_block_txs_def assms enc_block_def)
qed

section \<open>Hexadecimal text\<close>

lemma hex_value_digit: "n < 16 \<Longrightarrow> hex_value (hex_digit n) = Some n"
proof -
  have "list_all (\<lambda>n. hex_value (hex_digit n) = Some n) [0..<16]" by code_simp
  then show "n < 16 \<Longrightarrow> ?thesis" by (simp add: list_all_iff)
qed

lemma parse_pair_byte: "hex_pairs (byte_hex b @ s) = b # hex_pairs s"
proof -
  have "unat b div 16 < 16" using unat_byte_lt [of b] by simp
  then show ?thesis
    by (simp add: byte_hex_def parse_pair_def hex_value_digit del: hex_value.simps)
qed

lemma hex_pairs_bytesToHex: "hex_pairs (bytesToHex bs) = bs"
  by (induction bs) (simp_all add: bytesToHex_def parse_pair_byte)

lemma length_bytesToHex [simp]: "length (bytesToHex bs) = 2 * length bs"
  by (induction bs) (simp_all add: bytesToHex_def byte_hex_def)

lemma bytesToHex_inject: "bytesToHex a = bytesToHex b \<longleftrightarrow> a = b"
  by (metis hex_pairs_bytesToHex)

lemma lower_hex_digit: "n < 16 \<Longrightarrow> lower_char (hex_digit n) = hex_digit n"
proof -
  have "list_all (\<lambda>n. lower_char (hex_digit n) = hex_digit n) [0..<16]" by code_simp
  then show "n < 16 \<Longrightarrow> ?thesis" by (simp add: list_all_iff)
qed

lemma to_lower_bytesToHex: "to_lower (bytesToHex bs) = bytesToHex bs"
proof (induction bs)
  case (Cons b bs)
  have "unat b div 16 < 16" using unat_byte_lt [of b] by simp
  then show ?case using Cons
    by (simp add: to_lower_def bytesToHex_def byte_hex_def lower_hex_digit)
qed (simp add: to_lower_def bytesToHex_def)

section \<open>Reads stay inside the buffer\<close>

text \<open>
  \<open>advances k p\<close>: a successful run of \<open>p\<close> leaves the buffer alone, consumes at least \<open>k\<close> bytes
  and ends inside the buffer if it started there.
\<close>

definition advances :: "nat \<Rightarrow> 'a parser \<Rightarrow> bool" where
  "advances k p \<longleftrightarrow> (\<forall>c x c'. p c = Inr (x, c') \<longrightarrow> pos c \<le> length (buf c) \<longrightarrow>
     buf c' = buf c \<and> pos c + k \<le> pos c' \<and> pos c' \<le> length (buf c))"

lemma advancesD:
  "advances k p \<Longrightarrow> p c = Inr (x, c') \<Longrightarrow> pos c \<le> length (buf c) \<Longrightarrow>
     buf c' = buf c \<and> pos c + k \<le> pos c' \<and> pos c' \<le> length (buf c)"
  by (simp add: advances_def)

lemma advances_weaken: "advances k p \<Longrightarrow> j \<le> k \<Longrightarrow> advances j p"
  unfolding advances_def by (meson add_left_mono order_trans)

lemma advances_bind:
  assumes "advances j p" and "\<And>x. advances k (f x)"
  shows "advances (j + k) (bindp p f)"
proof -
  have "buf c' = buf c \<and> pos c + (j + k) \<le> pos c' \<and> pos c' \<le> length (buf c)"
    if run: "bindp p f c = Inr (x, c')" and ok: "pos c \<le> length (buf c)" for c x c'
  proof -
    obtain y d where p: "p c = Inr (y, d)" and f: "f y d = Inr (x, c')"
      using run by (auto simp: bindp_def split: sum.splits)
    show ?thesis
      using advancesD [OF assms(1) p ok] advancesD [OF assms(2) f] by auto
  qed
  then show ?thesis by (simp add: advances_def)
qed

lemma advances_bind0: "advances k p \<Longrightarrow> (\<And>x. advances 0 (f x)) \<Longrightarrow> advances k (bindp p f)"
  using advances_bind [of k p 0 f] by simp

lemma advances_bind_drop: "advances 0 p \<Longrightarrow> (\<And>x. advances k (f x)) \<Longrightarrow> advances k (bindp p f)"
  using advances_bind [of 0 p k f] by simp

lemma advances_ret: "advances 0 (retp x)"
  by (simp add: advances_def retp_def)

lemma advances_getc: "advances 0 getc"
  by (simp add: advances_def getc_def)

lemma advances_readBytes: "advances n (readBytes n)"
  by (auto simp: advances_def readBytes_def split: if_splits)

lemma advances_varint: "advances 1 readVarInt"
  unfolding readVarInt_def Let_def readU64LE_def
  by (intro advances_bind0 advances_readBytes)
    (auto intro!: advances_ret advances_bind_drop advances_weaken [OF advances_readBytes]
      simp: advances_def bindp_def retp_def readBytes_def split: if_splits sum.splits)

lemma advances_many: "advances k p \<Longrightarrow> advances (n * k) (read_many p n)"
proof (induction n)
  case (Suc n)
  show ?case
    unfolding read_many.simps mult_Suc
    by (intro advances_bind advances_bind0 advances_ret Suc.IH Suc.prems)
qed (simp add: advances_ret)

lemma advances_many0: "advances 0 p \<Longrightarrow> advances 0 (read_many p n)"
  using advances_many [of 0 p n] by simp

lemma advances_skip_marker: "advances 0 skip_marker"
  by (auto simp: advances_def skip_marker_def is_segwit_def peek_def byte_at_def split: if_splits)

lemmas advances_any =
  advances_weaken [OF advances_readBytes le0] advances_weaken [OF advances_varint le0]
  advances_ret advances_getc advances_skip_marker

lemma advances_input: "advances 0 read_input"
  unfolding read_input_def by (intro advances_bind_drop advances_any)

lemma advances_output: "advances 0 read_output"
  unfolding read_output_def readU64LE_def by (intro advances_bind_drop advances_any)

lemma advances_witness: "advances 0 read_witness"
  unfolding read_witness_def by (intro advances_bind_drop advances_many0 advances_any)

lemma advances_parseTx: "advances 10 (parseTx sha)"
proof -
  have "advances (4 + (1 + (1 + 4))) (parseTx sha)"
    unfolding parseTx_def
    apply (rule advances_bind [OF advances_readBytes])
    apply (rule advances_bind_drop [OF advances_skip_marker])
    apply (rule advances_bind_drop [OF advances_getc])
    apply (rule advances_bind [OF advances_varint])
    apply (rule advances_bind_drop [OF advances_many0 [OF advances_input]])
    apply (rule advances_bind_drop [OF advances_getc])
    apply (rule advances_bind [OF advances_varint])
    apply (rule advances_bind_drop [OF advances_many0 [OF advances_output]])
    apply (rule advances_bind_drop [OF advances_getc])
    apply (rule advances_bind_drop)
     apply (simp add: advances_many0 advances_witness advances_ret)
    apply (rule advances_bind0 [OF advances_readBytes advances_ret])
    done
  then show ?thesis by simp
qed

lemma length_read_many: "read_many p n c = Inr (xs, c') \<Longrightarrow> length xs = n"
  by (induction n arbitrary: c xs) (auto simp: bindp_def retp_def split: sum.splits)

lemma parse_block_txs_run:
  "parse_block_txs sha raw h = Inr txs \<Longrightarrow>
     \<exists>d. read_many (parseTx sha) (txCount h) \<lparr>pos = txStart h, buf = raw\<rparr> = Inr (txs, d)"
  by (cases "read_many (parseTx sha) (txCount h) \<lparr>pos = txStart h, buf = raw\<rparr>")
    (auto simp: parse_block_txs_def)

lemma parse_block_txs_count: "parse_block_txs sha raw h = Inr txs \<Longrightarrow> length txs = txCount h"
  using parse_block_txs_run length_read_many by blast

section \<open>Properties\<close>

text \<open>
  C17: reading inverts writing for a whole block: on the serialization of a header and of any
  list of well-formed transactions, segwit or not, \<open>parseBlockHeader\<close> returns the header hash,
  the timestamp and the transaction count, and the \<open>parseTx\<close> loop returns every transaction
  with its inputs, outputs and txid, the hash of the serialization without witnesses.
\<close>

theorem block_roundtrip:
  assumes "length hdr = 80" and "length txs < 2 ^ 32" and "list_all wf_tx txs"
  shows "\<exists>h. parseBlockHeader sha (enc_block hdr txs) = Inr h \<and>
    header_hash h = bytesToHex (rev (sha (sha hdr))) \<and>
    timestamp h = le_value (take 4 (drop 68 hdr)) \<and>
    parse_block_txs sha (enc_block hdr txs) h = Inr (map (view_tx sha) txs)"
  using parseBlockHeader_block [OF assms(1,2)] parse_block_txs_block [OF assms(1,3)] by simp

theorem block_roundtrip_witness:
  "\<exists>h. parseBlockHeader rev (enc_block (replicate 68 0 @ [7, 1, 0, 0] @ replicate 8 0)
      [\<lparr>wt_version = [2, 0, 0, 0],
        wt_ins = [\<lparr>wi_prev = replicate 32 5, wi_vout = 1, wi_script = [], wi_seq = [0, 0, 0, 0]\<rparr>],
        wt_outs = [\<lparr>wo_value = 50000, wo_script = [0x51]\<rparr>],
        wt_witness = Some [[[1, 2], [3]]], wt_locktime = [0, 0, 0, 0]\<rparr>]) = Inr h \<and>
    timestamp h = 263 \<and> txCount h = 1"
proof -
  let ?t = "\<lparr>wt_version = [2, 0, 0, 0],
        wt_ins = [\<lparr>wi_prev = replicate 32 5, wi_vout = 1, wi_script = [], wi_seq = [0, 0, 0, 0]\<rparr>],
        wt_outs = [\<lparr>wo_value = 50000, wo_script = [0x51]\<rparr>],
        wt_witness = Some [[[1, 2], [3]]], wt_locktime = [0, 0, 0, 0]\<rparr>"
  have "list_all wf_tx [?t]"
    by (simp add: wf_tx_def wf_input_def wf_output_def wf_stack_def)
  from block_roundtrip [of "replicate 68 0 @ [7, 1, 0, 0] @ replicate 8 0" "[?t]" rev, OF _ _ this]
  obtain h where h: "parseBlockHeader rev (enc_block (replicate 68 0 @ [7, 1, 0, 0] @ replicate 8 0) [?t]) = Inr h"
    "timestamp h = le_value (take 4 (drop 68 (replicate 68 0 @ [7, 1, 0, 0] @ replicate 8 0)))"
    "parse_block_txs rev (enc_block (replicate 68 0 @ [7, 1, 0, 0] @ replicate 8 0) [?t]) h = Inr (map (view_tx rev) [?t])"
    by auto
  moreover have "le_value (take 4 (drop 68 (replicate 68 0 @ [7, 1, 0, 0] @ replicate 8 0))) = 263"
    by simp
  moreover have "txCount h = 1"
    using parse_block_txs_count [OF h(3)] by simp
  ultimately show ?thesis by auto
qed

text \<open>
  A block that a server inflates cannot make the reader run away: whatever the bytes and
  whatever transaction count they claim, a block that parses has read exactly that many
  transactions, of at least ten bytes each, from inside the response body.
\<close>

theorem parse_block_bounded:
  assumes "parseBlockHeader sha raw = Inr h" and "parse_block_txs sha raw h = Inr txs"
  shows "length txs = txCount h \<and> 81 \<le> txStart h \<and>
    txStart h + 10 * length txs \<le> length raw"
proof -
  obtain n c where c: "readVarInt \<lparr>pos = 80, buf = raw\<rparr> = Inr (n, c)" "80 \<le> length raw"
    "txCount h = n" "txStart h = pos c"
    using assms(1) by (auto simp: parseBlockHeader_def Let_def split: if_splits sum.splits)
  have start: "81 \<le> txStart h" "txStart h \<le> length raw"
    using advancesD [OF advances_varint c(1)] c(2,4) by auto
  obtain d where d: "read_many (parseTx sha) (txCount h) \<lparr>pos = txStart h, buf = raw\<rparr> = Inr (txs, d)"
    using parse_block_txs_run [OF assms(2)] by blast
  have "pos d \<le> length raw" "txStart h + txCount h * 10 \<le> pos d"
    using advancesD [OF advances_many [OF advances_parseTx] d] start by auto
  then show ?thesis using start length_read_many [OF d] by simp
qed

theorem parse_block_bounded_witness:
  "parseBlockHeader rev (replicate 81 0) = Inr \<lparr>header_hash = concat (replicate 80 ''00''),
      timestamp = 0, txCount = 0, txStart = 81\<rparr> \<and>
   81 + 10 * length ([] :: parsed_tx list) \<le> length (replicate 81 (0 :: byte))"
proof -
  let ?h = "\<lparr>header_hash = concat (replicate 80 ''00''), timestamp = 0, txCount = 0, txStart = 81\<rparr>"
  have h: "parseBlockHeader rev (replicate 81 0) = Inr ?h" by code_simp
  moreover have "parse_block_txs rev (replicate 81 0) ?h = Inr []"
    by (simp add: parse_block_txs_def retp_def)
  ultimately show ?thesis using parse_block_bounded [OF h] by fastforce
qed

text \<open>
  The check on a fetched block accepts exactly the responses whose first eighty bytes hash
  to the requested block hash, and rejects every other one with the error that names both.
\<close>

theorem block_check_is_header_hash:
  assumes "parseBlockHeader sha raw = Inr h"
  shows "assertBlockContentMatchesHash h (bytesToHex (rev d)) height =
    (if sha (sha (take 80 raw)) = d then Inr ()
     else Inl (BlockContentMismatch height (bytesToHex (rev d))
       (bytesToHex (rev (sha (sha (take 80 raw)))))))"
proof -
  have "header_hash h = bytesToHex (rev (sha (sha (take 80 raw))))"
    using assms
    by (auto simp: parseBlockHeader_def Let_def dsha256_def reverseBytes_def
        split: if_splits sum.splits)
  then show ?thesis
    by (auto simp: assertBlockContentMatchesHash_def to_lower_bytesToHex bytesToHex_inject)
qed

theorem block_check_is_header_hash_witness:
  "assertBlockContentMatchesHash \<lparr>header_hash = concat (replicate 80 ''00''), timestamp = 0,
      txCount = 0, txStart = 81\<rparr> (bytesToHex (rev (replicate 80 0))) 7 = Inr ()"
proof -
  let ?h = "\<lparr>header_hash = concat (replicate 80 ''00''), timestamp = 0, txCount = 0, txStart = 81\<rparr>"
  have "parseBlockHeader rev (replicate 81 0) = Inr ?h" by code_simp
  from block_check_is_header_hash [OF this, of "replicate 80 0" 7] show ?thesis by simp
qed

text \<open>
  That check binds the header and nothing after it: the true eighty bytes followed by any
  well-formed list of transactions pass it and are parsed to that list, because nothing
  compares the transactions with the Merkle root in the header.
\<close>

theorem block_check_ignores_transactions:
  assumes "length hdr = 80" and "length forged < 2 ^ 32" and "list_all wf_tx forged"
  shows "\<exists>h. parseBlockHeader sha (enc_block hdr forged) = Inr h \<and>
    assertBlockContentMatchesHash h (bytesToHex (rev (sha (sha hdr)))) height = Inr () \<and>
    parse_block_txs sha (enc_block hdr forged) h = Inr (map (view_tx sha) forged)"
  using parseBlockHeader_block [OF assms(1,2)] parse_block_txs_block [OF assms(1,3)]
  by (simp add: assertBlockContentMatchesHash_def)

theorem block_check_ignores_transactions_witness:
  "\<exists>h. parseBlockHeader rev (enc_block (replicate 80 0)
      [\<lparr>wt_version = [2, 0, 0, 0],
        wt_ins = [\<lparr>wi_prev = replicate 32 5, wi_vout = 1, wi_script = [], wi_seq = [0, 0, 0, 0]\<rparr>],
        wt_outs = [\<lparr>wo_value = 2100000000000000, wo_script = [0x51]\<rparr>],
        wt_witness = None, wt_locktime = [0, 0, 0, 0]\<rparr>]) = Inr h \<and>
    assertBlockContentMatchesHash h (bytesToHex (replicate 80 0)) 7 = Inr ()"
proof -
  let ?t = "\<lparr>wt_version = [2, 0, 0, 0],
        wt_ins = [\<lparr>wi_prev = replicate 32 5, wi_vout = 1, wi_script = [], wi_seq = [0, 0, 0, 0]\<rparr>],
        wt_outs = [\<lparr>wo_value = 2100000000000000, wo_script = [0x51]\<rparr>],
        wt_witness = None, wt_locktime = [0, 0, 0, 0]\<rparr>"
  have "list_all wf_tx [?t]" by (simp add: wf_tx_def wf_input_def wf_output_def)
  from block_check_ignores_transactions [of "replicate 80 0" "[?t]" rev 7, OF _ _ this]
  show ?thesis by auto
qed

text \<open>\<open>hexToBytes\<close> inverts \<open>bytesToHex\<close>, which prints two characters per byte.\<close>

theorem hex_roundtrip: "hexToBytes (bytesToHex bs) = Inr bs \<and> length (bytesToHex bs) = 2 * length bs"
  by (simp add: hexToBytes_def hex_pairs_bytesToHex)

end
