(* ===== verification/Database.thy ===== *)
theory Database
  imports Prelude "HOL-Library.State_Monad"
begin

text \<open>
  The PostgreSQL tables of the stealth subsystem as lists of records, and the world an edge
  function runs in.  Each request to the database is atomic; between two requests of one
  invocation other invocations may do anything to the tables (\<open>meddle\<close>), and a request can
  fail before it reaches the database or after it took effect (\<open>fate\<close>).  Every atomic step an
  invocation takes is kept in a ghost log, so that a property can speak of all its writes under
  every interleaving and every failure.
\<close>

section \<open>Tables\<close>

record platform_row =
  pl_id :: string
  pl_slug :: string
  pl_key_hash :: "string option"

record session_row =
  se_id :: string
  se_platform :: string
  se_app_user :: string
  se_used :: bool
  se_expires :: nat

record subaccount_row =
  su_id :: string
  su_platform :: string
  su_external :: string

record conn_row =
  c_id :: string
  c_platform :: string
  c_owner :: string
  c_slug :: string
  c_kind :: string
  c_envelope :: json
  c_blind :: "string option"
  c_birthday :: "string option"
  c_status :: string
  c_cursor :: "int option"
  c_last_sync :: "nat option"
  c_attempt :: "nat option"
  c_generation :: string
  c_created :: nat
  c_updated :: nat

record tx_row =
  t_id :: string
  t_conn :: string
  t_sealed :: json
  t_date :: string
  t_height :: int
  t_blind :: string
  t_hash :: "string option"
  t_orphaned :: "nat option"
  t_created :: nat

record utxo_row =
  u_conn :: string
  u_sealed :: json
  u_scanned :: int

record db =
  platforms :: "platform_row list"
  sessions :: "session_row list"
  subaccounts :: "subaccount_row list"
  conns :: "conn_row list"
  ranges :: "(string \<times> int \<times> int) list"
  txs :: "tx_row list"
  utxos :: "utxo_row list"

text \<open>The error object of the client library; both fields may be missing.\<close>

record rpc_error =
  err_code :: "string option"
  err_message :: "string option"

definition pg_error :: "string \<Rightarrow> string \<Rightarrow> rpc_error" where
  "pg_error code msg = \<lparr>err_code = Some code, err_message = Some msg\<rparr>"

section \<open>The world of one invocation\<close>

datatype fate = Answered | RequestLost rpc_error | ReplyLost rpc_error

record event =
  meddle :: "db \<Rightarrow> db"
  fate :: fate
  clock :: nat
  fresh_ids :: "nat \<Rightarrow> string"

record world =
  store :: db
  env :: "nat \<Rightarrow> event"
  tick :: nat
  log :: "(db \<times> db) list"

type_synonym 'a io = "(world, 'a) state"

text \<open>
  One request: the others' steps first, then the operation, which sees the time and a fresh
  identifier; a lost request has no effect, a lost reply has it, and both look like an error.
\<close>

definition request :: "(event \<Rightarrow> db \<Rightarrow> (rpc_error + 'a) \<times> db) \<Rightarrow> (rpc_error + 'a) io" where
  "request f = State (\<lambda>w.
     let e = env w (tick w); d = meddle e (store w); w' = w\<lparr>tick := Suc (tick w)\<rparr> in
     case fate e of
       RequestLost err \<Rightarrow> (Inl err, w'\<lparr>store := d, log := log w @ [(d, d)]\<rparr>)
     | ReplyLost err \<Rightarrow> (Inl err, w'\<lparr>store := snd (f e d), log := log w @ [(d, snd (f e d))]\<rparr>)
     | Answered \<Rightarrow> (fst (f e d), w'\<lparr>store := snd (f e d), log := log w @ [(d, snd (f e d))]\<rparr>))"

text \<open>A request that only reads.\<close>

definition query :: "(event \<Rightarrow> db \<Rightarrow> rpc_error + 'a) \<Rightarrow> (rpc_error + 'a) io" where
  "query f = request (\<lambda>e d. (f e d, d))"

text \<open>\<open>maybeSingle()\<close>: several rows are an error.\<close>

fun maybe_single :: "'a list \<Rightarrow> rpc_error + 'a option" where
  "maybe_single [] = Inr None"
| "maybe_single [x] = Inr (Some x)"
| "maybe_single _ = Inl (pg_error ''PGRST116'' ''more than one row'')"

lemma maybe_single_Some: "maybe_single xs = Inr (Some x) \<longleftrightarrow> xs = [x]"
  by (cases xs rule: maybe_single.cases) auto

lemma maybe_single_None: "maybe_single xs = Inr None \<longleftrightarrow> xs = []"
  by (cases xs rule: maybe_single.cases) auto

lemma maybe_single_filter:
  "maybe_single (filter P xs) = Inr (Some x) \<Longrightarrow> x \<in> set xs \<and> P x"
  unfolding maybe_single_Some by (auto simp: filter_eq_Cons_iff)

text \<open>A value that goes into an \<open>INTEGER\<close> column or argument.\<close>

definition is_int4 :: "int \<Rightarrow> bool" where
  "is_int4 n \<longleftrightarrow> - (2 ^ 31) \<le> n \<and> n < 2 ^ 31"

definition int4_error :: rpc_error where
  "int4_error = pg_error ''22003'' ''value out of range for type integer''"

definition uuid_error :: rpc_error where
  "uuid_error = pg_error ''22P02'' ''invalid input syntax for type uuid''"

text \<open>The rows of \<open>stealth_connections\<close> that \<open>.eq('platform_id', p).eq('id', c)\<close> selects.\<close>

definition is_conn :: "string \<Rightarrow> string \<Rightarrow> conn_row \<Rightarrow> bool" where
  "is_conn p c r \<longleftrightarrow> c_platform r = pg_uuid p \<and> c_id r = pg_uuid c"

definition conn_rows :: "string \<Rightarrow> string \<Rightarrow> db \<Rightarrow> conn_row list" where
  "conn_rows p c d = filter (is_conn p c) (conns d)"

definition update_conns :: "(conn_row \<Rightarrow> bool) \<Rightarrow> (conn_row \<Rightarrow> conn_row) \<Rightarrow> db \<Rightarrow> db" where
  "update_conns P f d = d\<lparr>conns := map (\<lambda>r. if P r then f r else r) (conns d)\<rparr>"

lemma conn_rows_update:
  "(\<And>r. is_conn p c (f r) = is_conn p c r) \<Longrightarrow>
     conn_rows p c (update_conns P f d) = map (\<lambda>r. if P r then f r else r) (conn_rows p c d)"
  unfolding conn_rows_def update_conns_def
  by (induction "conns d" arbitrary: d) (auto simp: filter_map o_def if_distrib [of "is_conn p c"] cong: filter_cong)

lemma update_conns_none: "filter P (conns d) = [] \<Longrightarrow> update_conns P f d = d"
  by (simp add: update_conns_def filter_empty_conv map_idI)

section \<open>Replies\<close>

text \<open>The HTTP response: an error body with its status, the answer (200), or \<open>ok\<close> to \<open>OPTIONS\<close>.\<close>

datatype 'a reply = Preflight | Refused nat string | Answer 'a

section \<open>Running\<close>

lemma run_bind [simp]: "run_state (State_Monad.bind m f) w =
    run_state (f (fst (run_state m w))) (snd (run_state m w))"
  by (cases "run_state m w") (simp add: State_Monad.bind_def)

declare State_Monad.run_state_bind [simp del]

section \<open>Reasoning about all writes of an invocation\<close>

abbreviation result_of :: "'a io \<Rightarrow> world \<Rightarrow> 'a" where
  "result_of m w \<equiv> fst (run_state m w)"

abbreviation world_after :: "'a io \<Rightarrow> world \<Rightarrow> world" where
  "world_after m w \<equiv> snd (run_state m w)"

text \<open>The atomic steps that \<open>m\<close> takes when started in \<open>w\<close>.\<close>

definition steps :: "'a io \<Rightarrow> world \<Rightarrow> (db \<times> db) list" where
  "steps m w = drop (length (log w)) (log (world_after m w))"

locale write_guarantee =
  fixes R :: "db \<Rightarrow> db \<Rightarrow> bool"
  assumes refl: "R d d"
begin

definition keeps :: "'a io \<Rightarrow> bool" where
  "keeps m \<longleftrightarrow> (\<forall>w. \<exists>new. log (world_after m w) = log w @ new \<and> (\<forall>(d, d') \<in> set new. R d d'))"

lemma keeps_steps: "keeps m \<Longrightarrow> (d, d') \<in> set (steps m w) \<Longrightarrow> R d d'"
proof -
  assume "keeps m" "(d, d') \<in> set (steps m w)"
  moreover from this obtain new where "log (world_after m w) = log w @ new"
      "\<forall>(d, d') \<in> set new. R d d'"
    unfolding keeps_def by blast
  ultimately show "R d d'" by (auto simp: steps_def)
qed

lemma keeps_return [intro!]: "keeps (State_Monad.return x)"
  by (simp add: keeps_def State_Monad.return_def)

lemma keeps_bind_result:
  assumes m: "keeps m" and f: "\<And>w. keeps (f (result_of m w))"
  shows "keeps (State_Monad.bind m f)"
proof -
  have "\<exists>new. log (world_after (State_Monad.bind m f) w) = log w @ new \<and>
      (\<forall>(d, d') \<in> set new. R d d')" for w
  proof -
    let ?w = "world_after m w" and ?x = "result_of m w"
    obtain n1 where 1: "log ?w = log w @ n1" "\<forall>(d, d') \<in> set n1. R d d'"
      using m unfolding keeps_def by blast
    obtain n2 where 2: "log (world_after (f ?x) ?w) = log ?w @ n2" "\<forall>(d, d') \<in> set n2. R d d'"
      using f unfolding keeps_def by blast
    show ?thesis by (rule exI [of _ "n1 @ n2"]) (use 1 2 in auto)
  qed
  then show ?thesis by (simp add: keeps_def)
qed

lemma keeps_bind [intro!]: "keeps m \<Longrightarrow> (\<And>x. keeps (f x)) \<Longrightarrow> keeps (State_Monad.bind m f)"
  by (rule keeps_bind_result)

lemma keeps_request: "(\<And>e d. R d (snd (f e d))) \<Longrightarrow> keeps (request f)"
  by (auto simp: keeps_def request_def Let_def refl split: fate.splits)

lemma keeps_query [intro!]: "keeps (query f)"
  unfolding query_def by (rule keeps_request) (simp add: refl)

lemma keeps_mono: "write_guarantee.keeps R' m \<Longrightarrow> (\<And>d d'. R' d d' \<Longrightarrow> R d d') \<Longrightarrow> keeps m"
  if "write_guarantee R'" for R'
  using that unfolding keeps_def write_guarantee.keeps_def [OF that] by blast

lemma keeps_if [intro!]: "(b \<Longrightarrow> keeps m) \<Longrightarrow> (\<not> b \<Longrightarrow> keeps m') \<Longrightarrow> keeps (if b then m else m')"
  by simp

lemma keeps_sum [intro!]:
  "(\<And>e. x = Inl e \<Longrightarrow> keeps (f e)) \<Longrightarrow> (\<And>y. x = Inr y \<Longrightarrow> keeps (g y)) \<Longrightarrow>
     keeps (case x of Inl e \<Rightarrow> f e | Inr y \<Rightarrow> g y)"
  by (cases x) auto

lemma keeps_option [intro!]:
  "(x = None \<Longrightarrow> keeps m) \<Longrightarrow> (\<And>y. x = Some y \<Longrightarrow> keeps (g y)) \<Longrightarrow>
     keeps (case x of None \<Rightarrow> m | Some y \<Rightarrow> g y)"
  by (cases x) auto

end

text \<open>Reading changes nothing.\<close>

interpretation no_write: write_guarantee "(=)"
  by unfold_locales (rule refl)

text \<open>The log only grows, so the steps of a sequence are those of its parts.\<close>

interpretation any_write: write_guarantee "\<lambda>_ _. True"
  by unfold_locales simp

abbreviation logs :: "'a io \<Rightarrow> bool" where
  "logs m \<equiv> any_write.keeps m"

lemma logs_request [intro!]: "logs (request f)"
  by (rule any_write.keeps_request) simp

lemma logs_steps: "logs m \<Longrightarrow> log (world_after m w) = log w @ steps m w"
  unfolding any_write.keeps_def steps_def by (metis append_eq_conv_conj)

lemma log_kept: "logs m \<Longrightarrow> x \<in> set (log w) \<Longrightarrow> x \<in> set (log (world_after m w))"
  by (simp add: logs_steps)

lemma steps_bind:
  assumes "logs m" and "\<And>x. logs (f x)"
  shows "steps (State_Monad.bind m f) w = steps m w @ steps (f (result_of m w)) (world_after m w)"
proof -
  let ?x = "result_of m w" and ?w = "world_after m w"
  have bind: "logs (State_Monad.bind m f)" by (rule any_write.keeps_bind) (rule assms)+
  have "log w @ steps (State_Monad.bind m f) w = log (world_after (f ?x) ?w)"
    using logs_steps [OF bind, where w = w] by simp
  also have "\<dots> = log w @ steps m w @ steps (f ?x) ?w"
    using logs_steps [OF assms(1), where w = w] logs_steps [OF assms(2), where w = ?w] by simp
  finally show ?thesis by simp
qed

lemma steps_return [simp]: "steps (State_Monad.return x) w = []"
  by (simp add: steps_def)

lemma request_steps:
  "(d, d') \<in> set (steps (request f) w) \<Longrightarrow> d' = d \<or> (\<exists>e. d' = snd (f e d))"
  by (auto simp: steps_def request_def Let_def split: fate.splits)

section \<open>What one request sees\<close>

text \<open>The tables when the next request of the invocation is served.\<close>

abbreviation seen :: "world \<Rightarrow> db" where
  "seen w \<equiv> meddle (env w (tick w)) (store w)"

lemma request_answer:
  "result_of (request f) w = Inr x \<Longrightarrow> fst (f (env w (tick w)) (seen w)) = Inr x"
  by (auto simp: request_def Let_def split: fate.splits)

lemma query_answer: "result_of (query f) w = Inr x \<Longrightarrow> f (env w (tick w)) (seen w) = Inr x"
  unfolding query_def by (drule request_answer) simp

section \<open>Undisturbed runs\<close>

text \<open>No other invocation and no failure.\<close>

definition calm :: "world \<Rightarrow> bool" where
  "calm w \<longleftrightarrow> (\<forall>n. meddle (env w n) = id \<and> fate (env w n) = Answered)"

lemma run_request_calm:
  "calm w \<Longrightarrow> run_state (request f) w =
     (fst (f (env w (tick w)) (store w)),
      w\<lparr>tick := Suc (tick w), store := snd (f (env w (tick w)) (store w)),
        log := log w @ [(store w, snd (f (env w (tick w)) (store w)))]\<rparr>)"
  by (simp add: calm_def request_def Let_def)

lemma run_query_calm:
  "calm w \<Longrightarrow> run_state (query f) w =
     (f (env w (tick w)) (store w),
      w\<lparr>tick := Suc (tick w), log := log w @ [(store w, store w)]\<rparr>)"
  by (simp add: query_def run_request_calm)

lemma calm_update [simp]:
  "calm (w\<lparr>tick := n\<rparr>) = calm w" "calm (w\<lparr>store := d\<rparr>) = calm w" "calm (w\<lparr>log := l\<rparr>) = calm w"
  by (simp_all add: calm_def)

lemmas run_simps = run_request_calm run_query_calm

section \<open>An example\<close>

text \<open>
  Tables for the witnesses: one platform with one connection of the user \<open>alice\<close>, and worlds in
  which nothing disturbs an invocation.
\<close>

definition calm_world :: "db \<Rightarrow> nat \<Rightarrow> string \<Rightarrow> world" where
  "calm_world d t i = \<lparr>store = d,
     env = (\<lambda>n. \<lparr>meddle = id, fate = Answered, clock = t, fresh_ids = (\<lambda>_. i)\<rparr>), tick = 0, log = []\<rparr>"

definition P1 :: string where "P1 = ''11111111-1111-4111-8111-111111111111''"
definition C1 :: string where "C1 = ''22222222-2222-4222-8222-222222222222''"
definition G1 :: string where "G1 = ''33333333-3333-4333-8333-333333333333''"
definition G2 :: string where "G2 = ''44444444-4444-4444-8444-444444444444''"

definition conn1 :: conn_row where
  "conn1 = \<lparr>c_id = C1, c_platform = P1, c_owner = ''alice'', c_slug = ''app'',
     c_kind = ''xpub_stealth'', c_envelope = JNull, c_blind = Some ''b'', c_birthday = None,
     c_status = ''active'', c_cursor = Some 100, c_last_sync = None, c_attempt = None,
     c_generation = G1, c_created = 0, c_updated = 0\<rparr>"

definition db1 :: db where
  "db1 = \<lparr>platforms = [\<lparr>pl_id = P1, pl_slug = ''acme'', pl_key_hash = Some ''key''\<rparr>],
     sessions = [], subaccounts = [], conns = [conn1], ranges = [(C1, 50, 100)], txs = [],
     utxos = []\<rparr>"

lemma sample_uuids [simp]:
  "is_uuid P1" "is_uuid C1" "is_uuid G1" "is_uuid G2"
  "pg_uuid P1 = P1" "pg_uuid C1 = C1" "pg_uuid G1 = G1" "pg_uuid G2 = G2"
  "G1 \<noteq> G2" "G2 \<noteq> G1"
  by code_simp+

lemma conn1_simps [simp]:
  "c_id conn1 = C1" "c_platform conn1 = P1" "c_owner conn1 = ''alice''" "c_cursor conn1 = Some 100"
  "c_generation conn1 = G1" "c_slug conn1 = ''app''" "c_blind conn1 = Some ''b''"
  by (simp_all add: conn1_def)

lemma db1_simps [simp]:
  "conns db1 = [conn1]" "ranges db1 = [(C1, 50, 100)]" "txs db1 = []" "utxos db1 = []"
  "platforms db1 = [\<lparr>pl_id = P1, pl_slug = ''acme'', pl_key_hash = Some ''key''\<rparr>]"
  by (simp_all add: db1_def)

lemma calm_world_simps [simp]:
  "store (calm_world d t i) = d" "tick (calm_world d t i) = 0" "log (calm_world d t i) = []"
  "meddle (env (calm_world d t i) n) = id" "clock (env (calm_world d t i) n) = t"
  "fate (env (calm_world d t i) n) = Answered" "fresh_ids (env (calm_world d t i) n) = (\<lambda>_. i)" "calm (calm_world d t i)"
  by (simp_all add: calm_world_def calm_def)

end
