(* ===== verification/PlatformAuth.thy ===== *)
theory PlatformAuth
  imports Database
begin

text \<open>
  Who is calling: \<open>supabase/functions/_shared/platform-auth.ts\<close>, with the bounded body reader of
  \<open>_shared/http.ts\<close> and the prefix every stealth handler starts with.  A context names the
  platform and the user that the credential stands for; the lemmas show that they come from
  the table rows the credential points to and never from the request body.
\<close>

section \<open>Requests and what the runtime provides\<close>

text \<open>
  Of the runtime the code uses \<open>JSON.parse\<close> (with the UTF-8 decoder), the length of
  \<open>JSON.stringify\<close>, SHA-256 and \<open>auth.getUser\<close>, which answers with the user of a token at a
  point of time.  \<open>max_rows\<close> is the row limit of the REST gateway in front of the database, a
  setting of the deployment (\<open>None\<close>: no limit): a larger result is cut off without an error.
\<close>

record runtime =
  json_parse :: "string \<Rightarrow> json option"
  stringify_length :: "json \<Rightarrow> nat"
  sha256_hex :: "string \<Rightarrow> string"
  jwt_user :: "string \<Rightarrow> nat \<Rightarrow> string option"
  max_rows :: "nat option"

definition capped :: "runtime \<Rightarrow> 'a list \<Rightarrow> 'a list" where
  "capped rt xs = (case max_rows rt of None \<Rightarrow> xs | Some n \<Rightarrow> take n xs)"

text \<open>A header that is missing is \<open>None\<close>; so is a missing body.\<close>

record http_request =
  verb :: string
  api_key :: "string option"
  authorization :: "string option"
  content_length :: "jsnum option"
  chunks :: "string list option"

definition MAX_BODY_BYTES :: nat where
  "MAX_BODY_BYTES = 1000000"

text \<open>The reading loop; \<open>n\<close> counts the bytes, and the reader is cancelled past the limit.\<close>

fun read_chunks :: "nat \<Rightarrow> nat \<Rightarrow> string list \<Rightarrow> string \<Rightarrow> string option" where
  "read_chunks maxb n [] merged = Some merged"
| "read_chunks maxb n (c # cs) merged =
     (if n + length c > maxb then None
      else read_chunks maxb (n + length c) cs (merged @ c))"

definition readBoundedText :: "http_request \<Rightarrow> nat \<Rightarrow> string option" where
  "readBoundedText req maxb =
     (case content_length req of
        Some n \<Rightarrow> if js_lt (jsint (int maxb)) n then None
                  else (case chunks req of None \<Rightarrow> Some [] | Some cs \<Rightarrow> read_chunks maxb 0 cs [])
      | None \<Rightarrow> (case chunks req of None \<Rightarrow> Some [] | Some cs \<Rightarrow> read_chunks maxb 0 cs []))"

text \<open>
  The prefix of the handlers: method, body size, \<open>JSON.parse(raw || '{}')\<close>, and the property
  access on \<open>null\<close> that ends in the catch-all.
\<close>

definition with_body :: "runtime \<Rightarrow> http_request \<Rightarrow> (json \<Rightarrow> 'a reply io) \<Rightarrow> 'a reply io" where
  "with_body rt req k =
     (if verb req = ''OPTIONS'' then State_Monad.return Preflight
      else if verb req \<noteq> ''POST'' then State_Monad.return (Refused 405 ''Method not allowed'')
      else case readBoundedText req MAX_BODY_BYTES of
             None \<Rightarrow> State_Monad.return (Refused 413 ''Request body too large'')
           | Some raw \<Rightarrow>
               (case json_parse rt (if raw = [] then ''{}'' else raw) of
                  None \<Rightarrow> State_Monad.return (Refused 400 ''Request body is not valid JSON'')
                | Some JNull \<Rightarrow> State_Monad.return (Refused 500 ''Internal error'')
                | Some body \<Rightarrow> k body))"

section \<open>Contexts\<close>

datatype auth_context =
  PlatformCtx string string
| DirectCtx string string
| WidgetCtx string string

type_synonym auth_error = "nat \<times> string"

definition auth_fail :: "nat \<Rightarrow> string \<Rightarrow> (auth_error + 'a) io" where
  "auth_fail status msg = State_Monad.return (Inl (status, msg))"

definition present :: "string option \<Rightarrow> bool" where
  "present h \<longleftrightarrow> h \<noteq> None \<and> h \<noteq> Some []"

section \<open>Platform and direct mode\<close>

definition platform_of_key :: "string \<Rightarrow> (rpc_error + platform_row option) io" where
  "platform_of_key h = query (\<lambda>e d. maybe_single (filter (\<lambda>p. pl_key_hash p = Some h) (platforms d)))"

definition direct_platform :: "(rpc_error + platform_row option) io" where
  "direct_platform = query (\<lambda>e d. maybe_single (filter (\<lambda>p. pl_slug p = ''direct'') (platforms d)))"

text \<open>
  The SQL function, with \<open>auth.uid()\<close> as its argument.  The service client has no JWT subject,
  so \<open>authenticateRequest\<close> calls it with \<open>None\<close>.
\<close>

definition get_or_create_direct_subaccount ::
    "string option \<Rightarrow> event \<Rightarrow> db \<Rightarrow> (rpc_error + string) \<times> db" where
  "get_or_create_direct_subaccount uid e d =
     (case uid of
        None \<Rightarrow> (Inl (pg_error ''P0001'' ''Unauthorized''), d)
      | Some u \<Rightarrow>
          (case filter (\<lambda>p. pl_slug p = ''direct'') (platforms d) of
             [] \<Rightarrow> (Inl (pg_error ''P0001'' ''Direct platform not configured''), d)
           | p # _ \<Rightarrow>
               (case filter (\<lambda>s. su_platform s = pl_id p \<and> su_external s = u) (subaccounts d) of
                  s # _ \<Rightarrow> (Inr (su_id s), d)
                | [] \<Rightarrow> (Inr (fresh_ids e 0), d\<lparr>subaccounts := subaccounts d @
                           [\<lparr>su_id = fresh_ids e 0, su_platform = pl_id p, su_external = u\<rparr>]\<rparr>))))"

definition find_subaccount :: "string \<Rightarrow> string \<Rightarrow> (rpc_error + subaccount_row option) io" where
  "find_subaccount p u = query (\<lambda>e d.
     maybe_single (filter (\<lambda>s. su_platform s = p \<and> su_external s = u) (subaccounts d)))"

definition insert_subaccount :: "string \<Rightarrow> string \<Rightarrow> (rpc_error + string) io" where
  "insert_subaccount p u = request (\<lambda>e d.
     if \<exists>s \<in> set (subaccounts d). su_platform s = p \<and> su_external s = u
     then (Inl (pg_error ''23505'' ''duplicate key value violates unique constraint''), d)
     else (Inr (fresh_ids e 0), d\<lparr>subaccounts := subaccounts d @
             [\<lparr>su_id = fresh_ids e 0, su_platform = p, su_external = u\<rparr>]\<rparr>))"

definition resolve_direct :: "string \<Rightarrow> (auth_error + auth_context) io" where
  "resolve_direct user = do {
     sub \<leftarrow> request (get_or_create_direct_subaccount None);
     case sub of
       Inr s \<Rightarrow> State_Monad.return (Inr (DirectCtx user s))
     | Inl _ \<Rightarrow> do {
         dp \<leftarrow> direct_platform;
         case dp of
           Inr (Some p) \<Rightarrow> do {
             existing \<leftarrow> find_subaccount (pl_id p) user;
             case existing of
               Inr (Some s) \<Rightarrow> State_Monad.return (Inr (DirectCtx user (su_id s)))
             | _ \<Rightarrow> do {
                 created \<leftarrow> insert_subaccount (pl_id p) user;
                 case created of
                   Inr s \<Rightarrow> State_Monad.return (Inr (DirectCtx user s))
                 | Inl _ \<Rightarrow> auth_fail 500 ''Could not create subaccount''
               }
           }
         | _ \<Rightarrow> auth_fail 500 ''Direct platform not configured''
       }
   }"

definition authenticateRequest :: "runtime \<Rightarrow> http_request \<Rightarrow> (auth_error + auth_context) io" where
  "authenticateRequest rt req =
     (if present (api_key req) then do {
        found \<leftarrow> platform_of_key (sha256_hex rt (the (api_key req)));
        case found of
          Inr (Some p) \<Rightarrow> State_Monad.return (Inr (PlatformCtx (pl_id p) (pl_slug p)))
        | _ \<Rightarrow> auth_fail 401 ''Invalid platform API key''
      }
      else if present (authorization req) then do {
        user \<leftarrow> query (\<lambda>e d. case jwt_user rt (the (authorization req)) (clock e) of
                   None \<Rightarrow> Inl (pg_error ''401'' ''invalid JWT'') | Some u \<Rightarrow> Inr u);
        case user of
          Inl _ \<Rightarrow> auth_fail 401 ''Invalid Supabase JWT''
        | Inr u \<Rightarrow> resolve_direct u
      }
      else auth_fail 401 ''Missing X-Platform-API-Key or Authorization header'')"

section \<open>Widget mode\<close>

definition live_session :: "string \<Rightarrow> nat \<Rightarrow> session_row \<Rightarrow> bool" where
  "live_session tok now s \<longleftrightarrow> se_id s = pg_uuid tok \<and> \<not> se_used s \<and> now < se_expires s"

definition authenticateWidgetToken :: "json \<Rightarrow> (auth_error + auth_context) io" where
  "authenticateWidgetToken token =
     (case token of
        JStr t \<Rightarrow>
          if is_uuid t then do {
            found \<leftarrow> query (\<lambda>e d. maybe_single (filter (live_session t (clock e)) (sessions d)));
            case found of
              Inr (Some s) \<Rightarrow> State_Monad.return (Inr (WidgetCtx (se_platform s) (se_app_user s)))
            | _ \<Rightarrow> auth_fail 401 ''Invalid widget token''
          }
          else auth_fail 401 ''Invalid widget token''
      | _ \<Rightarrow> auth_fail 401 ''Invalid widget token'')"

definition authenticateRequestOrWidgetToken ::
    "runtime \<Rightarrow> http_request \<Rightarrow> json option \<Rightarrow> (auth_error + auth_context) io" where
  "authenticateRequestOrWidgetToken rt req token =
     (if present (api_key req) then authenticateRequest rt req
      else case token of
             None \<Rightarrow> authenticateRequest rt req
           | Some JNull \<Rightarrow> authenticateRequest rt req
           | Some t \<Rightarrow> authenticateWidgetToken t)"

section \<open>What a context may do\<close>

definition enforceWidgetAppUser :: "auth_context \<Rightarrow> string \<Rightarrow> auth_error option" where
  "enforceWidgetAppUser ctx user =
     (case ctx of
        WidgetCtx _ u \<Rightarrow> if user \<noteq> u then Some (403, ''app_user_id must match the widget session'') else None
      | _ \<Rightarrow> None)"

text \<open>The two checks on the user the body names, in the order of the handlers.\<close>

definition user_mismatch :: "auth_context \<Rightarrow> string \<Rightarrow> auth_error option" where
  "user_mismatch ctx user =
     (case ctx of
        DirectCtx u _ \<Rightarrow> if user \<noteq> u then Some (403, ''app_user_id must match the authenticated user'')
                         else enforceWidgetAppUser ctx user
      | _ \<Rightarrow> enforceWidgetAppUser ctx user)"

definition getCallerPlatformId :: "auth_context \<Rightarrow> (auth_error + string) io" where
  "getCallerPlatformId ctx =
     (case ctx of
        PlatformCtx p _ \<Rightarrow> State_Monad.return (Inr p)
      | WidgetCtx p _ \<Rightarrow> State_Monad.return (Inr p)
      | DirectCtx _ _ \<Rightarrow> do {
          found \<leftarrow> direct_platform;
          case found of
            Inr (Some p) \<Rightarrow> State_Monad.return (Inr (pl_id p))
          | _ \<Rightarrow> auth_fail 500 ''Direct platform not configured''
        })"

text \<open>
  The part every handler has after validation: the user locks, then the platform that binds all
  its reads and writes.
\<close>

definition as_platform :: "auth_context \<Rightarrow> string \<Rightarrow> (string \<Rightarrow> 'a reply io) \<Rightarrow> 'a reply io" where
  "as_platform ctx user k =
     (case user_mismatch ctx user of
        Some (s, m) \<Rightarrow> State_Monad.return (Refused s m)
      | None \<Rightarrow> do {
          p \<leftarrow> getCallerPlatformId ctx;
          case p of
            Inl (s, m) \<Rightarrow> State_Monad.return (Refused s m)
          | Inr plat \<Rightarrow> k plat
        })"

text \<open>
  The shape of the stealth handlers: body, credential, validation of the body (\<open>parse\<close>), user
  locks, platform, and then the work of the endpoint.
\<close>

definition endpoint ::
    "runtime \<Rightarrow> http_request \<Rightarrow> (json \<Rightarrow> auth_error + 'a) \<Rightarrow> ('a \<Rightarrow> string) \<Rightarrow>
       (string \<Rightarrow> 'a \<Rightarrow> 'b reply io) \<Rightarrow> 'b reply io" where
  "endpoint rt req parse user k = with_body rt req (\<lambda>body. do {
     auth \<leftarrow> authenticateRequestOrWidgetToken rt req (field body ''widget_token'');
     case auth of
       Inl (s, m) \<Rightarrow> State_Monad.return (Refused s m)
     | Inr ctx \<Rightarrow>
         (case parse body of
            Inl (s, m) \<Rightarrow> State_Monad.return (Refused s m)
          | Inr a \<Rightarrow> as_platform ctx (user a) (\<lambda>p. k p a))
   })"

definition resolveSubaccount :: "auth_context \<Rightarrow> string option \<Rightarrow> (auth_error + string) io" where
  "resolveSubaccount ctx sub =
     (case ctx of
        DirectCtx _ s \<Rightarrow> State_Monad.return (Inr s)
      | WidgetCtx _ _ \<Rightarrow> auth_fail 403 ''Widget-token callers cannot act on a subaccount''
      | PlatformCtx p _ \<Rightarrow>
          if \<not> present sub then auth_fail 400 ''subaccount_id required in platform mode''
          else do {
            found \<leftarrow> query (\<lambda>e d. if is_uuid (the sub)
                       then maybe_single (filter (\<lambda>s. su_id s = pg_uuid (the sub)) (subaccounts d))
                       else Inl uuid_error);
            case found of
              Inr (Some s) \<Rightarrow> if su_platform s \<noteq> p then auth_fail 404 ''Subaccount not found''
                              else State_Monad.return (Inr (su_id s))
            | _ \<Rightarrow> auth_fail 404 ''Subaccount not found''
          })"

section \<open>Authentication only adds subaccounts\<close>

definition same_tables :: "db \<Rightarrow> db \<Rightarrow> bool" where
  "same_tables d d' \<longleftrightarrow> platforms d' = platforms d \<and> sessions d' = sessions d \<and>
     conns d' = conns d \<and> ranges d' = ranges d \<and> txs d' = txs d \<and> utxos d' = utxos d"

interpretation auth_writes: write_guarantee same_tables
  by unfold_locales (simp add: same_tables_def)

lemma auth_fail_keeps: "auth_writes.keeps (auth_fail n s)"
  unfolding auth_fail_def by (rule auth_writes.keeps_return)

lemma resolve_direct_keeps: "auth_writes.keeps (resolve_direct u)"
proof -
  have sub: "auth_writes.keeps (request (get_or_create_direct_subaccount None))"
    by (rule auth_writes.keeps_request)
      (simp add: get_or_create_direct_subaccount_def same_tables_def)
  have ins: "auth_writes.keeps (insert_subaccount p v)" for p v
    unfolding insert_subaccount_def
    by (rule auth_writes.keeps_request) (simp add: same_tables_def)
  show ?thesis
    unfolding resolve_direct_def direct_platform_def find_subaccount_def
    by (intro auth_writes.keeps_bind sub ins auth_fail_keeps auth_writes.keeps_sum
        auth_writes.keeps_option auth_writes.keeps_query auth_writes.keeps_return)
qed

lemma auth_keeps: "auth_writes.keeps (authenticateRequestOrWidgetToken rt req tok)"
proof -
  have r: "auth_writes.keeps (authenticateRequest rt req)"
    unfolding authenticateRequest_def platform_of_key_def
    by (intro auth_writes.keeps_if auth_writes.keeps_bind resolve_direct_keeps auth_fail_keeps
        auth_writes.keeps_sum auth_writes.keeps_option auth_writes.keeps_query
        auth_writes.keeps_return)
  have w: "auth_writes.keeps (authenticateWidgetToken t)" for t
    unfolding authenticateWidgetToken_def
    by (auto intro!: auth_fail_keeps split: json.splits)
  show ?thesis
    unfolding authenticateRequestOrWidgetToken_def
    by (auto intro!: r w split: option.splits json.splits)
qed

lemma getCallerPlatformId_keeps: "auth_writes.keeps (getCallerPlatformId ctx)"
  unfolding getCallerPlatformId_def direct_platform_def
  by (auto intro!: auth_fail_keeps split: auth_context.splits)

section \<open>Where identities come from\<close>

lemma resolve_direct_user:
  "result_of (resolve_direct u) w = Inr ctx \<Longrightarrow> \<exists>s. ctx = DirectCtx u s"
  unfolding resolve_direct_def
  by (auto simp: auth_fail_def split: sum.splits option.splits)

text \<open>What the credential of a request stands for, in the tables \<open>d\<close> at time \<open>now\<close>.\<close>

definition credential_proves ::
    "runtime \<Rightarrow> http_request \<Rightarrow> json option \<Rightarrow> db \<Rightarrow> nat \<Rightarrow> auth_context \<Rightarrow> bool" where
  "credential_proves rt req tok d now ctx =
     (case ctx of
        PlatformCtx p slug \<Rightarrow> present (api_key req) \<and>
          (\<exists>row \<in> set (platforms d). pl_id row = p \<and> pl_slug row = slug \<and>
             pl_key_hash row = Some (sha256_hex rt (the (api_key req))))
      | WidgetCtx p user \<Rightarrow> \<not> present (api_key req) \<and>
          (\<exists>t. tok = Some (JStr t) \<and> is_uuid t \<and>
             (\<exists>row \<in> set (sessions d). live_session t now row \<and>
                se_platform row = p \<and> se_app_user row = user))
      | DirectCtx user _ \<Rightarrow> \<not> present (api_key req) \<and> (tok = None \<or> tok = Some JNull) \<and>
          present (authorization req) \<and> jwt_user rt (the (authorization req)) now = Some user)"

lemma authenticateRequest_proves:
  assumes "result_of (authenticateRequest rt req) w = Inr ctx"
    and "present (api_key req) \<or> tok = None \<or> tok = Some JNull"
  shows "credential_proves rt req tok (seen w) (clock (env w (tick w))) ctx"
proof (cases "present (api_key req)")
  case True
  then show ?thesis
    using assms(1) unfolding authenticateRequest_def platform_of_key_def
    by (auto simp: auth_fail_def credential_proves_def
        dest!: query_answer maybe_single_filter split: sum.splits option.splits)
next
  case False
  then show ?thesis
    using assms unfolding authenticateRequest_def
    by (auto simp: auth_fail_def credential_proves_def
        dest!: query_answer resolve_direct_user split: sum.splits option.splits if_splits)
qed

lemma authenticateWidgetToken_proves:
  assumes "result_of (authenticateWidgetToken t) w = Inr ctx" "\<not> present (api_key req)"
  shows "credential_proves rt req (Some t) (seen w) (clock (env w (tick w))) ctx"
  using assms unfolding authenticateWidgetToken_def
  by (auto simp: auth_fail_def credential_proves_def
      dest!: query_answer maybe_single_filter split: sum.splits option.splits if_splits json.splits)

lemma auth_without_token:
  "present (api_key req) \<or> tok = None \<or> tok = Some JNull \<Longrightarrow>
     authenticateRequestOrWidgetToken rt req tok = authenticateRequest rt req"
  unfolding authenticateRequestOrWidgetToken_def by (elim disjE) simp_all

lemma auth_with_token:
  "\<not> present (api_key req) \<Longrightarrow> t \<noteq> JNull \<Longrightarrow>
     authenticateRequestOrWidgetToken rt req (Some t) = authenticateWidgetToken t"
  unfolding authenticateRequestOrWidgetToken_def by (cases t) simp_all

lemma auth_identity:
  assumes "result_of (authenticateRequestOrWidgetToken rt req tok) w = Inr ctx"
  shows "credential_proves rt req tok (seen w) (clock (env w (tick w))) ctx"
proof (cases "present (api_key req) \<or> tok = None \<or> tok = Some JNull")
  case True
  then show ?thesis using assms by (simp add: auth_without_token authenticateRequest_proves)
next
  case False
  then obtain t where "tok = Some t" "t \<noteq> JNull" by (cases tok) auto
  then show ?thesis using assms False by (simp add: auth_with_token authenticateWidgetToken_proves)
qed

section \<open>The writes of an endpoint\<close>

text \<open>
  The platform \<open>p\<close> and the user an endpoint acts for: the platform is that of the credential
  (in direct mode the row with the slug \<open>direct\<close>), and a credential that names a user names this
  one.
\<close>

definition acts_for ::
    "runtime \<Rightarrow> http_request \<Rightarrow> json option \<Rightarrow> world \<Rightarrow> string \<Rightarrow> string \<Rightarrow> bool" where
  "acts_for rt req tok w p user \<longleftrightarrow>
     (\<exists>ctx. credential_proves rt req tok (seen w) (clock (env w (tick w))) ctx \<and>
        (case ctx of
           PlatformCtx q _ \<Rightarrow> p = q
         | WidgetCtx q u \<Rightarrow> p = q \<and> user = u
         | DirectCtx u _ \<Rightarrow> user = u \<and> (\<exists>w'. \<exists>row \<in> set (platforms (seen w')).
             pl_slug row = ''direct'' \<and> pl_id row = p)))"

lemma logs_auth: "logs (authenticateRequestOrWidgetToken rt req tok)"
  by (rule any_write.keeps_mono [OF auth_writes.write_guarantee_axioms auth_keeps]) simp

lemma logs_platform: "logs (getCallerPlatformId ctx)"
  by (rule any_write.keeps_mono [OF auth_writes.write_guarantee_axioms getCallerPlatformId_keeps])
    simp

lemma getCallerPlatformId_result:
  "result_of (getCallerPlatformId ctx) w = Inr p \<Longrightarrow>
     (case ctx of PlatformCtx q _ \<Rightarrow> p = q | WidgetCtx q _ \<Rightarrow> p = q
      | DirectCtx _ _ \<Rightarrow> \<exists>row \<in> set (platforms (seen w)). pl_slug row = ''direct'' \<and> pl_id row = p)"
  unfolding getCallerPlatformId_def direct_platform_def
  by (auto simp: auth_fail_def dest!: query_answer maybe_single_filter
      split: auth_context.splits sum.splits option.splits)

lemma as_platform_logs: "(\<And>p. logs (k p)) \<Longrightarrow> logs (as_platform ctx user k)"
  unfolding as_platform_def by (auto intro!: logs_platform split: option.splits sum.splits)

lemma as_platform_steps:
  assumes k: "\<And>p. logs (k p)" and st: "(d, d') \<in> set (steps (as_platform ctx user k) w)"
  shows "same_tables d d' \<or> (user_mismatch ctx user = None \<and>
    (\<exists>p w'. result_of (getCallerPlatformId ctx) w = Inr p \<and> (d, d') \<in> set (steps (k p) w')))"
proof (cases "user_mismatch ctx user")
  case None
  let ?f = "\<lambda>p. case p of Inl (s, m) \<Rightarrow> State_Monad.return (Refused s m) | Inr plat \<Rightarrow> k plat"
  have logs_f: "logs (?f x)" for x by (auto intro!: k split: sum.splits)
  have "as_platform ctx user k = State_Monad.bind (getCallerPlatformId ctx) ?f"
    using None by (simp add: as_platform_def)
  then have "(d, d') \<in> set (steps (getCallerPlatformId ctx) w) \<or>
      (d, d') \<in> set (steps (?f (result_of (getCallerPlatformId ctx) w))
        (world_after (getCallerPlatformId ctx) w))"
    using st by (simp add: steps_bind [OF logs_platform logs_f])
  then show ?thesis
    using auth_writes.keeps_steps [OF getCallerPlatformId_keeps] None
    by (auto split: sum.splits)
qed (use st in \<open>auto simp: as_platform_def\<close>)

lemma with_body_cases:
  "(\<exists>x. with_body rt req k = State_Monad.return x) \<or> (\<exists>body. with_body rt req k = k body)"
  unfolding with_body_def by (auto split: option.split json.split)

lemma with_body_steps: "st \<in> set (steps (with_body rt req k) w) \<Longrightarrow> \<exists>body. st \<in> set (steps (k body) w)"
  using with_body_cases [of rt req k] by auto

lemma endpoint_steps:
  assumes k: "\<And>p a. logs (k p a)"
    and st: "(d, d') \<in> set (steps (endpoint rt req parse user k) w)"
  shows "same_tables d d' \<or> (\<exists>body a p w'. parse body = Inr a \<and>
    acts_for rt req (field body ''widget_token'') w p (user a) \<and> (d, d') \<in> set (steps (k p a) w'))"
proof -
  let ?auth = "\<lambda>body. authenticateRequestOrWidgetToken rt req (field body ''widget_token'')"
  let ?f = "\<lambda>body auth. case auth of
       Inl (s, m) \<Rightarrow> State_Monad.return (Refused s m)
     | Inr ctx \<Rightarrow> (case parse body of
            Inl (s, m) \<Rightarrow> State_Monad.return (Refused s m)
          | Inr a \<Rightarrow> as_platform ctx (user a) (\<lambda>p. k p a))"
  obtain body where b: "(d, d') \<in> set (steps (State_Monad.bind (?auth body) (?f body)) w)"
    using with_body_steps [OF st [unfolded endpoint_def]] by blast
  have logs_f: "logs (?f body x)" for x
    by (auto intro!: k as_platform_logs split: sum.splits)
  let ?w = "world_after (?auth body) w"
  from b consider "(d, d') \<in> set (steps (?auth body) w)"
    | "(d, d') \<in> set (steps (?f body (result_of (?auth body) w)) ?w)"
    by (auto simp: steps_bind [OF logs_auth logs_f])
  then show ?thesis
  proof cases
    case 1
    then show ?thesis using auth_writes.keeps_steps [OF auth_keeps] by blast
  next
    case 2
    then obtain ctx a where c: "result_of (?auth body) w = Inr ctx" "parse body = Inr a"
      and s: "(d, d') \<in> set (steps (as_platform ctx (user a) (\<lambda>p. k p a)) ?w)"
      by (auto split: sum.splits)
    have "acts_for rt req (field body ''widget_token'') w p (user a)"
      if "user_mismatch ctx (user a) = None" "result_of (getCallerPlatformId ctx) ?w = Inr p" for p
      using auth_identity [OF c(1)] getCallerPlatformId_result [OF that(2)] that(1)
      unfolding acts_for_def
      by (intro exI [of _ ctx])
        (auto simp: user_mismatch_def enforceWidgetAppUser_def split: auth_context.splits if_splits)
    then show ?thesis
      using as_platform_steps [OF k s] c(2) by blast
  qed
qed

section \<open>Properties\<close>

text \<open>
  C8: a request that authenticates acts as the party its credential stands for: the platform
  whose stored key hash matches the header, else the platform and user of the live session row
  that the widget token names, else the user of a valid JWT; the platform header wins over the
  token and the token over the JWT, with no fallback from a failed credential to a weaker one.
\<close>

theorem auth_identity_from_credential:
  assumes "result_of (authenticateRequestOrWidgetToken rt req tok) w = Inr ctx"
  shows "credential_proves rt req tok (seen w) (clock (env w (tick w))) ctx"
  using assms by (rule auth_identity)

definition sample_runtime :: "json \<Rightarrow> runtime" where
  "sample_runtime body = \<lparr>json_parse = (\<lambda>_. Some body), stringify_length = (\<lambda>_. 0),
     sha256_hex = (\<lambda>k. k), jwt_user = (\<lambda>_ _. None), max_rows = None\<rparr>"

lemma sample_runtime_simps [simp]:
  "json_parse (sample_runtime b) s = Some b" "stringify_length (sample_runtime b) x = 0"
  "sha256_hex (sample_runtime b) s = s" "max_rows (sample_runtime b) = None"
  by (simp_all add: sample_runtime_def)

definition sample_request :: http_request where
  "sample_request = \<lparr>verb = ''POST'', api_key = Some ''key'', authorization = None,
     content_length = None, chunks = Some [''{}'']\<rparr>"

theorem auth_identity_from_credential_witness:
  "credential_proves (sample_runtime (JObj [])) sample_request None db1 7 (PlatformCtx P1 ''acme'')"
proof -
  have "result_of (authenticateRequestOrWidgetToken (sample_runtime (JObj [])) sample_request None)
      (calm_world db1 7 G2) = Inr (PlatformCtx P1 ''acme'')"
    by (simp add: auth_without_token authenticateRequest_def present_def sample_request_def
        platform_of_key_def run_simps sample_runtime_def db1_def)
  from auth_identity_from_credential [OF this] show ?thesis by simp
qed

text \<open>The sample request reaches the work of an endpoint as the platform \<open>P1\<close>.\<close>

lemma sample_endpoint:
  assumes "platforms d = platforms db1" "body \<noteq> JNull" "parse body = Inr a"
  shows "run_state (endpoint (sample_runtime body) sample_request parse user k) (calm_world d t i) =
    run_state (k P1 a) ((calm_world d t i)\<lparr>tick := Suc 0, log := [(d, d)]\<rparr>)"
proof -
  have "with_body (sample_runtime body) sample_request f = f body" for f :: "json \<Rightarrow> 'b reply io"
    using assms(2)
    by (cases body) (simp_all add: with_body_def sample_request_def sample_runtime_def
        readBoundedText_def MAX_BODY_BYTES_def)
  moreover have "run_state (authenticateRequestOrWidgetToken (sample_runtime body) sample_request tok)
      (calm_world d t i) =
    (Inr (PlatformCtx P1 ''acme''), (calm_world d t i)\<lparr>tick := Suc 0, log := [(d, d)]\<rparr>)" for tok
    using assms(1)
    by (simp add: auth_without_token authenticateRequest_def present_def sample_request_def
        platform_of_key_def run_simps sample_runtime_def db1_def)
  ultimately show ?thesis
    using assms(3)
    by (simp add: endpoint_def as_platform_def user_mismatch_def enforceWidgetAppUser_def
        getCallerPlatformId_def)
qed

end
