(* ===== verification/EnvelopeUpdate.thy ===== *)
theory EnvelopeUpdate
  imports PlatformAuth CoverageTable
begin

text \<open>
  The endpoint that advances the scan cursor: \<open>_shared/scan-cursor.ts\<close> and the three files of
  \<open>or-stealth-envelope-update\<close>, with the database function \<open>record_stealth_scan_range\<close> they call.
  The properties hold for every interleaving with other invocations and every lost request
  or reply.
\<close>

section \<open>The cursor contract (\<open>scan-cursor.ts\<close>)\<close>

definition isContiguousScannedHeight :: "json option \<Rightarrow> bool" where
  "isContiguousScannedHeight x \<longleftrightarrow> nonneg_integer x \<noteq> None"

definition boundCursorAdvance :: "int \<Rightarrow> json option \<Rightarrow> int" where
  "boundCursorAdvance candidate x =
     (if \<not> isContiguousScannedHeight x then candidate else min candidate (the (nonneg_integer x)))"

section \<open>Advancing the cursor (\<open>cursor.ts\<close>)\<close>

text \<open>The rows the conditional \<open>UPDATE\<close> matches.\<close>

definition behind :: "int \<Rightarrow> conn_row \<Rightarrow> bool" where
  "behind b r \<longleftrightarrow> (case c_cursor r of None \<Rightarrow> True | Some c \<Rightarrow> c < b)"

definition cursor_match :: "string \<Rightarrow> string \<Rightarrow> string \<Rightarrow> int \<Rightarrow> conn_row \<Rightarrow> bool" where
  "cursor_match p c g b r \<longleftrightarrow> is_conn p c r \<and> c_generation r = pg_uuid g \<and> behind b r"

definition advance_row :: "int \<Rightarrow> nat \<Rightarrow> conn_row \<Rightarrow> conn_row" where
  "advance_row b t r = r\<lparr>c_cursor := Some b, c_last_sync := Some t, c_updated := t\<rparr>"

definition cursor_update ::
    "string \<Rightarrow> string \<Rightarrow> string \<Rightarrow> int \<Rightarrow> event \<Rightarrow> db \<Rightarrow> (rpc_error + conn_row option) \<times> db" where
  "cursor_update p c g b e d =
     (if \<not> is_int4 b then (Inl int4_error, d)
      else case maybe_single (filter (cursor_match p c g b) (conns d)) of
             Inl err \<Rightarrow> (Inl err, d)
           | Inr x \<Rightarrow> (Inr x, update_conns (cursor_match p c g b) (advance_row b (clock e)) d))"

record cursor_result =
  effectiveCursor :: int
  boundedHeight :: int

definition advanceCursor ::
    "string \<Rightarrow> string \<Rightarrow> int \<Rightarrow> uuid_arg \<Rightarrow> json option \<Rightarrow> (auth_error + cursor_result) io" where
  "advanceCursor p c h gen ceil = (let b = boundCursorAdvance h ceil in do {
     updated \<leftarrow> request (cursor_update p c (text_of gen) b);
     case updated of
       Inl _ \<Rightarrow> auth_fail 500 ''Failed to update cursor''
     | Inr (Some _) \<Rightarrow> State_Monad.return (Inr \<lparr>effectiveCursor = b, boundedHeight = b\<rparr>)
     | Inr None \<Rightarrow> do {
         fresh \<leftarrow> query (\<lambda>e d. maybe_single (conn_rows p c d));
         case fresh of
           Inr (Some r) \<Rightarrow>
             if Plain (c_generation r) \<noteq> gen
             then auth_fail 409 ''Connection was reset since this sync began; stale write refused''
             else (case c_cursor r of
                     None \<Rightarrow> auth_fail 500 ''Cursor invariant violated''
                   | Some k \<Rightarrow> State_Monad.return (Inr \<lparr>effectiveCursor = k, boundedHeight = b\<rparr>))
         | _ \<Rightarrow> auth_fail 500 ''Failed to read cursor after update''
       }
   })"

section \<open>Recording the range (\<open>scan_range.ts\<close>)\<close>

fun js_includes :: "string \<Rightarrow> string \<Rightarrow> bool" where
  "js_includes pat [] = (pat = [])"
| "js_includes pat (c # s) = (take (length pat) (c # s) = pat \<or> js_includes pat s)"

record range_args =
  p_connection_id :: uuid_arg
  p_from_height :: int
  p_to_height :: int
  p_app_user_id :: string
  p_scan_generation :: uuid_arg

record range_request =
  rr_connection :: uuid_arg
  rr_user :: string
  rr_last :: int
  rr_from :: "json option"
  rr_generation :: uuid_arg

datatype range_outcome = Skipped | Recorded | Rejected string | Failed string string

definition buildScanRangeArgs :: "range_request \<Rightarrow> range_args option" where
  "buildScanRangeArgs req =
     (case nonneg_integer (rr_from req) of
        None \<Rightarrow> None
      | Some f \<Rightarrow> if f > rr_last req then None
                  else Some \<lparr>p_connection_id = rr_connection req, p_from_height = f,
                             p_to_height = rr_last req, p_app_user_id = rr_user req,
                             p_scan_generation = rr_generation req\<rparr>)"

definition ownership_message :: "string \<Rightarrow> string \<Rightarrow> string" where
  "ownership_message user c =
     ''record_stealth_scan_range: caller '' @ user @ '' does not own connection '' @ c"

definition stale_message :: "string \<Rightarrow> string" where
  "stale_message c = ''record_stealth_scan_range: stale scan_generation for connection '' @ c @
     '' (reset since this sync began)''"

text \<open>The rows of one connection, and the table with them replaced.\<close>

definition ranges_of :: "string \<Rightarrow> db \<Rightarrow> (int \<times> int) list" where
  "ranges_of c d = map snd (filter (\<lambda>row. fst row = c) (ranges d))"

definition put_ranges :: "string \<Rightarrow> (int \<times> int) list \<Rightarrow> db \<Rightarrow> db" where
  "put_ranges c rows d =
     d\<lparr>ranges := filter (\<lambda>row. fst row \<noteq> c) (ranges d) @ map (Pair c) rows\<rparr>"

text \<open>
  The SQL function: conversion of the arguments, the owner and generation guards, the merge,
  and the table's \<open>CHECK\<close> on the row it inserts.
\<close>

definition record_stealth_scan_range ::
    "range_args \<Rightarrow> event \<Rightarrow> db \<Rightarrow> (rpc_error + unit) \<times> db" where
  "record_stealth_scan_range a e d =
     (case (p_connection_id a, p_scan_generation a) of
        (Plain cid, Plain g) \<Rightarrow>
          let c = pg_uuid cid; f = p_from_height a; t = p_to_height a in
          if \<not> is_int4 f \<or> \<not> is_int4 t then (Inl int4_error, d)
          else (case filter (\<lambda>r. c_id r = c) (conns d) of
             [] \<Rightarrow> (Inl (pg_error ''P0001''
                     (''record_stealth_scan_range: connection '' @ c @ '' not found or has no owner'')), d)
           | r # _ \<Rightarrow>
               if p_app_user_id a \<noteq> c_owner r
               then (Inl (pg_error ''P0001'' (ownership_message (p_app_user_id a) c)), d)
               else if pg_uuid g \<noteq> c_generation r
               then (Inl (pg_error ''P0001'' (stale_message c)), d)
               else let new = merge_scan_range (ranges_of c d) f t in
                    if 0 \<le> fst (last new) \<and> fst (last new) \<le> snd (last new)
                    then (Inr (), put_ranges c new d)
                    else (Inl (pg_error ''23514'' ''stealth_scan_ranges_height_check''), d))
      | _ \<Rightarrow> (Inl uuid_error, d))"

definition classifyScanRangeError :: "rpc_error option \<Rightarrow> range_outcome" where
  "classifyScanRangeError error =
     (let rawCode = (case error of None \<Rightarrow> [] | Some x \<Rightarrow> (case err_code x of None \<Rightarrow> [] | Some c \<Rightarrow> c));
          code = (if rawCode = [] then ''unknown'' else rawCode);
          message = (case error of None \<Rightarrow> [] | Some x \<Rightarrow>
                       (case err_message x of None \<Rightarrow> [] | Some m \<Rightarrow> m))
      in if code = ''P0001'' \<and> js_includes ''does not own connection'' message then Rejected code
         else Failed code message)"

definition recordScanRange :: "range_request \<Rightarrow> range_outcome io" where
  "recordScanRange req =
     (case buildScanRangeArgs req of
        None \<Rightarrow> State_Monad.return Skipped
      | Some args \<Rightarrow> do {
          done \<leftarrow> request (record_stealth_scan_range args);
          case done of
            Inr _ \<Rightarrow> State_Monad.return Recorded
          | Inl err \<Rightarrow> State_Monad.return (classifyScanRangeError (Some err))
        })"

text \<open>The response field; the report to the error tracker goes out in the same case.\<close>

definition reportScanRangeOutcome :: "range_outcome \<Rightarrow> string option" where
  "reportScanRangeOutcome out = (case out of Failed code _ \<Rightarrow> Some code | _ \<Rightarrow> None)"

section \<open>The handler (\<open>index.ts\<close>)\<close>

record update_args =
  ua_conn :: uuid_arg
  ua_user :: string
  ua_generation :: uuid_arg
  ua_height :: int
  ua_ceiling :: "json option"
  ua_from :: "json option"

definition parse_update_body :: "json \<Rightarrow> auth_error + update_args" where
  "parse_update_body body =
     (case uuid_value (field body ''connection_id'') of
        None \<Rightarrow> Inl (400, ''connection_id (uuid) required'')
      | Some c \<Rightarrow>
     (case nonempty_string (field body ''app_user_id'') of
        None \<Rightarrow> Inl (400, ''app_user_id required'')
      | Some u \<Rightarrow>
     (case uuid_value (field body ''scan_generation'') of
        None \<Rightarrow> Inl (400, ''scan_generation (uuid) required'')
      | Some g \<Rightarrow>
     (case nonneg_integer (field body ''last_block_scanned'') of
        None \<Rightarrow> Inl (400, ''last_block_scanned must be a non-negative integer'')
      | Some h \<Rightarrow>
          let ceil = field body ''contiguous_block_scanned'' in
          if ceil \<noteq> None \<and> nonneg_integer ceil = None
          then Inl (400, ''contiguous_block_scanned must be a non-negative integer when present'')
          else Inr \<lparr>ua_conn = c, ua_user = u, ua_generation = g, ua_height = h,
                    ua_ceiling = ceil, ua_from = field body ''from_height''\<rparr>))))"

record update_answer =
  up_connection :: uuid_arg
  up_cursor :: int
  up_range_failed :: "string option"

text \<open>The handler from the platform on: the two writes and the reply, behind the ownership check.\<close>

definition advance_and_record :: "string \<Rightarrow> update_args \<Rightarrow> update_answer reply io" where
  "advance_and_record p a = do {
     cr \<leftarrow> advanceCursor p (text_of (ua_conn a)) (ua_height a) (ua_generation a) (ua_ceiling a);
     case cr of
       Inl (s, m) \<Rightarrow> State_Monad.return (Refused s m)
     | Inr res \<Rightarrow> do {
         out \<leftarrow> recordScanRange \<lparr>rr_connection = ua_conn a, rr_user = ua_user a,
            rr_last = boundedHeight res, rr_from = ua_from a, rr_generation = ua_generation a\<rparr>;
         State_Monad.return (Answer \<lparr>up_connection = ua_conn a,
            up_cursor = effectiveCursor res, up_range_failed = reportScanRangeOutcome out\<rparr>)
       }
   }"

definition update_for :: "string \<Rightarrow> update_args \<Rightarrow> update_answer reply io" where
  "update_for p a = do {
     row \<leftarrow> query (\<lambda>e d. maybe_single (conn_rows p (text_of (ua_conn a)) d));
     case row of
       Inl _ \<Rightarrow> State_Monad.return (Refused 500 ''Failed to load stealth connection'')
     | Inr None \<Rightarrow> State_Monad.return (Refused 404 ''Connection not found'')
     | Inr (Some r) \<Rightarrow>
         if c_owner r \<noteq> ua_user a
         then State_Monad.return (Refused 403 ''Connection does not belong to caller'')
         else advance_and_record p a
   }"

definition envelope_update :: "runtime \<Rightarrow> http_request \<Rightarrow> update_answer reply io" where
  "envelope_update rt req = endpoint rt req parse_update_body ua_user update_for"

section \<open>What the endpoint may write\<close>

abbreviation bound_of :: "update_args \<Rightarrow> int" where
  "bound_of a \<equiv> boundCursorAdvance (ua_height a) (ua_ceiling a)"

text \<open>
  A connection row is left alone, or it is the named row of the platform, it is still in the
  generation the caller started from, its cursor is below the bound, and the cursor moves up to
  the bound.
\<close>

definition row_advance :: "string \<Rightarrow> update_args \<Rightarrow> conn_row \<Rightarrow> conn_row \<Rightarrow> bool" where
  "row_advance p a r r' \<longleftrightarrow> r' = r \<or>
     (c_platform r = pg_uuid p \<and> c_id r = pg_uuid (text_of (ua_conn a)) \<and>
      c_generation r = pg_uuid (text_of (ua_generation a)) \<and>
      (\<forall>k. c_cursor r = Some k \<longrightarrow> k < bound_of a) \<and>
      (\<exists>t. r' = r\<lparr>c_cursor := Some (bound_of a), c_last_sync := Some t, c_updated := t\<rparr>))"

text \<open>
  The coverage is left alone, or it gains the interval from the posted start to the bound, in
  the rows of the named connection, which the named user owns and which is still in the
  caller's generation.
\<close>

definition range_advance :: "update_args \<Rightarrow> db \<Rightarrow> db \<Rightarrow> bool" where
  "range_advance a d d' \<longleftrightarrow> ranges d' = ranges d \<or>
     (\<exists>r \<in> set (conns d). c_id r = pg_uuid (text_of (ua_conn a)) \<and> c_owner r = ua_user a \<and>
        c_generation r = pg_uuid (text_of (ua_generation a)) \<and>
        (\<exists>f. nonneg_integer (ua_from a) = Some f \<and> f \<le> bound_of a \<and>
           ranges d' = ranges (put_ranges (c_id r)
             (merge_scan_range (ranges_of (c_id r) d) f (bound_of a)) d)))"

definition update_write :: "string \<Rightarrow> update_args \<Rightarrow> db \<Rightarrow> db \<Rightarrow> bool" where
  "update_write p a d d' \<longleftrightarrow>
     list_all2 (row_advance p a) (conns d) (conns d') \<and> range_advance a d d' \<and>
     platforms d' = platforms d \<and> sessions d' = sessions d \<and> subaccounts d' = subaccounts d \<and>
     txs d' = txs d \<and> utxos d' = utxos d"

lemma row_advance_refl: "list_all2 (row_advance p a) rs rs"
  by (simp add: row_advance_def list_all2_same)

interpretation upd: write_guarantee "update_write p a" for p a
  by unfold_locales (simp add: update_write_def row_advance_refl range_advance_def)

lemma list_all2_map_if:
  "(\<And>r. P r \<Longrightarrow> Q r (f r)) \<Longrightarrow> (\<And>r. Q r r) \<Longrightarrow> list_all2 Q rs (map (\<lambda>r. if P r then f r else r) rs)"
  by (simp add: list_all2_map2 list_all2_same)

lemma cursor_update_write:
  "update_write p a d (snd (cursor_update p (text_of (ua_conn a)) (text_of (ua_generation a))
     (bound_of a) e d))"
  unfolding cursor_update_def update_write_def update_conns_def
  by (auto simp: row_advance_refl range_advance_def cursor_match_def is_conn_def behind_def
      row_advance_def advance_row_def split: sum.split option.splits intro!: list_all2_map_if)

lemma record_range_write:
  assumes f: "nonneg_integer (ua_from a) = Some f" "f \<le> bound_of a"
  shows "update_write p a d (snd (record_stealth_scan_range
     \<lparr>p_connection_id = ua_conn a, p_from_height = f, p_to_height = bound_of a,
      p_app_user_id = ua_user a, p_scan_generation = ua_generation a\<rparr> e d))"
    (is "update_write p a d (snd (?run))")
proof (cases "ranges (snd ?run) = ranges d")
  case True
  then show ?thesis
    by (auto simp: record_stealth_scan_range_def update_write_def range_advance_def
        row_advance_refl Let_def put_ranges_def split: uuid_arg.splits list.splits)
next
  case False
  then obtain cid g r rs where a: "ua_conn a = Plain cid" "ua_generation a = Plain g"
    and r: "filter (\<lambda>r. c_id r = pg_uuid cid) (conns d) = r # rs"
    and ok: "c_owner r = ua_user a" "c_generation r = pg_uuid g"
    and run: "snd ?run = put_ranges (pg_uuid cid)
      (merge_scan_range (ranges_of (pg_uuid cid) d) f (bound_of a)) d"
    by (auto simp: record_stealth_scan_range_def Let_def split: uuid_arg.splits list.splits if_splits)
  have "r \<in> set (conns d)" "c_id r = pg_uuid cid"
    using r by (auto simp: filter_eq_Cons_iff)
  then show ?thesis
    using a ok f run
    by (auto simp: update_write_def range_advance_def row_advance_refl put_ranges_def)
qed

lemma auth_fail_keeps_upd: "upd.keeps p a (auth_fail n m)"
  unfolding auth_fail_def by (rule upd.keeps_return)

lemma advanceCursor_keeps:
  "upd.keeps p a (advanceCursor p (text_of (ua_conn a)) (ua_height a) (ua_generation a) (ua_ceiling a))"
  unfolding advanceCursor_def Let_def
  by (intro upd.keeps_bind upd.keeps_request cursor_update_write upd.keeps_sum upd.keeps_option
      upd.keeps_return upd.keeps_query upd.keeps_if auth_fail_keeps_upd)

lemma advanceCursor_bounded:
  "result_of (advanceCursor p c h g ceil) w = Inr res \<Longrightarrow> boundedHeight res = boundCursorAdvance h ceil"
  unfolding advanceCursor_def Let_def auth_fail_def
  by (auto split: sum.splits option.splits if_splits)

lemma recordScanRange_keeps:
  "upd.keeps p a (recordScanRange \<lparr>rr_connection = ua_conn a, rr_user = ua_user a,
     rr_last = bound_of a, rr_from = ua_from a, rr_generation = ua_generation a\<rparr>)"
  unfolding recordScanRange_def buildScanRangeArgs_def
  by (auto split: option.splits sum.splits if_splits intro!: upd.keeps_request record_range_write)

lemma advance_and_record_keeps: "upd.keeps p a (advance_and_record p a)"
  unfolding advance_and_record_def
  by (rule upd.keeps_bind_result [OF advanceCursor_keeps])
    (use recordScanRange_keeps [of p a] in \<open>auto simp: advanceCursor_bounded split: sum.split\<close>)

lemma update_for_keeps: "upd.keeps p a (update_for p a)"
  unfolding update_for_def
  by (intro upd.keeps_bind upd.keeps_query upd.keeps_sum upd.keeps_option upd.keeps_if
      upd.keeps_return advance_and_record_keeps)

lemma update_for_logs: "logs (update_for p a)"
  by (rule any_write.keeps_mono [OF upd.write_guarantee_axioms update_for_keeps]) simp

section \<open>Undisturbed runs\<close>

lemma cursor_rows:
  "filter (cursor_match p c g b) (conns d) =
     filter (\<lambda>r. c_generation r = pg_uuid g \<and> behind b r) (conn_rows p c d)"
  unfolding conn_rows_def filter_filter
  by (rule filter_cong) (auto simp: cursor_match_def)

lemma cursor_update_one:
  assumes "conn_rows p c d = [r]" "is_int4 b"
  shows "cursor_update p c g b e d =
    (if c_generation r = pg_uuid g \<and> behind b r
     then (Inr (Some r), update_conns (cursor_match p c g b) (advance_row b (clock e)) d)
     else (Inr None, d))"
  using assms
  by (auto simp: cursor_update_def cursor_rows update_conns_none)

lemma conn_rows_advance:
  "conn_rows p c (update_conns (cursor_match p c g b) (advance_row b t) d) =
     map (\<lambda>r. if cursor_match p c g b r then advance_row b t r else r) (conn_rows p c d)"
  by (rule conn_rows_update) (simp add: is_conn_def advance_row_def)

lemma record_conns [simp]: "conns (snd (record_stealth_scan_range args e d)) = conns d"
  unfolding record_stealth_scan_range_def
  by (auto simp: Let_def put_ranges_def split: uuid_arg.splits list.splits)

lemma recordScanRange_conns:
  "calm w \<Longrightarrow> conns (store (world_after (recordScanRange q) w)) = conns (store w)"
  unfolding recordScanRange_def by (auto simp: run_simps split: option.splits sum.splits)

definition sample_update :: update_args where
  "sample_update = \<lparr>ua_conn = Plain C1, ua_user = ''alice'', ua_generation = Plain G1,
     ua_height = 150, ua_ceiling = None, ua_from = Some (JNum (jsint 100))\<rparr>"

definition sample_update_body :: json where
  "sample_update_body = JObj [(''connection_id'', JStr C1), (''app_user_id'', JStr ''alice''),
     (''scan_generation'', JStr G1), (''last_block_scanned'', JNum (jsint 150)),
     (''from_height'', JNum (jsint 100))]"

lemma sample_rows [simp]: "conn_rows P1 C1 db1 = [conn1]"
  by (simp add: conn_rows_def db1_def conn1_def is_conn_def)

lemma sample_bound [simp]: "boundCursorAdvance n None = n"
  by (simp add: boundCursorAdvance_def isContiguousScannedHeight_def)

lemma parse_sample_update: "parse_update_body sample_update_body = Inr sample_update"
  by (simp add: parse_update_body_def sample_update_body_def sample_update_def)

lemma sample_update_steps:
  "(db1, update_conns (cursor_match P1 C1 G1 150) (advance_row 150 7) db1) \<in>
     set (steps (envelope_update (sample_runtime sample_update_body) sample_request)
       (calm_world db1 7 G2))"
proof -
  have "sample_update_body \<noteq> JNull" by (simp add: sample_update_body_def)
  note run = sample_endpoint [where d = db1 and parse = parse_update_body, OF refl this parse_sample_update]
  have "boundCursorAdvance 150 None = 150" "is_int4 150" by (simp_all add: is_int4_def)
  then show ?thesis
    unfolding steps_def envelope_update_def run
    by (simp add: update_for_def advance_and_record_def advanceCursor_def sample_update_def
        Let_def run_simps cursor_update_one conn1_def behind_def recordScanRange_def buildScanRangeArgs_def split: sum.split)
qed

section \<open>Properties\<close>



lemma advanceCursor_calm:
  fixes g :: uuid_arg
  assumes w: "calm w" and r: "conn_rows p c (store w) = [r]"
    and b: "b = boundCursorAdvance h ceil" "is_int4 b"
  defines "run \<equiv> run_state (advanceCursor p c h g ceil) w"
  shows "c_generation r \<noteq> pg_uuid (text_of g) \<Longrightarrow> Plain (c_generation r) \<noteq> g \<Longrightarrow>
      fst run = Inl (409, ''Connection was reset since this sync began; stale write refused'') \<and>
      store (snd run) = store w"
    and "c_generation r = pg_uuid (text_of g) \<Longrightarrow> behind b r \<Longrightarrow>
      fst run = Inr \<lparr>effectiveCursor = b, boundedHeight = b\<rparr> \<and>
      (\<exists>t. store (snd run) = update_conns (cursor_match p c (text_of g) b) (advance_row b t) (store w))"
    and "c_cursor r = Some k \<Longrightarrow> b \<le> k \<Longrightarrow> g = Plain (c_generation r) \<Longrightarrow>
      fst run = Inr \<lparr>effectiveCursor = k, boundedHeight = b\<rparr> \<and> store (snd run) = store w"
  using w r b(2)
  by (auto simp: run_def advanceCursor_def b(1) [symmetric] Let_def run_simps cursor_update_one
      auth_fail_def behind_def)

lemma calm_advanceCursor: "calm w \<Longrightarrow> calm (world_after (advanceCursor p c h g ceil) w)"
  by (simp add: advanceCursor_def Let_def run_simps auth_fail_def split: sum.split option.split)

lemma advance_and_record_calm:
  fixes p :: string and a :: update_args and w :: world
  defines "adv \<equiv> run_state (advanceCursor p (text_of (ua_conn a)) (ua_height a) (ua_generation a)
    (ua_ceiling a)) w"
  assumes w: "calm w" and res: "fst adv = Inr res"
  shows "\<exists>ans. result_of (advance_and_record p a) w = Answer ans \<and>
    up_cursor ans = effectiveCursor res \<and>
    conns (store (world_after (advance_and_record p a) w)) = conns (store (snd adv))"
  using res calm_advanceCursor [OF w]
  by (simp add: adv_def advance_and_record_def recordScanRange_conns)

lemma update_for_owner:
  assumes "calm w" "conn_rows p (text_of (ua_conn a)) (store w) = [r]" "c_owner r = ua_user a"
  shows "run_state (update_for p a) w = run_state (advance_and_record p a)
    (w\<lparr>tick := Suc (tick w), log := log w @ [(store w, store w)]\<rparr>)"
  using assms by (simp add: update_for_def run_simps)

lemma conn_rows_cong: "conns d = conns d' \<Longrightarrow> conn_rows p c d = conn_rows p c d'"
  by (simp add: conn_rows_def)

lemma is_conn_row: "conn_rows p c d = [r] \<Longrightarrow> is_conn p c r"
  by (auto simp: conn_rows_def filter_eq_Cons_iff)

text \<open>
  Without interference the reply tells the stored cursor: for a caller that owns the row and
  holds its generation, the call succeeds, the stored cursor becomes the maximum of its old
  value and the bound, and \<open>last_block_scanned\<close> in the reply is that value.
\<close>

theorem envelope_update_reply_is_stored:
  assumes w: "calm w" and r: "conn_rows p (text_of (ua_conn a)) (store w) = [r]"
    and owner: "c_owner r = ua_user a"
    and g: "ua_generation a = Plain (c_generation r)" "pg_uuid (c_generation r) = c_generation r"
    and b: "is_int4 (bound_of a)"
  shows "\<exists>ans r'. result_of (update_for p a) w = Answer ans \<and>
    conn_rows p (text_of (ua_conn a)) (store (world_after (update_for p a) w)) = [r'] \<and>
    c_cursor r' = Some (up_cursor ans) \<and>
    up_cursor ans = (case c_cursor r of None \<Rightarrow> bound_of a | Some k \<Rightarrow> max k (bound_of a))"
proof -
  let ?c = "text_of (ua_conn a)" and ?b = "bound_of a"
  let ?w = "w\<lparr>tick := Suc (tick w), log := log w @ [(store w, store w)]\<rparr>"
  let ?adv = "run_state (advanceCursor p ?c (ua_height a) (ua_generation a) (ua_ceiling a)) ?w"
  have w': "calm ?w" "conn_rows p ?c (store ?w) = [r]" using w r by simp_all
  note run = update_for_owner [OF w r owner]
  note adv = advanceCursor_calm [OF w' refl b, where g = "ua_generation a"]
  note rest = advance_and_record_calm [OF w'(1), of p a]
  show ?thesis
  proof (cases "behind ?b r")
    case True
    have "cursor_match p ?c (c_generation r) ?b r"
      using True g(2) is_conn_row [OF r] by (simp add: cursor_match_def)
    then have "\<exists>t. conn_rows p ?c (store (snd ?adv)) = [advance_row ?b t r]"
      using adv(2) True g r by (auto simp: conn_rows_advance)
    then show ?thesis
      using True adv(2) rest g unfolding run
      by (auto simp: advance_row_def behind_def max_def cong: conn_rows_cong split: option.splits)
  next
    case False
    then obtain k where k: "c_cursor r = Some k" "?b \<le> k" by (auto simp: behind_def split: option.splits)
    then show ?thesis
      using adv(3) rest g r unfolding run by (auto cong: conn_rows_cong)
  qed
qed

theorem envelope_update_reply_is_stored_witness:
  "\<exists>ans. result_of (update_for P1 sample_update) (calm_world db1 7 G2) = Answer ans \<and>
     up_cursor ans = 150"
proof -
  have "c_cursor conn1 = Some 100" by (simp add: conn1_def)
  then show ?thesis
    using envelope_update_reply_is_stored [of "calm_world db1 7 G2" P1 sample_update conn1]
    by (auto simp: sample_update_def conn1_def is_int4_def)
qed

text \<open>
  A write from before a reset changes nothing: when the stored generation is not the posted
  one, the call is refused with 409 and the tables stay as they are, coverage included.
\<close>

theorem stale_generation_refused:
  assumes w: "calm w" and r: "conn_rows p (text_of (ua_conn a)) (store w) = [r]"
    and owner: "c_owner r = ua_user a" and b: "is_int4 (bound_of a)"
    and g: "c_generation r \<noteq> pg_uuid (text_of (ua_generation a))"
      "pg_uuid (c_generation r) = c_generation r"
  shows "result_of (update_for p a) w =
      Refused 409 ''Connection was reset since this sync began; stale write refused'' \<and>
    store (world_after (update_for p a) w) = store w"
proof -
  let ?w = "w\<lparr>tick := Suc (tick w), log := log w @ [(store w, store w)]\<rparr>"
  have "Plain (c_generation r) \<noteq> ua_generation a" using g by (cases "ua_generation a") auto
  then show ?thesis
    using advanceCursor_calm(1) [of ?w p "text_of (ua_conn a)" r _ "ua_height a" "ua_ceiling a",
        OF _ _ refl b g(1)] w r
    by (simp add: update_for_owner [OF w r owner] advance_and_record_def)
qed

theorem stale_generation_refused_witness:
  "result_of (update_for P1 (sample_update\<lparr>ua_generation := Plain G2\<rparr>)) (calm_world db1 7 G2) =
     Refused 409 ''Connection was reset since this sync began; stale write refused''"
  using stale_generation_refused [of "calm_world db1 7 G2" P1
      "sample_update\<lparr>ua_generation := Plain G2\<rparr>" conn1]
  by (simp add: sample_update_def conn1_def is_int4_def)

text \<open>
  The two comparisons of the generation disagree on letter case.  A caller that posts the
  current generation in upper case passes the database's \<open>uuid\<close> comparison, so its write lands
  when the cursor is behind; when there is nothing to advance, the string comparison of the
  re-read answers 409, as if the connection had been reset.
\<close>

theorem generation_case_mismatch:
  assumes w: "calm w" and r: "conn_rows p (text_of (ua_conn a)) (store w) = [r]"
    and owner: "c_owner r = ua_user a" and b: "is_int4 (bound_of a)"
    and g: "ua_generation a = Plain g" "pg_uuid g = c_generation r" "g \<noteq> c_generation r"
  shows "(behind (bound_of a) r \<longrightarrow> (\<exists>ans. result_of (update_for p a) w = Answer ans)) \<and>
    (\<not> behind (bound_of a) r \<longrightarrow> result_of (update_for p a) w =
       Refused 409 ''Connection was reset since this sync began; stale write refused'')"
proof -
  let ?w = "w\<lparr>tick := Suc (tick w), log := log w @ [(store w, store w)]\<rparr>"
  note adv = advanceCursor_calm(2) [of ?w p "text_of (ua_conn a)" r _ "ua_height a" "ua_ceiling a"
      "ua_generation a", OF _ _ refl b]
  have no: "result_of (advanceCursor p (text_of (ua_conn a)) (ua_height a) (ua_generation a)
      (ua_ceiling a)) ?w = Inl (409, ''Connection was reset since this sync began; stale write refused'')"
    if "\<not> behind (bound_of a) r"
    using that w r b g
    by (simp add: advanceCursor_def Let_def run_simps cursor_update_one auth_fail_def)
  show ?thesis
    using adv no advance_and_record_calm [of ?w p a] w r g
    unfolding update_for_owner [OF w r owner]
    by (auto simp: advance_and_record_def)
qed

theorem generation_case_mismatch_witness:
  "result_of (update_for P1 \<lparr>ua_conn = Plain C1, ua_user = ''alice'',
       ua_generation = Plain ''ABCDEFAB-3333-4333-8333-333333333333'', ua_height = 90,
       ua_ceiling = None, ua_from = None\<rparr>)
     (calm_world (db1\<lparr>conns := [conn1\<lparr>c_generation := ''abcdefab-3333-4333-8333-333333333333''\<rparr>]\<rparr>) 7 G2) =
     Refused 409 ''Connection was reset since this sync began; stale write refused''"
proof -
  let ?r = "conn1\<lparr>c_generation := ''abcdefab-3333-4333-8333-333333333333''\<rparr>"
  let ?a = "\<lparr>ua_conn = Plain C1, ua_user = ''alice'',
       ua_generation = Plain ''ABCDEFAB-3333-4333-8333-333333333333'', ua_height = 90,
       ua_ceiling = None, ua_from = None\<rparr>"
  have low: "pg_uuid ''ABCDEFAB-3333-4333-8333-333333333333'' = ''abcdefab-3333-4333-8333-333333333333''"
    by code_simp
  have row: "conn_rows P1 C1 (db1\<lparr>conns := [?r]\<rparr>) = [?r]"
    by (simp add: conn_rows_def is_conn_def conn1_def)
  show ?thesis
    using generation_case_mismatch [of "calm_world (db1\<lparr>conns := [?r]\<rparr>) 7 G2" P1 ?a ?r
        "''ABCDEFAB-3333-4333-8333-333333333333''"] low row
    by (simp add: conn1_def is_int4_def behind_def)
qed

lemma js_includes_split: "js_includes pat s \<Longrightarrow> \<exists>xs ys. s = xs @ pat @ ys"
proof (induction s)
  case (Cons c s)
  show ?case
  proof (cases "take (length pat) (c # s) = pat")
    case True
    then show ?thesis by (metis append_Nil append_take_drop_id)
  next
    case False
    then obtain xs ys where "s = xs @ pat @ ys" using Cons by auto
    then show ?thesis by (metis append_Cons)
  qed
qed simp

lemma js_includes_append: "js_includes pat (xs @ pat @ ys)"
proof (induction xs)
  case Nil
  have "take (length pat) (pat @ ys) = pat" by simp
  then show ?case by (cases "pat @ ys") auto
qed simp

lemma uuid_chars: "is_uuid c \<Longrightarrow> x \<in> set c \<Longrightarrow> x = CHR ''-'' \<or> is_hex x"
proof -
  assume c: "is_uuid c" "x \<in> set c"
  then obtain i where "i < 36" "x = c ! i" by (auto simp: is_uuid_def in_set_conv_nth)
  then have "(i, x) \<in> set (zip [0..<36] c)"
    using c by (force simp: set_zip is_uuid_def)
  then show ?thesis using c by (auto simp: is_uuid_def list_all_iff split: if_splits)
qed

lemma uuid_without_w:
  assumes "is_uuid c"
  shows "CHR ''w'' \<notin> set (pg_uuid c)"
proof -
  have "list_all (\<lambda>x. lower_char x \<noteq> CHR ''w'') ''-0123456789abcdefABCDEF''" by code_simp
  then show ?thesis
    using uuid_chars [OF assms] by (fastforce simp: pg_uuid_def is_hex_def list_all_iff)
qed

lemma ownership_marked: "js_includes ''does not own connection'' (ownership_message u c)"
  using js_includes_append [of "''does not own connection''"
    "''record_stealth_scan_range: caller '' @ u @ '' ''" "CHR '' '' # c"]
  by (simp add: ownership_message_def)

lemma missing_unmarked:
  assumes "CHR ''w'' \<notin> set c"
  shows "\<not> js_includes ''does not own connection''
    (''record_stealth_scan_range: connection '' @ c @ '' not found or has no owner'')"
proof
  assume "js_includes ''does not own connection''
    (''record_stealth_scan_range: connection '' @ c @ '' not found or has no owner'')"
  then obtain xs ys where
    "''record_stealth_scan_range: connection '' @ c @ '' not found or has no owner'' =
      xs @ ''does not own connection'' @ ys"
    using js_includes_split by blast
  then have "(''record_stealth_scan_range: connection '' @ c @ '' not found or has no o'') @
      CHR ''w'' # ''ner'' = (xs @ ''does not o'') @ CHR ''w'' # (''n connection'' @ ys)"
    by simp
  then have "''ner'' = ''n connection'' @ ys"
    by (subst (asm) append_Cons_eq_iff) (use assms in simp_all)
  then show False by simp
qed

lemma stale_unmarked:
  assumes "CHR ''w'' \<notin> set c"
  shows "\<not> js_includes ''does not own connection'' (stale_message c)"
proof
  assume "js_includes ''does not own connection'' (stale_message c)"
  then obtain xs ys where "stale_message c = xs @ ''does not own connection'' @ ys"
    using js_includes_split by blast
  then have "CHR ''w'' \<in> set (stale_message c)" by (simp only: set_append) simp
  then show False using assms by (simp add: stale_message_def)
qed

text \<open>
  How a failed range write is reported.  The outcome is \<open>Recorded\<close> when owner and generation
  match; \<open>Rejected\<close>, which is swallowed, exactly when the row has another owner; and \<open>Failed\<close>
  with the code of the guard, which reaches the reply, when the row is gone or was reset: the
  classifier tells the guard's three \<open>P0001\<close> errors apart for every identifier and user.
\<close>

theorem range_outcome_classified:
  assumes w: "calm w" and args: "buildScanRangeArgs q = Some args"
    and ids: "rr_connection q = Plain cid" "rr_generation q = Plain g" "is_uuid cid"
    and h: "is_int4 (rr_last q)"
    and rows: "filter (\<lambda>r. c_id r = pg_uuid cid) (conns (store w)) = rows"
    and norm: "normalized (ranges_of (pg_uuid cid) (store w))"
      "\<forall>row \<in> set (ranges_of (pg_uuid cid) (store w)). 0 \<le> fst row"
  shows "result_of (recordScanRange q) w =
    (case rows of
       [] \<Rightarrow> Failed ''P0001''
         (''record_stealth_scan_range: connection '' @ pg_uuid cid @ '' not found or has no owner'')
     | r # _ \<Rightarrow>
         if c_owner r \<noteq> rr_user q then Rejected ''P0001''
         else if c_generation r \<noteq> pg_uuid g
         then Failed ''P0001''
           (stale_message (pg_uuid cid))
         else Recorded)"
proof -
  let ?c = "pg_uuid cid"
  obtain f where q: "nonneg_integer (rr_from q) = Some f" "f \<le> rr_last q"
    and a: "args = \<lparr>p_connection_id = Plain cid, p_from_height = f, p_to_height = rr_last q,
      p_app_user_id = rr_user q, p_scan_generation = Plain g\<rparr>"
    using args ids by (auto simp: buildScanRangeArgs_def split: option.splits if_splits)
  have f: "0 \<le> f" using q(1) by (cases "rr_from q" rule: nonneg_integer.cases) (auto split: if_splits)
  let ?new = "merge_scan_range (ranges_of ?c (store w)) f (rr_last q)"
  have new: "?new \<noteq> []" by (simp add: merge_scan_range_def Let_def)
  have ok: "is_int4 f" "0 \<le> fst (last ?new)" "fst (last ?new) \<le> snd (last ?new)"
    using f q(2) h normalized_nonempty [OF normalized_merge [OF norm(1) q(2)], of "last ?new"] new
      merge_nonneg [OF norm(1) q(2) f norm(2)] by (auto simp: is_int4_def)
  note unmarked = missing_unmarked stale_unmarked
  show ?thesis
    using w rows ok h ownership_marked unmarked [OF uuid_without_w [OF ids(3)]]
    by (auto simp: recordScanRange_def args a run_simps record_stealth_scan_range_def Let_def
        classifyScanRangeError_def pg_error_def split: list.split)
qed

theorem range_outcome_classified_witness:
  "result_of (recordScanRange \<lparr>rr_connection = Plain C1, rr_user = ''mallory'', rr_last = 150,
      rr_from = Some (JNum (jsint 100)), rr_generation = Plain G1\<rparr>) (calm_world db1 7 G2) =
     Rejected ''P0001''"
proof -
  let ?q = "\<lparr>rr_connection = Plain C1, rr_user = ''mallory'', rr_last = 150,
      rr_from = Some (JNum (jsint 100)), rr_generation = Plain G1\<rparr>"
  have "buildScanRangeArgs ?q = Some \<lparr>p_connection_id = Plain C1, p_from_height = 100,
      p_to_height = 150, p_app_user_id = ''mallory'', p_scan_generation = Plain G1\<rparr>"
    by (simp add: buildScanRangeArgs_def)
  from range_outcome_classified [of "calm_world db1 7 G2", OF _ this, of C1 G1 "[conn1]"]
  show ?thesis by (simp add: is_int4_def db1_def conn1_def ranges_of_def)
qed

end
