(* ===== verification/TransactionStore.thy ===== *)
theory TransactionStore
  imports EnvelopeUpdate
begin

text \<open>
  The endpoint that stores sealed transactions: \<open>or-stealth-transactions-store/index.ts\<close> with the two
  database functions it calls, \<open>store_stealth_transactions_atomic\<close> and \<open>upsert_stealth_utxos\<close>.
\<close>

section \<open>Request validation\<close>

record sealed_tx =
  st_iv :: string
  st_cipher :: string
  st_date :: string
  st_height :: int
  st_blind :: string
  st_hash :: "string option"

fun string_field :: "json \<Rightarrow> string \<Rightarrow> string option" where
  "string_field x k = (case field x k of Some (JStr s) \<Rightarrow> Some s | _ \<Rightarrow> None)"

text \<open>The test \<open>isSealedTx\<close>, with the fields of the record it accepts.\<close>

definition isSealedTx :: "json \<Rightarrow> sealed_tx option" where
  "isSealedTx x =
     (if field x ''version'' \<noteq> Some (JNum (Fin 1)) \<or>
         field x ''algorithm'' \<noteq> Some (JStr ''AES-256-GCM'') then None
      else case (string_field x ''iv_b64'', string_field x ''ciphertext_b64'',
                 string_field x ''occurred_at'', nonneg_integer (field x ''block_height''),
                 string_field x ''txid_blind_index_hex'') of
        (Some iv, Some ct, Some day, Some h, Some blind) \<Rightarrow>
          if \<not> is_iso_date day \<or> \<not> is_hex64 blind then None
          else (case field x ''block_hash_hex'' of
                  None \<Rightarrow> Some \<lparr>st_iv = iv, st_cipher = ct, st_date = day, st_height = h,
                                st_blind = blind, st_hash = None\<rparr>
                | Some (JStr bh) \<Rightarrow>
                    if is_hex64 bh
                    then Some \<lparr>st_iv = iv, st_cipher = ct, st_date = day, st_height = h,
                               st_blind = blind, st_hash = Some bh\<rparr>
                    else None
                | _ \<Rightarrow> None)
      | _ \<Rightarrow> None)"

definition isSealedUtxosInput :: "json \<Rightarrow> bool" where
  "isSealedUtxosInput x \<longleftrightarrow>
     field x ''version'' = Some (JNum (Fin 1)) \<and>
     field x ''algorithm'' = Some (JStr ''AES-256-GCM'') \<and>
     string_field x ''iv_b64'' \<noteq> None \<and> string_field x ''ciphertext_b64'' \<noteq> None"

definition MAX_TX_PER_REQUEST :: nat where "MAX_TX_PER_REQUEST = 10000"
definition MAX_SEALED_RECORD_BYTES :: nat where "MAX_SEALED_RECORD_BYTES = 16384"

fun check_txs :: "runtime \<Rightarrow> nat \<Rightarrow> json list \<Rightarrow> auth_error + sealed_tx list" where
  "check_txs rt i [] = Inr []"
| "check_txs rt i (x # xs) =
     (case isSealedTx x of
        None \<Rightarrow> Inl (400, ''sealed_transactions['' @ nat_text i @ ''] is malformed'')
      | Some tx \<Rightarrow>
          if stringify_length rt x > MAX_SEALED_RECORD_BYTES
          then Inl (413, ''sealed_transactions['' @ nat_text i @ ''] exceeds max size'')
          else (case check_txs rt (Suc i) xs of Inl e \<Rightarrow> Inl e | Inr ts \<Rightarrow> Inr (tx # ts)))"

record store_args =
  sa_conn :: uuid_arg
  sa_user :: string
  sa_txs :: "sealed_tx list"
  sa_scanned :: "json option"
  sa_utxos :: "json option"
  sa_generation :: uuid_arg

definition parse_store_body :: "runtime \<Rightarrow> json \<Rightarrow> auth_error + store_args" where
  "parse_store_body rt body =
     (case uuid_value (field body ''connection_id'') of
        None \<Rightarrow> Inl (400, ''connection_id (uuid) required'')
      | Some c \<Rightarrow>
     (case nonempty_string (field body ''app_user_id'') of
        None \<Rightarrow> Inl (400, ''app_user_id required'')
      | Some u \<Rightarrow>
     (case field body ''sealed_transactions'' of
        Some (JArr xs) \<Rightarrow>
          if length xs > MAX_TX_PER_REQUEST
          then Inl (413, ''sealed_transactions exceeds max 10000 per request'')
          else (case check_txs rt 0 xs of
                  Inl e \<Rightarrow> Inl e
                | Inr ts \<Rightarrow>
          if nonneg_integer (field body ''last_block_scanned'') = None
          then Inl (400, ''last_block_scanned must be a non-negative integer'')
          else if (case field body ''sealed_utxos'' of None \<Rightarrow> False
                   | Some x \<Rightarrow> \<not> isSealedUtxosInput x)
          then Inl (400, ''sealed_utxos is malformed'')
          else (case uuid_value (field body ''scan_generation'') of
                  None \<Rightarrow> Inl (400, ''scan_generation (uuid) required'')
                | Some g \<Rightarrow> Inr \<lparr>sa_conn = c, sa_user = u, sa_txs = ts,
                     sa_scanned = field body ''last_block_scanned'',
                     sa_utxos = field body ''sealed_utxos'', sa_generation = g\<rparr>))
      | _ \<Rightarrow> Inl (400, ''sealed_transactions must be an array''))))"

section \<open>The atomic write\<close>

record insert_row =
  in_sealed :: json
  in_date :: string
  in_height :: int
  in_blind :: string
  in_hash :: "string option"

definition row_of_tx :: "sealed_tx \<Rightarrow> insert_row" where
  "row_of_tx tx = \<lparr>
     in_sealed = JObj [(''version'', JNum (Fin 1)), (''algorithm'', JStr ''AES-256-GCM''),
       (''iv_b64'', JStr (st_iv tx)), (''ciphertext_b64'', JStr (st_cipher tx))],
     in_date = st_date tx, in_height = st_height tx, in_blind = st_blind tx, in_hash = st_hash tx\<rparr>"

text \<open>The cast of a date string: a real day of the proleptic Gregorian calendar, year 1 on.\<close>

fun digits_value :: "string \<Rightarrow> nat" where
  "digits_value s = foldl (\<lambda>n c. 10 * n + (of_char c - 48)) 0 s"

definition days_in_month :: "nat \<Rightarrow> nat \<Rightarrow> nat" where
  "days_in_month y m =
     (if m = 2 then (if y mod 4 = 0 \<and> (y mod 100 \<noteq> 0 \<or> y mod 400 = 0) then 29 else 28)
      else if m \<in> {4, 6, 9, 11} then 30 else 31)"

definition is_pg_date :: "string \<Rightarrow> bool" where
  "is_pg_date s \<longleftrightarrow> is_iso_date s \<and>
     (let y = digits_value (take 4 s); m = digits_value (take 2 (drop 5 s));
          day = digits_value (drop 8 s)
      in 1 \<le> y \<and> 1 \<le> m \<and> m \<le> 12 \<and> 1 \<le> day \<and> day \<le> days_in_month y m)"

text \<open>\<open>INSERT \<dots> ON CONFLICT (connection_id, txid_blind_index_hex) DO NOTHING\<close>, row by row.\<close>

definition tx_known :: "string \<Rightarrow> string \<Rightarrow> tx_row list \<Rightarrow> bool" where
  "tx_known c b ts \<longleftrightarrow> (\<exists>t \<in> set ts. t_conn t = c \<and> t_blind t = b)"

fun insert_rows :: "string \<Rightarrow> event \<Rightarrow> insert_row list \<Rightarrow> tx_row list \<Rightarrow> nat \<times> tx_row list" where
  "insert_rows c e [] ts = (0, ts)"
| "insert_rows c e (r # rs) ts =
     (if tx_known c (in_blind r) ts then insert_rows c e rs ts
      else let (n, ts') = insert_rows c e rs (ts @
             [\<lparr>t_id = fresh_ids e (length ts), t_conn = c, t_sealed = in_sealed r,
               t_date = in_date r, t_height = in_height r, t_blind = in_blind r,
               t_hash = in_hash r, t_orphaned = None, t_created = clock e\<rparr>])
           in (Suc n, ts'))"

definition store_row :: "nat \<Rightarrow> int \<Rightarrow> int \<Rightarrow> nat \<Rightarrow> conn_row \<Rightarrow> conn_row" where
  "store_row inserted adv coalesced t r =
     r\<lparr>c_last_sync := Some t,
       c_cursor := (if inserted > 0 \<and> adv > coalesced then Some adv else c_cursor r),
       c_updated := t\<rparr>"

definition cursor_or :: "conn_row \<Rightarrow> int" where
  "cursor_or r = (case c_cursor r of None \<Rightarrow> - 1 | Some k \<Rightarrow> k)"

definition store_match :: "string \<Rightarrow> string \<Rightarrow> string \<Rightarrow> conn_row \<Rightarrow> bool" where
  "store_match p c g r \<longleftrightarrow> is_conn p c r \<and> c_generation r = pg_uuid g"

definition store_stealth_transactions_atomic ::
    "uuid_arg \<Rightarrow> string \<Rightarrow> uuid_arg \<Rightarrow> insert_row list \<Rightarrow> int \<Rightarrow> event \<Rightarrow> db \<Rightarrow>
       (rpc_error + nat \<times> nat) \<times> db" where
  "store_stealth_transactions_atomic carg p garg rows adv e d =
     (case (carg, garg) of
        (Plain c, Plain g) \<Rightarrow>
          if \<not> is_int4 adv then (Inl int4_error, d)
          else (case conn_rows p c d of
             [] \<Rightarrow> (Inr (404, 0), d)
           | r # _ \<Rightarrow>
               if c_generation r \<noteq> pg_uuid g then (Inr (409, 0), d)
               else if \<not> list_all (\<lambda>x. is_pg_date (in_date x) \<and> is_int4 (in_height x)) rows
               then (Inl (pg_error ''22008'' ''value out of range''), d)
               else let (n, ts) = insert_rows (pg_uuid c) e rows (txs d) in
                    (Inr (200, n),
                     update_conns (store_match p c g) (store_row n adv (cursor_or r) (clock e))
                       (d\<lparr>txs := ts\<rparr>)))
      | _ \<Rightarrow> (Inl uuid_error, d))"

section \<open>The UTXO set\<close>

definition upsert_utxo :: "string \<Rightarrow> json \<Rightarrow> int \<Rightarrow> utxo_row list \<Rightarrow> utxo_row list" where
  "upsert_utxo c sealed h us =
     (if \<exists>u \<in> set us. u_conn u = c
      then map (\<lambda>u. if u_conn u = c \<and> u_scanned u \<le> h
                    then u\<lparr>u_sealed := sealed, u_scanned := h\<rparr> else u) us
      else us @ [\<lparr>u_conn = c, u_sealed = sealed, u_scanned = h\<rparr>])"

definition upsert_stealth_utxos :: "uuid_arg \<Rightarrow> json \<Rightarrow> int \<Rightarrow> event \<Rightarrow> db \<Rightarrow> (rpc_error + unit) \<times> db" where
  "upsert_stealth_utxos carg sealed h e d =
     (case carg of
        Boxed _ \<Rightarrow> (Inl uuid_error, d)
      | Plain c \<Rightarrow>
          if \<not> is_int4 h then (Inl int4_error, d)
          else if h < 0 then (Inl (pg_error ''P0001'' ''upsert_stealth_utxos: scanned_to must be non-negative''), d)
          else if \<forall>r \<in> set (conns d). c_id r \<noteq> pg_uuid c
          then (Inl (pg_error ''P0001'' (''upsert_stealth_utxos: connection '' @ pg_uuid c
                   @ '' not found or has no owner'')), d)
          else (Inr (), d\<lparr>utxos := upsert_utxo (pg_uuid c) sealed h (utxos d)\<rparr>))"

section \<open>The handler\<close>

definition deriveResponseCursor :: "int option \<Rightarrow> nat \<Rightarrow> int \<Rightarrow> json option \<Rightarrow> int option" where
  "deriveResponseCursor stored inserted maxBlock client =
     (let candidate = boundCursorAdvance maxBlock client;
          advanced = (inserted > 0 \<and> candidate > (case stored of None \<Rightarrow> - 1 | Some k \<Rightarrow> k))
      in if advanced then Some candidate else stored)"

record store_answer =
  so_connection :: uuid_arg
  so_inserted :: nat
  so_total :: nat
  so_skipped :: nat
  so_cursor :: "int option"
  so_utxo_failed :: bool

definition stamp_attempt :: "string \<Rightarrow> string \<Rightarrow> (rpc_error + unit) io" where
  "stamp_attempt p c = request (\<lambda>e d. (Inr (),
     update_conns (is_conn p c) (\<lambda>r. r\<lparr>c_attempt := Some (clock e), c_updated := clock e\<rparr>) d))"

text \<open>The duplicates among the submitted blind indexes, and the rows that are left.\<close>

definition known_blinds :: "runtime \<Rightarrow> string \<Rightarrow> sealed_tx list \<Rightarrow> (rpc_error + string list) io" where
  "known_blinds rt c ts = query (\<lambda>e d. Inr (capped rt (map t_blind (filter
     (\<lambda>t. t_conn t = pg_uuid c \<and> t_blind t \<in> st_blind ` set ts) (txs d)))))"

definition fresh_rows :: "string list \<Rightarrow> sealed_tx list \<Rightarrow> insert_row list" where
  "fresh_rows existing ts = filter (\<lambda>r. in_blind r \<notin> set existing) (map row_of_tx ts)"

definition max_block :: "insert_row list \<Rightarrow> int" where
  "max_block rows = (if rows = [] then - 1 else Max (set (map in_height rows)))"

definition persist_utxos :: "store_args \<Rightarrow> int \<Rightarrow> bool io" where
  "persist_utxos a scannedTo =
     (case sa_utxos a of
        None \<Rightarrow> State_Monad.return False
      | Some sealed \<Rightarrow> do {
          done \<leftarrow> request (upsert_stealth_utxos (sa_conn a) sealed scannedTo);
          State_Monad.return (case done of Inl _ \<Rightarrow> True | Inr _ \<Rightarrow> False)
        })"

text \<open>From the dedup result on: the atomic write, the UTXO set, the reply.\<close>

definition write_batch ::
    "string \<Rightarrow> store_args \<Rightarrow> int option \<Rightarrow> insert_row list \<Rightarrow> store_answer reply io" where
  "write_batch p a stored fresh = (
     let adv = boundCursorAdvance (max_block fresh) (sa_scanned a) in do {
       res \<leftarrow> request (store_stealth_transactions_atomic (sa_conn a) p (sa_generation a) fresh adv);
       case res of
         Inl _ \<Rightarrow> State_Monad.return (Refused 500 ''Failed to store transactions'')
       | Inr (http, inserted) \<Rightarrow>
           if http = 409 then State_Monad.return
             (Refused 409 ''Connection was reset since this sync began; stale write refused'')
           else if http = 404 then State_Monad.return (Refused 404 ''Connection not found'')
           else do {
             failed \<leftarrow> persist_utxos a
               (max (max adv (case stored of None \<Rightarrow> - 1 | Some k \<Rightarrow> k)) 0);
             State_Monad.return (Answer \<lparr>so_connection = sa_conn a, so_inserted = inserted,
               so_total = length (sa_txs a),
               so_skipped = (if sa_txs a = [] then 0 else length (sa_txs a) - length fresh),
               so_cursor = deriveResponseCursor stored inserted (max_block fresh) (sa_scanned a),
               so_utxo_failed = failed\<rparr>)
           }
     })"

definition store_for :: "runtime \<Rightarrow> string \<Rightarrow> store_args \<Rightarrow> store_answer reply io" where
  "store_for rt p a = (let c = text_of (sa_conn a) in do {
     owner \<leftarrow> query (\<lambda>e d. maybe_single (conn_rows p c d));
     case owner of
       Inl _ \<Rightarrow> State_Monad.return (Refused 500 ''Failed to verify connection'')
     | Inr None \<Rightarrow> State_Monad.return (Refused 404 ''Connection not found'')
     | Inr (Some r) \<Rightarrow>
         if c_owner r \<noteq> sa_user a
         then State_Monad.return (Refused 403 ''Connection does not belong to caller'')
         else if Plain (c_generation r) \<noteq> sa_generation a
         then State_Monad.return
           (Refused 409 ''Connection was reset since this sync began; stale write refused'')
         else do {
           _ \<leftarrow> stamp_attempt p c;
           if sa_txs a = [] then write_batch p a (c_cursor r) []
           else do {
             pre \<leftarrow> known_blinds rt c (sa_txs a);
             case pre of
               Inl _ \<Rightarrow> State_Monad.return (Refused 500 ''Failed to dedup-check transactions'')
             | Inr existing \<Rightarrow> write_batch p a (c_cursor r) (fresh_rows existing (sa_txs a))
           }
         }
   })"

definition transactions_store :: "runtime \<Rightarrow> http_request \<Rightarrow> store_answer reply io" where
  "transactions_store rt req = endpoint rt req (parse_store_body rt) sa_user (store_for rt)"

section \<open>What the endpoint may write\<close>

text \<open>The rows an insert adds: in order, none known before, no two alike, each from a submitted row.\<close>

definition inserted_rows :: "string \<Rightarrow> insert_row list \<Rightarrow> tx_row list \<Rightarrow> tx_row list \<Rightarrow> bool" where
  "inserted_rows c rs ts new \<longleftrightarrow> distinct (map t_blind new) \<and>
     (\<forall>t \<in> set new. t_conn t = c \<and> t_orphaned t = None \<and> \<not> tx_known c (t_blind t) ts \<and>
        (\<exists>r \<in> set rs. t_blind t = in_blind r \<and> t_height t = in_height r \<and> t_date t = in_date r \<and>
           t_hash t = in_hash r \<and> t_sealed t = in_sealed r))"

lemma tx_known_append [simp]: "tx_known c b (ts @ us) \<longleftrightarrow> tx_known c b ts \<or> tx_known c b us"
  by (auto simp: tx_known_def)

lemma tx_known_Nil [simp]: "\<not> tx_known c b []"
  by (simp add: tx_known_def)

lemma insert_rows_spec:
  "\<exists>new. insert_rows c e rs ts = (length new, ts @ new) \<and> inserted_rows c rs ts new \<and>
     (\<forall>r \<in> set rs. tx_known c (in_blind r) (ts @ new))"
proof (induction rs arbitrary: ts)
  case Nil
  show ?case by (simp add: inserted_rows_def)
next
  case (Cons r rs)
  show ?case
  proof (cases "tx_known c (in_blind r) ts")
    case True
    obtain new where new: "insert_rows c e rs ts = (length new, ts @ new)" "inserted_rows c rs ts new"
      "\<forall>r \<in> set rs. tx_known c (in_blind r) (ts @ new)" using Cons.IH by blast
    then show ?thesis using True
      by (intro exI [of _ new]) (auto simp: inserted_rows_def)
  next
    case False
    let ?t = "\<lparr>t_id = fresh_ids e (length ts), t_conn = c, t_sealed = in_sealed r,
               t_date = in_date r, t_height = in_height r, t_blind = in_blind r,
               t_hash = in_hash r, t_orphaned = None, t_created = clock e\<rparr>"
    obtain new where new: "insert_rows c e rs (ts @ [?t]) = (length new, (ts @ [?t]) @ new)"
      "inserted_rows c rs (ts @ [?t]) new"
      "\<forall>r \<in> set rs. tx_known c (in_blind r) ((ts @ [?t]) @ new)" using Cons.IH by blast
    have t: "tx_known c (in_blind r) [?t]" by (simp add: tx_known_def)
    have "inserted_rows c (r # rs) ts (?t # new)"
      using new(2) False t unfolding inserted_rows_def by fastforce
    then show ?thesis using False new(1,3) t
      by (intro exI [of _ "?t # new"]) (auto simp: tx_known_def)
  qed
qed

text \<open>
  A connection row keeps everything but the attempt and sync stamps and the cursor; the cursor
  moves only in the caller's generation, only up, only to a height the caller says it scanned
  contiguously and not above the highest transaction submitted.
\<close>

definition conn_touch :: "string \<Rightarrow> store_args \<Rightarrow> conn_row \<Rightarrow> conn_row \<Rightarrow> bool" where
  "conn_touch p a r r' \<longleftrightarrow> r' = r \<or>
     (is_conn p (text_of (sa_conn a)) r \<and>
      r' = r\<lparr>c_attempt := c_attempt r', c_last_sync := c_last_sync r', c_updated := c_updated r',
             c_cursor := c_cursor r'\<rparr> \<and>
      (c_cursor r' = c_cursor r \<or>
        c_generation r = pg_uuid (text_of (sa_generation a)) \<and>
        (\<exists>k. c_cursor r' = Some k \<and> cursor_or r < k \<and>
           (\<forall>n. nonneg_integer (sa_scanned a) = Some n \<longrightarrow> k \<le> n) \<and>
           (\<exists>tx \<in> set (sa_txs a). k \<le> st_height tx))))"

text \<open>
  Transactions are only appended, to the named connection of the platform in the caller's
  generation; no stored row is changed, so neither its record nor its orphan mark.
\<close>

definition txs_append :: "string \<Rightarrow> store_args \<Rightarrow> db \<Rightarrow> db \<Rightarrow> bool" where
  "txs_append p a d d' \<longleftrightarrow> (\<exists>new. txs d' = txs d @ new \<and>
     inserted_rows (pg_uuid (text_of (sa_conn a))) (map row_of_tx (sa_txs a)) (txs d) new \<and>
     (new \<noteq> [] \<longrightarrow> (\<exists>r \<in> set (conns d). is_conn p (text_of (sa_conn a)) r \<and>
        c_generation r = pg_uuid (text_of (sa_generation a)))))"

definition primary_key :: "db \<Rightarrow> bool" where
  "primary_key d \<longleftrightarrow> distinct (map c_id (conns d))"

definition store_write :: "string \<Rightarrow> store_args \<Rightarrow> db \<Rightarrow> db \<Rightarrow> bool" where
  "store_write p a d d' \<longleftrightarrow>
     (primary_key d \<longrightarrow> list_all2 (conn_touch p a) (conns d) (conns d')) \<and> txs_append p a d d' \<and>
     (utxos d' = utxos d \<or> (\<exists>sealed h. sa_utxos a = Some sealed \<and>
        utxos d' = upsert_utxo (pg_uuid (text_of (sa_conn a))) sealed h (utxos d))) \<and>
     platforms d' = platforms d \<and> sessions d' = sessions d \<and> subaccounts d' = subaccounts d \<and>
     ranges d' = ranges d"

lemma conn_touch_refl: "list_all2 (conn_touch p a) rs rs"
  by (simp add: conn_touch_def list_all2_same)

lemma txs_append_same: "txs d' = txs d \<Longrightarrow> txs_append p a d d'"
  by (auto simp: txs_append_def inserted_rows_def)

lemma store_write_refl: "store_write p a d d"
  by (simp add: store_write_def conn_touch_refl txs_append_same)

interpretation sto: write_guarantee "store_write p a" for p a
  by unfold_locales (rule store_write_refl)

lemma conn_rows_head_unique:
  assumes "primary_key d" "conn_rows p c d = r # rs" "r' \<in> set (conns d)" "is_conn p c r'"
  shows "r' = r"
proof -
  have "r \<in> set (conns d)" "is_conn p c r"
    using assms(2) by (auto simp: conn_rows_def filter_eq_Cons_iff)
  then have "c_id r = c_id r'" using assms(4) by (simp add: is_conn_def)
  then show ?thesis
    using assms(1,3) \<open>r \<in> set (conns d)\<close> by (auto simp: primary_key_def distinct_map dest: inj_onD)
qed

text \<open>The candidate height is bounded by a submitted transaction and by the contiguous height.\<close>

lemma candidate_bounds:
  assumes "set rows \<subseteq> row_of_tx ` set (sa_txs a)"
    and "k = boundCursorAdvance (max_block rows) (sa_scanned a)" "rows \<noteq> []"
  shows "\<exists>tx \<in> set (sa_txs a). k \<le> st_height tx"
    and "nonneg_integer (sa_scanned a) = Some n \<Longrightarrow> k \<le> n"
proof -
  have k: "k \<le> max_block rows" "nonneg_integer (sa_scanned a) = Some n \<Longrightarrow> k \<le> n" for n
    using assms(2) by (auto simp: boundCursorAdvance_def isContiguousScannedHeight_def)
  have "max_block rows \<in> in_height ` set rows"
    using Max_in [of "in_height ` set rows"] assms(3) by (simp add: max_block_def)
  then show "\<exists>tx \<in> set (sa_txs a). k \<le> st_height tx"
    using assms(1) k(1) by (force simp: row_of_tx_def)
  show "nonneg_integer (sa_scanned a) = Some n \<Longrightarrow> k \<le> n" by (rule k(2))
qed

lemma list_all2_map_mem:
  "(\<And>r. r \<in> set rs \<Longrightarrow> Q r (f r)) \<Longrightarrow> list_all2 Q rs (map f rs)"
  by (simp add: list_all2_map2 list_all2_same)

lemma cursor_or_ge: "c_cursor r = Some k \<Longrightarrow> cursor_or r = k"
  by (simp add: cursor_or_def)

lemma atomic_write:
  assumes rows: "set rows \<subseteq> row_of_tx ` set (sa_txs a)"
    and adv: "adv = boundCursorAdvance (max_block rows) (sa_scanned a)"
    and run: "d' = snd (store_stealth_transactions_atomic (sa_conn a) p (sa_generation a) rows adv e d)"
  shows "store_write p a d d'"
proof (cases "d' = d")
  case True
  then show ?thesis by (simp add: store_write_refl)
next
  case False
  then obtain c g r rs where a: "sa_conn a = Plain c" "sa_generation a = Plain g"
    and r: "conn_rows p c d = r # rs" "c_generation r = pg_uuid g"
    and d': "d' = update_conns (store_match p c g)
        (store_row (fst (insert_rows (pg_uuid c) e rows (txs d))) adv (cursor_or r) (clock e))
        (d\<lparr>txs := snd (insert_rows (pg_uuid c) e rows (txs d))\<rparr>)"
    unfolding run
    by (auto simp: store_stealth_transactions_atomic_def Let_def case_prod_beta
        split: uuid_arg.splits list.splits if_splits)
  obtain new where new: "insert_rows (pg_uuid c) e rows (txs d) = (length new, txs d @ new)"
    "inserted_rows (pg_uuid c) rows (txs d) new"
    using insert_rows_spec by blast
  have r_in: "r \<in> set (conns d)" "is_conn p c r"
    using r(1) by (auto simp: conn_rows_def filter_eq_Cons_iff)
  have "inserted_rows (pg_uuid c) (map row_of_tx (sa_txs a)) (txs d) new"
    using new(2) rows unfolding inserted_rows_def by fastforce
  then have "txs_append p a d d'"
    using a r r_in by (auto simp: txs_append_def d' new(1) update_conns_def)
  moreover have "list_all2 (conn_touch p a) (conns d) (conns d')" if pk: "primary_key d"
  proof -
    have "conn_touch p a x (if store_match p c g x
        then store_row (length new) adv (cursor_or r) (clock e) x else x)"
      if x: "x \<in> set (conns d)" for x
    proof (cases "store_match p c g x")
      case True
      then have "x = r"
        using conn_rows_head_unique [OF pk r(1) x] by (simp add: store_match_def)
      moreover have "rows \<noteq> []" if "new \<noteq> []"
        using that new(2) by (cases new) (auto simp: inserted_rows_def)
      ultimately show ?thesis
        using candidate_bounds [OF rows adv] r_in r(2)
        by (auto simp: conn_touch_def store_row_def a intro!: conn_row.equality)
    qed (simp add: conn_touch_def)
    then show ?thesis by (simp add: d' update_conns_def new(1) list_all2_map_mem)
  qed
  ultimately show ?thesis
    by (simp add: store_write_def d' update_conns_def)
qed

lemma stamp_write:
  "store_write p a d (update_conns (is_conn p (text_of (sa_conn a)))
     (\<lambda>r. r\<lparr>c_attempt := Some t, c_updated := t\<rparr>) d)"
proof -
  have "conn_touch p a x (if is_conn p (text_of (sa_conn a)) x
      then x\<lparr>c_attempt := Some t, c_updated := t\<rparr> else x)" for x
    by (auto simp: conn_touch_def intro!: conn_row.equality)
  then show ?thesis
    by (auto simp: store_write_def update_conns_def txs_append_same intro: list_all2_map_mem)
qed

lemma upsert_write:
  "sa_utxos a = Some sealed \<Longrightarrow>
     store_write p a d (snd (upsert_stealth_utxos (sa_conn a) sealed h e d))"
  unfolding upsert_stealth_utxos_def store_write_def
  by (auto simp: conn_touch_refl txs_append_same split: uuid_arg.split)

lemma persist_utxos_keeps: "sto.keeps p a (persist_utxos a h)"
  unfolding persist_utxos_def
  by (auto split: option.split intro!: sto.keeps_request upsert_write)

lemma write_batch_keeps:
  assumes "set fresh \<subseteq> row_of_tx ` set (sa_txs a)"
  shows "sto.keeps p a (write_batch p a stored fresh)"
proof -
  let ?adv = "boundCursorAdvance (max_block fresh) (sa_scanned a)"
  have "sto.keeps p a
      (request (store_stealth_transactions_atomic (sa_conn a) p (sa_generation a) fresh ?adv))"
    by (rule sto.keeps_request) (rule atomic_write [OF assms refl refl])
  then show ?thesis
    unfolding write_batch_def Let_def
    by (auto intro!: persist_utxos_keeps split: sum.split)
qed

lemma fresh_rows_subset: "set (fresh_rows ex ts) \<subseteq> row_of_tx ` set ts"
  by (auto simp: fresh_rows_def)

lemma store_for_keeps: "sto.keeps p a (store_for rt p a)"
proof -
  have "sto.keeps p a (stamp_attempt p (text_of (sa_conn a)))"
    unfolding stamp_attempt_def by (rule sto.keeps_request) (simp add: stamp_write)
  moreover have "sto.keeps p a (write_batch p a stored (fresh_rows ex (sa_txs a)))" for stored ex
    by (rule write_batch_keeps [OF fresh_rows_subset])
  ultimately show ?thesis
    unfolding store_for_def Let_def known_blinds_def
    by (auto intro!: write_batch_keeps dest: subsetD [OF fresh_rows_subset]
        split: sum.split option.split)
qed

lemma store_for_logs: "logs (store_for rt p a)"
  by (rule any_write.keeps_mono [OF sto.write_guarantee_axioms store_for_keeps]) simp

lemma transactions_store_steps:
  assumes "(d, d') \<in> set (steps (transactions_store rt req) w)"
  shows "same_tables d d' \<or> (\<exists>body a p. parse_store_body rt body = Inr a \<and>
    acts_for rt req (field body ''widget_token'') w p (sa_user a) \<and> store_write p a d d')"
  using endpoint_steps [OF store_for_logs assms [unfolded transactions_store_def]]
    sto.keeps_steps [OF store_for_keeps] by blast

section \<open>Undisturbed runs\<close>

definition storable :: "sealed_tx \<Rightarrow> bool" where
  "storable tx \<longleftrightarrow> is_pg_date (st_date tx) \<and> is_int4 (st_height tx)"

text \<open>The bounded candidate is an \<open>INTEGER\<close> when the heights are.\<close>

lemma candidate_int4:
  assumes "list_all storable ts" "set rows \<subseteq> row_of_tx ` set ts"
  shows "is_int4 (boundCursorAdvance (max_block rows) x)"
proof -
  have nn: "0 \<le> n" if "nonneg_integer x = Some n" for n
    using that by (cases x rule: nonneg_integer.cases) (auto split: if_splits)
  have "is_int4 (max_block rows)"
  proof (cases "rows = []")
    case False
    then have "max_block rows \<in> in_height ` set rows"
      using Max_in [of "in_height ` set rows"] by (simp add: max_block_def)
    then show ?thesis using assms by (fastforce simp: list_all_iff storable_def row_of_tx_def)
  qed (simp add: max_block_def is_int4_def)
  then show ?thesis
    using nn by (auto simp: boundCursorAdvance_def isContiguousScannedHeight_def is_int4_def min_def)
qed

lemma atomic_calm:
  assumes ids: "carg = Plain c" "garg = Plain g"
    and r: "conn_rows p c d = [r]" "c_generation r = pg_uuid g"
    and ok: "is_int4 adv" "list_all (\<lambda>x. is_pg_date (in_date x) \<and> is_int4 (in_height x)) rows"
  shows "\<exists>new d' r'. store_stealth_transactions_atomic carg p garg rows adv e d = (Inr (200, length new), d') \<and>
    txs d' = txs d @ new \<and> (\<forall>x \<in> set rows. tx_known (pg_uuid c) (in_blind x) (txs d')) \<and>
    conn_rows p c d' = [r'] \<and>
    c_cursor r' = (if length new > 0 \<and> adv > cursor_or r then Some adv else c_cursor r)"
proof -
  obtain new where new: "insert_rows (pg_uuid c) e rows (txs d) = (length new, txs d @ new)"
    "\<forall>x \<in> set rows. tx_known (pg_uuid c) (in_blind x) (txs d @ new)"
    using insert_rows_spec by blast
  let ?row = "store_row (length new) adv (cursor_or r) (clock e)"
  have rows: "conn_rows p c (update_conns (store_match p c g) ?row (d\<lparr>txs := ts\<rparr>)) = [?row r]" for ts
  proof -
    have "conn_rows p c (d\<lparr>txs := ts\<rparr>) = [r]" using r(1) by (simp add: conn_rows_def)
    then show ?thesis
      using is_conn_row [OF r(1)] r(2)
      by (subst conn_rows_update) (auto simp: is_conn_def store_row_def store_match_def)
  qed
  show ?thesis
    by (intro exI [of _ new] exI)
      (use ids r ok new rows in
        \<open>auto simp: store_stealth_transactions_atomic_def Let_def store_row_def update_conns_def\<close>)
qed

lemma upsert_frame [simp]:
  "conns (snd (upsert_stealth_utxos c s h e d)) = conns d"
  "txs (snd (upsert_stealth_utxos c s h e d)) = txs d"
  by (auto simp: upsert_stealth_utxos_def split: uuid_arg.split)

lemma persist_frame:
  "calm w \<Longrightarrow> conns (store (world_after (persist_utxos a h) w)) = conns (store w) \<and>
     txs (store (world_after (persist_utxos a h) w)) = txs (store w)"
  by (simp add: persist_utxos_def run_simps split: option.split)

lemma write_batch_calm:
  fixes p :: string and a :: store_args and stored :: "int option" and fresh :: "insert_row list"
    and w :: world
  defines "adv \<equiv> boundCursorAdvance (max_block fresh) (sa_scanned a)"
    and "after \<equiv> store (world_after (write_batch p a stored fresh) w)"
  assumes w: "calm w" and ids: "sa_conn a = Plain c" "sa_generation a = Plain g"
    and r: "conn_rows p c (store w) = [r]" "c_generation r = pg_uuid g"
    and ok: "is_int4 adv" "list_all (\<lambda>x. is_pg_date (in_date x) \<and> is_int4 (in_height x)) fresh"
  shows "\<exists>ans new r'. result_of (write_batch p a stored fresh) w = Answer ans \<and>
    so_inserted ans = length new \<and> txs after = txs (store w) @ new \<and>
    so_cursor ans = deriveResponseCursor stored (length new) (max_block fresh) (sa_scanned a) \<and>
    (\<forall>x \<in> set fresh. tx_known (pg_uuid c) (in_blind x) (txs after)) \<and>
    conn_rows p c after = [r'] \<and>
    c_cursor r' = (if length new > 0 \<and> adv > cursor_or r then Some adv else c_cursor r)"
proof -
  obtain new d' r' where run:
    "store_stealth_transactions_atomic (sa_conn a) p (sa_generation a) fresh adv
       (env w (tick w)) (store w) = (Inr (200, length new), d')"
    and post: "txs d' = txs (store w) @ new"
      "\<forall>x \<in> set fresh. tx_known (pg_uuid c) (in_blind x) (txs d')"
      "conn_rows p c d' = [r']"
      "c_cursor r' = (if length new > 0 \<and> adv > cursor_or r then Some adv else c_cursor r)"
    using atomic_calm [OF ids r ok] by metis
  have frame: "txs after = txs d'" "conns after = conns d'"
    using w run persist_frame
    by (simp_all add: after_def write_batch_def Let_def run_simps adv_def [symmetric])
  then have "conn_rows p c after = [r']" using post(3) by (simp add: conn_rows_def)
  then show ?thesis
    using w run post frame
    by (simp add: write_batch_def Let_def run_simps adv_def [symmetric])
qed

lemma store_for_owner:
  assumes w: "calm w" and r: "conn_rows p (text_of (sa_conn a)) (store w) = [r]"
    and owner: "c_owner r = sa_user a" and g: "Plain (c_generation r) = sa_generation a"
    and cap: "max_rows rt = None"
  shows "\<exists>w' r1. calm w' \<and> txs (store w') = txs (store w) \<and>
    conn_rows p (text_of (sa_conn a)) (store w') = [r1] \<and>
    c_generation r1 = c_generation r \<and> c_cursor r1 = c_cursor r \<and>
    run_state (store_for rt p a) w = run_state (write_batch p a (c_cursor r)
      (fresh_rows (map t_blind (filter (\<lambda>t. t_conn t = pg_uuid (text_of (sa_conn a)) \<and>
         t_blind t \<in> st_blind ` set (sa_txs a)) (txs (store w)))) (sa_txs a))) w'"
proof -
  let ?c = "text_of (sa_conn a)"
  have stamp: "conn_rows p ?c (update_conns (is_conn p ?c)
      (\<lambda>r. r\<lparr>c_attempt := Some t, c_updated := t\<rparr>) (store w)) =
      [r\<lparr>c_attempt := Some t, c_updated := t\<rparr>]" for t
    using r is_conn_row [OF r] by (subst conn_rows_update) (simp_all add: is_conn_def)
  have txs: "txs (update_conns P f (store w)) = txs (store w)" for P f
    by (simp add: update_conns_def)
  let ?q = "query (\<lambda>e d. maybe_single (conn_rows p ?c d)) :: (rpc_error + conn_row option) io"
  let ?w1 = "world_after (stamp_attempt p ?c) (world_after ?q w)"
  let ?w2 = "world_after (known_blinds rt ?c (sa_txs a)) ?w1"
  show ?thesis
  proof (cases "sa_txs a = []")
    case True
    then show ?thesis
      by (intro exI [of _ ?w1] exI [of _ "r\<lparr>c_attempt := Some (clock (env w (Suc (tick w)))),
          c_updated := clock (env w (Suc (tick w)))\<rparr>"])
        (use w r owner g in
          \<open>auto simp: store_for_def Let_def stamp_attempt_def run_simps stamp txs fresh_rows_def\<close>)
  next
    case False
    then show ?thesis
      by (intro exI [of _ ?w2] exI [of _ "r\<lparr>c_attempt := Some (clock (env w (Suc (tick w)))),
          c_updated := clock (env w (Suc (tick w)))\<rparr>"])
        (use w r owner g cap in
          \<open>auto simp: store_for_def Let_def stamp_attempt_def run_simps stamp txs known_blinds_def
             capped_def\<close>)
  qed
qed

definition sample_tx :: sealed_tx where
  "sample_tx = \<lparr>st_iv = ''iv'', st_cipher = ''ct'', st_date = ''2024-02-29'', st_height = 150,
     st_blind = replicate 64 (CHR ''a''), st_hash = None\<rparr>"

definition sample_store :: store_args where
  "sample_store = \<lparr>sa_conn = Plain C1, sa_user = ''alice'', sa_txs = [sample_tx],
     sa_scanned = Some (JNum (jsint 200)), sa_utxos = None, sa_generation = Plain G1\<rparr>"

lemma sample_store_simps [simp]:
  "sa_conn sample_store = Plain C1" "sa_user sample_store = ''alice''"
  "sa_txs sample_store = [sample_tx]" "sa_scanned sample_store = Some (JNum (jsint 200))"
  "sa_utxos sample_store = None" "sa_generation sample_store = Plain G1"
  by (simp_all add: sample_store_def)

lemma sample_tx_simps [simp]:
  "st_date sample_tx = ''2024-02-29''" "st_height sample_tx = 150" "st_hash sample_tx = None"
  "st_blind sample_tx = replicate 64 (CHR ''a'')"
  by (simp_all add: sample_tx_def)

definition sample_store_body :: json where
  "sample_store_body = JObj [(''connection_id'', JStr C1), (''app_user_id'', JStr ''alice''),
     (''sealed_transactions'', JArr [JObj [(''version'', JNum (Fin 1)),
        (''algorithm'', JStr ''AES-256-GCM''), (''iv_b64'', JStr ''iv''), (''ciphertext_b64'', JStr ''ct''),
        (''occurred_at'', JStr ''2024-02-29''), (''block_height'', JNum (jsint 150)),
        (''txid_blind_index_hex'', JStr (replicate 64 (CHR ''a'')))]]),
     (''last_block_scanned'', JNum (jsint 200)), (''scan_generation'', JStr G1)]"

lemma sample_tx_ok [simp]:
  "is_iso_date ''2024-02-29''" "is_pg_date ''2024-02-29''" "is_hex64 (replicate 64 (CHR ''a''))"
  by code_simp+

lemma parse_sample_store: "parse_store_body (sample_runtime b) sample_store_body = Inr sample_store"
  by (simp add: parse_store_body_def sample_store_body_def sample_store_def MAX_TX_PER_REQUEST_def
      isSealedTx_def sample_tx_def sample_runtime_def)

text \<open>The sample batch in an undisturbed world: the row it adds.\<close>

lemma sample_batch:
  "insert_rows C1 e [row_of_tx sample_tx] (txs db1) = (1, [\<lparr>t_id = fresh_ids e 0, t_conn = C1,
     t_sealed = in_sealed (row_of_tx sample_tx), t_date = ''2024-02-29'', t_height = 150,
     t_blind = st_blind sample_tx, t_hash = None, t_orphaned = None, t_created = clock e\<rparr>])"
  by (simp add: db1_def row_of_tx_def sample_tx_def tx_known_def)

section \<open>Properties\<close>



text \<open>
  Without interference the call stores everything and tells the truth: afterwards the
  connection has a transaction for every submitted blind index, \<open>inserted\<close> counts the added
  rows, nothing else in the table changed, and the cursor of the reply is the stored cursor.
\<close>

theorem store_reply_is_stored:
  assumes w: "calm w" and c: "sa_conn a = Plain c" and r: "conn_rows p c (store w) = [r]"
    and owner: "c_owner r = sa_user a"
    and g: "sa_generation a = Plain (c_generation r)" "pg_uuid (c_generation r) = c_generation r"
    and ok: "list_all storable (sa_txs a)" and cap: "max_rows rt = None"
  shows "\<exists>ans new r'. result_of (store_for rt p a) w = Answer ans \<and>
    txs (store (world_after (store_for rt p a) w)) = txs (store w) @ new \<and>
    so_inserted ans = length new \<and>
    (\<forall>tx \<in> set (sa_txs a). tx_known (pg_uuid c) (st_blind tx) (txs (store w) @ new)) \<and>
    conn_rows p c (store (world_after (store_for rt p a) w)) = [r'] \<and> c_cursor r' = so_cursor ans"
proof -
  let ?ex = "map t_blind (filter (\<lambda>t. t_conn t = pg_uuid c \<and>
     t_blind t \<in> st_blind ` set (sa_txs a)) (txs (store w)))"
  let ?fresh = "fresh_rows ?ex (sa_txs a)"
  obtain w' r1 where w': "calm w'" "txs (store w') = txs (store w)"
    and r1: "conn_rows p c (store w') = [r1]" "c_generation r1 = c_generation r" "c_cursor r1 = c_cursor r"
    and run: "run_state (store_for rt p a) w = run_state (write_batch p a (c_cursor r) ?fresh) w'"
    using store_for_owner [of w p a r rt] w c r owner g(1) cap by auto
  have g1: "c_generation r1 = pg_uuid (c_generation r)" using r1 g(2) by simp
  have rows: "list_all (\<lambda>x. is_pg_date (in_date x) \<and> is_int4 (in_height x)) ?fresh"
    using ok fresh_rows_subset [of ?ex "sa_txs a"]
    by (fastforce simp: list_all_iff storable_def row_of_tx_def)
  obtain ans new r' where ans: "result_of (write_batch p a (c_cursor r) ?fresh) w' = Answer ans"
      "so_inserted ans = length new"
      "txs (store (world_after (write_batch p a (c_cursor r) ?fresh) w')) = txs (store w) @ new"
      "so_cursor ans = deriveResponseCursor (c_cursor r) (length new) (max_block ?fresh) (sa_scanned a)"
      "\<forall>x \<in> set ?fresh. tx_known (pg_uuid c) (in_blind x)
         (txs (store (world_after (write_batch p a (c_cursor r) ?fresh) w')))"
      "conn_rows p c (store (world_after (write_batch p a (c_cursor r) ?fresh) w')) = [r']"
      "c_cursor r' = (if length new > 0 \<and>
         boundCursorAdvance (max_block ?fresh) (sa_scanned a) > cursor_or r1
         then Some (boundCursorAdvance (max_block ?fresh) (sa_scanned a)) else c_cursor r1)"
    using write_batch_calm [OF w'(1) c g(1) r1(1) g1 candidate_int4 [OF ok fresh_rows_subset] rows,
        unfolded w'(2), of "c_cursor r"] by blast
  have "tx_known (pg_uuid c) (st_blind tx) (txs (store w) @ new)" if tx: "tx \<in> set (sa_txs a)" for tx
  proof (cases "st_blind tx \<in> set ?ex")
    case True
    then show ?thesis by (auto simp: tx_known_def)
  next
    case False
    then have "row_of_tx tx \<in> set ?fresh"
      using tx unfolding fresh_rows_def by (simp add: row_of_tx_def)
    then have "tx_known (pg_uuid c) (in_blind (row_of_tx tx)) (txs (store w) @ new)"
      using ans(5) unfolding ans(3) by blast
    then show ?thesis by (simp add: row_of_tx_def)
  qed
  moreover have "c_cursor r' = so_cursor ans"
    using ans(4,7) r1(3) by (simp add: deriveResponseCursor_def cursor_or_def Let_def)
  ultimately show ?thesis
    unfolding run using ans(1,2,3,6) by (intro exI [of _ ans] exI [of _ new] exI [of _ r']) simp
qed

theorem store_reply_is_stored_witness:
  "\<exists>ans new. result_of (store_for (sample_runtime JNull) P1 sample_store) (calm_world db1 7 G2) =
     Answer ans \<and> so_inserted ans = length new \<and> tx_known C1 (st_blind sample_tx) new"
proof -
  have "list_all storable (sa_txs sample_store)" by (simp add: storable_def is_int4_def)
  then show ?thesis
    using store_reply_is_stored [of "calm_world db1 7 G2" sample_store C1 P1 conn1 "sample_runtime JNull"]
    by auto
qed



text \<open>
  With interference the reply can differ from the stored cursor, contrary to the comment
  on \<open>deriveResponseCursor\<close>: it is computed from the cursor read at the start, so when another
  sync advances the cursor between that read and the atomic write, the caller is told a height
  that the table does not hold.
\<close>

theorem reply_cursor_can_differ:
  "\<exists>w ans r'. result_of (store_for (sample_runtime JNull) P1 sample_store) w = Answer ans \<and>
     conn_rows P1 C1 (store (world_after (store_for (sample_runtime JNull) P1 sample_store) w)) = [r'] \<and>
     so_cursor ans = Some 150 \<and> c_cursor r' = Some 500"
proof -
  let ?bump = "\<lambda>d. d\<lparr>conns := [conn1\<lparr>c_cursor := Some 500\<rparr>]\<rparr>"
  let ?w = "\<lparr>store = db1, env = (\<lambda>n. \<lparr>meddle = (if n = 3 then ?bump else id), fate = Answered,
      clock = 7, fresh_ids = (\<lambda>_. G2)\<rparr>), tick = 0, log = []\<rparr>"
  have rows: "conn_rows P1 C1 (d\<lparr>conns := [conn1\<lparr>c_cursor := k\<rparr>]\<rparr>) = [conn1\<lparr>c_cursor := k\<rparr>]" for d k
    by (simp add: conn_rows_def is_conn_def conn1_def)
  show ?thesis
    apply (intro exI [of _ ?w])
    apply (simp add: store_for_def Let_def query_def request_def stamp_attempt_def known_blinds_def
        capped_def write_batch_def fresh_rows_def max_block_def row_of_tx_def boundCursorAdvance_def
        isContiguousScannedHeight_def is_int4_def persist_utxos_def deriveResponseCursor_def
        store_stealth_transactions_atomic_def rows)
    apply (simp add: update_conns_def conn_rows_def is_conn_def store_match_def store_row_def
        cursor_or_def)
    done
qed

end
