(* ===== verification/ConnectionCreate.thy ===== *)
theory ConnectionCreate
  imports TransactionStore
begin

text \<open>
  Creating a connection and replacing its envelope: \<open>or-stealth-connection-create/index.ts\<close> and
  \<open>envelope_replace.ts\<close>.  A replacement is the reset that the generation fence protects, so the
  properties here put it together with the writers of \<open>EnvelopeUpdate\<close> and \<open>TransactionStore\<close>.
\<close>

section \<open>Replacing the envelope (\<open>envelope_replace.ts\<close>)\<close>

text \<open>
  \<open>wallet_birthday_plaintext\<close>: missing, \<open>null\<close>, or a value whose text has the shape of a date; a
  boxed text passes the regular expression but is no date for the database.
\<close>

datatype birthday_arg = Absent | Cleared | Day string | BoxedDay string

record replacement =
  rp_envelope :: json
  rp_birthday :: birthday_arg

definition clear_coverage :: "string \<Rightarrow> event \<Rightarrow> db \<Rightarrow> (rpc_error + unit) \<times> db" where
  "clear_coverage c e d = (Inr (), d\<lparr>ranges := filter (\<lambda>row. fst row \<noteq> pg_uuid c) (ranges d)\<rparr>)"

definition replace_row :: "replacement \<Rightarrow> event \<Rightarrow> conn_row \<Rightarrow> conn_row" where
  "replace_row f e r =
     r\<lparr>c_envelope := rp_envelope f, c_cursor := None, c_generation := fresh_ids e 0,
       c_updated := clock e,
       c_birthday := (case rp_birthday f of
          Absent \<Rightarrow> c_birthday r | Cleared \<Rightarrow> None | Day s \<Rightarrow> Some s | BoxedDay s \<Rightarrow> Some s)\<rparr>"

definition birthday_ok :: "birthday_arg \<Rightarrow> bool" where
  "birthday_ok b = (case b of Day s \<Rightarrow> is_pg_date s | BoxedDay _ \<Rightarrow> False | _ \<Rightarrow> True)"

definition date_error :: rpc_error where
  "date_error = pg_error ''22007'' ''invalid input syntax for type date''"

definition replace_conn :: "string \<Rightarrow> replacement \<Rightarrow> event \<Rightarrow> db \<Rightarrow> (rpc_error + unit) \<times> db" where
  "replace_conn c f e d =
     (if \<not> birthday_ok (rp_birthday f) then (Inl date_error, d)
      else (Inr (), update_conns (\<lambda>r. c_id r = pg_uuid c) (replace_row f e) d))"

definition applyEnvelopeReplacement :: "string \<Rightarrow> replacement \<Rightarrow> (auth_error + unit) io" where
  "applyEnvelopeReplacement c f = do {
     cleared \<leftarrow> request (clear_coverage c);
     case cleared of
       Inl _ \<Rightarrow> auth_fail 500 ''Failed to clear scan coverage for the replaced envelope''
     | Inr _ \<Rightarrow> do {
         replaced \<leftarrow> request (replace_conn c f);
         case replaced of
           Inl _ \<Rightarrow> auth_fail 500 ''Failed to store the replaced envelope''
         | Inr _ \<Rightarrow> State_Monad.return (Inr ())
       }
   }"

section \<open>Creating (\<open>index.ts\<close>)\<close>

record create_args =
  ca_slug :: string
  ca_user :: string
  ca_kind :: string
  ca_replacement :: replacement
  ca_blind :: "string option"

definition isSealedEnvelope :: "json \<Rightarrow> bool" where
  "isSealedEnvelope x \<longleftrightarrow> field x ''version'' = Some (JNum (Fin 1)) \<and>
     string_field x ''algorithm'' \<noteq> None \<and> string_field x ''iv_b64'' \<noteq> None \<and>
     string_field x ''ciphertext_b64'' \<noteq> None"

definition MAX_ENVELOPE_BYTES :: nat where "MAX_ENVELOPE_BYTES = 65536"

definition birthday_value :: "json option \<Rightarrow> birthday_arg option" where
  "birthday_value x =
     (case x of
        None \<Rightarrow> Some Absent
      | Some JNull \<Rightarrow> Some Cleared
      | Some (JStr s) \<Rightarrow> if is_iso_date s then Some (Day s) else None
      | Some y \<Rightarrow> (case single_text y of
          None \<Rightarrow> None | Some s \<Rightarrow> if is_iso_date s then Some (BoxedDay s) else None))"

definition quoted :: "string \<Rightarrow> string" where
  "quoted s = CHR 0x27 # s @ [CHR 0x27]"

definition kind_message :: string where
  "kind_message = ''connection_kind must be '' @ quoted ''xpub_stealth'' @ '' or '' @
     quoted ''descriptor_stealth''"

definition parse_create_body :: "runtime \<Rightarrow> json \<Rightarrow> auth_error + create_args" where
  "parse_create_body rt body =
     (case nonempty_string (field body ''app_slug'') of
        None \<Rightarrow> Inl (400, ''app_slug required'')
      | Some slug \<Rightarrow>
     (case nonempty_string (field body ''app_user_id'') of
        None \<Rightarrow> Inl (400, ''app_user_id required'')
      | Some u \<Rightarrow>
     (case string_field body ''connection_kind'' of
        None \<Rightarrow> Inl (400, kind_message)
      | Some kind \<Rightarrow>
          if kind \<notin> {''xpub_stealth'', ''descriptor_stealth''}
          then Inl (400, kind_message)
          else (case field body ''sealed_envelope'' of
             None \<Rightarrow> Inl (400, ''sealed_envelope is malformed'')
           | Some envl \<Rightarrow>
               if \<not> isSealedEnvelope envl then Inl (400, ''sealed_envelope is malformed'')
               else if stringify_length rt envl > MAX_ENVELOPE_BYTES
               then Inl (413, ''sealed_envelope too large'')
               else (case birthday_value (field body ''wallet_birthday_plaintext'') of
                  None \<Rightarrow> Inl (400, ''wallet_birthday_plaintext must be an ISO date (YYYY-MM-DD) or null'')
                | Some day \<Rightarrow> Inr \<lparr>ca_slug = slug, ca_user = u, ca_kind = kind,
                    ca_replacement = \<lparr>rp_envelope = envl, rp_birthday = day\<rparr>,
                    ca_blind = nonempty_string (field body ''blind_index'')\<rparr>)))))"

definition same_wallet :: "create_args \<Rightarrow> string \<Rightarrow> conn_row \<Rightarrow> bool" where
  "same_wallet a blind r \<longleftrightarrow> c_owner r = ca_user a \<and> c_slug r = ca_slug a \<and> c_blind r = Some blind"

text \<open>The dedup lookup, bound to the platform.\<close>

definition find_wallet :: "string \<Rightarrow> create_args \<Rightarrow> string \<Rightarrow> (rpc_error + conn_row option) io" where
  "find_wallet p a blind = query (\<lambda>e d.
     maybe_single (filter (\<lambda>r. c_platform r = pg_uuid p \<and> same_wallet a blind r) (conns d)))"

text \<open>
  The insert; the unique index on user, slug and blind index has no platform in it.
\<close>

definition insert_conn :: "string \<Rightarrow> create_args \<Rightarrow> event \<Rightarrow> db \<Rightarrow> (rpc_error + string) \<times> db" where
  "insert_conn p a e d =
     (if \<not> birthday_ok (rp_birthday (ca_replacement a)) then (Inl date_error, d)
      else if \<exists>blind. ca_blind a = Some blind \<and> (\<exists>r \<in> set (conns d). same_wallet a blind r)
      then (Inl (pg_error ''23505''
              ''duplicate key value violates unique constraint stealth_connections_dedup_idx''), d)
      else (Inr (fresh_ids e 0), d\<lparr>conns := conns d @ [\<lparr>c_id = fresh_ids e 0,
         c_platform = pg_uuid p, c_owner = ca_user a, c_slug = ca_slug a, c_kind = ca_kind a,
         c_envelope = rp_envelope (ca_replacement a), c_blind = ca_blind a,
         c_birthday = (case rp_birthday (ca_replacement a) of Day s \<Rightarrow> Some s | _ \<Rightarrow> None),
         c_status = ''active'', c_cursor = None, c_last_sync = None, c_attempt = None,
         c_generation = fresh_ids e 1, c_created = clock e, c_updated = clock e\<rparr>]\<rparr>))"

text \<open>\<open>/duplicate|unique|23505/i\<close> on the message of the error.\<close>

definition looks_duplicate :: "rpc_error \<Rightarrow> bool" where
  "looks_duplicate err =
     (let m = map lower_char (case err_message err of None \<Rightarrow> [] | Some s \<Rightarrow> s) in
      js_includes ''duplicate'' m \<or> js_includes ''unique'' m \<or> js_includes ''23505'' m)"

record create_answer =
  co_connection :: string
  co_existed :: bool

definition replace_existing :: "create_args \<Rightarrow> conn_row \<Rightarrow> create_answer reply io" where
  "replace_existing a r = do {
     res \<leftarrow> applyEnvelopeReplacement (c_id r) (ca_replacement a);
     case res of
       Inl (s, m) \<Rightarrow> State_Monad.return (Refused s m)
     | Inr _ \<Rightarrow> State_Monad.return (Answer \<lparr>co_connection = c_id r, co_existed = True\<rparr>)
   }"

text \<open>A lookup that replaces what it finds; the error of the second lookup is ignored.\<close>

definition with_wallet ::
    "string \<Rightarrow> create_args \<Rightarrow> string \<Rightarrow> create_answer reply \<Rightarrow> create_answer reply io \<Rightarrow>
       create_answer reply io" where
  "with_wallet p a blind failed absent = do {
     existing \<leftarrow> find_wallet p a blind;
     case existing of
       Inl _ \<Rightarrow> State_Monad.return failed
     | Inr None \<Rightarrow> absent
     | Inr (Some r) \<Rightarrow> replace_existing a r
   }"

definition insert_failed :: "create_answer reply" where
  "insert_failed = Refused 500 ''Failed to create stealth connection''"

definition insert_or_race :: "string \<Rightarrow> create_args \<Rightarrow> create_answer reply io" where
  "insert_or_race p a = do {
     created \<leftarrow> request (insert_conn p a);
     case created of
       Inr c \<Rightarrow> State_Monad.return (Answer \<lparr>co_connection = c, co_existed = False\<rparr>)
     | Inl err \<Rightarrow>
         (case ca_blind a of
            None \<Rightarrow> State_Monad.return insert_failed
          | Some blind \<Rightarrow>
              if \<not> looks_duplicate err then State_Monad.return insert_failed
              else with_wallet p a blind insert_failed (State_Monad.return insert_failed))
   }"

definition create_for :: "string \<Rightarrow> create_args \<Rightarrow> create_answer reply io" where
  "create_for p a =
     (case ca_blind a of
        None \<Rightarrow> insert_or_race p a
      | Some blind \<Rightarrow>
          with_wallet p a blind (Refused 500 ''Failed to check for existing connection'')
            (insert_or_race p a))"

definition connection_create :: "runtime \<Rightarrow> http_request \<Rightarrow> create_answer reply io" where
  "connection_create rt req = endpoint rt req (parse_create_body rt) ca_user create_for"

section \<open>What the endpoint may write\<close>

text \<open>A reset of the row \<open>r\<close>: its coverage goes, or its row is replaced; nothing else changes.\<close>

definition reset_write :: "string \<Rightarrow> db \<Rightarrow> db \<Rightarrow> bool" where
  "reset_write c d d' \<longleftrightarrow> d' = d\<lparr>ranges := ranges d', conns := conns d'\<rparr> \<and>
     filter (\<lambda>row. fst row \<noteq> c) (ranges d') = filter (\<lambda>row. fst row \<noteq> c) (ranges d) \<and>
     list_all2 (\<lambda>r r'. c_id r \<noteq> c \<longrightarrow> r' = r) (conns d) (conns d')"

interpretation reset: write_guarantee "reset_write c" for c
  by unfold_locales (simp add: reset_write_def list_all2_same)

lemma replacement_keeps:
  assumes "pg_uuid c = c"
  shows "reset.keeps c (applyEnvelopeReplacement c f)"
proof -
  have "reset_write c d (snd (clear_coverage c e d))" for e d
    by (simp add: reset_write_def clear_coverage_def assms list_all2_same)
  moreover have "reset_write c d (snd (replace_conn c f e d))" for e d
    by (auto simp: reset_write_def replace_conn_def update_conns_def assms list_all2_map2
        list_all2_same)
  ultimately show ?thesis
    unfolding applyEnvelopeReplacement_def auth_fail_def
    by (auto intro!: reset.keeps_request split: sum.split)
qed

lemma replace_existing_keeps: "pg_uuid (c_id r) = c_id r \<Longrightarrow> reset.keeps (c_id r) (replace_existing a r)"
  unfolding replace_existing_def by (auto intro!: replacement_keeps split: sum.split)

lemma replacement_logs: "logs (applyEnvelopeReplacement c f)"
  unfolding applyEnvelopeReplacement_def auth_fail_def by (auto split: sum.split)

lemma replace_existing_logs: "logs (replace_existing a r)"
  unfolding replace_existing_def by (auto intro!: replacement_logs split: sum.split)

text \<open>
  A reset write of the endpoint is preceded by a lookup step of the same invocation that saw the
  row it resets, on the caller's platform, with the user, slug and blind index of the request.
\<close>

definition found_wallet :: "string \<Rightarrow> create_args \<Rightarrow> db \<Rightarrow> conn_row \<Rightarrow> bool" where
  "found_wallet p a d r \<longleftrightarrow> r \<in> set (conns d) \<and> c_platform r = pg_uuid p \<and>
     (\<exists>blind. ca_blind a = Some blind \<and> same_wallet a blind r)"

definition create_write :: "string \<Rightarrow> create_args \<Rightarrow> (db \<times> db) list \<Rightarrow> db \<Rightarrow> db \<Rightarrow> bool" where
  "create_write p a trace d d' \<longleftrightarrow> d' = d \<or>
     (\<exists>r. d' = d\<lparr>conns := conns d @ [r]\<rparr> \<and> c_platform r = pg_uuid p \<and> c_owner r = ca_user a \<and>
        c_slug r = ca_slug a \<and> c_blind r = ca_blind a \<and> c_cursor r = None) \<or>
     (\<exists>r d0. (d0, d0) \<in> set trace \<and> found_wallet p a d0 r \<and>
        (pg_uuid (c_id r) = c_id r \<longrightarrow> reset_write (c_id r) d d'))"

lemma find_wallet_steps:
  assumes "ca_blind a = Some blind" "result_of (find_wallet p a blind) w = Inr (Some r)"
  shows "\<exists>d0. steps (find_wallet p a blind) w = [(d0, d0)] \<and> found_wallet p a d0 r"
  using assms unfolding find_wallet_def query_def
  by (auto simp: steps_def request_def Let_def found_wallet_def
      dest!: maybe_single_filter split: fate.splits)

lemma find_wallet_logs: "logs (find_wallet p a blind)"
  unfolding find_wallet_def by blast

lemma find_wallet_same: "(d, d') \<in> set (steps (find_wallet p a blind) w) \<Longrightarrow> d' = d"
  unfolding find_wallet_def by (metis no_write.keeps_query no_write.keeps_steps)

lemma insert_conn_write: "create_write p a tr d (snd (insert_conn p a e d))"
  by (auto simp: create_write_def insert_conn_def)

lemma replace_existing_steps:
  assumes "(d0, d0) \<in> set tr" "found_wallet p a d0 r" "(d, d') \<in> set (steps (replace_existing a r) w)"
  shows "create_write p a tr d d'"
  using assms reset.keeps_steps [OF replace_existing_keeps] unfolding create_write_def by blast

lemma create_write_mono: "create_write p a tr d d' \<Longrightarrow> set tr \<subseteq> set tr' \<Longrightarrow> create_write p a tr' d d'"
  unfolding create_write_def by blast

text \<open>The lookup and what follows a hit, with the lookup in the trace.\<close>

lemma with_wallet_logs: "logs m \<Longrightarrow> logs (with_wallet p a blind failed m)"
  unfolding with_wallet_def
  by (auto intro!: find_wallet_logs replace_existing_logs split: sum.split option.split)

lemma with_wallet_steps:
  assumes blind: "ca_blind a = Some blind" and m: "logs m"
    and none: "\<And>w. (d, d') \<in> set (steps m w) \<Longrightarrow> create_write p a (steps m w) d d'"
    and st: "(d, d') \<in> set (steps (with_wallet p a blind failed m) w)"
  shows "create_write p a (steps (with_wallet p a blind failed m) w) d d'"
proof -
  let ?find = "find_wallet p a blind"
  let ?x = "result_of ?find w" and ?w = "world_after ?find w"
  let ?f = "\<lambda>x. case x of Inl e \<Rightarrow> State_Monad.return failed | Inr None \<Rightarrow> m
    | Inr (Some r) \<Rightarrow> replace_existing a r"
  have logs: "logs (?f x)" for x :: "rpc_error + conn_row option"
    using m replace_existing_logs by (auto split: sum.split option.split)
  have sb: "steps (with_wallet p a blind failed m) w = steps ?find w @ steps (?f ?x) ?w"
    unfolding with_wallet_def by (rule steps_bind [OF find_wallet_logs logs])
  show ?thesis
  proof (cases "(d, d') \<in> set (steps ?find w)")
    case True
    then show ?thesis using find_wallet_same by (auto simp: create_write_def)
  next
    case False
    then have rest: "(d, d') \<in> set (steps (?f ?x) ?w)" using st by (simp add: sb)
    then consider "?x = Inr None" | r where "?x = Inr (Some r)"
      by (auto split: sum.splits option.splits)
    then show ?thesis
    proof cases
      case 1
      then have "create_write p a (steps m ?w) d d'" using rest none by simp
      then show ?thesis unfolding sb using 1 by (auto intro: create_write_mono)
    next
      case 2
      then obtain d0 where "steps ?find w = [(d0, d0)]" "found_wallet p a d0 r"
        using find_wallet_steps [OF blind] by blast
      then show ?thesis
        unfolding sb using 2 rest by (auto intro: replace_existing_steps)
    qed
  qed
qed

lemma insert_or_race_logs: "logs (insert_or_race p a)"
  unfolding insert_or_race_def
  by (auto intro!: with_wallet_logs split: sum.split option.split)

lemma insert_or_race_steps:
  assumes "(d, d') \<in> set (steps (insert_or_race p a) w)"
  shows "create_write p a (steps (insert_or_race p a) w) d d'"
proof -
  let ?ins = "request (insert_conn p a)"
  let ?f = "\<lambda>created. case created of
       Inr c \<Rightarrow> State_Monad.return (Answer \<lparr>co_connection = c, co_existed = False\<rparr>)
     | Inl err \<Rightarrow> (case ca_blind a of None \<Rightarrow> State_Monad.return insert_failed
          | Some blind \<Rightarrow> if \<not> looks_duplicate err then State_Monad.return insert_failed
              else with_wallet p a blind insert_failed (State_Monad.return insert_failed))"
  let ?x = "result_of ?ins w" and ?w = "world_after ?ins w"
  have logs: "logs (?f x)" for x
    by (auto intro!: with_wallet_logs split: sum.split option.split)
  have sb: "steps (insert_or_race p a) w = steps ?ins w @ steps (?f ?x) ?w"
    unfolding insert_or_race_def by (rule steps_bind [OF logs_request logs])
  show ?thesis
  proof (cases "(d, d') \<in> set (steps ?ins w)")
    case True
    then consider "d' = d" | e where "d' = snd (insert_conn p a e d)"
      using request_steps by blast
    then show ?thesis
    proof cases
      case 1
      then show ?thesis by (simp add: create_write_def)
    next
      case 2
      show ?thesis unfolding 2 by (rule insert_conn_write)
    qed
  next
    case False
    then have st: "(d, d') \<in> set (steps (?f ?x) ?w)" using assms by (simp add: sb)
    show ?thesis
    proof (cases ?x)
      case (Inr c)
      then show ?thesis using st by simp
    next
      case (Inl err)
      show ?thesis
      proof (cases "ca_blind a")
        case None
        then show ?thesis using st Inl by simp
      next
        case (Some blind)
        let ?race = "with_wallet p a blind insert_failed (State_Monad.return insert_failed)"
        have fx: "?f ?x = ?race" using st Inl Some by (cases "looks_duplicate err") simp_all
        have "create_write p a (steps ?race ?w) d d'"
          by (rule with_wallet_steps [OF Some any_write.keeps_return _ st [unfolded fx]]) simp
        then show ?thesis unfolding sb fx by (rule create_write_mono) simp
      qed
    qed
  qed
qed

lemma create_for_logs: "logs (create_for p a)"
  unfolding create_for_def
  by (auto intro!: with_wallet_logs insert_or_race_logs split: option.split)

lemma create_for_steps:
  assumes st: "(d, d') \<in> set (steps (create_for p a) w)"
  shows "create_write p a (steps (create_for p a) w) d d'"
proof (cases "ca_blind a")
  case None
  then show ?thesis using st insert_or_race_steps by (simp add: create_for_def)
next
  case (Some blind)
  then show ?thesis
    using st with_wallet_steps [OF Some insert_or_race_logs insert_or_race_steps]
    by (simp add: create_for_def)
qed

section \<open>Undisturbed runs\<close>

lemma replacement_calm:
  assumes "calm w" "birthday_ok (rp_birthday f)"
  shows "result_of (applyEnvelopeReplacement c f) w = Inr ()"
    and "\<exists>e. store (world_after (applyEnvelopeReplacement c f) w) =
      update_conns (\<lambda>r. c_id r = pg_uuid c) (replace_row f e)
        (store w\<lparr>ranges := filter (\<lambda>row. fst row \<noteq> pg_uuid c) (ranges (store w))\<rparr>)"
  using assms
  by (auto simp: applyEnvelopeReplacement_def run_simps clear_coverage_def replace_conn_def)

text \<open>Where the next sync starts, from the stored coverage, the stored cursor and the birthday.\<close>

definition next_start :: "string \<Rightarrow> conn_row \<Rightarrow> db \<Rightarrow> int \<Rightarrow> jsnum" where
  "next_start c r d birthday = scanStartHeight \<lparr>birthdayHeight = jsint birthday,
     lastBlockScanned = map_option jsint (c_cursor r),
     resumeFromHeight =
       (case resumeHeightFromCoverage (Some (map range_of_row (ranges_of c d))) (jsint birthday) of
          Inr h \<Rightarrow> h | Inl _ \<Rightarrow> None)\<rparr>"

section \<open>Properties\<close>

text \<open>
  C23: every write of \<open>or-stealth-connection-create\<close>, under every interleaving and failure, is for the
  platform and user of the caller's credential: it adds a connection of that user on that
  platform, or it resets a connection that an earlier lookup of the same invocation saw on that
  platform with the user, slug and blind index of the request.
\<close>

theorem connection_create_bound:
  assumes "(d, d') \<in> set (steps (connection_create rt req) w)"
  shows "same_tables d d' \<or> (\<exists>body a p w'. parse_create_body rt body = Inr a \<and>
    acts_for rt req (field body ''widget_token'') w p (ca_user a) \<and>
    create_write p a (steps (create_for p a) w') d d')"
  using endpoint_steps [OF create_for_logs assms [unfolded connection_create_def]]
    create_for_steps by blast

definition sample_create_body :: json where
  "sample_create_body = JObj [(''app_slug'', JStr ''app''), (''app_user_id'', JStr ''bob''),
     (''connection_kind'', JStr ''xpub_stealth''),
     (''sealed_envelope'', JObj [(''version'', JNum (Fin 1)), (''algorithm'', JStr ''AES-256-GCM''),
        (''iv_b64'', JStr ''iv''), (''ciphertext_b64'', JStr ''ct'')])]"

theorem connection_create_bound_witness:
  "\<exists>r body a p w'. parse_create_body (sample_runtime sample_create_body) body = Inr a \<and>
     create_write p a (steps (create_for p a) w') db1 (db1\<lparr>conns := [conn1, r]\<rparr>)"
proof -
  let ?rt = "sample_runtime sample_create_body"
  obtain a where a: "parse_create_body ?rt sample_create_body = Inr a" "ca_blind a = None"
      "birthday_ok (rp_birthday (ca_replacement a))"
    by (simp add: parse_create_body_def sample_create_body_def isSealedEnvelope_def kind_message_def
        birthday_value_def birthday_ok_def)
  have "sample_create_body \<noteq> JNull" by (simp add: sample_create_body_def)
  note run = sample_endpoint [where d = db1 and parse = "parse_create_body ?rt", OF refl this a(1)]
  obtain r where "(db1, db1\<lparr>conns := [conn1, r]\<rparr>) \<in>
      set (steps (connection_create ?rt sample_request) (calm_world db1 7 G2))"
    using a by (simp add: steps_def connection_create_def run create_for_def insert_or_race_def
        run_simps insert_conn_def) blast
  moreover have "\<not> same_tables db1 (db1\<lparr>conns := [conn1, r]\<rparr>)" by (simp add: same_tables_def)
  ultimately show ?thesis using connection_create_bound by blast
qed

text \<open>
  A replacement that reports success has made both writes, under every interleaving: one
  step that left no coverage of the connection, and a later one after which its row holds the
  new envelope, no cursor and the fresh generation.
\<close>

theorem replacement_ok_means_both_writes:
  assumes "result_of (applyEnvelopeReplacement c f) w = Inr ()"
  shows "\<exists>d1 d2 d3 d4 g. steps (applyEnvelopeReplacement c f) w = [(d1, d2), (d3, d4)] \<and>
    ranges_of (pg_uuid c) d2 = [] \<and>
    (\<forall>r \<in> set (conns d4). c_id r = pg_uuid c \<longrightarrow>
       c_envelope r = rp_envelope f \<and> c_cursor r = None \<and> c_generation r = g)"
  using assms
  by (auto simp: applyEnvelopeReplacement_def steps_def request_def Let_def auth_fail_def
      clear_coverage_def replace_conn_def replace_row_def ranges_of_def update_conns_def
      filter_empty_conv split: fate.splits if_splits)

text \<open>
  Without interference a replacement restarts the scan: afterwards the next sync starts at
  the wallet birthday, whatever cursor and coverage the connection had.
\<close>

theorem replacement_restarts_at_birthday:
  assumes "calm w" and "birthday_ok (rp_birthday f)" and "0 \<le> b"
    and "r \<in> set (conns (store (world_after (applyEnvelopeReplacement c f) w)))"
    and "c_id r = pg_uuid c"
  shows "next_start (c_id r) r (store (world_after (applyEnvelopeReplacement c f) w)) b = jsint b"
proof -
  obtain e where st: "store (world_after (applyEnvelopeReplacement c f) w) =
      update_conns (\<lambda>r. c_id r = pg_uuid c) (replace_row f e)
        (store w\<lparr>ranges := filter (\<lambda>row. fst row \<noteq> pg_uuid c) (ranges (store w))\<rparr>)"
    using replacement_calm(2) [OF assms(1,2)] by blast
  have "c_cursor r = None"
    using assms(4,5) unfolding st by (auto simp: update_conns_def replace_row_def)
  moreover have "ranges_of (c_id r) (store (world_after (applyEnvelopeReplacement c f) w)) = []"
    unfolding st using assms(5) by (simp add: ranges_of_def update_conns_def filter_empty_conv)
  ultimately show ?thesis
    using assms(3) by (simp add: next_start_def resumeHeightFromCoverage_def scanStartHeight_def)
qed

definition sample_replacement :: replacement where
  "sample_replacement = \<lparr>rp_envelope = JStr ''new'', rp_birthday = Absent\<rparr>"

lemma sample_replacement_ok [simp]: "birthday_ok (rp_birthday sample_replacement)"
  by (simp add: sample_replacement_def birthday_ok_def)

theorem replacement_ok_means_both_writes_witness:
  "\<exists>d1 d2 d3 d4. steps (applyEnvelopeReplacement C1 sample_replacement) (calm_world db1 7 G2) =
     [(d1, d2), (d3, d4)] \<and> ranges_of C1 d2 = []"
  using replacement_ok_means_both_writes [OF replacement_calm(1),
      of "calm_world db1 7 G2" sample_replacement C1] by auto

theorem replacement_restarts_at_birthday_witness:
  "next_start C1 (conn1\<lparr>c_envelope := JStr ''new'', c_cursor := None, c_generation := G2,
       c_updated := 7\<rparr>)
     (store (world_after (applyEnvelopeReplacement C1 sample_replacement) (calm_world db1 7 G2))) 60 =
   jsint 60"
proof -
  let ?r = "conn1\<lparr>c_envelope := JStr ''new'', c_cursor := None, c_generation := G2, c_updated := 7\<rparr>"
  have "?r \<in> set (conns (store (world_after (applyEnvelopeReplacement C1 sample_replacement)
      (calm_world db1 7 G2))))"
    by (simp add: applyEnvelopeReplacement_def run_simps clear_coverage_def replace_conn_def
        update_conns_def replace_row_def sample_replacement_def birthday_ok_def conn1_def)
  from replacement_restarts_at_birthday [OF _ _ _ this] show ?thesis by simp
qed

text \<open>What the whole cursor update of the sample does when it runs after the coverage was cleared.\<close>

lemma sample_update_between:
  "store (world_after (update_for P1 sample_update) (calm_world (db1\<lparr>ranges := []\<rparr>) 7 G2)) =
     db1\<lparr>conns := [advance_row 150 7 conn1], ranges := [(C1, 100, 150)]\<rparr>"
proof -
  have rows: "conn_rows P1 C1 (db1\<lparr>ranges := []\<rparr>) = [conn1]"
    by (simp add: conn_rows_def is_conn_def)
  show ?thesis
    by (simp add: update_for_def run_simps rows advance_and_record_def advanceCursor_def
        sample_update_def Let_def cursor_update_one is_int4_def behind_def recordScanRange_def
        buildScanRangeArgs_def record_stealth_scan_range_def update_conns_def cursor_match_def
        is_conn_def advance_row_def ranges_of_def put_ranges_def merge_scan_range_def)
qed

text \<open>
  The two writes of a replacement are not one transaction, and the generation rotates only
  with the second.  A cursor update of a sync of the old envelope that runs between them still
  holds the current generation, so its range is recorded after the coverage was cleared; the
  replacement reports success, and the next sync starts above the birthday although nothing
  has been read for the new envelope.
\<close>

theorem reset_race_keeps_stale_coverage:
  "\<exists>w r'. result_of (applyEnvelopeReplacement C1 sample_replacement) w = Inr () \<and>
     store w = db1 \<and>
     (\<forall>n. meddle (env w n) = id \<or>
        meddle (env w n) = (\<lambda>d. store (world_after (update_for P1 sample_update) (calm_world d 7 G2)))) \<and>
     conn_rows P1 C1 (store (world_after (applyEnvelopeReplacement C1 sample_replacement) w)) = [r'] \<and>
     c_envelope r' = JStr ''new'' \<and> c_generation r' = G2 \<and> c_cursor r' = None \<and>
     next_start C1 r' (store (world_after (applyEnvelopeReplacement C1 sample_replacement) w)) 100
       = jsint 150"
proof -
  let ?other = "\<lambda>d. store (world_after (update_for P1 sample_update) (calm_world d 7 G2))"
  let ?w = "\<lparr>store = db1, env = (\<lambda>n. \<lparr>meddle = (if n = 1 then ?other else id), fate = Answered,
      clock = 7, fresh_ids = (\<lambda>_. G2)\<rparr>), tick = 0, log = []\<rparr>"
  have resume: "resumeHeightFromRanges (Some [range_of_row (100, 150)]) (Fin 100) = Inr (Fin 150)"
    using resumeHeightFromRanges_rows [of "[(100, 150)]" 100] by simp
  show ?thesis
    apply (intro exI [of _ ?w])
    apply (simp add: applyEnvelopeReplacement_def request_def clear_coverage_def replace_conn_def
        Let_def sample_update_between)
    apply (simp add: update_conns_def replace_row_def advance_row_def conn_rows_def is_conn_def
        sample_replacement_def next_start_def ranges_of_def resumeHeightFromCoverage_def
        resume scanStartHeight_def)
    done
qed

definition old_set :: json where
  "old_set = JObj [(''version'', JNum (Fin 1)), (''algorithm'', JStr ''AES-256-GCM''),
     (''iv_b64'', JStr ''iv''), (''ciphertext_b64'', JStr ''old'')]"

text \<open>
  The UTXO set is outside the fence.  A reset that runs between the atomic write of a sync
  and its second request leaves the old set to be stored under the new generation, and the
  monotonic guard then ignores the sets of the new scan until it has passed that height.
\<close>

theorem utxo_set_crosses_reset:
  "\<exists>w ans r'. let run = run_state
       (store_for (sample_runtime JNull) P1 (sample_store\<lparr>sa_utxos := Some old_set\<rparr>)) w in
     fst run = Answer ans \<and> \<not> so_utxo_failed ans \<and>
     conn_rows P1 C1 (store (snd run)) = [r'] \<and> c_generation r' = G2 \<and>
     utxos (store (snd run)) = [\<lparr>u_conn = C1, u_sealed = old_set, u_scanned = 150\<rparr>] \<and>
     isSealedUtxosInput old_set \<and>
     (\<forall>new k. upsert_utxo C1 new (149 - int k) (utxos (store (snd run))) = utxos (store (snd run)))"
proof -
  let ?reset = "\<lambda>d. store (world_after (applyEnvelopeReplacement C1 sample_replacement) (calm_world d 8 G2))"
  let ?w = "\<lparr>store = db1, env = (\<lambda>n. \<lparr>meddle = (if n = 4 then ?reset else id), fate = Answered,
      clock = 7, fresh_ids = (\<lambda>_. G2)\<rparr>), tick = 0, log = []\<rparr>"
  show ?thesis
    apply (intro exI [of _ ?w])
    apply (simp add: store_for_def Let_def query_def request_def stamp_attempt_def known_blinds_def
        capped_def write_batch_def fresh_rows_def max_block_def row_of_tx_def boundCursorAdvance_def
        isContiguousScannedHeight_def is_int4_def persist_utxos_def deriveResponseCursor_def
        store_stealth_transactions_atomic_def)
    apply (simp add: update_conns_def conn_rows_def is_conn_def store_match_def store_row_def
        cursor_or_def is_int4_def persist_utxos_def request_def upsert_stealth_utxos_def Let_def
        applyEnvelopeReplacement_def run_simps clear_coverage_def replace_conn_def
        replace_row_def upsert_utxo_def isSealedUtxosInput_def)
    apply (simp add: old_set_def)
    done
qed

end
