(* ===== verification/Endpoints.thy ===== *)
theory Endpoints
  imports PlatformAuth
begin

text \<open>
  What the endpoints that answer from a connection's rows share: the check of the owner before
  anything else is read, and the contract that an answer only tells what the caller may see.
  The endpoints interpret the locale \<open>gated_read\<close> with their own work.
\<close>

section \<open>Authentication, then the rest of a handler\<close>

definition authenticated ::
    "runtime \<Rightarrow> http_request \<Rightarrow> (json \<Rightarrow> auth_context \<Rightarrow> 'b reply io) \<Rightarrow> 'b reply io" where
  "authenticated rt req g = with_body rt req (\<lambda>body. do {
     auth \<leftarrow> authenticateRequestOrWidgetToken rt req (field body ''widget_token'');
     case auth of
       Inl (s, m) \<Rightarrow> State_Monad.return (Refused s m)
     | Inr ctx \<Rightarrow> g body ctx
   })"

lemma endpoint_authenticated:
  "endpoint rt req parse user k = authenticated rt req (\<lambda>body ctx.
     case parse body of
       Inl (s, m) \<Rightarrow> State_Monad.return (Refused s m)
     | Inr a \<Rightarrow> as_platform ctx (user a) (\<lambda>p. k p a))"
  by (simp add: endpoint_def authenticated_def)

lemma bind_parts:
  assumes "logs m" and "\<And>x. logs (f x)"
  shows "result_of (State_Monad.bind m f) w = result_of (f (result_of m w)) (world_after m w)"
    and "set (steps m w) \<subseteq> set (steps (State_Monad.bind m f) w)"
    and "set (steps (f (result_of m w)) (world_after m w)) \<subseteq> set (steps (State_Monad.bind m f) w)"
  by (auto simp: steps_bind [OF assms])

lemma steps_bindE:
  assumes "st \<in> set (steps (State_Monad.bind m f) w)" and "logs m" and "\<And>x. logs (f x)"
  obtains "st \<in> set (steps m w)"
    | "st \<in> set (steps (f (result_of m w)) (world_after m w))"
  using assms by (auto simp: steps_bind [OF assms(2,3)])

lemma query_answer_step:
  "result_of (query f) w = Inr x \<Longrightarrow> \<exists>e d. (d, d) \<in> set (steps (query f) w) \<and> f e d = Inr x"
  by (auto simp: query_def steps_def request_def Let_def split: fate.splits)

lemma with_body_answer:
  "result_of (with_body rt req k) w = Answer ans \<Longrightarrow> \<exists>body. with_body rt req k = k body"
  unfolding with_body_def by (auto split: if_splits option.splits json.splits)

lemma authenticated_answer:
  assumes g: "\<And>body ctx. logs (g body ctx)"
    and ans: "result_of (authenticated rt req g) w = Answer ans"
  shows "\<exists>body ctx w'. credential_proves rt req (field body ''widget_token'') (seen w)
      (clock (env w (tick w))) ctx \<and> result_of (g body ctx) w' = Answer ans \<and>
    set (steps (g body ctx) w') \<subseteq> set (steps (authenticated rt req g) w)"
proof -
  let ?auth = "\<lambda>body. authenticateRequestOrWidgetToken rt req (field body ''widget_token'')"
  let ?f = "\<lambda>body auth. case auth of Inl (s, m) \<Rightarrow> State_Monad.return (Refused s m) | Inr ctx \<Rightarrow> g body ctx"
  obtain body where b: "authenticated rt req g = State_Monad.bind (?auth body) (?f body)"
    using with_body_answer [OF ans [unfolded authenticated_def]] unfolding authenticated_def by blast
  have logs_f: "logs (?f body x)" for x by (auto intro!: g split: sum.splits)
  note parts = bind_parts [where m = "?auth body" and f = "?f body" and w = w, OF logs_auth logs_f]
  have "result_of (?f body (result_of (?auth body) w)) (world_after (?auth body) w) = Answer ans"
    using ans unfolding b parts(1) .
  then obtain ctx where c: "result_of (?auth body) w = Inr ctx"
      "result_of (g body ctx) (world_after (?auth body) w) = Answer ans"
    by (auto split: sum.splits)
  have "set (steps (g body ctx) (world_after (?auth body) w)) \<subseteq> set (steps (authenticated rt req g) w)"
    using parts(3) unfolding b c(1) by simp
  then show ?thesis using auth_identity [OF c(1)] c(2) by blast
qed

lemma as_platform_answer:
  assumes k: "\<And>p. logs (k p)" and ans: "result_of (as_platform ctx user k) w = Answer ans"
  shows "user_mismatch ctx user = None \<and> (\<exists>p w'. result_of (getCallerPlatformId ctx) w = Inr p \<and>
    result_of (k p) w' = Answer ans \<and> set (steps (k p) w') \<subseteq> set (steps (as_platform ctx user k) w))"
proof (cases "user_mismatch ctx user")
  case None
  let ?f = "\<lambda>p. case p of Inl (s, m) \<Rightarrow> State_Monad.return (Refused s m) | Inr plat \<Rightarrow> k plat"
  have logs_f: "logs (?f x)" for x by (auto intro!: k split: sum.splits)
  have b: "as_platform ctx user k = State_Monad.bind (getCallerPlatformId ctx) ?f"
    using None by (simp add: as_platform_def)
  note parts = bind_parts [where m = "getCallerPlatformId ctx" and f = ?f and w = w, OF logs_platform logs_f]
  have "result_of (?f (result_of (getCallerPlatformId ctx) w)) (world_after (getCallerPlatformId ctx) w)
      = Answer ans"
    using ans unfolding b parts(1) .
  then obtain p where p: "result_of (getCallerPlatformId ctx) w = Inr p"
      "result_of (k p) (world_after (getCallerPlatformId ctx) w) = Answer ans"
    by (auto split: sum.splits)
  have "set (steps (k p) (world_after (getCallerPlatformId ctx) w)) \<subseteq> set (steps (as_platform ctx user k) w)"
    using parts(3) unfolding b p(1) by simp
  then show ?thesis using None p by blast
qed (use ans in \<open>auto simp: as_platform_def\<close>)

lemma acts_forI:
  assumes "credential_proves rt req tok (seen w) (clock (env w (tick w))) ctx"
    and "user_mismatch ctx user = None" "result_of (getCallerPlatformId ctx) w' = Inr p"
  shows "acts_for rt req tok w p user"
  using assms getCallerPlatformId_result [OF assms(3)] unfolding acts_for_def
  by (intro exI [of _ ctx])
    (auto simp: user_mismatch_def enforceWidgetAppUser_def split: auth_context.splits if_splits)

lemma endpoint_answered:
  assumes k: "\<And>p a. logs (k p a)" and ans: "result_of (endpoint rt req parse user k) w = Answer ans"
  shows "\<exists>body a p w'. parse body = Inr a \<and> acts_for rt req (field body ''widget_token'') w p (user a) \<and>
    result_of (k p a) w' = Answer ans \<and>
    set (steps (k p a) w') \<subseteq> set (steps (endpoint rt req parse user k) w)"
proof -
  let ?g = "\<lambda>body ctx. case parse body of Inl (s, m) \<Rightarrow> State_Monad.return (Refused s m)
     | Inr a \<Rightarrow> as_platform ctx (user a) (\<lambda>p. k p a)"
  have logs_g: "logs (?g body ctx)" for body ctx
    by (auto intro!: as_platform_logs k split: sum.splits)
  obtain body ctx w1 where b: "credential_proves rt req (field body ''widget_token'') (seen w)
        (clock (env w (tick w))) ctx" "result_of (?g body ctx) w1 = Answer ans"
      "set (steps (?g body ctx) w1) \<subseteq> set (steps (endpoint rt req parse user k) w)"
    using authenticated_answer [where g = ?g, OF logs_g ans [unfolded endpoint_authenticated]]
    unfolding endpoint_authenticated by blast
  then obtain a where a: "parse body = Inr a" "?g body ctx = as_platform ctx (user a) (\<lambda>p. k p a)"
      "result_of (as_platform ctx (user a) (\<lambda>p. k p a)) w1 = Answer ans"
    by (auto split: sum.splits)
  obtain p w' where p: "user_mismatch ctx (user a) = None" "result_of (getCallerPlatformId ctx) w1 = Inr p"
      "result_of (k p a) w' = Answer ans"
      "set (steps (k p a) w') \<subseteq> set (steps (as_platform ctx (user a) (\<lambda>p. k p a)) w1)"
    using as_platform_answer [where k = "\<lambda>p. k p a", OF k a(3)] by blast
  have "set (steps (k p a) w') \<subseteq> set (steps (endpoint rt req parse user k) w)"
    using p(4) b(3) unfolding a(2) by (rule subset_trans)
  then show ?thesis using acts_forI [OF b(1) p(1,2)] a(1) p(3) by blast
qed

section \<open>The owner check\<close>

definition owner_gate ::
    "string \<Rightarrow> string \<Rightarrow> string \<Rightarrow> 'b reply \<Rightarrow> 'b reply \<Rightarrow> 'b reply io \<Rightarrow> 'b reply io" where
  "owner_gate p c user missing foreign k = do {
     owner \<leftarrow> query (\<lambda>e d. maybe_single (conn_rows p c d));
     case owner of
       Inl _ \<Rightarrow> State_Monad.return (Refused 500 ''Failed to verify connection'')
     | Inr None \<Rightarrow> State_Monad.return missing
     | Inr (Some r) \<Rightarrow> if c_owner r \<noteq> user then State_Monad.return foreign else k
   }"

definition owns :: "string \<Rightarrow> string \<Rightarrow> string \<Rightarrow> db \<Rightarrow> bool" where
  "owns p c user d \<longleftrightarrow> (\<exists>r \<in> set (conns d). is_conn p c r \<and> c_owner r = user)"

fun is_answer :: "'a reply \<Rightarrow> bool" where
  "is_answer (Answer _) = True"
| "is_answer _ = False"

lemma owner_gate_logs: "logs k \<Longrightarrow> logs (owner_gate p c user missing foreign k)"
  unfolding owner_gate_def by (auto split: sum.splits option.splits)

lemma owner_gate_answer:
  assumes k: "logs k" and no: "\<not> is_answer missing" "\<not> is_answer foreign"
    and ans: "result_of (owner_gate p c user missing foreign k) w = Answer ans"
  shows "\<exists>d w'. (d, d) \<in> set (steps (owner_gate p c user missing foreign k) w) \<and> owns p c user d \<and>
    result_of k w' = Answer ans \<and>
    set (steps k w') \<subseteq> set (steps (owner_gate p c user missing foreign k) w)"
proof -
  let ?q = "query (\<lambda>e d. maybe_single (conn_rows p c d))"
  let ?f = "\<lambda>owner. case owner of
       Inl _ \<Rightarrow> State_Monad.return (Refused 500 ''Failed to verify connection'')
     | Inr None \<Rightarrow> State_Monad.return missing
     | Inr (Some r) \<Rightarrow> if c_owner r \<noteq> user then State_Monad.return foreign else k"
  have logs_q: "logs ?q" by blast
  have logs_f: "logs (?f x)" for x :: "rpc_error + conn_row option"
    using k by (auto split: sum.splits option.splits)
  note parts = bind_parts [where f = ?f and w = w, OF logs_q logs_f, folded owner_gate_def]
  have "result_of (?f (result_of ?q w)) (world_after ?q w) = Answer ans"
    using ans parts(1) by simp
  then obtain r where r: "result_of ?q w = Inr (Some r)" "c_owner r = user"
      "result_of k (world_after ?q w) = Answer ans"
    using no by (auto split: sum.splits option.splits if_splits)
  obtain e d where d: "(d, d) \<in> set (steps ?q w)" "maybe_single (conn_rows p c d) = Inr (Some r)"
    using query_answer_step [OF r(1)] by blast
  have "owns p c user d"
    using maybe_single_filter [OF d(2) [unfolded conn_rows_def]] r(2) by (auto simp: owns_def)
  moreover have "set (steps k (world_after ?q w)) \<subseteq> set (steps (owner_gate p c user missing foreign k) w)"
    using parts(3) r(1,2) by simp
  ultimately show ?thesis using d(1) parts(2) r(3) by blast
qed

text \<open>A step of a gated endpoint is one of the check, or one of the work behind a check that passed.\<close>

lemma owner_gate_steps:
  assumes k: "logs k" and st: "(d, d') \<in> set (steps (owner_gate p c user missing foreign k) w)"
  shows "d' = d \<or> (\<exists>d0 w'. (d0, d0) \<in> set (steps (owner_gate p c user missing foreign k) w) \<and>
    owns p c user d0 \<and> (d, d') \<in> set (steps k w') \<and>
    set (steps k w') \<subseteq> set (steps (owner_gate p c user missing foreign k) w))"
proof -
  let ?q = "query (\<lambda>e d. maybe_single (conn_rows p c d))"
  let ?f = "\<lambda>owner. case owner of
       Inl _ \<Rightarrow> State_Monad.return (Refused 500 ''Failed to verify connection'')
     | Inr None \<Rightarrow> State_Monad.return missing
     | Inr (Some r) \<Rightarrow> if c_owner r \<noteq> user then State_Monad.return foreign else k"
  have logs_q: "logs ?q" by blast
  have logs_f: "logs (?f x)" for x :: "rpc_error + conn_row option"
    using k by (auto split: sum.splits option.splits)
  note parts = bind_parts [where f = ?f and w = w, OF logs_q logs_f, folded owner_gate_def]
  from st consider "(d, d') \<in> set (steps ?q w)"
    | "(d, d') \<in> set (steps (?f (result_of ?q w)) (world_after ?q w))"
    unfolding owner_gate_def by (auto simp: steps_bind [OF logs_q logs_f])
  then show ?thesis
  proof cases
    case 1
    then show ?thesis using no_write.keeps_steps [OF no_write.keeps_query] by blast
  next
    case 2
    then obtain r where r: "result_of ?q w = Inr (Some r)" "c_owner r = user"
        "(d, d') \<in> set (steps k (world_after ?q w))"
      by (auto split: sum.splits option.splits if_splits)
    obtain e d0 where d0: "(d0, d0) \<in> set (steps ?q w)" "maybe_single (conn_rows p c d0) = Inr (Some r)"
      using query_answer_step [OF r(1)] by blast
    have "owns p c user d0"
      using maybe_single_filter [OF d0(2) [unfolded conn_rows_def]] r(2) by (auto simp: owns_def)
    moreover have "set (steps k (world_after ?q w)) \<subseteq> set (steps (owner_gate p c user missing foreign k) w)"
      using parts(3) r(1,2) by simp
    ultimately show ?thesis using d0(1) parts(2) r(3) by blast
  qed
qed

section \<open>The contract of a gated read\<close>

text \<open>
  \<open>work\<close> is what an endpoint does after the check, \<open>reveals a d ans\<close> says that the answer is true
  of what the tables \<open>d\<close> hold for the connection of the request.
\<close>

locale gated_read =
  fixes conn :: "'a \<Rightarrow> string" and user :: "'a \<Rightarrow> string"
    and missing :: "'b reply" and foreign :: "'b reply"
    and work :: "'a \<Rightarrow> 'b reply io" and reveals :: "'a \<Rightarrow> db \<Rightarrow> 'b \<Rightarrow> bool"
  assumes refuses: "\<not> is_answer missing" "\<not> is_answer foreign"
    and logging: "logs (work a)"
    and answers: "result_of (work a) w = Answer ans \<Longrightarrow>
      \<exists>d. (d, d) \<in> set (steps (work a) w) \<and> reveals a d ans"
begin

abbreviation gated :: "string \<Rightarrow> 'a \<Rightarrow> 'b reply io" where
  "gated p a \<equiv> owner_gate p (conn a) (user a) missing foreign (work a)"

text \<open>The states in which the connection was seen to be the caller's and its rows were read.\<close>

definition own_answer :: "string \<Rightarrow> 'a \<Rightarrow> (db \<times> db) set \<Rightarrow> 'b \<Rightarrow> bool" where
  "own_answer p a trace ans \<longleftrightarrow> (\<exists>d1 d2. (d1, d1) \<in> trace \<and> (d2, d2) \<in> trace \<and>
     owns p (conn a) (user a) d1 \<and> reveals a d2 ans)"

lemma gated_logs: "logs (gated p a)"
  by (rule owner_gate_logs) (rule logging)

lemma gated_answer:
  assumes "result_of (gated p a) w = Answer ans"
  shows "own_answer p a (set (steps (gated p a) w)) ans"
  using owner_gate_answer [OF logging refuses assms] answers unfolding own_answer_def by blast

lemma own_answer_mono: "own_answer p a T ans \<Longrightarrow> T \<subseteq> T' \<Longrightarrow> own_answer p a T' ans"
  unfolding own_answer_def by blast

lemma platform_answer:
  assumes "credential_proves rt req tok (seen w0) (clock (env w0 (tick w0))) ctx"
    and "result_of (as_platform ctx (user a) (\<lambda>p. gated p a)) w = Answer ans"
  shows "\<exists>p. acts_for rt req tok w0 p (user a) \<and>
    own_answer p a (set (steps (as_platform ctx (user a) (\<lambda>p. gated p a)) w)) ans"
  using as_platform_answer [where k = "\<lambda>p. gated p a", OF gated_logs assms(2)]
    acts_forI [OF assms(1)] gated_answer own_answer_mono by blast

lemma endpoint_answer:
  assumes "result_of (endpoint rt req parse user gated) w = Answer ans"
  shows "\<exists>body a p. parse body = Inr a \<and> acts_for rt req (field body ''widget_token'') w p (user a) \<and>
    own_answer p a (set (steps (endpoint rt req parse user gated) w)) ans"
  using endpoint_answered [where k = gated, OF gated_logs assms] gated_answer own_answer_mono by meson

end

section \<open>An example\<close>

text \<open>The sample request of \<open>PlatformAuth\<close> with any body, behind the authentication.\<close>

lemma sample_authenticated:
  fixes g :: "json \<Rightarrow> auth_context \<Rightarrow> 'b reply io"
  assumes "platforms d = platforms db1" "body \<noteq> JNull"
  shows "run_state (authenticated (sample_runtime body) sample_request g) (calm_world d t i) =
    run_state (g body (PlatformCtx P1 ''acme'')) ((calm_world d t i)\<lparr>tick := Suc 0, log := [(d, d)]\<rparr>)"
proof -
  have "with_body (sample_runtime body) sample_request f = f body" for f :: "json \<Rightarrow> 'b reply io"
    using assms(2)
    by (cases body) (simp_all add: with_body_def sample_request_def sample_runtime_def
        readBoundedText_def MAX_BODY_BYTES_def)
  moreover have "run_state (authenticateRequestOrWidgetToken (sample_runtime body) sample_request tok)
      (calm_world d t i) =
    (Inr (PlatformCtx P1 ''acme''), (calm_world d t i)\<lparr>tick := Suc 0, log := [(d, d)]\<rparr>)" for tok
    using assms(1)
    by (simp add: auth_without_token authenticateRequest_def present_def sample_request_def
        platform_of_key_def run_simps sample_runtime_def db1_def)
  ultimately show ?thesis by (simp add: authenticated_def)
qed

lemma sample_as_platform:
  "run_state (as_platform (PlatformCtx P1 s) u k) w = run_state (k P1) w"
  by (simp add: as_platform_def user_mismatch_def enforceWidgetAppUser_def getCallerPlatformId_def)

end
