(* ===== verification/TransactionsList.thy ===== *)
theory TransactionsList
  imports Endpoints TransactionStore "HOL-Library.Char_ord" "HOL-Library.List_Lexorder"
    "HOL-Library.Product_Lexorder"
begin

text \<open>
  The paged list of a connection's sealed transactions:
  \<open>supabase/functions/or-stealth-transactions-list/index.ts\<close>.  The lemmas follow a caller that
  sends every \<open>next_cursor\<close> back, while other invocations change the table between the pages.
\<close>

section \<open>Request validation\<close>

text \<open>\<open>isUuid\<close> and \<open>isBlindIndexHex\<close>: both test the type, the length and the pattern.\<close>

definition isUuid :: "json option \<Rightarrow> string option" where
  "isUuid x = (case x of Some (JStr s) \<Rightarrow> if length s = 36 \<and> is_uuid s then Some s else None
               | _ \<Rightarrow> None)"

definition isBlindIndexHex :: "json option \<Rightarrow> string option" where
  "isBlindIndexHex x = (case x of Some (JStr s) \<Rightarrow> if length s = 64 \<and> is_hex64 s then Some s else None
                        | _ \<Rightarrow> None)"

definition DEFAULT_LIMIT :: nat where "DEFAULT_LIMIT = 100"
definition MAX_LIMIT :: nat where "MAX_LIMIT = 1000"

type_synonym page_cursor = "int \<times> string"

record list_args =
  la_conn :: string
  la_user :: string
  la_limit :: nat
  la_cursor :: "page_cursor option"

definition parse_list_owner :: "json \<Rightarrow> auth_error + string \<times> string" where
  "parse_list_owner body =
     (case isUuid (field body ''connection_id'') of
        None \<Rightarrow> Inl (400, ''connection_id (uuid) required'')
      | Some c \<Rightarrow>
     (case nonempty_string (field body ''app_user_id'') of
        None \<Rightarrow> Inl (400, ''app_user_id required'')
      | Some u \<Rightarrow> Inr (c, u)))"

definition parse_limit :: "json option \<Rightarrow> nat option" where
  "parse_limit x =
     (case x of
        None \<Rightarrow> Some DEFAULT_LIMIT
      | Some _ \<Rightarrow> (case nonneg_integer x of
          None \<Rightarrow> None
        | Some n \<Rightarrow> if n < 1 then None else Some (min (nat n) MAX_LIMIT)))"

definition parse_page :: "string \<times> string \<Rightarrow> json \<Rightarrow> auth_error + list_args" where
  "parse_page owner body =
     (case parse_limit (field body ''limit'') of
        None \<Rightarrow> Inl (400, ''limit must be a positive integer'')
      | Some limit \<Rightarrow>
          let b = field body ''before_block''; x = field body ''before_txid_blind_index_hex'' in
          if (b \<noteq> None) \<noteq> (x \<noteq> None)
          then Inl (400, ''before_block and before_txid_blind_index_hex must be supplied together; ''
                 @ ''send the next_cursor from the previous page unchanged'')
          else if b \<noteq> None \<and> nonneg_integer b = None
          then Inl (400, ''before_block must be a non-negative integer'')
          else if x \<noteq> None \<and> isBlindIndexHex x = None
          then Inl (400, ''before_txid_blind_index_hex must be 64 lowercase hex characters'')
          else Inr \<lparr>la_conn = fst owner, la_user = snd owner, la_limit = limit,
                 la_cursor = (case (nonneg_integer b, isBlindIndexHex x) of
                                (Some h, Some s) \<Rightarrow> Some (h, s) | _ \<Rightarrow> None)\<rparr>)"

section \<open>One page\<close>

text \<open>
  \<open>PAGE_ORDER\<close> descends in both columns.  The second is text, but it only holds lower-case
  hexadecimal digits, which every collation orders by their code.
\<close>

definition page_key :: "tx_row \<Rightarrow> page_cursor" where
  "page_key t = (t_height t, t_blind t)"

definition in_page_order :: "tx_row list \<Rightarrow> tx_row list" where
  "in_page_order ts = rev (sort_key page_key ts)"

text \<open>The filter that \<open>cursorOrExpression\<close> spells.\<close>

definition cursorOrExpression :: "page_cursor \<Rightarrow> tx_row \<Rightarrow> bool" where
  "cursorOrExpression cur t \<longleftrightarrow> t_height t < fst cur \<or>
     (t_height t = fst cur \<and> t_blind t < snd cur)"

definition past :: "page_cursor option \<Rightarrow> tx_row \<Rightarrow> bool" where
  "past cur t = (case cur of None \<Rightarrow> True | Some k \<Rightarrow> cursorOrExpression k t)"

definition visible :: "string \<Rightarrow> db \<Rightarrow> tx_row list" where
  "visible c d = filter (\<lambda>t. t_conn t = pg_uuid c \<and> t_orphaned t = None) (txs d)"

definition page_query :: "runtime \<Rightarrow> list_args \<Rightarrow> db \<Rightarrow> tx_row list" where
  "page_query rt a d = capped rt (take (Suc (la_limit a))
     (in_page_order (filter (past (la_cursor a)) (visible (la_conn a) d))))"

definition nextCursorFrom :: "tx_row list \<Rightarrow> bool \<Rightarrow> page_cursor option" where
  "nextCursorFrom rows has_more = (if \<not> has_more \<or> rows = [] then None else Some (page_key (last rows)))"

record list_answer =
  li_rows :: "tx_row list"
  li_total :: nat
  li_more :: bool
  li_next :: "page_cursor option"

definition page_answer :: "nat \<Rightarrow> nat \<Rightarrow> tx_row list \<Rightarrow> list_answer" where
  "page_answer limit total_count rows =
     (let has_more = length rows > limit; page = (if has_more then take limit rows else rows)
      in \<lparr>li_rows = page, li_total = total_count, li_more = has_more,
          li_next = nextCursorFrom page has_more\<rparr>)"

definition list_page :: "runtime \<Rightarrow> list_args \<Rightarrow> list_answer reply io" where
  "list_page rt a = do {
     count \<leftarrow> query (\<lambda>e d. Inr (length (visible (la_conn a) d)));
     case count of
       Inl _ \<Rightarrow> State_Monad.return (Refused 500 ''Failed to count transactions'')
     | Inr n \<Rightarrow> do {
         rows \<leftarrow> query (\<lambda>e d. case la_cursor a of
                    Some k \<Rightarrow> if is_int4 (fst k) then Inr (page_query rt a d) else Inl int4_error
                  | None \<Rightarrow> Inr (page_query rt a d));
         case rows of
           Inl _ \<Rightarrow> State_Monad.return (Refused 500 ''Failed to list transactions'')
         | Inr ts \<Rightarrow> State_Monad.return (Answer (page_answer (la_limit a) n ts))
       }
   }"

section \<open>The handler\<close>

text \<open>A connection of somebody else reads like one that does not exist.\<close>

definition not_found :: "list_answer reply" where
  "not_found = Refused 404 ''Not found''"

definition list_for :: "runtime \<Rightarrow> string \<Rightarrow> list_args \<Rightarrow> list_answer reply io" where
  "list_for rt p a = owner_gate p (la_conn a) (la_user a) not_found not_found (list_page rt a)"

definition transactions_list :: "runtime \<Rightarrow> http_request \<Rightarrow> list_answer reply io" where
  "transactions_list rt req = authenticated rt req (\<lambda>body ctx.
     case parse_list_owner body of
       Inl (s, m) \<Rightarrow> State_Monad.return (Refused s m)
     | Inr owner \<Rightarrow>
         (case user_mismatch ctx (snd owner) of
            Some (s, m) \<Rightarrow> State_Monad.return (Refused s m)
          | None \<Rightarrow>
              (case parse_page owner body of
                 Inl (s, m) \<Rightarrow> State_Monad.return (Refused s m)
               | Inr a \<Rightarrow> as_platform ctx (la_user a) (\<lambda>p. list_for rt p a))))"

section \<open>An answer only tells what the caller owns\<close>

text \<open>The answer but for its total, which an earlier read counted.\<close>

definition page_of_state :: "runtime \<Rightarrow> list_args \<Rightarrow> db \<Rightarrow> list_answer \<Rightarrow> bool" where
  "page_of_state rt a d ans \<longleftrightarrow>
     (\<exists>n. ans = page_answer (la_limit a) n (page_query rt a d))"

lemma page_of_stateI: "page_of_state rt a d (page_answer (la_limit a) n (page_query rt a d))"
  by (auto simp: page_of_state_def)

lemma list_page_answers:
  assumes "result_of (list_page rt a) w = Answer ans"
  shows "\<exists>d. (d, d) \<in> set (steps (list_page rt a) w) \<and> page_of_state rt a d ans"
  using assms page_of_stateI [of rt a]
  by (auto simp: list_page_def query_def steps_def request_def Let_def
      split: fate.splits option.splits if_splits)

interpretation listing: gated_read la_conn la_user not_found not_found "list_page rt"
    "page_of_state rt" for rt
  by unfold_locales
    (auto simp: not_found_def list_page_def intro!: list_page_answers [unfolded list_page_def]
      split: sum.split)

lemma list_for_logs: "logs (list_for rt p a)"
  unfolding list_for_def by (rule listing.gated_logs)

lemma list_owner_kept:
  assumes "parse_page owner body = Inr a"
  shows "la_conn a = fst owner" "la_user a = snd owner"
  using assms by (auto simp: parse_page_def Let_def split: option.splits if_splits)

section \<open>Pages under a moving table\<close>

lemma past_key: "past cur t \<longleftrightarrow> (case cur of None \<Rightarrow> True | Some k \<Rightarrow> page_key t < k)"
  by (cases cur) (auto simp: past_def cursorOrExpression_def page_key_def)

text \<open>The unique constraint of the table.\<close>

definition tx_unique :: "db \<Rightarrow> bool" where
  "tx_unique d \<longleftrightarrow> distinct (map (\<lambda>t. (t_conn t, t_blind t)) (txs d))"

definition descending :: "tx_row list \<Rightarrow> bool" where
  "descending ts \<longleftrightarrow> sorted_wrt (\<lambda>s t. page_key t < page_key s) ts"

lemma distinct_page_keys:
  assumes "tx_unique d"
  shows "distinct (map page_key (filter P (visible c d)))"
proof -
  have "distinct (map (\<lambda>t. (t_conn t, t_blind t)) (filter Q (txs d)))" for Q
    using assms by (simp add: tx_unique_def distinct_map_filter)
  from this [of "\<lambda>t. (t_conn t = pg_uuid c \<and> t_orphaned t = None) \<and> P t"] show ?thesis
    by (auto simp: visible_def distinct_map inj_on_def page_key_def filter_filter conj_commute)
qed

lemma in_page_order_descending:
  assumes "distinct (map page_key ts)"
  shows "descending (in_page_order ts)"
proof -
  have "sorted (map page_key (sort_key page_key ts))" by simp
  moreover have "distinct (map page_key (sort_key page_key ts))"
    using assms by (metis distinct_map distinct_sort set_sort)
  ultimately have "sorted_wrt (<) (map page_key (sort_key page_key ts))"
    by (simp add: strict_sorted_iff)
  then show ?thesis
    by (simp add: descending_def in_page_order_def sorted_wrt_rev sorted_wrt_map)
qed

lemma set_in_page_order [simp]: "set (in_page_order ts) = set ts"
  by (simp add: in_page_order_def)

lemma in_page_order_Nil [simp]: "in_page_order ts = [] \<longleftrightarrow> ts = []"
  by (metis set_empty set_in_page_order)

lemma length_in_page_order [simp]: "length (in_page_order ts) = length ts"
  by (simp add: in_page_order_def)

text \<open>
  The rows behind a full page are exactly those below the key of its last row.
\<close>

lemma descending_split:
  assumes "descending ts" "0 < n" "n < length ts"
  shows "t \<in> set ts \<Longrightarrow> t \<in> set (take n ts) \<or> page_key t < page_key (last (take n ts))"
    and "t \<in> set (take n ts) \<Longrightarrow> page_key (last (take n ts)) \<le> page_key t"
proof -
  have key: "page_key (ts ! j) < page_key (ts ! i)" if "i < j" "j < length ts" for i j
    using assms(1) that by (auto simp: descending_def sorted_wrt_iff_nth_less)
  have last: "last (take n ts) = ts ! (n - 1)"
    using assms(2,3) by (subst last_conv_nth) (auto simp: min_def)
  show "t \<in> set (take n ts) \<or> page_key t < page_key (last (take n ts))" if "t \<in> set ts"
  proof -
    obtain i where i: "i < length ts" "t = ts ! i" using \<open>t \<in> set ts\<close> by (auto simp: in_set_conv_nth)
    show ?thesis
    proof (cases "i < n")
      case True
      then have "t \<in> set (take n ts)" using i by (auto simp: in_set_conv_nth intro!: exI [of _ i])
      then show ?thesis ..
    next
      case False
      then show ?thesis using i key [of "n - 1" i] assms(2) last by simp
    qed
  qed
  show "page_key (last (take n ts)) \<le> page_key t" if t: "t \<in> set (take n ts)"
  proof -
    obtain i where "i < length (take n ts)" "t = take n ts ! i"
      using t unfolding in_set_conv_nth by blast
    then have "i < n" "t = ts ! i" by simp_all
    then show ?thesis
      using key [of i "n - 1"] assms(2,3) last by (cases "i = n - 1") (auto intro: less_imp_le)
  qed
qed

text \<open>What one page holds, read from the tables \<open>d\<close> without a row limit in the way.\<close>

definition room_for :: "runtime \<Rightarrow> nat \<Rightarrow> bool" where
  "room_for rt n \<longleftrightarrow> (case max_rows rt of None \<Rightarrow> True | Some m \<Rightarrow> n \<le> m)"

lemma page_answer_parts:
  fixes a :: list_args and d :: db
  defines "ts \<equiv> in_page_order (filter (past (la_cursor a)) (visible (la_conn a) d))"
  assumes "page_of_state rt a d ans" "room_for rt (Suc (la_limit a))"
  shows "li_rows ans = take (la_limit a) ts" "li_more ans \<longleftrightarrow> la_limit a < length ts"
    and "li_next ans = nextCursorFrom (li_rows ans) (li_more ans)"
proof -
  have q: "page_query rt a d = take (Suc (la_limit a)) ts"
    using assms(3) by (auto simp: page_query_def ts_def capped_def room_for_def split: option.splits)
  show "li_rows ans = take (la_limit a) ts" "li_more ans \<longleftrightarrow> la_limit a < length ts"
    "li_next ans = nextCursorFrom (li_rows ans) (li_more ans)"
    using assms(2) unfolding page_of_state_def q by (auto simp: page_answer_def Let_def)
qed

text \<open>
  A caller that follows \<open>next_cursor\<close>: page \<open>k\<close> is answered from the tables \<open>ds k\<close>, and the fuel
  bounds the number of pages.
\<close>

fun follow :: "runtime \<Rightarrow> (nat \<Rightarrow> db) \<Rightarrow> nat \<Rightarrow> nat \<Rightarrow> list_args \<Rightarrow> tx_row list option" where
  "follow rt ds 0 k a = None"
| "follow rt ds (Suc n) k a =
     (let ans = page_answer (la_limit a) 0 (page_query rt a (ds k))
      in case li_next ans of
           None \<Rightarrow> Some (li_rows ans)
         | Some cur \<Rightarrow> map_option ((@) (li_rows ans)) (follow rt ds n (Suc k) (a\<lparr>la_cursor := Some cur\<rparr>)))"

lemma page_keys:
  assumes d: "tx_unique d" and a: "0 < la_limit a" "room_for rt (Suc (la_limit a))"
    and ans: "ans = page_answer (la_limit a) 0 (page_query rt a d)"
  shows "descending (li_rows ans)"
    and "t \<in> set (li_rows ans) \<Longrightarrow> t \<in> set (visible (la_conn a) d) \<and> past (la_cursor a) t"
    and "li_next ans = None \<Longrightarrow> t \<in> set (visible (la_conn a) d) \<Longrightarrow> past (la_cursor a) t \<Longrightarrow>
      t \<in> set (li_rows ans)"
    and "li_next ans = Some cur \<Longrightarrow> t \<in> set (visible (la_conn a) d) \<Longrightarrow> past (la_cursor a) t \<Longrightarrow>
      t \<in> set (li_rows ans) \<or> page_key t < cur"
    and "li_next ans = Some cur \<Longrightarrow> t \<in> set (li_rows ans) \<Longrightarrow> cur \<le> page_key t"
    and "li_next ans = Some cur \<Longrightarrow> length (li_rows ans) = la_limit a \<and>
      (\<exists>s \<in> set (li_rows ans). page_key s = cur)"
proof -
  let ?ts = "in_page_order (filter (past (la_cursor a)) (visible (la_conn a) d))"
  have "page_of_state rt a d ans" using ans by (auto simp: page_of_state_def)
  note parts = page_answer_parts [OF this a(2)]
  have desc: "descending ?ts" by (rule in_page_order_descending) (rule distinct_page_keys [OF d])
  show "descending (li_rows ans)"
    using desc by (simp add: parts(1) descending_def sorted_wrt_take)
  show "t \<in> set (li_rows ans) \<Longrightarrow> t \<in> set (visible (la_conn a) d) \<and> past (la_cursor a) t"
    by (auto simp: parts(1) dest: in_set_takeD)
  have none: "li_next ans = None \<longleftrightarrow> length ?ts \<le> la_limit a"
    using a(1) by (auto simp: parts nextCursorFrom_def simp flip: length_0_conv)
  show "t \<in> set (li_rows ans)" if "li_next ans = None" "t \<in> set (visible (la_conn a) d)"
      "past (la_cursor a) t"
    using that none by (simp add: parts(1))
  have some: "la_limit a < length ?ts" "cur = page_key (last (take (la_limit a) ?ts))"
    if "li_next ans = Some cur"
    using that by (auto simp: parts nextCursorFrom_def split: if_splits)
  show "t \<in> set (li_rows ans) \<or> page_key t < cur" if "li_next ans = Some cur"
      "t \<in> set (visible (la_conn a) d)" "past (la_cursor a) t"
    using descending_split(1) [OF desc a(1) some(1), of t] that some(2) by (simp add: parts(1))
  show "cur \<le> page_key t" if "li_next ans = Some cur" "t \<in> set (li_rows ans)"
    using descending_split(2) [OF desc a(1) some(1), of t] that some(2) by (simp add: parts(1))
  show "length (li_rows ans) = la_limit a \<and> (\<exists>s \<in> set (li_rows ans). page_key s = cur)"
    if "li_next ans = Some cur"
  proof -
    have "take (la_limit a) ?ts \<noteq> []" using some(1) [OF that] a(1) by auto
    then show ?thesis using some [OF that] by (auto simp: parts(1) intro!: bexI [of _ "last _"])
  qed
qed

lemma follow_pages:
  assumes ds: "\<And>k. tx_unique (ds k)" and "0 < la_limit a" "room_for rt (Suc (la_limit a))"
    and "follow rt ds n k a = Some rows"
  shows "descending rows \<and> (\<forall>t \<in> set rows. past (la_cursor a) t \<and> (\<exists>j. t \<in> set (visible (la_conn a) (ds j)))) \<and>
    (\<forall>t. past (la_cursor a) t \<and> (\<forall>j. t \<in> set (visible (la_conn a) (ds j))) \<longrightarrow> t \<in> set rows)"
  using assms(2-4)
proof (induction n arbitrary: k a rows)
  case (Suc n)
  let ?ans = "page_answer (la_limit a) 0 (page_query rt a (ds k))"
  note page = page_keys [OF ds [of k] Suc.prems(1,2) refl]
  show ?case
  proof (cases "li_next ?ans")
    case None
    then show ?thesis using Suc.prems(3) page(1-3) by (auto simp: Let_def)
  next
    case (Some cur)
    let ?a = "a\<lparr>la_cursor := Some cur\<rparr>"
    obtain rest where rest: "follow rt ds n (Suc k) ?a = Some rest" "rows = li_rows ?ans @ rest"
      using Suc.prems(3) Some by (auto simp: Let_def)
    have IH: "descending rest" "\<And>t. t \<in> set rest \<Longrightarrow> page_key t < cur \<and> (\<exists>j. t \<in> set (visible (la_conn a) (ds j)))"
      "\<And>t. page_key t < cur \<Longrightarrow> (\<And>j. t \<in> set (visible (la_conn a) (ds j))) \<Longrightarrow> t \<in> set rest"
      using Suc.IH [of ?a "Suc k" rest] Suc.prems(1,2) rest(1) by (auto simp: past_key)
    obtain s where s: "s \<in> set (li_rows ?ans)" "page_key s = cur" using page(6) [OF Some] by blast
    have "past (la_cursor a) t" if "page_key t < cur" for t
      using page(2) [OF s(1)] s(2) that by (auto simp: past_key split: option.splits)
    moreover have "descending rows"
      using page(1) IH(1,2) page(5) [OF Some]
      by (auto simp: rest(2) descending_def sorted_wrt_append intro: less_le_trans)
    moreover have "t \<in> set rows"
      if "past (la_cursor a) t" "\<forall>j. t \<in> set (visible (la_conn a) (ds j))" for t
      using page(4) [OF Some, of t] IH(3) [of t] that by (auto simp: rest(2))
    ultimately show ?thesis
      using IH(2) page(2) unfolding rest(2) set_append by blast
  qed
qed simp

lemma descending_unique:
  assumes "descending xs" "descending ys" "set xs = set ys"
  shows "xs = ys"
proof -
  have strict: "sorted_wrt (<) (map page_key (rev zs))" if "descending zs" for zs
    using that by (simp add: descending_def sorted_wrt_rev sorted_wrt_map rev_map [symmetric])
  have "map page_key (rev xs) = map page_key (rev ys)"
    using strict_sorted_equal [OF strict [OF assms(2)] strict [OF assms(1)]] assms(3) by simp
  moreover have "inj_on page_key (set (rev xs) \<union> set (rev ys))"
    using strict [OF assms(1)] assms(3) by (simp add: strict_sorted_iff distinct_map)
  ultimately have "rev xs = rev ys" by (simp add: inj_on_map_eq_map)
  then show ?thesis by simp
qed

lemma follow_ends:
  assumes "tx_unique d" "0 < la_limit a" "room_for rt (Suc (la_limit a))"
    and "length (filter (past (la_cursor a)) (visible (la_conn a) d)) < n"
  shows "\<exists>rows. follow rt (\<lambda>_. d) n k a = Some rows"
  using assms(2-)
proof (induction n arbitrary: k a)
  case (Suc n)
  let ?ans = "page_answer (la_limit a) 0 (page_query rt a d)"
  note page = page_keys [OF assms(1) Suc.prems(1,2) refl]
  show ?case
  proof (cases "li_next ?ans")
    case (Some cur)
    obtain s where s: "s \<in> set (li_rows ?ans)" "page_key s = cur" using page(6) [OF Some] by blast
    let ?left = "\<lambda>c. filter (past c) (visible (la_conn a) d)"
    have "past (la_cursor a) t" if "page_key t < cur" for t
      using page(2) [OF s(1)] s(2) that by (auto simp: past_key split: option.splits)
    then have "?left (Some cur) = filter (past (Some cur)) (?left (la_cursor a))"
      by (auto simp: past_key intro!: filter_cong)
    moreover have "length (filter (past (Some cur)) (?left (la_cursor a))) < length (?left (la_cursor a))"
      using page(2) [OF s(1)] s(2) by (intro length_filter_less [of s]) (auto simp: past_key)
    ultimately have "\<exists>rows. follow rt (\<lambda>_. d) n (Suc k) (a\<lparr>la_cursor := Some cur\<rparr>) = Some rows"
      using Suc.prems by (intro Suc.IH) auto
    then show ?thesis using Some by (auto simp: Let_def)
  qed (simp add: Let_def)
qed simp

definition sample_row :: "string \<Rightarrow> int \<Rightarrow> char \<Rightarrow> nat option \<Rightarrow> tx_row" where
  "sample_row i h c gone = \<lparr>t_id = i, t_conn = C1, t_sealed = JNull, t_date = ''2024-01-01'', t_height = h,
     t_blind = replicate 64 c, t_hash = None, t_orphaned = gone, t_created = 0\<rparr>"

text \<open>Two rows in one block, one older, and one that a reorganisation removed.\<close>

definition db_rows :: db where
  "db_rows = db1\<lparr>txs := [sample_row ''t1'' 7 (CHR ''a'') None, sample_row ''t2'' 5 (CHR ''b'') None,
     sample_row ''t3'' 7 (CHR ''c'') None, sample_row ''t4'' 9 (CHR ''d'') (Some 1)]\<rparr>"

definition sample_list :: "nat \<Rightarrow> list_args" where
  "sample_list n = \<lparr>la_conn = C1, la_user = ''alice'', la_limit = n, la_cursor = None\<rparr>"

lemma sample_visible [simp]:
  "visible C1 db_rows = [sample_row ''t1'' 7 (CHR ''a'') None, sample_row ''t2'' 5 (CHR ''b'') None,
     sample_row ''t3'' 7 (CHR ''c'') None]"
  by (simp add: visible_def db_rows_def sample_row_def)

lemma sample_unique [simp]: "tx_unique db_rows"
  by (simp add: tx_unique_def db_rows_def sample_row_def)

lemma sample_list_simps [simp]:
  "la_conn (sample_list n) = C1" "la_limit (sample_list n) = n" "la_cursor (sample_list n) = None"
  "la_user (sample_list n) = ''alice''"
  by (simp_all add: sample_list_def)

definition sample_list_body :: json where
  "sample_list_body = JObj [(''connection_id'', JStr C1), (''app_user_id'', JStr ''alice''),
     (''limit'', JNum (jsint 5000))]"

section \<open>Properties\<close>

text \<open>
  Whatever \<open>or-stealth-transactions-list\<close> answers, the invocation has seen that the connection
  is on the platform of the caller's credential and belongs to the user named, who is the
  credential's own user when it has one, and the rows are a page of that connection's rows as
  one of the states held them, none of them orphaned.
\<close>

theorem transactions_list_reveals_own:
  assumes "result_of (transactions_list rt req) w = Answer ans"
  shows "\<exists>body a p d1 d2. acts_for rt req (field body ''widget_token'') w p (la_user a) \<and>
    (d1, d1) \<in> set (steps (transactions_list rt req) w) \<and> owns p (la_conn a) (la_user a) d1 \<and>
    (d2, d2) \<in> set (steps (transactions_list rt req) w) \<and>
    page_of_state rt a d2 ans \<and> set (li_rows ans) \<subseteq> set (visible (la_conn a) d2)"
proof -
  let ?g = "\<lambda>body ctx. case parse_list_owner body of
       Inl (s, m) \<Rightarrow> State_Monad.return (Refused s m)
     | Inr owner \<Rightarrow>
         (case user_mismatch ctx (snd owner) of
            Some (s, m) \<Rightarrow> State_Monad.return (Refused s m)
          | None \<Rightarrow>
              (case parse_page owner body of
                 Inl (s, m) \<Rightarrow> State_Monad.return (Refused s m)
               | Inr a \<Rightarrow> as_platform ctx (la_user a) (\<lambda>p. list_for rt p a)))"
  have logs_g: "logs (?g body ctx)" for body ctx
    by (auto intro!: as_platform_logs list_for_logs split: sum.splits option.splits)
  obtain body ctx w' where b: "credential_proves rt req (field body ''widget_token'') (seen w)
        (clock (env w (tick w))) ctx" "result_of (?g body ctx) w' = Answer ans"
      "set (steps (?g body ctx) w') \<subseteq> set (steps (transactions_list rt req) w)"
    using authenticated_answer [where g = ?g, OF logs_g assms [unfolded transactions_list_def]]
    unfolding transactions_list_def by blast
  then obtain a where a: "?g body ctx = as_platform ctx (la_user a) (\<lambda>p. list_for rt p a)"
      "result_of (as_platform ctx (la_user a) (\<lambda>p. list_for rt p a)) w' = Answer ans"
    by (auto split: sum.splits option.splits)
  obtain p where p: "acts_for rt req (field body ''widget_token'') w p (la_user a)"
      "listing.own_answer rt p a (set (steps (as_platform ctx (la_user a) (\<lambda>p. list_for rt p a)) w')) ans"
    using listing.platform_answer [OF b(1) a(2) [unfolded list_for_def]] unfolding list_for_def by blast
  have "set (li_rows ans) \<subseteq> set (visible (la_conn a) d)" if "page_of_state rt a d ans" for d
    using that by (auto simp: page_of_state_def page_answer_def page_query_def capped_def Let_def
        dest!: in_set_takeD split: if_splits option.splits)
  then show ?thesis
    using p b(3) unfolding a(1) listing.own_answer_def by blast
qed

theorem transactions_list_reveals_own_witness:
  "\<exists>ans (a :: list_args) d2. result_of (transactions_list (sample_runtime sample_list_body) sample_request)
      (calm_world db_rows 7 G2) = Answer ans \<and> set (li_rows ans) \<subseteq> set (visible (la_conn a) d2) \<and>
    li_total ans = 3"
proof -
  have body: "platforms db_rows = platforms db1" "sample_list_body \<noteq> JNull"
    by (simp_all add: db_rows_def sample_list_body_def)
  have rows: "conn_rows P1 C1 db_rows = [conn1]" by (simp add: db_rows_def conn_rows_def is_conn_def)
  have "length C1 = 36" using sample_uuids(2) by (simp add: is_uuid_def)
  then obtain ans where ans: "result_of (transactions_list (sample_runtime sample_list_body) sample_request)
      (calm_world db_rows 7 G2) = Answer ans" "li_total ans = 3"
    unfolding transactions_list_def sample_authenticated [OF body]
    by (simp add: sample_list_body_def parse_list_owner_def isUuid_def user_mismatch_def
        enforceWidgetAppUser_def parse_page_def parse_limit_def MAX_LIMIT_def Let_def
        sample_as_platform list_for_def owner_gate_def list_page_def run_simps rows page_answer_def)
  then show ?thesis using transactions_list_reveals_own [OF ans(1)] by blast
qed

text \<open>
  Following \<open>next_cursor\<close> to the end while syncs, reorg checks and resets change the table
  between the pages gives the rows in page order without a repetition, misses no row that was
  there throughout, and contains only rows that some page's state held.
\<close>

theorem paging_misses_nothing:
  assumes "\<And>k. tx_unique (ds k)" and "0 < la_limit a" and "room_for rt (Suc (la_limit a))"
    and "la_cursor a = None" and "follow rt ds n 0 a = Some rows"
  shows "sorted_wrt (\<lambda>s t. page_key t < page_key s) rows \<and>
    (\<forall>t. (\<forall>k. t \<in> set (visible (la_conn a) (ds k))) \<longrightarrow> t \<in> set rows) \<and>
    (\<forall>t \<in> set rows. \<exists>k. t \<in> set (visible (la_conn a) (ds k)))"
  using follow_pages [OF assms(1-3,5)] assms(4) by (simp add: descending_def past_def)

theorem paging_misses_nothing_witness:
  "\<exists>rows. follow (sample_runtime JNull) (\<lambda>_. db_rows) 4 0 (sample_list 1) = Some rows \<and>
     sample_row ''t2'' 5 (CHR ''b'') None \<in> set rows"
proof -
  have room: "room_for (sample_runtime JNull) n" for n by (simp add: room_for_def)
  obtain rows where rows: "follow (sample_runtime JNull) (\<lambda>_. db_rows) 4 0 (sample_list 1) = Some rows"
    using follow_ends [of db_rows "sample_list 1" "sample_runtime JNull" 4 0, OF _ _ room]
    by (auto simp: past_def)
  from paging_misses_nothing [of "\<lambda>_. db_rows" "sample_list 1" "sample_runtime JNull" 4 rows, OF _ _ room]
  have "\<forall>t. (\<forall>k :: nat. t \<in> set (visible C1 db_rows)) \<longrightarrow> t \<in> set rows"
    using rows by simp
  then show ?thesis using rows by simp
qed

text \<open>
  On a table that stays the same the caller's loop ends, after at most one page more than
  there are rows, with all rows that are not orphaned, newest first.
\<close>

theorem paging_terminates:
  assumes "tx_unique d" and "0 < la_limit a" and "room_for rt (Suc (la_limit a))"
    and "la_cursor a = None"
  shows "follow rt (\<lambda>_. d) (Suc (length (visible (la_conn a) d))) 0 a =
    Some (in_page_order (visible (la_conn a) d))"
proof -
  let ?n = "Suc (length (visible (la_conn a) d))"
  have none: "past (la_cursor a) = (\<lambda>_. True)" by (simp add: assms(4) past_def fun_eq_iff)
  obtain rows where rows: "follow rt (\<lambda>_. d) ?n 0 a = Some rows"
    using follow_ends [OF assms(1-3), of ?n 0] by (auto simp: none)
  have "descending rows" "set rows = set (visible (la_conn a) d)"
    using follow_pages [OF assms(1-3) rows] none by auto
  moreover have "descending (in_page_order (visible (la_conn a) d))"
    using in_page_order_descending [OF distinct_page_keys [OF assms(1), of "\<lambda>_. True"]] by simp
  ultimately show ?thesis using rows descending_unique by simp
qed

theorem paging_terminates_witness:
  "follow (sample_runtime JNull) (\<lambda>_. db_rows) 4 0 (sample_list 1) =
     Some [sample_row ''t3'' 7 (CHR ''c'') None, sample_row ''t1'' 7 (CHR ''a'') None,
       sample_row ''t2'' 5 (CHR ''b'') None]"
proof -
  have "in_page_order (visible C1 db_rows) = [sample_row ''t3'' 7 (CHR ''c'') None,
      sample_row ''t1'' 7 (CHR ''a'') None, sample_row ''t2'' 5 (CHR ''b'') None]"
  proof (rule descending_unique)
    show "descending (in_page_order (visible C1 db_rows))"
      by (rule in_page_order_descending)
        (use distinct_page_keys [OF sample_unique, of "\<lambda>_. True" C1] in simp)
    show "descending [sample_row ''t3'' 7 (CHR ''c'') None, sample_row ''t1'' 7 (CHR ''a'') None,
        sample_row ''t2'' 5 (CHR ''b'') None]"
      by (simp add: descending_def page_key_def sample_row_def numeral_eq_Suc less_char_def)
  qed auto
  then show ?thesis
    using paging_terminates [of db_rows "sample_list 1" "sample_runtime JNull"]
    by (simp add: room_for_def numeral_eq_Suc)
qed

text \<open>
  When the gateway in front of the database cuts results at \<open>m\<close> rows and the page size is \<open>m\<close> or
  more, the extra row that signals a further page never arrives: the answer claims to be the
  last page although the total it reports is larger than what it returned.
\<close>

theorem gateway_cap_hides_rows:
  assumes "calm w" and "la_cursor a = None" and "max_rows rt = Some m" and "m \<le> la_limit a"
    and "m < length (visible (la_conn a) (store w))"
  shows "\<exists>ans. result_of (list_page rt a) w = Answer ans \<and> \<not> li_more ans \<and> li_next ans = None \<and>
    length (li_rows ans) < li_total ans"
  using assms
  by (auto simp: list_page_def run_simps page_answer_def page_query_def capped_def Let_def
      nextCursorFrom_def past_def)

theorem gateway_cap_hides_rows_witness:
  "\<exists>ans. result_of (list_page ((sample_runtime JNull)\<lparr>max_rows := Some 2\<rparr>) (sample_list 2))
      (calm_world db_rows 7 G2) = Answer ans \<and> \<not> li_more ans \<and> length (li_rows ans) < li_total ans"
  using gateway_cap_hides_rows [of "calm_world db_rows 7 G2" "sample_list 2"
      "(sample_runtime JNull)\<lparr>max_rows := Some 2\<rparr>" 2] by auto

end
