(* ===== verification/ReorgCheck.thy ===== *)
theory ReorgCheck
  imports TransactionsList
begin

text \<open>
  Detecting transactions whose block left the chain: \<open>supabase/functions/or-stealth-reorg-check/index.ts\<close>.
  The block source is a parameter: the parsed sidecar of a height, or \<open>None\<close> when the fetch
  throws, answers with an error status or is not JSON.
\<close>

section \<open>The canonical hash\<close>

definition REORG_LOOKBACK_BLOCKS :: int where "REORG_LOOKBACK_BLOCKS = 100"

definition fetchCanonicalBlockHash :: "(int \<Rightarrow> json option) \<Rightarrow> int \<Rightarrow> string option" where
  "fetchCanonicalBlockHash source h =
     (case source h of
        None \<Rightarrow> None
      | Some sidecar \<Rightarrow>
          (case field sidecar ''block_hash'' of
             Some (JStr raw) \<Rightarrow> if is_hex64 raw then Some (map lower_char raw) else None
           | _ \<Rightarrow> None))"

section \<open>The handler\<close>

record reorg_args =
  ra_conn :: uuid_arg
  ra_user :: string
  ra_tip :: int

definition parse_reorg_body :: "json \<Rightarrow> auth_error + reorg_args" where
  "parse_reorg_body body =
     (case uuid_value (field body ''connection_id'') of
        None \<Rightarrow> Inl (400, ''connection_id (uuid) required'')
      | Some c \<Rightarrow>
     (case nonempty_string (field body ''app_user_id'') of
        None \<Rightarrow> Inl (400, ''app_user_id required'')
      | Some u \<Rightarrow>
     (case nonneg_integer (field body ''chain_tip'') of
        None \<Rightarrow> Inl (400, ''chain_tip must be a non-negative integer'')
      | Some tip \<Rightarrow> Inr \<lparr>ra_conn = c, ra_user = u, ra_tip = tip\<rparr>)))"

text \<open>
  The rows to compare: of the connection, not orphaned, with a hash, in the look-back window,
  and not at height 0, which stands for an unknown height.
\<close>

definition in_window :: "int \<Rightarrow> int \<Rightarrow> bool" where
  "in_window tip h \<longleftrightarrow> max 1 (max 0 (tip - REORG_LOOKBACK_BLOCKS)) \<le> h \<and> h \<le> tip"

definition candidate :: "reorg_args \<Rightarrow> tx_row \<Rightarrow> bool" where
  "candidate a t \<longleftrightarrow> t_conn t = pg_uuid (text_of (ra_conn a)) \<and> t_orphaned t = None \<and>
     t_hash t \<noteq> None \<and> in_window (ra_tip a) (t_height t)"

definition mismatched :: "(int \<Rightarrow> json option) \<Rightarrow> tx_row \<Rightarrow> bool" where
  "mismatched source t =
     (case fetchCanonicalBlockHash source (t_height t) of
        None \<Rightarrow> False
      | Some h \<Rightarrow> t_hash t \<noteq> Some h)"

definition orphan_rows :: "string list \<Rightarrow> event \<Rightarrow> db \<Rightarrow> (rpc_error + unit) \<times> db" where
  "orphan_rows ids e d = (Inr (), d\<lparr>txs := map (\<lambda>t.
     if t_id t \<in> set ids \<and> t_orphaned t = None then t\<lparr>t_orphaned := Some (clock e)\<rparr> else t) (txs d)\<rparr>)"

lemma orphan_rows_ok [simp]: "fst (orphan_rows ids e d) = Inr ()"
  by (simp add: orphan_rows_def)

record reorg_answer =
  re_conn :: uuid_arg
  re_checked :: nat
  re_orphaned :: nat

definition mark_orphaned :: "reorg_args \<Rightarrow> nat \<Rightarrow> string list \<Rightarrow> reorg_answer reply io" where
  "mark_orphaned a checked ids =
     (let ans = Answer \<lparr>re_conn = ra_conn a, re_checked = checked, re_orphaned = length ids\<rparr> in
      if ids = [] then State_Monad.return ans
      else do {
        done \<leftarrow> request (orphan_rows ids);
        case done of
          Inl _ \<Rightarrow> State_Monad.return (Refused 500 ''Failed to mark orphaned transactions'')
        | Inr _ \<Rightarrow> State_Monad.return ans
      })"

definition reorg_work :: "runtime \<Rightarrow> (int \<Rightarrow> json option) \<Rightarrow> reorg_args \<Rightarrow> reorg_answer reply io" where
  "reorg_work rt source a = do {
     rows \<leftarrow> query (\<lambda>e d. if is_int4 (ra_tip a) then Inr (capped rt (filter (candidate a) (txs d)))
                        else Inl int4_error);
     case rows of
       Inl _ \<Rightarrow> State_Monad.return (Refused 500 ''Failed to query transactions'')
     | Inr ts \<Rightarrow> mark_orphaned a (length ts) (map t_id (filter (mismatched source) ts))
   }"

definition reorg_for :: "runtime \<Rightarrow> (int \<Rightarrow> json option) \<Rightarrow> string \<Rightarrow> reorg_args \<Rightarrow> reorg_answer reply io" where
  "reorg_for rt source p a = owner_gate p (text_of (ra_conn a)) (ra_user a)
     (Refused 404 ''Connection not found'') (Refused 403 ''Connection does not belong to caller'')
     (reorg_work rt source a)"

definition reorg_check :: "runtime \<Rightarrow> (int \<Rightarrow> json option) \<Rightarrow> http_request \<Rightarrow> reorg_answer reply io" where
  "reorg_check rt source req = endpoint rt req parse_reorg_body ra_user (reorg_for rt source)"

section \<open>What the endpoint may write\<close>

text \<open>
  The marks of one call: rows that a state of the invocation held as candidates of the
  connection and whose stored hash is not the canonical one.
\<close>

definition orphan_write ::
    "(int \<Rightarrow> json option) \<Rightarrow> reorg_args \<Rightarrow> (db \<times> db) set \<Rightarrow> db \<Rightarrow> db \<Rightarrow> bool" where
  "orphan_write source a trace d d' \<longleftrightarrow> d' = d \<or>
     (\<exists>ids now d0. (d0, d0) \<in> trace \<and>
        d' = d\<lparr>txs := map (\<lambda>t. if t_id t \<in> ids \<and> t_orphaned t = None
                             then t\<lparr>t_orphaned := Some now\<rparr> else t) (txs d)\<rparr> \<and>
        (\<forall>i \<in> ids. \<exists>t \<in> set (txs d0). t_id t = i \<and> candidate a t \<and> mismatched source t))"

lemma capped_subset: "set (capped rt xs) \<subseteq> set xs"
  by (auto simp: capped_def dest: in_set_takeD split: option.splits)

lemma mark_orphaned_logs: "logs (mark_orphaned a n ids)"
  unfolding mark_orphaned_def Let_def by (auto split: sum.split)

lemma mark_orphaned_steps:
  assumes "(d, d') \<in> set (steps (mark_orphaned a n ids) w)"
  shows "d' = d \<or> (\<exists>e. d' = snd (orphan_rows ids e d))"
proof (cases "ids = []")
  case False
  let ?f = "\<lambda>done. case done of
       Inl _ \<Rightarrow> State_Monad.return (Refused 500 ''Failed to mark orphaned transactions'')
     | Inr _ \<Rightarrow> State_Monad.return (Answer \<lparr>re_conn = ra_conn a, re_checked = n, re_orphaned = length ids\<rparr>)"
  have logs_f: "logs (?f x)" for x :: "rpc_error + unit" by (auto split: sum.split)
  have "(d, d') \<in> set (steps (State_Monad.bind (request (orphan_rows ids)) ?f) w)"
    using assms False by (simp add: mark_orphaned_def)
  then show ?thesis
    by (rule steps_bindE) (auto intro!: logs_f dest: request_steps split: sum.splits)
qed (use assms in \<open>simp add: mark_orphaned_def\<close>)

lemma reorg_work_logs: "logs (reorg_work rt source a)"
  unfolding reorg_work_def by (auto intro!: mark_orphaned_logs split: sum.split)

lemma reorg_work_steps:
  assumes "(d, d') \<in> set (steps (reorg_work rt source a) w)"
  shows "orphan_write source a (set (steps (reorg_work rt source a) w)) d d'"
proof -
  let ?q = "query (\<lambda>e d. if is_int4 (ra_tip a) then Inr (capped rt (filter (candidate a) (txs d)))
      else Inl int4_error)"
  let ?ids = "\<lambda>ts. map t_id (filter (mismatched source) ts)"
  let ?f = "\<lambda>rows. case rows of
       Inl _ \<Rightarrow> State_Monad.return (Refused 500 ''Failed to query transactions'')
     | Inr ts \<Rightarrow> mark_orphaned a (length ts) (?ids ts)"
  have logs_q: "logs ?q" by blast
  have logs_f: "logs (?f x)" for x :: "rpc_error + tx_row list"
    by (auto intro!: mark_orphaned_logs split: sum.split)
  note parts = bind_parts [where f = ?f and w = w, OF logs_q logs_f, folded reorg_work_def]
  from assms consider "(d, d') \<in> set (steps ?q w)"
    | "(d, d') \<in> set (steps (?f (result_of ?q w)) (world_after ?q w))"
    unfolding reorg_work_def by (rule steps_bindE) (rule logs_q logs_f)+
  then show ?thesis
  proof cases
    case 1
    then show ?thesis
      using no_write.keeps_steps [OF no_write.keeps_query] by (auto simp: orphan_write_def)
  next
    case 2
    then obtain ts where ts: "result_of ?q w = Inr ts" by (auto split: sum.splits)
    have "(d, d') \<in> set (steps (mark_orphaned a (length ts) (?ids ts)) (world_after ?q w))"
      using 2 unfolding ts by simp
    then consider "d' = d" | e where "d' = snd (orphan_rows (?ids ts) e d)"
      using mark_orphaned_steps by blast
    then show ?thesis
    proof cases
      case 1
      then show ?thesis by (simp add: orphan_write_def)
    next
      case (2 e)
      obtain d0 where d0: "(d0, d0) \<in> set (steps ?q w)"
          "(if is_int4 (ra_tip a) then Inr (capped rt (filter (candidate a) (txs d0))) else Inl int4_error) = Inr ts"
        using query_answer_step [OF ts] by blast
      then have "set ts \<subseteq> set (filter (candidate a) (txs d0))"
        using capped_subset [of rt "filter (candidate a) (txs d0)"] by (auto split: if_splits)
      have "\<exists>t \<in> set (txs d0). t_id t = i \<and> candidate a t \<and> mismatched source t"
        if "i \<in> set (?ids ts)" for i
        using that \<open>set ts \<subseteq> _\<close> by auto
      then show ?thesis
        using d0(1) parts(2) unfolding orphan_write_def 2 orphan_rows_def snd_conv by blast
    qed
  qed
qed

lemma orphan_write_mono:
  "orphan_write source a T d d' \<Longrightarrow> T \<subseteq> T' \<Longrightarrow> orphan_write source a T' d d'"
  unfolding orphan_write_def by blast

lemma reorg_for_logs: "logs (reorg_for rt source p a)"
  unfolding reorg_for_def by (rule owner_gate_logs) (rule reorg_work_logs)

lemma reorg_for_steps:
  assumes "(d, d') \<in> set (steps (reorg_for rt source p a) w)"
  shows "d' = d \<or> (\<exists>d0. (d0, d0) \<in> set (steps (reorg_for rt source p a) w) \<and>
    owns p (text_of (ra_conn a)) (ra_user a) d0 \<and>
    orphan_write source a (set (steps (reorg_for rt source p a) w)) d d')"
  using owner_gate_steps [OF reorg_work_logs assms [unfolded reorg_for_def]] reorg_work_steps
    orphan_write_mono unfolding reorg_for_def by meson

section \<open>What stays hidden\<close>

text \<open>The blind index is stored for the connection, and no row with it is shown.\<close>

definition hidden :: "string \<Rightarrow> string \<Rightarrow> db \<Rightarrow> bool" where
  "hidden c b d \<longleftrightarrow> tx_known (pg_uuid c) b (txs d) \<and> (\<forall>t \<in> set (visible c d). t_blind t \<noteq> b)"

lemma hidden_same_txs: "txs d' = txs d \<Longrightarrow> hidden c b d' = hidden c b d"
  by (simp add: hidden_def visible_def)

lemma hidden_store_write: "store_write p a d d' \<Longrightarrow> hidden c b d \<Longrightarrow> hidden c b d'"
  unfolding store_write_def txs_append_def inserted_rows_def hidden_def visible_def by auto

section \<open>Undisturbed runs\<close>

lemma orphan_rows_calm:
  assumes "distinct (map t_id ts)"
  shows "map (\<lambda>t. if t_id t \<in> t_id ` set (filter (mismatched source) (filter (candidate a) ts)) \<and> t_orphaned t = None
      then t\<lparr>t_orphaned := Some now\<rparr> else t) ts =
    map (\<lambda>t. if candidate a t \<and> mismatched source t then t\<lparr>t_orphaned := Some now\<rparr> else t) ts"
proof (rule map_cong [OF refl])
  fix t assume t: "t \<in> set ts"
  have "t_id t \<in> t_id ` set (filter (mismatched source) (filter (candidate a) ts)) \<longleftrightarrow>
      candidate a t \<and> mismatched source t"
    using assms t by (auto simp: distinct_map dest: inj_onD)
  moreover have "candidate a t \<Longrightarrow> t_orphaned t = None" by (simp add: candidate_def)
  ultimately show "(if t_id t \<in> t_id ` set (filter (mismatched source) (filter (candidate a) ts)) \<and> t_orphaned t = None
      then t\<lparr>t_orphaned := Some now\<rparr> else t) =
    (if candidate a t \<and> mismatched source t then t\<lparr>t_orphaned := Some now\<rparr> else t)" by auto
qed

definition hash_row :: "string \<Rightarrow> int \<Rightarrow> char \<Rightarrow> tx_row" where
  "hash_row i h c = (sample_row i h c None)\<lparr>t_hash := Some (replicate 64 c)\<rparr>"

definition db_reorg :: db where
  "db_reorg = db1\<lparr>txs := [hash_row ''t1'' 950 (CHR ''a''), hash_row ''t2'' 960 (CHR ''b''),
     hash_row ''t3'' 800 (CHR ''c''), sample_row ''t4'' 970 (CHR ''d'') None]\<rparr>"

definition sample_reorg :: reorg_args where
  "sample_reorg = \<lparr>ra_conn = Plain C1, ra_user = ''alice'', ra_tip = 1000\<rparr>"

text \<open>A block source whose every block has the hash \<open>a\<dots>a\<close>.\<close>

definition sample_source :: "int \<Rightarrow> json option" where
  "sample_source h = Some (JObj [(''block_hash'', JStr (replicate 64 (CHR ''a'')))])"

lemma sample_hash [simp]:
  "is_hex64 (replicate 64 (CHR ''a''))"
  "lower_char (CHR ''a'') = CHR ''a''"
  by code_simp+

lemma sample_mismatched [simp]: "mismatched sample_source t \<longleftrightarrow> t_hash t \<noteq> Some (replicate 64 (CHR ''a''))"
  by (simp add: mismatched_def fetchCanonicalBlockHash_def sample_source_def)

lemma db_reorg_simps [simp]:
  "platforms db_reorg = platforms db1" "conns db_reorg = [conn1]"
  "filter (candidate sample_reorg) (txs db_reorg) =
     [hash_row ''t1'' 950 (CHR ''a''), hash_row ''t2'' 960 (CHR ''b'')]"
  "distinct (map t_id (txs db_reorg))"
  by (simp_all add: db_reorg_def candidate_def sample_reorg_def in_window_def
      REORG_LOOKBACK_BLOCKS_def hash_row_def sample_row_def)

lemma sample_reorg_simps [simp]:
  "conn_rows P1 (text_of (ra_conn sample_reorg)) db_reorg = [conn1]"
  "ra_user sample_reorg = ''alice''" "is_int4 (ra_tip sample_reorg)"
  "filter (\<lambda>t. candidate sample_reorg t \<and> t_hash t \<noteq> Some (replicate 64 (CHR ''a''))) (txs db_reorg) =
     [hash_row ''t2'' 960 (CHR ''b'')]"
  "t_id (hash_row i h c) = i" "t_hash (hash_row i h c) = Some (replicate 64 c)"
  by (simp_all add: conn_rows_def is_conn_def is_int4_def candidate_def sample_reorg_def in_window_def
      REORG_LOOKBACK_BLOCKS_def hash_row_def sample_row_def db_reorg_def)

definition sample_reorg_body :: json where
  "sample_reorg_body = JObj [(''connection_id'', JStr C1), (''app_user_id'', JStr ''alice''),
     (''chain_tip'', JNum (jsint 1000))]"

section \<open>Properties\<close>

text \<open>
  Under every interleaving and failure, \<open>or-stealth-reorg-check\<close> changes nothing but orphan
  marks, and marks a row only after the invocation has seen the caller's connection to be the
  caller's and that row, not yet marked, inside the look-back window of the connection with a
  stored hash that is not the one the block source serves for its height.
\<close>

theorem reorg_check_marks_only_mismatches:
  assumes "(d, d') \<in> set (steps (reorg_check rt source req) w)"
  shows "same_tables d d' \<or> (\<exists>body a p w' d0. parse_reorg_body body = Inr a \<and>
    acts_for rt req (field body ''widget_token'') w p (ra_user a) \<and>
    (d0, d0) \<in> set (steps (reorg_for rt source p a) w') \<and> owns p (text_of (ra_conn a)) (ra_user a) d0 \<and>
    orphan_write source a (set (steps (reorg_for rt source p a) w')) d d')"
proof -
  have "same_tables d d" by (simp add: same_tables_def)
  then show ?thesis
    using endpoint_steps [OF reorg_for_logs assms [unfolded reorg_check_def]] reorg_for_steps by blast
qed

theorem reorg_check_marks_only_mismatches_witness:
  "\<exists>d d' (a :: reorg_args) tr. \<not> same_tables d d' \<and> orphan_write sample_source a tr d d'"
proof -
  let ?rt = "sample_runtime sample_reorg_body"
  have body: "sample_reorg_body \<noteq> JNull" "parse_reorg_body sample_reorg_body = Inr sample_reorg"
    by (simp_all add: sample_reorg_body_def parse_reorg_body_def sample_reorg_def)
  note run = sample_endpoint [where parse = parse_reorg_body and user = ra_user and
      k = "reorg_for ?rt sample_source", OF db_reorg_simps(1) body]
  let ?d' = "snd (orphan_rows [''t2''] (env (calm_world db_reorg 7 G2) (Suc (Suc (Suc 0)))) db_reorg)"
  have "steps (reorg_check ?rt sample_source sample_request) (calm_world db_reorg 7 G2) =
      [(db_reorg, db_reorg), (db_reorg, db_reorg), (db_reorg, db_reorg), (db_reorg, ?d')]"
    unfolding steps_def reorg_check_def run
    by (simp add: reorg_for_def owner_gate_def reorg_work_def mark_orphaned_def run_simps capped_def
        Let_def)
  then have "(db_reorg, ?d') \<in> set (steps (reorg_check ?rt sample_source sample_request)
      (calm_world db_reorg 7 G2))"
    by (simp only: list.set insert_iff simp_thms)
  moreover have "\<not> same_tables db_reorg ?d'"
    by (simp add: same_tables_def orphan_rows_def db_reorg_def hash_row_def sample_row_def)
  ultimately show ?thesis using reorg_check_marks_only_mismatches by blast
qed



text \<open>
  A block source that cannot be read orphans nothing: when no height of the window has a
  sidecar, no step of the check changes a table, under every interleaving and failure.
\<close>

theorem unreadable_source_orphans_nothing:
  assumes "\<And>h. in_window (ra_tip a) h \<Longrightarrow> source h = None"
    and "(d, d') \<in> set (steps (reorg_for rt source p a) w)"
  shows "d' = d"
proof -
  have "\<not> (candidate a t \<and> mismatched source t)" for t
    using assms(1) by (auto simp: candidate_def mismatched_def fetchCanonicalBlockHash_def)
  then have empty: "ids = {}" if "\<forall>i \<in> ids. \<exists>t \<in> set (txs d0). t_id t = i \<and> candidate a t \<and> mismatched source t"
    for ids d0 using that by blast
  have "d' = d" if "orphan_write source a T d d'" for T
    using that unfolding orphan_write_def by (auto dest!: empty)
  then show ?thesis using reorg_for_steps [OF assms(2)] by blast
qed

theorem unreadable_source_orphans_nothing_witness:
  "\<exists>d'. (db_reorg, d') \<in> set (steps (reorg_for (sample_runtime JNull) (\<lambda>_. None) P1 sample_reorg)
       (calm_world db_reorg 7 G2)) \<and> d' = db_reorg"
proof -
  have "(db_reorg, db_reorg) \<in> set (steps (reorg_for (sample_runtime JNull) (\<lambda>_. None) P1 sample_reorg)
      (calm_world db_reorg 7 G2))"
    by (simp add: steps_def reorg_for_def owner_gate_def reorg_work_def mark_orphaned_def run_simps
        capped_def Let_def mismatched_def fetchCanonicalBlockHash_def)
  then show ?thesis using unreadable_source_orphans_nothing [of sample_reorg "\<lambda>_. None"] by blast
qed

text \<open>
  A transaction that a reorganisation removed and that is mined again stays hidden: once its
  row is orphaned, no write of \<open>or-stealth-transactions-store\<close>, whatever is submitted, makes a row with
  its blind index visible to \<open>or-stealth-transactions-list\<close>, because the orphaned row counts as a
  duplicate and nothing takes its mark away.
\<close>

theorem orphaned_transaction_stays_hidden:
  assumes "(d, d') \<in> set (steps (transactions_store rt req) w)" and "hidden c b d"
  shows "hidden c b d'"
proof (cases "same_tables d d'")
  case True
  then show ?thesis using hidden_same_txs [of d' d] assms(2) by (simp add: same_tables_def)
next
  case False
  then obtain p a where "store_write p a d d'"
    using transactions_store_steps [OF assms(1)] by blast
  then show ?thesis using hidden_store_write assms(2) by blast
qed

text \<open>The transaction of the sample batch, orphaned before the batch submits it again.\<close>

definition db_orphaned :: db where
  "db_orphaned = db1\<lparr>txs := [(sample_row ''t1'' 140 (CHR ''a'') (Some 3))]\<rparr>"

theorem orphaned_transaction_stays_hidden_witness:
  "\<exists>d'. (db_orphaned, d') \<in> set (steps (transactions_store (sample_runtime sample_store_body) sample_request)
       (calm_world db_orphaned 7 G2)) \<and> c_attempt (hd (conns d')) = Some 7 \<and>
     hidden C1 (st_blind sample_tx) d'"
proof -
  let ?d' = "update_conns (is_conn P1 C1) (\<lambda>r. r\<lparr>c_attempt := Some 7, c_updated := 7\<rparr>) db_orphaned"
  have body: "platforms db_orphaned = platforms db1" "sample_store_body \<noteq> JNull"
    by (simp_all add: sample_store_body_def db_orphaned_def)
  note run = sample_endpoint [where d = db_orphaned and parse = "parse_store_body _", OF body parse_sample_store]
  have rows: "conn_rows P1 C1 db_orphaned = [conn1]"
    by (simp add: db_orphaned_def conn_rows_def is_conn_def)
  have "(db_orphaned, ?d') \<in> set (steps (transactions_store (sample_runtime sample_store_body) sample_request)
      (calm_world db_orphaned 7 G2))"
    unfolding steps_def transactions_store_def run
    by (simp add: store_for_def Let_def run_simps stamp_attempt_def known_blinds_def rows)
      (rule log_kept, auto intro!: any_write.keeps_mono [OF sto.write_guarantee_axioms
         write_batch_keeps [of _ sample_store]] simp: fresh_rows_def)
  moreover have "hidden C1 (st_blind sample_tx) db_orphaned" "c_attempt (hd (conns ?d')) = Some 7"
    by (simp_all add: hidden_def db_orphaned_def tx_known_def visible_def sample_row_def sample_tx_def
        update_conns_def is_conn_def conn1_def)
  ultimately show ?thesis using orphaned_transaction_stays_hidden by blast
qed

end
