(* ===== verification/SealedReads.thy ===== *)
theory SealedReads
  imports Endpoints TransactionStore
begin

text \<open>
  What the widget reads before it scans: the sealed envelope with the coverage of its connection
  (\<open>or-stealth-envelope-fetch/index.ts\<close>) and the stored UTXO set (\<open>or-stealth-utxos-fetch/index.ts\<close>).
\<close>

section \<open>The UTXO set (\<open>or-stealth-utxos-fetch\<close>)\<close>

record utxos_args =
  fu_conn :: uuid_arg
  fu_user :: string

definition parse_utxos_body :: "json \<Rightarrow> auth_error + utxos_args" where
  "parse_utxos_body body =
     (case uuid_value (field body ''connection_id'') of
        None \<Rightarrow> Inl (400, ''connection_id (uuid) required'')
      | Some c \<Rightarrow>
     (case nonempty_string (field body ''app_user_id'') of
        None \<Rightarrow> Inl (400, ''app_user_id required'')
      | Some u \<Rightarrow> Inr \<lparr>fu_conn = c, fu_user = u\<rparr>))"

definition isSealedEnvelopeLike :: "json \<Rightarrow> bool" where
  "isSealedEnvelopeLike x \<longleftrightarrow>
     field x ''version'' = Some (JNum (Fin 1)) \<and>
     field x ''algorithm'' = Some (JStr ''AES-256-GCM'') \<and>
     string_field x ''iv_b64'' \<noteq> None \<and> string_field x ''ciphertext_b64'' \<noteq> None"

record utxos_answer =
  fo_conn :: uuid_arg
  fo_sealed :: "json option"
  fo_scanned :: "int option"

definition utxos_of :: "string \<Rightarrow> db \<Rightarrow> utxo_row list" where
  "utxos_of c d = filter (\<lambda>u. u_conn u = pg_uuid c) (utxos d)"

text \<open>No row, or a JSON \<open>null\<close> in it, answers with nulls.\<close>

definition utxos_reply :: "utxos_args \<Rightarrow> utxo_row option \<Rightarrow> utxos_answer reply" where
  "utxos_reply a row =
     (case row of
        None \<Rightarrow> Answer \<lparr>fo_conn = fu_conn a, fo_sealed = None, fo_scanned = None\<rparr>
      | Some u \<Rightarrow>
          if u_sealed u = JNull then Answer \<lparr>fo_conn = fu_conn a, fo_sealed = None, fo_scanned = None\<rparr>
          else if isSealedEnvelopeLike (u_sealed u)
          then Answer \<lparr>fo_conn = fu_conn a, fo_sealed = Some (u_sealed u), fo_scanned = Some (u_scanned u)\<rparr>
          else Refused 500 ''Stored UTXO set is malformed'')"

definition utxos_work :: "utxos_args \<Rightarrow> utxos_answer reply io" where
  "utxos_work a = do {
     row \<leftarrow> query (\<lambda>e d. maybe_single (utxos_of (text_of (fu_conn a)) d));
     case row of
       Inl _ \<Rightarrow> State_Monad.return (Refused 500 ''Failed to load stored UTXO set'')
     | Inr r \<Rightarrow> State_Monad.return (utxos_reply a r)
   }"

definition utxos_for :: "string \<Rightarrow> utxos_args \<Rightarrow> utxos_answer reply io" where
  "utxos_for p a = owner_gate p (text_of (fu_conn a)) (fu_user a)
     (Refused 404 ''Connection not found'') (Refused 403 ''Connection does not belong to caller'')
     (utxos_work a)"

definition utxos_fetch :: "runtime \<Rightarrow> http_request \<Rightarrow> utxos_answer reply io" where
  "utxos_fetch rt req = endpoint rt req parse_utxos_body fu_user utxos_for"

text \<open>The answer is the stored set of the connection, whole, or nothing.\<close>

definition utxos_revealed :: "utxos_args \<Rightarrow> db \<Rightarrow> utxos_answer \<Rightarrow> bool" where
  "utxos_revealed a d ans \<longleftrightarrow>
     (fo_sealed ans = None \<and> fo_scanned ans = None) \<or>
     (\<exists>u. utxos_of (text_of (fu_conn a)) d = [u] \<and> fo_sealed ans = Some (u_sealed u) \<and>
        fo_scanned ans = Some (u_scanned u) \<and> isSealedEnvelopeLike (u_sealed u))"

lemma utxos_work_answers:
  assumes "result_of (utxos_work a) w = Answer ans"
  shows "\<exists>d. (d, d) \<in> set (steps (utxos_work a) w) \<and> utxos_revealed a d ans"
proof -
  let ?q = "query (\<lambda>e d. maybe_single (utxos_of (text_of (fu_conn a)) d))"
  let ?f = "\<lambda>row. case row of
       Inl _ \<Rightarrow> State_Monad.return (Refused 500 ''Failed to load stored UTXO set'')
     | Inr r \<Rightarrow> State_Monad.return (utxos_reply a r)"
  have logs: "logs ?q" "\<And>x. logs (?f x)" by (auto split: sum.split)
  obtain r where r: "result_of ?q w = Inr r" "utxos_reply a r = Answer ans"
    using assms by (auto simp: utxos_work_def split: sum.splits)
  obtain d where d: "(d, d) \<in> set (steps ?q w)" "maybe_single (utxos_of (text_of (fu_conn a)) d) = Inr r"
    using query_answer_step [OF r(1)] by blast
  have "utxos_revealed a d ans"
    using r(2) d(2) by (auto simp: utxos_revealed_def utxos_reply_def maybe_single_Some
        split: option.splits if_splits)
  then show ?thesis
    using d(1) bind_parts(2) [where m = ?q and f = ?f and w = w, OF logs, folded utxos_work_def] by blast
qed

interpretation utxo_read: gated_read "\<lambda>a. text_of (fu_conn a)" fu_user
    "Refused 404 ''Connection not found''" "Refused 403 ''Connection does not belong to caller''"
    utxos_work utxos_revealed
  by unfold_locales
    (auto simp: utxos_work_def intro!: utxos_work_answers [unfolded utxos_work_def] split: sum.split)

section \<open>The envelope and its coverage (\<open>or-stealth-envelope-fetch\<close>)\<close>

record fetch_args =
  fa_conn :: uuid_arg
  fa_user :: string
  fa_slug :: "string option"

text \<open>
  An \<open>app_slug\<close> that is truthy is printed into the filter; \<open>text\<close> prints a value that is not a
  string.
\<close>

definition slug_filter :: "(json \<Rightarrow> string) \<Rightarrow> json option \<Rightarrow> string option" where
  "slug_filter text x =
     (if truthy x then (case x of Some (JStr s) \<Rightarrow> Some s | Some y \<Rightarrow> Some (text y) | None \<Rightarrow> None)
      else None)"

definition parse_fetch_body :: "(json \<Rightarrow> string) \<Rightarrow> json \<Rightarrow> auth_error + fetch_args" where
  "parse_fetch_body text body =
     (case uuid_value (field body ''connection_id'') of
        None \<Rightarrow> Inl (400, ''connection_id (uuid) required'')
      | Some c \<Rightarrow>
     (case nonempty_string (field body ''app_user_id'') of
        None \<Rightarrow> Inl (400, ''app_user_id required'')
      | Some u \<Rightarrow> Inr \<lparr>fa_conn = c, fa_user = u, fa_slug = slug_filter text (field body ''app_slug'')\<rparr>))"

definition MAX_SCAN_RANGES :: nat where "MAX_SCAN_RANGES = 500"

definition fetch_match :: "string \<Rightarrow> fetch_args \<Rightarrow> conn_row \<Rightarrow> bool" where
  "fetch_match p a r \<longleftrightarrow> is_conn p (text_of (fa_conn a)) r \<and> c_owner r = fa_user a \<and>
     (case fa_slug a of None \<Rightarrow> True | Some s \<Rightarrow> c_slug r = s)"

definition range_rows :: "runtime \<Rightarrow> string \<Rightarrow> db \<Rightarrow> (int \<times> int) list" where
  "range_rows rt c d = capped rt (take MAX_SCAN_RANGES (sort_key fst (ranges_of c d)))"

record fetch_answer =
  eo_conn :: string
  eo_envelope :: json
  eo_kind :: string
  eo_birthday :: "string option"
  eo_cursor :: "int option"
  eo_last_sync :: "nat option"
  eo_status :: string
  eo_ranges :: "(int \<times> int) list option"
  eo_generation :: string

definition fetch_answer_of :: "conn_row \<Rightarrow> (int \<times> int) list option \<Rightarrow> fetch_answer" where
  "fetch_answer_of r rows = \<lparr>eo_conn = c_id r, eo_envelope = c_envelope r, eo_kind = c_kind r,
     eo_birthday = c_birthday r, eo_cursor = c_cursor r, eo_last_sync = c_last_sync r,
     eo_status = c_status r, eo_ranges = rows, eo_generation = c_generation r\<rparr>"

text \<open>A failed read of the coverage answers \<open>null\<close> for it, not an empty list.\<close>

definition fetch_coverage :: "runtime \<Rightarrow> conn_row \<Rightarrow> fetch_answer reply io" where
  "fetch_coverage rt r = do {
     rows \<leftarrow> query (\<lambda>e d. Inr (range_rows rt (c_id r) d));
     State_Monad.return (Answer (fetch_answer_of r (case rows of Inl _ \<Rightarrow> None | Inr rs \<Rightarrow> Some rs)))
   }"

definition fetch_for :: "runtime \<Rightarrow> string \<Rightarrow> fetch_args \<Rightarrow> fetch_answer reply io" where
  "fetch_for rt p a = do {
     found \<leftarrow> query (\<lambda>e d. maybe_single (filter (fetch_match p a) (conns d)));
     case found of
       Inl _ \<Rightarrow> State_Monad.return (Refused 500 ''Failed to load stealth connection'')
     | Inr None \<Rightarrow> State_Monad.return (Refused 404 ''Connection not found'')
     | Inr (Some r) \<Rightarrow> fetch_coverage rt r
   }"

definition envelope_fetch :: "runtime \<Rightarrow> (json \<Rightarrow> string) \<Rightarrow> http_request \<Rightarrow> fetch_answer reply io" where
  "envelope_fetch rt text req = endpoint rt req (parse_fetch_body text) fa_user (fetch_for rt)"

section \<open>What the answers are\<close>

lemma fetch_coverage_logs: "logs (fetch_coverage rt r)"
  unfolding fetch_coverage_def by (auto split: sum.split)

lemma fetch_coverage_answer:
  assumes "result_of (fetch_coverage rt r) w = Answer ans"
  shows "ans = fetch_answer_of r (eo_ranges ans) \<and> (eo_ranges ans = None \<or>
    (\<exists>d. (d, d) \<in> set (steps (fetch_coverage rt r) w) \<and> eo_ranges ans = Some (range_rows rt (c_id r) d)))"
  using assms
  by (auto simp: fetch_coverage_def query_def steps_def request_def Let_def fetch_answer_of_def
      split: fate.splits)

lemma fetch_for_logs: "logs (fetch_for rt p a)"
  unfolding fetch_for_def by (auto intro!: fetch_coverage_logs split: sum.split option.split)

lemma fetch_for_answer:
  assumes "result_of (fetch_for rt p a) w = Answer ans"
  shows "\<exists>r d1. (d1, d1) \<in> set (steps (fetch_for rt p a) w) \<and> r \<in> set (conns d1) \<and> fetch_match p a r \<and>
    ans = fetch_answer_of r (eo_ranges ans) \<and> (eo_ranges ans = None \<or>
    (\<exists>d2. (d2, d2) \<in> set (steps (fetch_for rt p a) w) \<and> eo_ranges ans = Some (range_rows rt (c_id r) d2)))"
proof -
  let ?q = "query (\<lambda>e d. maybe_single (filter (fetch_match p a) (conns d)))"
  let ?f = "\<lambda>found. case found of
       Inl _ \<Rightarrow> State_Monad.return (Refused 500 ''Failed to load stealth connection'')
     | Inr None \<Rightarrow> State_Monad.return (Refused 404 ''Connection not found'')
     | Inr (Some r) \<Rightarrow> fetch_coverage rt r"
  have logs_q: "logs ?q" by blast
  have logs_f: "logs (?f x)" for x :: "rpc_error + conn_row option"
    by (auto intro!: fetch_coverage_logs split: sum.split option.split)
  note parts = bind_parts [where m = ?q and f = ?f and w = w, OF logs_q logs_f, folded fetch_for_def]
  obtain r where r: "result_of ?q w = Inr (Some r)"
      "result_of (fetch_coverage rt r) (world_after ?q w) = Answer ans"
    using assms unfolding parts(1) by (auto split: sum.splits option.splits)
  obtain d where d: "(d, d) \<in> set (steps ?q w)" "maybe_single (filter (fetch_match p a) (conns d)) = Inr (Some r)"
    using query_answer_step [OF r(1)] by blast
  have "set (steps (fetch_coverage rt r) (world_after ?q w)) \<subseteq> set (steps (fetch_for rt p a) w)"
    using parts(3) r(1) by simp
  then show ?thesis
    using fetch_coverage_answer [OF r(2)] maybe_single_filter [OF d(2)] d(1) parts(2) by blast
qed

lemma set_range_rows: "set (range_rows rt c d) \<subseteq> set (ranges_of c d)"
  by (auto simp: range_rows_def capped_def dest!: in_set_takeD split: option.splits)

section \<open>An example\<close>

definition sample_read_body :: json where
  "sample_read_body = JObj [(''connection_id'', JStr C1), (''app_user_id'', JStr ''alice'')]"

definition sample_set :: json where
  "sample_set = JObj [(''version'', JNum (Fin 1)), (''algorithm'', JStr ''AES-256-GCM''),
     (''iv_b64'', JStr ''iv''), (''ciphertext_b64'', JStr ''set'')]"

definition db_set :: db where
  "db_set = db1\<lparr>utxos := [\<lparr>u_conn = C1, u_sealed = sample_set, u_scanned = 90\<rparr>]\<rparr>"

definition sample_fetch :: fetch_args where
  "sample_fetch = \<lparr>fa_conn = Plain C1, fa_user = ''alice'', fa_slug = None\<rparr>"

lemma sample_fetch_run:
  assumes "calm w" "conns (store w) = [conn1]" "ranges (store w) = [(C1, 50, 100)]"
  shows "result_of (fetch_for (sample_runtime b) P1 sample_fetch) w =
    Answer (fetch_answer_of conn1 (Some [(50, 100)]))"
  using assms by (simp add: fetch_for_def fetch_coverage_def run_simps fetch_match_def is_conn_def
      sample_fetch_def range_rows_def capped_def ranges_of_def MAX_SCAN_RANGES_def)

section \<open>Properties\<close>

text \<open>
  An answer of \<open>or-stealth-envelope-fetch\<close> is a row that one state of the invocation held on the
  platform of the caller's credential for the user named, who is the credential's own user when
  it has one; the coverage comes from a state of the invocation, or is null when its read failed.
\<close>

theorem envelope_fetch_reveals_own:
  assumes "result_of (envelope_fetch rt text req) w = Answer ans"
  shows "\<exists>body a p r d1. parse_fetch_body text body = Inr a \<and>
    acts_for rt req (field body ''widget_token'') w p (fa_user a) \<and>
    (d1, d1) \<in> set (steps (envelope_fetch rt text req) w) \<and> r \<in> set (conns d1) \<and> fetch_match p a r \<and>
    ans = fetch_answer_of r (eo_ranges ans) \<and> (eo_ranges ans = None \<or>
    (\<exists>d2. (d2, d2) \<in> set (steps (envelope_fetch rt text req) w) \<and>
       eo_ranges ans = Some (range_rows rt (c_id r) d2)))"
proof -
  obtain body a p w' where b: "parse_fetch_body text body = Inr a"
      "acts_for rt req (field body ''widget_token'') w p (fa_user a)"
      "result_of (fetch_for rt p a) w' = Answer ans"
      "set (steps (fetch_for rt p a) w') \<subseteq> set (steps (envelope_fetch rt text req) w)"
    using endpoint_answered [where k = "fetch_for rt", OF fetch_for_logs assms [unfolded envelope_fetch_def]]
    unfolding envelope_fetch_def by blast
  show ?thesis using fetch_for_answer [OF b(3)] b(1,2,4) by blast
qed

theorem envelope_fetch_reveals_own_witness:
  "\<exists>ans r. result_of (envelope_fetch (sample_runtime sample_read_body) (\<lambda>_. []) sample_request)
       (calm_world db1 7 G2) = Answer ans \<and> eo_ranges ans = Some [(50, 100)] \<and>
     ans = fetch_answer_of r (eo_ranges ans)"
proof -
  have body: "sample_read_body \<noteq> JNull" "parse_fetch_body (\<lambda>_. []) sample_read_body = Inr sample_fetch"
    by (simp_all add: sample_read_body_def parse_fetch_body_def sample_fetch_def slug_filter_def)
  note run = sample_endpoint [where parse = "parse_fetch_body (\<lambda>_. [])" and user = fa_user and
      k = "fetch_for (sample_runtime sample_read_body)", OF refl body]
  have ans: "result_of (envelope_fetch (sample_runtime sample_read_body) (\<lambda>_. []) sample_request)
       (calm_world db1 7 G2) = Answer (fetch_answer_of conn1 (Some [(50, 100)]))"
    unfolding envelope_fetch_def run by (simp add: sample_fetch_run)
  then show ?thesis
    using envelope_fetch_reveals_own [OF ans] by (auto simp: fetch_answer_of_def)
qed

text \<open>
  C31: a sync that resumes from the answered coverage skips no unread block, even when the list
  was cut at \<open>MAX_SCAN_RANGES\<close> or by the gateway: below the resume height every height from the
  birthday on is in the coverage that the table held; and a list that was not cut gives the
  resume height of the whole table.
\<close>

theorem fetched_coverage_is_safe:
  assumes "result_of (fetch_for rt p a) w = Answer ans" and "eo_ranges ans = Some rows"
  shows "\<exists>d. (d, d) \<in> set (steps (fetch_for rt p a) w) \<and>
    (\<forall>h. b \<le> h \<and> h < resume_of_rows rows b \<longrightarrow> h \<in> covered (ranges_of (eo_conn ans) d)) \<and>
    (length (ranges_of (eo_conn ans) d) \<le> MAX_SCAN_RANGES \<and> max_rows rt = None \<longrightarrow>
       resume_of_rows rows b = resume_of_rows (ranges_of (eo_conn ans) d) b)"
proof -
  obtain r d where d: "(d, d) \<in> set (steps (fetch_for rt p a) w)" "ans = fetch_answer_of r (eo_ranges ans)"
      "rows = range_rows rt (c_id r) d"
    using fetch_for_answer [OF assms(1)] assms(2) by auto
  have c: "eo_conn ans = c_id r" using d(2) by (metis fetch_answer.select_convs(1) fetch_answer_of_def)
  have "h \<in> covered (ranges_of (c_id r) d)" if "b \<le> h" "h < resume_of_rows rows b" for h
    using coverage.resume_sound [OF that] set_range_rows [of rt "c_id r" d]
    unfolding d(3) covered_def by blast
  moreover have "resume_of_rows rows b = resume_of_rows (ranges_of (c_id r) d) b"
    if "length (ranges_of (c_id r) d) \<le> MAX_SCAN_RANGES" "max_rows rt = None"
    using that by (simp add: d(3) range_rows_def capped_def resume_of_rows_Max anchored_ends_def)
  ultimately show ?thesis using d(1) c by auto
qed

theorem fetched_coverage_is_safe_witness:
  "resume_of_rows [(50, 100)] 60 = 100 \<and>
   (\<exists>d. \<forall>h. 60 \<le> h \<and> h < (100 :: int) \<longrightarrow> h \<in> covered (ranges_of C1 d))"
proof -
  have r: "resume_of_rows [(50, 100)] 60 = 100" by (simp add: resume_of_rows_Max)
  have "result_of (fetch_for (sample_runtime JNull) P1 sample_fetch) (calm_world db1 7 G2) =
      Answer (fetch_answer_of conn1 (Some [(50, 100)]))" by (simp add: sample_fetch_run)
  from fetched_coverage_is_safe [OF this, of "[(50, 100)]" 60] show ?thesis
    by (auto simp: fetch_answer_of_def r)
qed

text \<open>
  An answer of \<open>or-stealth-utxos-fetch\<close> is given only after the invocation saw the connection to
  be the caller's, and holds the whole stored set with its height, in the shape the client
  can open, or nothing; a set stored under another connection never appears.
\<close>

theorem utxos_fetch_reveals_own:
  assumes "result_of (utxos_fetch rt req) w = Answer ans"
  shows "\<exists>body a p d1 d2. parse_utxos_body body = Inr a \<and>
    acts_for rt req (field body ''widget_token'') w p (fu_user a) \<and>
    (d1, d1) \<in> set (steps (utxos_fetch rt req) w) \<and> owns p (text_of (fu_conn a)) (fu_user a) d1 \<and>
    (d2, d2) \<in> set (steps (utxos_fetch rt req) w) \<and> utxos_revealed a d2 ans"
proof -
  have eq: "utxos_fetch rt req = endpoint rt req parse_utxos_body fu_user utxo_read.gated"
    by (simp add: utxos_fetch_def utxos_for_def [abs_def])
  from utxo_read.endpoint_answer [OF assms [unfolded eq]]
  show ?thesis unfolding utxo_read.own_answer_def eq by blast
qed

theorem utxos_fetch_reveals_own_witness:
  "\<exists>ans. result_of (utxos_fetch (sample_runtime sample_read_body) sample_request)
       (calm_world db_set 7 G2) = Answer ans \<and> fo_scanned ans = Some 90 \<and>
     (\<exists>(a :: utxos_args) d. utxos_revealed a d ans)"
proof -
  have body: "platforms db_set = platforms db1" "sample_read_body \<noteq> JNull"
    "parse_utxos_body sample_read_body = Inr \<lparr>fu_conn = Plain C1, fu_user = ''alice''\<rparr>"
    by (simp_all add: db_set_def sample_read_body_def parse_utxos_body_def)
  note run = sample_endpoint [where parse = parse_utxos_body and user = fu_user and k = utxos_for, OF body]
  have rows: "conn_rows P1 C1 db_set = [conn1]" "utxos_of C1 db_set = [\<lparr>u_conn = C1, u_sealed = sample_set, u_scanned = 90\<rparr>]"
    by (simp_all add: conn_rows_def is_conn_def utxos_of_def db_set_def)
  obtain ans where ans: "result_of (utxos_fetch (sample_runtime sample_read_body) sample_request)
       (calm_world db_set 7 G2) = Answer ans" "fo_scanned ans = Some 90"
    unfolding utxos_fetch_def run
    by (simp add: utxos_for_def owner_gate_def utxos_work_def run_simps rows utxos_reply_def
        isSealedEnvelopeLike_def sample_set_def)
  then show ?thesis using utxos_fetch_reveals_own [OF ans(1)] by blast
qed

end
