(* ===== verification/ConnectionAdmin.thy ===== *)
theory ConnectionAdmin
  imports Endpoints EnvelopeUpdate "HOL-Library.Product_Lexorder"
begin

text \<open>
  Deleting and listing connections: \<open>or-stealth-connection-delete/index.ts\<close>,
  \<open>or-stealth-connection-list/index.ts\<close>, the freshness rule of \<open>_shared/sync-freshness.ts\<close>, and the
  projection of stealth rows into the common list (\<open>or-connection-list/stealth-union.ts\<close>).  These
  two handlers authenticate by header only, and before they read the body.
\<close>

section \<open>Header authentication\<close>

definition header_endpoint ::
    "runtime \<Rightarrow> http_request \<Rightarrow> (json \<Rightarrow> auth_error + 'a) \<Rightarrow> ('a \<Rightarrow> string) \<Rightarrow>
       (string \<Rightarrow> 'a \<Rightarrow> 'b reply io) \<Rightarrow> 'b reply io" where
  "header_endpoint rt req parse user k =
     (if verb req = ''OPTIONS'' then State_Monad.return Preflight
      else if verb req \<noteq> ''POST'' then State_Monad.return (Refused 405 ''Method not allowed'')
      else do {
        auth \<leftarrow> authenticateRequest rt req;
        case auth of
          Inl (s, m) \<Rightarrow> State_Monad.return (Refused s m)
        | Inr ctx \<Rightarrow>
            (case readBoundedText req MAX_BODY_BYTES of
               None \<Rightarrow> State_Monad.return (Refused 413 ''Request body too large'')
             | Some raw \<Rightarrow>
                 (case json_parse rt (if raw = [] then ''{}'' else raw) of
                    None \<Rightarrow> State_Monad.return (Refused 500 ''Internal error'')
                  | Some body \<Rightarrow>
                      if body = JNull then State_Monad.return (Refused 500 ''Internal error'')
                      else (case parse body of
                         Inl (s, m) \<Rightarrow> State_Monad.return (Refused s m)
                       | Inr a \<Rightarrow> as_platform ctx (user a) (\<lambda>p. k p a))))
      })"

section \<open>Deleting (\<open>or-stealth-connection-delete\<close>)\<close>

record delete_args =
  da_conn :: uuid_arg
  da_user :: string

definition parse_delete_body :: "json \<Rightarrow> auth_error + delete_args" where
  "parse_delete_body body =
     (case uuid_value (field body ''connection_id'') of
        None \<Rightarrow> Inl (400, ''connection_id (uuid) required'')
      | Some c \<Rightarrow>
     (case nonempty_string (field body ''app_user_id'') of
        None \<Rightarrow> Inl (400, ''app_user_id required'')
      | Some u \<Rightarrow> Inr \<lparr>da_conn = c, da_user = u\<rparr>))"

definition delete_match :: "string \<Rightarrow> delete_args \<Rightarrow> conn_row \<Rightarrow> bool" where
  "delete_match p a r \<longleftrightarrow> is_conn p (text_of (da_conn a)) r \<and> c_owner r = da_user a"

text \<open>The \<open>DELETE\<close> with the cascades of the foreign keys.\<close>

definition remove_conns :: "conn_row list \<Rightarrow> db \<Rightarrow> db" where
  "remove_conns gone d = (let ids = map c_id gone in
     d\<lparr>conns := filter (\<lambda>r. r \<notin> set gone) (conns d),
       ranges := filter (\<lambda>row. fst row \<notin> set ids) (ranges d),
       txs := filter (\<lambda>t. t_conn t \<notin> set ids) (txs d),
       utxos := filter (\<lambda>u. u_conn u \<notin> set ids) (utxos d)\<rparr>)"

definition delete_conn :: "string \<Rightarrow> delete_args \<Rightarrow> event \<Rightarrow> db \<Rightarrow> (rpc_error + conn_row option) \<times> db" where
  "delete_conn p a e d =
     (let gone = filter (delete_match p a) (conns d) in (maybe_single gone, remove_conns gone d))"

definition delete_for :: "string \<Rightarrow> delete_args \<Rightarrow> string reply io" where
  "delete_for p a = do {
     deleted \<leftarrow> request (delete_conn p a);
     State_Monad.return (case deleted of
       Inl _ \<Rightarrow> Refused 500 ''Failed to delete stealth connection''
     | Inr None \<Rightarrow> Refused 404 ''Connection not found''
     | Inr (Some r) \<Rightarrow> Answer (c_id r))
   }"

definition connection_delete :: "runtime \<Rightarrow> http_request \<Rightarrow> string reply io" where
  "connection_delete rt req = header_endpoint rt req parse_delete_body da_user delete_for"

section \<open>Freshness (\<open>sync-freshness.ts\<close>)\<close>

definition STALE_AFTER_HOURS :: rat where "STALE_AFTER_HOURS = 72"
definition MS_PER_HOUR :: rat where "MS_PER_HOUR = 3600000"

datatype sync_freshness = Never | Fresh | Stale

record freshness =
  fr_verdict :: sync_freshness
  fr_hours :: "rat option"
  fr_stale_after :: rat

text \<open>\<open>Math.round\<close>: to the nearest integer, halves upwards.\<close>

definition js_round :: "rat \<Rightarrow> rat" where
  "js_round x = of_int \<lfloor>x + 1 / 2\<rfloor>"

text \<open>
  \<open>date_parse\<close> is \<open>Date.parse\<close> (\<open>None\<close> for \<open>NaN\<close>); \<open>now\<close> is in milliseconds.  The quotient is exact
  here; the code's doubles can round differently at the midpoint between two hundredths.
\<close>

definition hours_between :: "int \<Rightarrow> rat" where
  "hours_between k = js_round (of_int k / MS_PER_HOUR * 100) / 100"

definition computeSyncFreshness :: "(string \<Rightarrow> int option) \<Rightarrow> string option \<Rightarrow> int \<Rightarrow> freshness" where
  "computeSyncFreshness date_parse stamp now =
     (case (case stamp of None \<Rightarrow> None | Some s \<Rightarrow> if s = [] then None else date_parse s) of
        None \<Rightarrow> \<lparr>fr_verdict = Never, fr_hours = None, fr_stale_after = STALE_AFTER_HOURS\<rparr>
      | Some t \<Rightarrow>
          (let hours = hours_between (now - t)
           in \<lparr>fr_verdict = (if hours \<le> STALE_AFTER_HOURS then Fresh else Stale),
               fr_hours = Some hours, fr_stale_after = STALE_AFTER_HOURS\<rparr>))"

section \<open>Listing (\<open>or-stealth-connection-list\<close>)\<close>

text \<open>\<open>time_text\<close> prints a stored time the way the gateway does.\<close>

record listed =
  ls_id :: string
  ls_slug :: string
  ls_kind :: string
  ls_last_sync :: "string option"
  ls_cursor :: "int option"
  ls_status :: string
  ls_created :: string
  ls_freshness :: freshness

record clock_lib =
  date_parse :: "string \<Rightarrow> int option"
  time_text :: "nat \<Rightarrow> string"

definition toListedConnection :: "clock_lib \<Rightarrow> conn_row \<Rightarrow> int \<Rightarrow> listed" where
  "toListedConnection lib r now =
     (let stamp = map_option (time_text lib) (c_last_sync r)
      in \<lparr>ls_id = c_id r, ls_slug = c_slug r, ls_kind = c_kind r, ls_last_sync = stamp,
          ls_cursor = c_cursor r, ls_status = c_status r, ls_created = time_text lib (c_created r),
          ls_freshness = computeSyncFreshness (date_parse lib) stamp now\<rparr>)"

record list_conns_args =
  lc_user :: string
  lc_slug :: "string option"

definition parse_list_body :: "json \<Rightarrow> auth_error + list_conns_args" where
  "parse_list_body body =
     (case nonempty_string (field body ''app_user_id'') of
        None \<Rightarrow> Inl (400, ''app_user_id required'')
      | Some u \<Rightarrow>
          (case field body ''app_slug'' of
             None \<Rightarrow> Inr \<lparr>lc_user = u, lc_slug = None\<rparr>
           | Some (JStr s) \<Rightarrow> Inr \<lparr>lc_user = u, lc_slug = (if s = [] then None else Some s)\<rparr>
           | _ \<Rightarrow> Inl (400, ''app_slug must be a string when provided'')))"

definition list_match :: "string \<Rightarrow> list_conns_args \<Rightarrow> conn_row \<Rightarrow> bool" where
  "list_match p a r \<longleftrightarrow> c_platform r = pg_uuid p \<and> c_owner r = lc_user a \<and>
     (case lc_slug a of None \<Rightarrow> True | Some s \<Rightarrow> c_slug r = s)"

definition newest_first :: "conn_row list \<Rightarrow> conn_row list" where
  "newest_first rs = sort_key (\<lambda>r. - int (c_created r)) rs"

text \<open>The clock is read once, after the rows arrived.\<close>

definition list_conns :: "runtime \<Rightarrow> clock_lib \<Rightarrow> int \<Rightarrow> string \<Rightarrow> list_conns_args \<Rightarrow> listed list reply io" where
  "list_conns rt lib now p a = do {
     rows \<leftarrow> query (\<lambda>e d. Inr (capped rt (newest_first (filter (list_match p a) (conns d)))));
     State_Monad.return (case rows of
       Inl _ \<Rightarrow> Refused 500 ''Failed to list stealth connections''
     | Inr rs \<Rightarrow> Answer (map (\<lambda>r. toListedConnection lib r now) rs))
   }"

definition connection_list :: "runtime \<Rightarrow> clock_lib \<Rightarrow> int \<Rightarrow> http_request \<Rightarrow> listed list reply io" where
  "connection_list rt lib now req = header_endpoint rt req parse_list_body lc_user (list_conns rt lib now)"

section \<open>The common list (\<open>stealth-union.ts\<close>)\<close>

text \<open>The fields that are never filled for a stealth row stay as options.\<close>

record unified =
  un_id :: string
  un_provider :: string
  un_stealth :: bool
  un_label :: "string option"
  un_credentials :: "string option"
  un_key_version :: "int option"
  un_status :: string
  un_last_sync :: "string option"
  un_sync_cursor :: "string option"
  un_block :: "int option"
  un_last_error :: "string option"
  un_created :: string
  un_wallets :: "json list"

definition STEALTH_STATUS_MAP :: "(string \<times> string) list" where
  "STEALTH_STATUS_MAP = [(''active'', ''active''), (''error'', ''error''), (''archived'', ''disconnected'')]"

definition mapStealthStatus :: "string \<Rightarrow> string" where
  "mapStealthStatus s = (case map_of STEALTH_STATUS_MAP s of Some t \<Rightarrow> t | None \<Rightarrow> ''error'')"

definition isUnmappedStealthStatus :: "string \<Rightarrow> bool" where
  "isUnmappedStealthStatus s \<longleftrightarrow> map_of STEALTH_STATUS_MAP s = None"

definition stealthRowToConnection :: "clock_lib \<Rightarrow> conn_row \<Rightarrow> unified" where
  "stealthRowToConnection lib r = \<lparr>un_id = c_id r, un_provider = c_kind r, un_stealth = True,
     un_label = None, un_credentials = None, un_key_version = None,
     un_status = mapStealthStatus (c_status r), un_last_sync = map_option (time_text lib) (c_last_sync r),
     un_sync_cursor = None, un_block = c_cursor r, un_last_error = None,
     un_created = time_text lib (c_created r), un_wallets = []\<rparr>"

definition tagRegularConnection :: "unified \<Rightarrow> unified" where
  "tagRegularConnection c = c\<lparr>un_stealth := False, un_block := None\<rparr>"

definition withSyncFreshness :: "clock_lib \<Rightarrow> unified list \<Rightarrow> int \<Rightarrow> (unified \<times> freshness) list" where
  "withSyncFreshness lib cs now =
     map (\<lambda>c. (c, computeSyncFreshness (date_parse lib) (un_last_sync c) now)) cs"

text \<open>\<open>None\<close> is \<open>-Infinity\<close>.\<close>

definition createdAtMillis :: "clock_lib \<Rightarrow> unified \<Rightarrow> int option" where
  "createdAtMillis lib c = (if un_created c = [] then None else date_parse lib (un_created c))"

text \<open>
  The comparator \<open>b - a\<close> on these numbers, where \<open>-Infinity - (-Infinity)\<close> is \<open>NaN\<close> and counts as
  equal, is a total preorder, so the stable \<open>sort\<close> is the stable sort by the descending key.
\<close>

definition newer_key :: "clock_lib \<Rightarrow> unified \<Rightarrow> int \<times> int" where
  "newer_key lib c = (case createdAtMillis lib c of Some t \<Rightarrow> (0, - t) | None \<Rightarrow> (1, 0))"

definition mergeConnections :: "clock_lib \<Rightarrow> unified list \<Rightarrow> unified list \<Rightarrow> unified list" where
  "mergeConnections lib regular stealth = sort_key (newer_key lib) (regular @ stealth)"

section \<open>Behind the header authentication\<close>

text \<open>The part of a handler behind the authentication, for a context.\<close>

definition header_rest ::
    "runtime \<Rightarrow> http_request \<Rightarrow> (json \<Rightarrow> auth_error + 'a) \<Rightarrow> ('a \<Rightarrow> string) \<Rightarrow>
       (string \<Rightarrow> 'a \<Rightarrow> 'b reply io) \<Rightarrow> auth_error + auth_context \<Rightarrow> 'b reply io" where
  "header_rest rt req parse user k auth =
     (case auth of
          Inl (s, m) \<Rightarrow> State_Monad.return (Refused s m)
        | Inr ctx \<Rightarrow>
            (case readBoundedText req MAX_BODY_BYTES of
               None \<Rightarrow> State_Monad.return (Refused 413 ''Request body too large'')
             | Some raw \<Rightarrow>
                 (case json_parse rt (if raw = [] then ''{}'' else raw) of
                    None \<Rightarrow> State_Monad.return (Refused 500 ''Internal error'')
                  | Some body \<Rightarrow>
                      if body = JNull then State_Monad.return (Refused 500 ''Internal error'')
                      else (case parse body of
                         Inl (s, m) \<Rightarrow> State_Monad.return (Refused s m)
                       | Inr a \<Rightarrow> as_platform ctx (user a) (\<lambda>p. k p a)))))"

lemma header_endpoint_cases:
  "(\<exists>r. header_endpoint rt req parse user k = State_Monad.return r \<and> \<not> is_answer r) \<or>
   header_endpoint rt req parse user k =
     State_Monad.bind (authenticateRequestOrWidgetToken rt req None) (header_rest rt req parse user k)"
  unfolding header_endpoint_def header_rest_def [abs_def]
    auth_without_token [of req None, simplified] by auto

lemma header_rest_cases:
  "(\<exists>r. header_rest rt req parse user k auth = State_Monad.return r \<and> \<not> is_answer r) \<or>
   (\<exists>ctx body a. auth = Inr ctx \<and> parse body = Inr a \<and>
      header_rest rt req parse user k auth = as_platform ctx (user a) (\<lambda>p. k p a))"
  unfolding header_rest_def by (auto split: sum.split option.split)

lemma header_rest_logs:
  assumes "\<And>p a. logs (k p a)"
  shows "logs (header_rest rt req parse user k auth)"
proof -
  have "logs (as_platform ctx (user a) (\<lambda>p. k p a))" for ctx a by (rule as_platform_logs) (rule assms)
  then show ?thesis using header_rest_cases [of rt req parse user k auth] by auto
qed

lemma header_endpoint_steps:
  assumes k: "\<And>p a. logs (k p a)"
    and st: "(d, d') \<in> set (steps (header_endpoint rt req parse user k) w)"
  shows "same_tables d d' \<or> (\<exists>body a p w'. parse body = Inr a \<and> acts_for rt req None w p (user a) \<and>
    (d, d') \<in> set (steps (k p a) w'))"
proof -
  let ?auth = "authenticateRequestOrWidgetToken rt req None" and ?rest = "header_rest rt req parse user k"
  have "(d, d') \<in> set (steps (State_Monad.bind ?auth ?rest) w)"
    using header_endpoint_cases [of rt req parse user k] st by auto
  then consider "(d, d') \<in> set (steps ?auth w)"
    | "(d, d') \<in> set (steps (?rest (result_of ?auth w)) (world_after ?auth w))"
    by (rule steps_bindE) (rule logs_auth header_rest_logs k)+
  then show ?thesis
  proof cases
    case 1
    then show ?thesis using auth_writes.keeps_steps [OF auth_keeps] by blast
  next
    case 2
    obtain ctx body a where c: "result_of ?auth w = Inr ctx" "parse body = Inr a"
        "?rest (result_of ?auth w) = as_platform ctx (user a) (\<lambda>p. k p a)"
      using header_rest_cases [of rt req parse user k "result_of ?auth w"] 2 by auto
    show ?thesis
      using as_platform_steps [OF k 2 [unfolded c(3)]] acts_forI [OF auth_identity [OF c(1)]] c(2)
      by blast
  qed
qed

lemma header_endpoint_answered:
  assumes k: "\<And>p a. logs (k p a)" and ans: "result_of (header_endpoint rt req parse user k) w = Answer ans"
  shows "\<exists>body a p w'. parse body = Inr a \<and> acts_for rt req None w p (user a) \<and>
    result_of (k p a) w' = Answer ans \<and>
    set (steps (k p a) w') \<subseteq> set (steps (header_endpoint rt req parse user k) w)"
proof -
  let ?auth = "authenticateRequestOrWidgetToken rt req None" and ?rest = "header_rest rt req parse user k"
  let ?w = "world_after ?auth w"
  have b: "header_endpoint rt req parse user k = State_Monad.bind ?auth ?rest"
    using header_endpoint_cases [of rt req parse user k] ans by auto
  note parts = bind_parts [where m = ?auth and f = ?rest and w = w, OF logs_auth header_rest_logs [OF k]]
  have "result_of (?rest (result_of ?auth w)) ?w = Answer ans"
    using ans unfolding b parts(1) .
  then obtain ctx body a where c: "result_of ?auth w = Inr ctx" "parse body = Inr a"
      "?rest (result_of ?auth w) = as_platform ctx (user a) (\<lambda>p. k p a)"
      "result_of (as_platform ctx (user a) (\<lambda>p. k p a)) ?w = Answer ans"
    using header_rest_cases [of rt req parse user k "result_of ?auth w"] by auto
  obtain p w' where p: "user_mismatch ctx (user a) = None" "result_of (getCallerPlatformId ctx) ?w = Inr p"
      "result_of (k p a) w' = Answer ans"
      "set (steps (k p a) w') \<subseteq> set (steps (as_platform ctx (user a) (\<lambda>p. k p a)) ?w)"
    using as_platform_answer [where k = "\<lambda>p. k p a", OF k c(4)] by blast
  have "set (steps (k p a) w') \<subseteq> set (steps (header_endpoint rt req parse user k) w)"
    using p(4) parts(3) unfolding b c(3) by (rule subset_trans)
  then show ?thesis
    using acts_forI [OF auth_identity [OF c(1)] p(1,2)] c(2) p(3) by blast
qed

section \<open>What the endpoints do\<close>

text \<open>The named connection of the user with everything that hangs on it goes; nothing else does.\<close>

definition delete_write :: "string \<Rightarrow> delete_args \<Rightarrow> db \<Rightarrow> db \<Rightarrow> bool" where
  "delete_write p a d d' \<longleftrightarrow> d' = d \<or> d' = remove_conns (filter (delete_match p a) (conns d)) d"

interpretation del: write_guarantee "delete_write p a" for p a
  by unfold_locales (simp add: delete_write_def)

lemma delete_for_keeps: "del.keeps p a (delete_for p a)"
  unfolding delete_for_def
  by (intro del.keeps_bind del.keeps_return del.keeps_request) (simp add: delete_write_def delete_conn_def Let_def)

lemma delete_for_logs: "logs (delete_for p a)"
  by (rule any_write.keeps_mono [OF del.write_guarantee_axioms delete_for_keeps]) simp

lemma list_conns_logs: "logs (list_conns rt lib now p a)"
  unfolding list_conns_def by blast

lemma list_conns_answer:
  assumes "result_of (list_conns rt lib now p a) w = Answer ls"
  shows "\<exists>d. (d, d) \<in> set (steps (list_conns rt lib now p a) w) \<and>
    ls = map (\<lambda>r. toListedConnection lib r now) (capped rt (newest_first (filter (list_match p a) (conns d))))"
  using assms
  by (auto simp: list_conns_def query_def steps_def request_def Let_def split: fate.splits)

lemma hours_within: "hours_between k \<le> STALE_AFTER_HOURS \<longleftrightarrow> k < 259218000"
proof -
  have "hours_between k \<le> STALE_AFTER_HOURS \<longleftrightarrow>
      (of_int \<lfloor>of_int k / MS_PER_HOUR * 100 + 1 / 2\<rfloor> :: rat) \<le> of_int 7200"
    by (simp add: hours_between_def js_round_def STALE_AFTER_HOURS_def field_simps)
  also have "\<dots> \<longleftrightarrow> of_int k / MS_PER_HOUR * 100 + 1 / 2 < (7201 :: rat)"
    by (simp only: of_int_le_iff) (simp add: floor_le_iff)
  also have "\<dots> \<longleftrightarrow> (of_int k :: rat) < of_int 259218000"
    by (simp add: MS_PER_HOUR_def field_simps)
  also have "\<dots> \<longleftrightarrow> k < 259218000" by (simp only: of_int_less_iff)
  finally show ?thesis .
qed

section \<open>An example\<close>

lemma sample_header_endpoint:
  assumes "platforms d = platforms db1" "body \<noteq> JNull" "parse body = Inr a"
  shows "run_state (header_endpoint (sample_runtime body) sample_request parse user k) (calm_world d t i) =
    run_state (k P1 a) ((calm_world d t i)\<lparr>tick := Suc 0, log := [(d, d)]\<rparr>)"
proof -
  have "run_state (authenticateRequest (sample_runtime body) sample_request) (calm_world d t i) =
    (Inr (PlatformCtx P1 ''acme''), (calm_world d t i)\<lparr>tick := Suc 0, log := [(d, d)]\<rparr>)"
    using assms(1) by (simp add: authenticateRequest_def present_def sample_request_def
        platform_of_key_def run_simps sample_runtime_def db1_def)
  moreover have "readBoundedText sample_request MAX_BODY_BYTES = Some ''{}''" "verb sample_request = ''POST''"
    by (simp_all add: readBoundedText_def MAX_BODY_BYTES_def sample_request_def)
  ultimately show ?thesis
    using assms(2,3) by (simp add: header_endpoint_def sample_as_platform)
qed

definition sample_delete_body :: json where
  "sample_delete_body = JObj [(''connection_id'', JStr C1), (''app_user_id'', JStr ''alice'')]"

definition sample_delete :: delete_args where
  "sample_delete = \<lparr>da_conn = Plain C1, da_user = ''alice''\<rparr>"

lemma sample_delete_match [simp]: "delete_match P1 sample_delete conn1"
  by (simp add: delete_match_def is_conn_def sample_delete_def)

definition sample_clock :: clock_lib where
  "sample_clock = \<lparr>date_parse = (\<lambda>s. Some (int (length s))), time_text = (\<lambda>n. replicate n (CHR ''x''))\<rparr>"

section \<open>Properties\<close>

text \<open>
  Under every interleaving and failure, the only thing \<open>or-stealth-connection-delete\<close> removes is the
  connection named by the request, on the platform of the caller's credential and owned by the
  user named, together with the ranges, transactions and UTXO set that belong to it; a body
  token never authenticates it.
\<close>

theorem connection_delete_bound:
  assumes "(d, d') \<in> set (steps (connection_delete rt req) w)"
  shows "same_tables d d' \<or> (\<exists>body a p. parse_delete_body body = Inr a \<and>
    acts_for rt req None w p (da_user a) \<and> delete_write p a d d')"
  using header_endpoint_steps [OF delete_for_logs assms [unfolded connection_delete_def]]
    del.keeps_steps [OF delete_for_keeps] by blast

theorem connection_delete_bound_witness:
  "\<exists>d' p (a :: delete_args). delete_write p a db1 d' \<and> conns d' = [] \<and> ranges d' = []"
proof -
  let ?rt = "sample_runtime sample_delete_body" and ?d' = "remove_conns [conn1] db1"
  have body: "sample_delete_body \<noteq> JNull" "parse_delete_body sample_delete_body = Inr sample_delete"
    by (simp_all add: sample_delete_body_def parse_delete_body_def sample_delete_def)
  note run = sample_header_endpoint [where parse = parse_delete_body and user = da_user and k = delete_for,
      OF refl body]
  have "(db1, ?d') \<in> set (steps (connection_delete ?rt sample_request) (calm_world db1 7 G2))"
    unfolding steps_def connection_delete_def run
    by (simp add: delete_for_def run_simps delete_conn_def Let_def)
  moreover have "\<not> same_tables db1 ?d'" "conns ?d' = []" "ranges ?d' = []"
    by (simp_all add: same_tables_def remove_conns_def)
  ultimately show ?thesis using connection_delete_bound by blast
qed

text \<open>
  After a delete that reports success without interference, nothing of the connection is
  left in any table, the other connections keep everything, and a sync that was running gets
  404 for its next cursor update, which changes nothing.
\<close>

theorem deleted_connection_is_gone:
  assumes "calm w" and "distinct (map c_id (conns (store w)))" and "result_of (delete_for p a) w = Answer c"
    and "calm w'" and "store w' = store (world_after (delete_for p a) w)"
    and "pg_uuid (text_of (ua_conn u)) = c"
  shows "(\<forall>r \<in> set (conns (store w')). c_id r \<noteq> c) \<and> ranges_of c (store w') = [] \<and>
    (\<forall>t \<in> set (txs (store w')). t_conn t \<noteq> c) \<and> (\<forall>s \<in> set (utxos (store w')). u_conn s \<noteq> c) \<and>
    (\<forall>i. i \<noteq> c \<longrightarrow> filter (\<lambda>r. c_id r = i) (conns (store w')) = filter (\<lambda>r. c_id r = i) (conns (store w)) \<and>
       ranges_of i (store w') = ranges_of i (store w)) \<and>
    run_state (update_for q u) w' =
      (Refused 404 ''Connection not found'', w'\<lparr>tick := Suc (tick w'), log := log w' @ [(store w', store w')]\<rparr>)"
proof -
  let ?d = "store w"
  obtain r where r: "filter (delete_match p a) (conns ?d) = [r]" "c_id r = c"
      "store w' = remove_conns [r] ?d"
    using assms(1,3,5) by (auto simp: delete_for_def run_simps delete_conn_def Let_def maybe_single_Some
        split: sum.splits option.splits)
  have mem: "r \<in> set (conns ?d)" using r(1) by (auto simp: filter_eq_Cons_iff)
  have uniq: "s = r" if "s \<in> set (conns ?d)" "c_id s = c" for s
    using assms(2) that mem r(2) by (auto simp: distinct_map dest: inj_onD)
  have gone: "\<forall>s \<in> set (conns (store w')). c_id s \<noteq> c"
    using uniq by (auto simp: r(3) remove_conns_def)
  then have rows: "conn_rows q (text_of (ua_conn u)) (store w') = []"
    using assms(6) by (auto simp: conn_rows_def is_conn_def filter_empty_conv)
  have other: "filter (\<lambda>s. c_id s = i) (conns (store w')) = filter (\<lambda>s. c_id s = i) (conns ?d)" if "i \<noteq> c" for i
    using that r(2) by (auto simp: r(3) remove_conns_def filter_filter intro!: filter_cong)
  have keep: "ranges_of i (store w') = ranges_of i ?d" if "i \<noteq> c" for i
    using that by (auto simp: r(2,3) remove_conns_def ranges_of_def filter_filter intro!: arg_cong [where f = "map snd"] filter_cong)
  show ?thesis
    using gone other keep assms(4) rows r(2)
    by (auto simp: update_for_def run_simps) (auto simp: r(3) remove_conns_def ranges_of_def filter_empty_conv)
qed

theorem deleted_connection_is_gone_witness:
  "result_of (update_for P1 sample_update) (world_after (delete_for P1 sample_delete) (calm_world db1 7 G2)) =
     Refused 404 ''Connection not found''"
proof -
  let ?w' = "world_after (delete_for P1 sample_delete) (calm_world db1 7 G2)"
  have "result_of (delete_for P1 sample_delete) (calm_world db1 7 G2) = Answer C1" "calm ?w'"
    by (simp_all add: delete_for_def run_simps delete_conn_def Let_def)
  moreover have "pg_uuid (text_of (ua_conn sample_update)) = C1" by (simp add: sample_update_def)
  ultimately show ?thesis
    using deleted_connection_is_gone [of "calm_world db1 7 G2" P1 sample_delete C1 ?w' sample_update P1]
    by simp
qed

text \<open>
  An answer of \<open>or-stealth-connection-list\<close> is the list of exactly the connections that one state
  of the invocation held for the user named on the platform of the caller's credential, newest
  first and all measured against one clock.
\<close>

theorem connection_list_reveals_own:
  assumes "result_of (connection_list rt lib now req) w = Answer ls" and "max_rows rt = None"
  shows "\<exists>body a p d. parse_list_body body = Inr a \<and> acts_for rt req None w p (lc_user a) \<and>
    (d, d) \<in> set (steps (connection_list rt lib now req) w) \<and>
    ls = map (\<lambda>r. toListedConnection lib r now) (newest_first (filter (list_match p a) (conns d)))"
proof -
  obtain body a p w' where b: "parse_list_body body = Inr a" "acts_for rt req None w p (lc_user a)"
      "result_of (list_conns rt lib now p a) w' = Answer ls"
      "set (steps (list_conns rt lib now p a) w') \<subseteq> set (steps (connection_list rt lib now req) w)"
    using header_endpoint_answered [where k = "list_conns rt lib now", OF list_conns_logs
        assms(1) [unfolded connection_list_def]] unfolding connection_list_def by blast
  obtain d where "(d, d) \<in> set (steps (list_conns rt lib now p a) w')"
      "ls = map (\<lambda>r. toListedConnection lib r now) (newest_first (filter (list_match p a) (conns d)))"
    using list_conns_answer [OF b(3)] assms(2) by (auto simp: capped_def)
  then show ?thesis using b(1,2,4) by blast
qed

theorem connection_list_reveals_own_witness:
  "result_of (connection_list (sample_runtime sample_delete_body) sample_clock 7 sample_request)
     (calm_world db1 7 G2) = Answer [toListedConnection sample_clock conn1 7] \<and>
   (\<exists>p (a :: list_conns_args) (d :: db). [toListedConnection sample_clock conn1 7] =
      map (\<lambda>r. toListedConnection sample_clock r 7) (newest_first (filter (list_match p a) (conns d))))"
proof -
  let ?rt = "sample_runtime sample_delete_body"
  have body: "sample_delete_body \<noteq> JNull"
    "parse_list_body sample_delete_body = Inr \<lparr>lc_user = ''alice'', lc_slug = None\<rparr>"
    by (simp_all add: sample_delete_body_def parse_list_body_def)
  note run = sample_header_endpoint [where parse = parse_list_body and user = lc_user and
      k = "list_conns ?rt sample_clock 7", OF refl body]
  have ans: "result_of (connection_list ?rt sample_clock 7 sample_request) (calm_world db1 7 G2) =
      Answer [toListedConnection sample_clock conn1 7]"
    unfolding connection_list_def run
    by (simp add: list_conns_def run_simps capped_def newest_first_def list_match_def)
  have "max_rows ?rt = None" by simp
  from connection_list_reveals_own [OF ans this] obtain a p and d :: db where
    "[toListedConnection sample_clock conn1 7] =
      map (\<lambda>r. toListedConnection sample_clock r 7) (newest_first (filter (list_match p a) (conns d)))"
    by (elim exE conjE) assumption
  then show ?thesis by (intro conjI exI ans)
qed

text \<open>
  The freshness verdict: a connection without a usable stamp is never reported fresh, the
  verdict agrees with the hours in the same row, and a stamp counts as fresh exactly up to an
  age of 72 hours and 18 seconds, the half hundredth of an hour that rounding forgives.
\<close>

theorem freshness_verdict:
  "(fr_verdict (computeSyncFreshness parse stamp now) = Never \<longleftrightarrow>
      fr_hours (computeSyncFreshness parse stamp now) = None) \<and>
   (\<forall>s t. stamp = Some s \<and> s \<noteq> [] \<and> parse s = Some t \<longrightarrow>
      (fr_verdict (computeSyncFreshness parse stamp now) = Fresh \<longleftrightarrow> now - t < 72 * 3600000 + 18000))"
  by (auto simp: computeSyncFreshness_def Let_def hours_within split: option.splits)

theorem freshness_verdict_witness:
  "fr_verdict (computeSyncFreshness (\<lambda>_. Some 0) (Some ''t'') 259217999) = Fresh \<and>
   fr_verdict (computeSyncFreshness (\<lambda>_. Some 0) (Some ''t'') 259218000) \<noteq> Fresh"
  using freshness_verdict [of "\<lambda>_. Some 0" "Some ''t''" 259217999]
    freshness_verdict [of "\<lambda>_. Some 0" "Some ''t''" 259218000] by simp

text \<open>
  The common list keeps every connection of both families, newest first, with those whose
  creation time cannot be read last, and leaves rows of one time in the order they came in.
\<close>

theorem merged_list_is_sorted_union:
  "mset (mergeConnections lib regular stealth) = mset regular + mset stealth \<and>
   sorted (map (newer_key lib) (mergeConnections lib regular stealth)) \<and>
   (\<forall>k. filter (\<lambda>c. newer_key lib c = k) (mergeConnections lib regular stealth) =
      filter (\<lambda>c. newer_key lib c = k) regular @ filter (\<lambda>c. newer_key lib c = k) stealth)"
  by (simp add: mergeConnections_def sort_key_stable)

text \<open>
  A stealth status that the common vocabulary does not know never becomes \<open>active\<close>, and no
  projected row carries a label, credentials or a provider cursor.
\<close>

theorem stealth_projection_is_safe:
  "(mapStealthStatus s = ''active'' \<longleftrightarrow> s = ''active'') \<and>
   (isUnmappedStealthStatus s \<longrightarrow> mapStealthStatus s = ''error'') \<and>
   un_credentials (stealthRowToConnection lib r) = None \<and> un_label (stealthRowToConnection lib r) = None \<and>
   un_sync_cursor (stealthRowToConnection lib r) = None"
  by (simp add: mapStealthStatus_def isUnmappedStealthStatus_def STEALTH_STATUS_MAP_def
      stealthRowToConnection_def)

theorem stealth_projection_is_safe_witness:
  "isUnmappedStealthStatus ''paused'' \<and> mapStealthStatus ''paused'' = ''error''"
  using stealth_projection_is_safe [of "''paused''"]
  by (simp add: isUnmappedStealthStatus_def STEALTH_STATUS_MAP_def)

end
