(* ===== verification/FilterScan.thy ===== *)
theory FilterScan
  imports BlockParser
begin

text \<open>
  The filter stage of \<open>runSync\<close> in \<open>src/stealth/lib/sync.ts\<close>: 32 workers draw heights from one
  counter, fetch the filter of each and match it, and stop drawing once a fetch has failed for
  good.  A worker runs without interruption from the answer of one fetch to the next fetch, so
  one step of the pool is: the fetch of worker \<open>i\<close> is answered.  Which worker is answered next is
  open.  The reference is the loop that reads one height after the other; the theorem is that
  the cursor and the blocks to fetch are those of the loop, however the answers interleave.
\<close>

section \<open>State\<close>

record filter_record =
  flt_height :: int
  flt_hash :: string
  flt_bytes :: bytes

type_synonym filter_answer = "string + filter_record option"
type_synonym hit = "int \<times> string"

text \<open>
  A worker waits for the filter of a height, or has returned (\<open>None\<close>).  \<open>p_thrown\<close> is set when a
  worker throws, which rejects the \<open>Promise.all\<close>.
\<close>

record pool =
  p_next :: int
  p_workers :: "int option list"
  p_cache :: "int \<rightharpoonup> filter_record option"
  p_hits :: "hit list"
  p_aborted :: bool
  p_failure :: "(int \<times> string) option"
  p_read :: nat
  p_bytes :: nat
  p_thrown :: "parse_error option"

text \<open>What the loop body knows: the ceiling and the match of a filter against the scripts.\<close>

record scan_job =
  j_tip :: int
  j_match :: "bytes \<Rightarrow> bytes \<Rightarrow> bool"

section \<open>The workers\<close>

definition FETCH_CONCURRENCY :: nat where "FETCH_CONCURRENCY = 32"

definition fresh_pool :: "int \<Rightarrow> pool" where
  "fresh_pool from = \<lparr>p_next = from, p_workers = [], p_cache = Map.empty, p_hits = [],
     p_aborted = False, p_failure = None, p_read = 0, p_bytes = 0, p_thrown = None\<rparr>"

text \<open>The head of the loop: return, or draw the next height and ask for its filter.\<close>

definition claim :: "scan_job \<Rightarrow> pool \<Rightarrow> int option \<times> pool" where
  "claim job p = (if p_aborted p then (None, p)
     else if p_next p > j_tip job then (None, p)
     else (Some (p_next p), p\<lparr>p_next := p_next p + 1\<rparr>))"

text \<open>The match of one filter, whose block hash is reversed into the order of the hash bytes.\<close>

definition match_filter :: "scan_job \<Rightarrow> filter_record \<Rightarrow> parse_error + bool" where
  "match_filter job f = map_sum id (\<lambda>h. j_match job (flt_bytes f) (reverseBytes h)) (hexToBytes (flt_hash f))"

definition take_answer :: "scan_job \<Rightarrow> int \<Rightarrow> filter_record option \<Rightarrow> pool \<Rightarrow> pool" where
  "take_answer job h f p =
     (let p' = p\<lparr>p_read := Suc (p_read p), p_cache := (p_cache p)(h \<mapsto> f)\<rparr> in
      case f of
        None \<Rightarrow> p'
      | Some r \<Rightarrow>
          (let p'' = p'\<lparr>p_bytes := p_bytes p' + length (flt_bytes r)\<rparr> in
           case match_filter job r of
             Inl e \<Rightarrow> p''\<lparr>p_thrown := Some e\<rparr>
           | Inr m \<Rightarrow> if m then p''\<lparr>p_hits := p_hits p'' @ [(h, flt_hash r)]\<rparr> else p''))"

definition give_up :: "int \<Rightarrow> string \<Rightarrow> pool \<Rightarrow> pool" where
  "give_up h cause p = p\<lparr>p_failure := (case p_failure p of None \<Rightarrow> Some (h, cause) | Some e \<Rightarrow> Some e),
     p_aborted := True\<rparr>"

definition set_worker :: "nat \<Rightarrow> int option \<Rightarrow> pool \<Rightarrow> pool" where
  "set_worker i x p = p\<lparr>p_workers := (p_workers p)[i := x]\<rparr>"

text \<open>Worker \<open>i\<close>, waiting for height \<open>h\<close>, is answered.\<close>

definition resume :: "scan_job \<Rightarrow> nat \<Rightarrow> int \<Rightarrow> filter_answer \<Rightarrow> pool \<Rightarrow> pool" where
  "resume job i h ans p =
     (case ans of
        Inl cause \<Rightarrow> set_worker i None (give_up h cause p)
      | Inr f \<Rightarrow>
          (let p' = take_answer job h f p in
           if p_thrown p' \<noteq> None then set_worker i None p'
           else (let (x, p'') = claim job p' in set_worker i x p'')))"

text \<open>\<open>Array.from(..., () => worker())\<close>: each worker runs to its first fetch.\<close>

definition start_worker :: "scan_job \<Rightarrow> pool \<Rightarrow> pool" where
  "start_worker job p = (let (x, p') = claim job p in p'\<lparr>p_workers := p_workers p' @ [x]\<rparr>)"

definition start_pool :: "scan_job \<Rightarrow> int \<Rightarrow> pool" where
  "start_pool job from = (start_worker job ^^ FETCH_CONCURRENCY) (fresh_pool from)"

text \<open>One step, for a source that answers \<open>src h\<close> for height \<open>h\<close>.\<close>

inductive pool_step :: "scan_job \<Rightarrow> (int \<Rightarrow> filter_answer) \<Rightarrow> pool \<Rightarrow> pool \<Rightarrow> bool"
  for job src where
  answered: "i < length (p_workers p) \<Longrightarrow> p_workers p ! i = Some h \<Longrightarrow>
    pool_step job src p (resume job i h (src h) p)"

inductive pool_reaches :: "scan_job \<Rightarrow> (int \<Rightarrow> filter_answer) \<Rightarrow> int \<Rightarrow> nat \<Rightarrow> pool \<Rightarrow> bool"
  for job src lo where
  start: "pool_reaches job src lo 0 (start_pool job lo)"
| step: "pool_reaches job src lo n p \<Longrightarrow> pool_step job src p q \<Longrightarrow> pool_reaches job src lo (Suc n) q"

inductive_cases pool_stepE: "pool_step job src p q"

text \<open>\<open>Promise.all\<close> has resolved: every worker has returned and none has thrown.\<close>

definition all_returned :: "pool \<Rightarrow> bool" where
  "all_returned p \<longleftrightarrow> p_thrown p = None \<and> list_all (\<lambda>x. x = None) (p_workers p)"

section \<open>After the join\<close>

text \<open>The walk to the last height before the first that is missing or has no filter yet.\<close>

function contiguous :: "(int \<rightharpoonup> filter_record option) \<Rightarrow> int \<Rightarrow> int \<Rightarrow> int \<Rightarrow> int" where
  "contiguous m tip h sofar =
     (if h > tip then sofar
      else case m h of
             Some (Some r) \<Rightarrow> contiguous m tip (h + 1) h
           | _ \<Rightarrow> sofar)"
  by pat_completeness auto
termination by (relation "measure (\<lambda>(m, tip, h, sofar). nat (tip + 1 - h))") auto

declare contiguous.simps [simp del]

definition lastContiguousScanned :: "scan_job \<Rightarrow> int \<Rightarrow> pool \<Rightarrow> int" where
  "lastContiguousScanned job from p = contiguous (p_cache p) (j_tip job) from (from - 1)"

text \<open>The trim behind an abort, and the order of the chain.\<close>

definition trim_hits :: "bool \<Rightarrow> int \<Rightarrow> hit list \<Rightarrow> hit list" where
  "trim_hits aborted cursor_height hs = (if aborted \<and> hs \<noteq> [] then filter (\<lambda>x. fst x \<le> cursor_height) hs else hs)"

definition sortByAscendingHeight :: "hit list \<Rightarrow> hit list" where
  "sortByAscendingHeight hs = sort_key fst hs"

definition scan_outcome :: "scan_job \<Rightarrow> int \<Rightarrow> pool \<Rightarrow> int \<times> bool \<times> hit list" where
  "scan_outcome job from p =
     (let cursor_height = lastContiguousScanned job from p
      in (cursor_height, p_aborted p, sortByAscendingHeight (trim_hits (p_aborted p) cursor_height (p_hits p))))"

section \<open>The reference: one height after the other\<close>

definition matching :: "scan_job \<Rightarrow> (int \<Rightarrow> filter_answer) \<Rightarrow> int \<Rightarrow> hit list" where
  "matching job src h = (case src h of
     Inr (Some r) \<Rightarrow> if match_filter job r = Inr True then [(h, flt_hash r)] else []
   | _ \<Rightarrow> [])"

definition readable :: "(int \<Rightarrow> filter_answer) \<Rightarrow> int \<Rightarrow> bool" where
  "readable src h \<longleftrightarrow> (\<exists>r. src h = Inr (Some r))"

definition broken :: "(int \<Rightarrow> filter_answer) \<Rightarrow> int \<Rightarrow> bool" where
  "broken src h \<longleftrightarrow> isl (src h)"

text \<open>
  The loop reads up to the ceiling, remembers whether a height failed, and takes as cursor the
  last height before the first one that it could not read.
\<close>

definition read_prefix :: "(int \<Rightarrow> filter_answer) \<Rightarrow> int \<Rightarrow> int \<Rightarrow> int" where
  "read_prefix src tip from = from - 1 + int (length (takeWhile (readable src) [from..tip]))"

definition sequential_scan :: "scan_job \<Rightarrow> (int \<Rightarrow> filter_answer) \<Rightarrow> int \<Rightarrow> int \<times> bool \<times> hit list" where
  "sequential_scan job src from =
     (let hs = [from..j_tip job]; cursor_height = read_prefix src (j_tip job) from;
          failed = list_ex (broken src) hs
      in (cursor_height, failed, concat (map (matching job src)
            (if failed then filter (\<lambda>h. h \<le> cursor_height) hs else hs))))"

section \<open>The invariant of the pool\<close>

text \<open>
  \<open>W i\<close> is the height that worker \<open>i\<close> waits for.  Drawn heights are those below the counter; each is
  waited for by one worker, or has its answer in the cache, or failed.  The hits are the matches
  among the cached filters.
\<close>

definition pool_core :: "scan_job \<Rightarrow> (int \<Rightarrow> filter_answer) \<Rightarrow> int \<Rightarrow> int \<Rightarrow>
    (int \<rightharpoonup> filter_record option) \<Rightarrow> bool \<Rightarrow> hit list \<Rightarrow> (nat \<rightharpoonup> int) \<Rightarrow> bool" where
  "pool_core job src lo n c ab hs W \<longleftrightarrow>
     lo \<le> n \<and> n \<le> max lo (j_tip job + 1) \<and>
     (\<forall>i h. W i = Some h \<longrightarrow> h \<in> {lo..<n} \<and> c h = None) \<and>
     (\<forall>i k h. W i = Some h \<longrightarrow> W k = Some h \<longrightarrow> i = k) \<and>
     (\<forall>h f. c h = Some f \<longrightarrow> h \<in> {lo..<n} \<and> src h = Inr f) \<and>
     (\<forall>h \<in> {lo..<n}. (\<exists>i. W i = Some h) \<or> c h \<noteq> None \<or> (broken src h \<and> ab)) \<and>
     (ab \<longrightarrow> (\<exists>h \<in> {lo..<n}. broken src h)) \<and>
     distinct (map fst hs) \<and>
     (\<forall>x. x \<in> set hs \<longleftrightarrow> (\<exists>h. c h \<noteq> None \<and> x \<in> set (matching job src h)))"

lemma pool_coreD:
  assumes "pool_core job src lo n c ab hs W"
  shows "lo \<le> n" "n \<le> max lo (j_tip job + 1)"
    and "W i = Some h \<Longrightarrow> lo \<le> h \<and> h < n \<and> c h = None"
    and "W i = Some h \<Longrightarrow> W k = Some h \<Longrightarrow> i = k"
    and "c h = Some f \<Longrightarrow> lo \<le> h \<and> h < n \<and> src h = Inr f"
    and "lo \<le> h \<Longrightarrow> h < n \<Longrightarrow> (\<exists>i. W i = Some h) \<or> c h \<noteq> None \<or> (broken src h \<and> ab)"
    and "ab \<Longrightarrow> \<exists>h. lo \<le> h \<and> h < n \<and> broken src h"
    and "distinct (map fst hs)"
    and "x \<in> set hs \<longleftrightarrow> (\<exists>h. c h \<noteq> None \<and> x \<in> set (matching job src h))"
proof -
  note all = assms [unfolded pool_core_def]
  have 1: "lo \<le> n" using all by (elim conjE)
  have 2: "n \<le> max lo (j_tip job + 1)" using all by (elim conjE)
  have 3: "\<forall>i h. W i = Some h \<longrightarrow> h \<in> {lo..<n} \<and> c h = None" using all by (elim conjE)
  have 4: "\<forall>i k h. W i = Some h \<longrightarrow> W k = Some h \<longrightarrow> i = k" using all by (elim conjE)
  have 5: "\<forall>h f. c h = Some f \<longrightarrow> h \<in> {lo..<n} \<and> src h = Inr f" using all by (elim conjE)
  have 6: "\<forall>h \<in> {lo..<n}. (\<exists>i. W i = Some h) \<or> c h \<noteq> None \<or> (broken src h \<and> ab)"
    using all by (elim conjE)
  have 7: "ab \<longrightarrow> (\<exists>h \<in> {lo..<n}. broken src h)" using all by (elim conjE)
  have 8: "distinct (map fst hs)" using all by (elim conjE)
  have 9: "\<forall>x. x \<in> set hs \<longleftrightarrow> (\<exists>h. c h \<noteq> None \<and> x \<in> set (matching job src h))"
    using all by (elim conjE)
  show "lo \<le> n" "n \<le> max lo (j_tip job + 1)" "distinct (map fst hs)" by (fact 1 2 8)+
  show "W i = Some h \<Longrightarrow> lo \<le> h \<and> h < n \<and> c h = None" using 3 by simp
  show "W i = Some h \<Longrightarrow> W k = Some h \<Longrightarrow> i = k" using 4 by blast
  show "c h = Some f \<Longrightarrow> lo \<le> h \<and> h < n \<and> src h = Inr f" using 5 by simp
  show "lo \<le> h \<Longrightarrow> h < n \<Longrightarrow> (\<exists>i. W i = Some h) \<or> c h \<noteq> None \<or> (broken src h \<and> ab)"
    using 6 by simp
  show "ab \<Longrightarrow> \<exists>h. lo \<le> h \<and> h < n \<and> broken src h" using 7 by auto
  show "x \<in> set hs \<longleftrightarrow> (\<exists>h. c h \<noteq> None \<and> x \<in> set (matching job src h))" using 9 by blast
qed

lemma fst_matching: "x \<in> set (matching job src h) \<Longrightarrow> fst x = h"
  by (auto simp: matching_def split: sum.splits option.splits if_splits)

lemma core_draw:
  assumes core: "pool_core job src lo n c ab hs W" and i: "W i = None" and n: "n \<le> j_tip job"
  shows "pool_core job src lo (n + 1) c ab hs (W(i \<mapsto> n))"
proof -
  note d = pool_coreD [OF core]
  have new: "W k \<noteq> Some n" for k using d(3) [of k n] by auto
  have cn: "c n = None" using d(5) [of n] by (cases "c n") auto
  show ?thesis
    unfolding pool_core_def
  proof (intro conjI allI impI ballI)
    show "(\<exists>k. (W(i \<mapsto> n)) k = Some h) \<or> c h \<noteq> None \<or> (broken src h \<and> ab)" if "h \<in> {lo..<n + 1}" for h
    proof (cases "h = n")
      case True
      then show ?thesis by auto
    next
      case False
      then have "(\<exists>k. W k = Some h) \<or> c h \<noteq> None \<or> (broken src h \<and> ab)" using d(6) that by simp
      then show ?thesis using i by (metis fun_upd_other option.distinct(1))
    qed
    show "\<exists>h \<in> {lo..<n + 1}. broken src h" if ab
      using d(7) [OF that] by force
    show "h \<in> {lo..<n + 1}" "c h = None" if "(W(i \<mapsto> n)) k = Some h" for k h
      using that d(3) [of k h] d(1) cn by (auto split: if_splits)
    show "k = k'" if "(W(i \<mapsto> n)) k = Some h" "(W(i \<mapsto> n)) k' = Some h" for k k' h
      using that d(4) [of k h k'] new [of k] new [of k'] by (auto split: if_splits)
    show "h \<in> {lo..<n + 1}" "src h = Inr f" if "c h = Some f" for h f
      using d(5) [OF that] by auto
    show "lo \<le> n + 1" "n + 1 \<le> max lo (j_tip job + 1)" using d(1) n by auto
    show "distinct (map fst hs)" by (rule d(8))
    show "x \<in> set hs \<longleftrightarrow> (\<exists>h. c h \<noteq> None \<and> x \<in> set (matching job src h))" for x by (rule d(9))
  qed
qed

lemma core_leave:
  assumes core: "pool_core job src lo n c ab hs W" and w: "W i = Some h"
    and c': "\<And>x. x \<noteq> h \<Longrightarrow> c' x = c x" "\<And>f. c' h = Some f \<Longrightarrow> src h = Inr f"
    and left: "c' h \<noteq> None \<or> broken src h" and ab: "ab' \<longleftrightarrow> ab \<or> c' h = None"
    and hs: "distinct (map fst hs')" "\<And>x. x \<in> set hs' \<longleftrightarrow> (\<exists>h. c' h \<noteq> None \<and> x \<in> set (matching job src h))"
  shows "pool_core job src lo n c' ab' hs' (W(i := None))"
proof -
  note d = pool_coreD [OF core]
  have h: "lo \<le> h" "h < n" "c h = None" using d(3) [OF w] by auto
  show ?thesis
    unfolding pool_core_def
  proof (intro conjI allI impI ballI)
    have other: "W k = Some x" "x \<noteq> h" if "(W(i := None)) k = Some x" for k x
      using that d(4) [OF w] by (auto split: if_splits)
    show "x \<in> {lo..<n}" if "(W(i := None)) k = Some x" for k x
      using d(3) [OF other(1) [OF that]] by simp
    show "c' x = None" if "(W(i := None)) k = Some x" for k x
      using d(3) [OF other(1) [OF that]] c'(1) [OF other(2) [OF that]] by simp
    show "k = k'" if "(W(i := None)) k = Some x" "(W(i := None)) k' = Some x" for k k' x
      by (rule d(4) [OF other(1) [OF that(1)] other(1) [OF that(2)]])
    show "x \<in> {lo..<n}" if "c' x = Some g" for x g
      using d(5) [of x g] that h c'(1) [of x] by (cases "x = h") auto
    show "src x = Inr g" if "c' x = Some g" for x g
      using d(5) [of x g] that c'(1) [of x] c'(2) [of g] by (cases "x = h") auto
    show "(\<exists>k. (W(i := None)) k = Some x) \<or> c' x \<noteq> None \<or> (broken src x \<and> ab')" if "x \<in> {lo..<n}" for x
    proof (cases "x = h")
      case False
      then have "(\<exists>k. W k = Some x) \<or> c x \<noteq> None \<or> (broken src x \<and> ab)" using d(6) that by simp
      then show ?thesis using False w c'(1) [OF False] ab by (metis fun_upd_other option.inject)
    qed (use left ab in auto)
    show "\<exists>h \<in> {lo..<n}. broken src h" if ab'
      using d(7) that ab left h by force
  qed (use d(1,2) hs in auto)
qed

section \<open>The pool keeps the invariant\<close>

definition waits :: "int option list \<Rightarrow> nat \<Rightarrow> int option" where
  "waits ws i = (if i < length ws then ws ! i else None)"

lemma waits_append: "waits (ws @ [x]) = (waits ws)(length ws := x)"
  by (rule ext) (simp add: waits_def nth_append)

lemma waits_update: "i < length ws \<Longrightarrow> waits (ws[i := x]) = (waits ws)(i := x)"
  by (rule ext) (simp add: waits_def)

text \<open>How many fetches are open.\<close>

definition open_fetches :: "int option list \<Rightarrow> int" where
  "open_fetches ws = int (length (filter (\<lambda>x. x \<noteq> None) ws))"

definition finished :: "scan_job \<Rightarrow> pool \<Rightarrow> bool" where
  "finished job p \<longleftrightarrow> p_aborted p \<or> p_next p > j_tip job"

definition pool_inv :: "scan_job \<Rightarrow> (int \<Rightarrow> filter_answer) \<Rightarrow> int \<Rightarrow> nat \<Rightarrow> pool \<Rightarrow> bool" where
  "pool_inv job src lo n p \<longleftrightarrow> p_thrown p = None \<and>
     pool_core job src lo (p_next p) (p_cache p) (p_aborted p) (p_hits p) (waits (p_workers p)) \<and>
     (None \<in> set (p_workers p) \<longrightarrow> finished job p) \<and>
     int n + open_fetches (p_workers p) = p_next p - lo"

text \<open>A source whose hashes are even in length, so that no worker throws.\<close>

definition wf_source :: "(int \<Rightarrow> filter_answer) \<Rightarrow> bool" where
  "wf_source src \<longleftrightarrow> (\<forall>h r. src h = Inr (Some r) \<longrightarrow> even (length (flt_hash r)))"

lemma match_filter_ok: "even (length (flt_hash r)) \<Longrightarrow> \<exists>m. match_filter job r = Inr m"
  by (simp add: match_filter_def hexToBytes_def)

lemma claim_cases:
  assumes "claim job p = (x, p')"
  obtains "x = None" "p' = p" "finished job p"
    | "x = Some (p_next p)" "p' = p\<lparr>p_next := p_next p + 1\<rparr>" "p_next p \<le> j_tip job" "\<not> p_aborted p"
  using assms by (auto simp: claim_def finished_def split: if_splits)

lemma start_worker_inv: "pool_inv job src lo n p \<Longrightarrow> pool_inv job src lo n (start_worker job p)"
proof -
  assume inv: "pool_inv job src lo n p"
  have w: "waits (p_workers p) (length (p_workers p)) = None" by (simp add: waits_def)
  obtain x p' where c: "claim job p = (x, p')" by fastforce
  show ?thesis
  proof (rule claim_cases [OF c])
    assume a: "x = None" "p' = p" "finished job p"
    then show ?thesis
      using inv w fun_upd_idem [where f = "waits (p_workers p)", OF w]
      by (simp add: start_worker_def c pool_inv_def waits_append open_fetches_def finished_def)
  next
    assume a: "x = Some (p_next p)" "p' = p\<lparr>p_next := p_next p + 1\<rparr>" "p_next p \<le> j_tip job" "\<not> p_aborted p"
    then show ?thesis
      using inv core_draw [where W = "waits (p_workers p)", OF _ w a(3)]
      by (auto simp: start_worker_def c pool_inv_def waits_append open_fetches_def finished_def)
  qed
qed

lemma fresh_inv: "pool_inv job src lo 0 (fresh_pool lo)"
  by (simp add: pool_inv_def fresh_pool_def pool_core_def waits_def open_fetches_def)

lemma start_inv: "pool_inv job src lo 0 (start_pool job lo)"
proof -
  have "pool_inv job src lo 0 ((start_worker job ^^ k) (fresh_pool lo))" for k
    by (induction k) (simp_all add: fresh_inv start_worker_inv)
  then show ?thesis by (simp add: start_pool_def)
qed

text \<open>Worker \<open>i\<close> has been answered and goes back to the head of the loop.\<close>

lemma open_fetches_leave:
  assumes "i < length ws" and "ws ! i = Some h"
  shows "open_fetches (ws[i := x]) = open_fetches ws - (if x = None then 1 else 0)"
proof -
  have ws: "ws = take i ws @ Some h # drop (Suc i) ws" using id_take_nth_drop [OF assms(1)] assms(2) by simp
  have "ws[i := x] = take i ws @ x # drop (Suc i) ws" using assms(1) by (rule upd_conv_take_nth_drop)
  then show ?thesis
    by (subst (2) ws) (simp add: open_fetches_def)
qed

lemma set_worker_claim_inv:
  assumes i: "i < length (p_workers p)" "p_workers p ! i = Some h"
    and core: "pool_core job src lo (p_next p) (p_cache p) (p_aborted p) (p_hits p)
        ((waits (p_workers p))(i := None))"
    and rest: "p_thrown p = None" "None \<in> set (p_workers p) \<Longrightarrow> finished job p"
      "int n + open_fetches (p_workers p) = p_next p - lo"
    and c: "claim job p = (x, p')"
  shows "pool_inv job src lo (Suc n) (set_worker i x p')"
proof (rule claim_cases [OF c])
  assume a: "x = None" "p' = p" "finished job p"
  then show ?thesis
    using core rest open_fetches_leave [OF i, of None]
    by (simp add: set_worker_def pool_inv_def waits_update [OF i(1)] finished_def)
next
  assume a: "x = Some (p_next p)" "p' = p\<lparr>p_next := p_next p + 1\<rparr>" "p_next p \<le> j_tip job" "\<not> p_aborted p"
  have "None \<notin> set ((p_workers p)[i := x])"
    using rest(2) a set_update_subset_insert [of "p_workers p" i x] by (auto simp: finished_def)
  then show ?thesis
    using core_draw [OF core, of i] rest a open_fetches_leave [OF i, of x]
    by (simp add: set_worker_def pool_inv_def waits_update [OF i(1)])
qed

lemma resume_inv:
  assumes inv: "pool_inv job src lo n p" and wf: "wf_source src"
    and i: "i < length (p_workers p)" "p_workers p ! i = Some h"
  shows "pool_inv job src lo (Suc n) (resume job i h (src h) p)"
proof -
  note inv = inv [unfolded pool_inv_def]
  have core: "pool_core job src lo (p_next p) (p_cache p) (p_aborted p) (p_hits p) (waits (p_workers p))"
    using inv by blast
  have w: "waits (p_workers p) i = Some h" using i by (simp add: waits_def)
  have fresh: "p_cache p h = None" using pool_coreD(3) [where W = "waits (p_workers p)", OF core w] by simp
  show ?thesis
  proof (cases "src h")
    case (Inl cause)
    let ?p = "give_up h cause p"
    have "pool_core job src lo (p_next p) (p_cache p) True (p_hits p) ((waits (p_workers p))(i := None))"
      by (rule core_leave [OF core w]) (use pool_coreD(8,9) [OF core] fresh Inl in \<open>auto simp: broken_def\<close>)
    then show ?thesis
      using set_worker_claim_inv [where p = ?p and x = None and p' = ?p and i = i and n = n] i inv Inl
      by (simp add: resume_def give_up_def claim_def finished_def)
  next
    case (Inr f)
    let ?p = "take_answer job h f p"
    obtain m where m: "f = Some r \<Longrightarrow> match_filter job r = Inr (m r)" for r
      using wf Inr match_filter_ok [of _ job] unfolding wf_source_def by metis
    have taken: "p_next ?p = p_next p" "p_workers ?p = p_workers p" "p_aborted ?p = p_aborted p"
        "p_cache ?p = (p_cache p)(h \<mapsto> f)" "p_hits ?p = p_hits p @ matching job src h" "p_thrown ?p = None"
      using inv Inr m by (auto simp: take_answer_def matching_def Let_def split: option.splits)
    have "pool_core job src lo (p_next ?p) (p_cache ?p) (p_aborted ?p) (p_hits ?p)
        ((waits (p_workers ?p))(i := None))"
      unfolding taken
    proof (rule core_leave [OF core w])
      have "h \<notin> fst ` set (p_hits p)"
        using fresh by (auto simp: pool_coreD(9) [OF core] dest!: fst_matching)
      moreover have "fst ` set (matching job src h) \<subseteq> {h}" "distinct (map fst (matching job src h))"
        by (auto dest: fst_matching simp: matching_def split: sum.splits option.splits)
      ultimately show "distinct (map fst (p_hits p @ matching job src h))"
        using pool_coreD(8) [OF core] by auto
      show "x \<in> set (p_hits p @ matching job src h) \<longleftrightarrow>
          (\<exists>y. ((p_cache p)(h \<mapsto> f)) y \<noteq> None \<and> x \<in> set (matching job src y))" for x
        using pool_coreD(9) [OF core, of x] fresh by (auto split: if_splits)
    qed (use Inr in auto)
    moreover obtain x p' where c: "claim job ?p = (x, p')" by fastforce
    ultimately have "pool_inv job src lo (Suc n) (set_worker i x p')"
      using inv by (intro set_worker_claim_inv [where p = ?p and h = h])
        (auto simp: taken i finished_def)
    then show ?thesis by (simp add: resume_def Inr taken c)
  qed
qed

lemma reaches_inv: "pool_reaches job src lo n p \<Longrightarrow> wf_source src \<Longrightarrow> pool_inv job src lo n p"
  by (induction rule: pool_reaches.induct) (auto simp: start_inv resume_inv elim!: pool_stepE)

lemma reaches_workers: "pool_reaches job src lo n p \<Longrightarrow> length (p_workers p) = FETCH_CONCURRENCY"
proof (induction rule: pool_reaches.induct)
  case start
  have "length (p_workers ((start_worker job ^^ k) (fresh_pool lo))) = k" for k
    by (induction k) (auto simp: fresh_pool_def start_worker_def claim_def)
  then show ?case by (simp add: start_pool_def)
next
  case (step n p q)
  from step.hyps(2) step.IH show ?case
    by (cases rule: pool_step.cases)
      (auto simp: resume_def set_worker_def give_up_def claim_def take_answer_def Let_def
        split: sum.splits option.splits)
qed

section \<open>The outcome\<close>

lemma takeWhile_prefix_cong:
  assumes "\<And>ys x zs. xs = ys @ x # zs \<Longrightarrow> \<forall>y \<in> set ys. Q y \<Longrightarrow> Q x \<Longrightarrow> P x" and "\<And>x. P x \<Longrightarrow> Q x"
  shows "takeWhile P xs = takeWhile Q xs"
  using assms(1)
proof (induction xs)
  case (Cons x xs)
  show ?case
  proof (cases "Q x")
    case True
    have "takeWhile P xs = takeWhile Q xs"
    proof (rule Cons.IH)
      fix ys y zs assume "xs = ys @ y # zs" "\<forall>y \<in> set ys. Q y" "Q y"
      then show "P y" using Cons.prems [of "x # ys" y zs] True by simp
    qed
    then show ?thesis using True Cons.prems [of "[]" x xs] by simp
  qed (use assms(2) in auto)
qed simp

lemma contiguous_takeWhile:
  "contiguous m tip h (h - 1) = h - 1 + int (length (takeWhile (\<lambda>x. \<exists>r. m x = Some (Some r)) [h..tip]))"
proof (induction "nat (tip + 1 - h)" arbitrary: h)
  case 0
  then show ?case by (simp add: contiguous.simps)
next
  case (Suc k)
  then have h: "h \<le> tip" by simp
  show ?case
  proof (cases "\<exists>r. m h = Some (Some r)")
    case True
    have "contiguous m tip h (h - 1) = contiguous m tip (h + 1) (h + 1 - 1)"
      using True h by (subst contiguous.simps) auto
    also have "\<dots> = h + 1 - 1 + int (length (takeWhile (\<lambda>x. \<exists>r. m x = Some (Some r)) [h + 1..tip]))"
      by (rule Suc.hyps(1)) (use Suc.hyps(2) in simp)
    finally show ?thesis using True upto_rec1 [OF h] by simp
  next
    case False
    then show ?thesis
      using h upto_rec1 [OF h] by (subst contiguous.simps) (auto split: option.splits)
  qed
qed

lemma prefix_le:
  assumes "h \<in> set (takeWhile P [lo..tip])"
  shows "h \<le> lo - 1 + int (length (takeWhile P [lo..tip]))"
proof -
  obtain k where k: "k < length (takeWhile P [lo..tip])" "h = takeWhile P [lo..tip] ! k"
    using assms by (metis in_set_conv_nth)
  then have "h = lo + int k"
    using takeWhile_nth [OF k(1)] length_takeWhile_le [of P "[lo..tip]"] by simp
  then show ?thesis using k(1) by simp
qed

lemma le_prefix:
  assumes "lo \<le> h" and "h \<le> lo - 1 + int (length (takeWhile P [lo..tip]))"
  shows "h \<in> set (takeWhile P [lo..tip])"
proof -
  let ?k = "nat (h - lo)"
  have k: "?k < length (takeWhile P [lo..tip])" using assms by simp
  have "takeWhile P [lo..tip] ! ?k = h"
    using takeWhile_nth [OF k] k length_takeWhile_le [of P "[lo..tip]"] assms(1) by simp
  then show ?thesis using k by (metis nth_mem)
qed

lemma matching_list:
  "sorted_wrt (<) hs \<Longrightarrow> sorted_wrt (<) (map fst (concat (map (matching job src) hs)))"
proof (induction hs)
  case (Cons h hs)
  have "\<forall>y \<in> set hs. \<forall>x \<in> set (matching job src y). h < fst x"
    using Cons.prems by (auto dest!: fst_matching)
  moreover have "matching job src h = [] \<or> (\<exists>s. matching job src h = [(h, s)])"
    by (simp add: matching_def split: sum.splits option.splits)
  ultimately show ?case using Cons by fastforce
qed simp

lemma sort_by_height_unique:
  assumes "distinct (map fst xs)" and "sorted_wrt (<) (map fst ys)" and "set xs = set ys"
  shows "sortByAscendingHeight xs = ys"
proof -
  have "distinct (map fst (sort_key fst xs))"
    using assms(1) by (metis distinct_map distinct_sort set_sort)
  moreover have "sorted (map fst ys)" "distinct (map fst ys)"
    using assms(2) by (auto simp: strict_sorted_iff)
  moreover have "inj_on fst (set (sort_key fst xs) \<union> set ys)"
    using assms(1,3) by (simp add: distinct_map)
  ultimately show ?thesis
    unfolding sortByAscendingHeight_def using assms(3)
    by (intro map_sorted_distinct_set_unique [where f = fst]) auto
qed

text \<open>What the workers leave behind when all have returned.\<close>

lemma joined:
  assumes reach: "pool_reaches job src lo n p" and wf: "wf_source src" and all: "all_returned p"
  shows "p_cache p h = Some f \<Longrightarrow> lo \<le> h \<and> h \<le> j_tip job \<and> src h = Inr f"
    and "lo \<le> h \<Longrightarrow> h \<le> j_tip job \<Longrightarrow> \<forall>y \<in> {lo..h}. readable src y \<Longrightarrow> p_cache p h \<noteq> None"
    and "\<not> p_aborted p \<Longrightarrow> lo \<le> h \<Longrightarrow> h \<le> j_tip job \<Longrightarrow> p_cache p h \<noteq> None"
    and "p_aborted p \<longleftrightarrow> list_ex (broken src) [lo..j_tip job]"
proof -
  have inv: "pool_inv job src lo n p" by (rule reaches_inv [OF reach wf])
  then have core: "pool_core job src lo (p_next p) (p_cache p) (p_aborted p) (p_hits p) (waits (p_workers p))"
    by (simp add: pool_inv_def)
  note d = pool_coreD [OF core]
  have idle: "waits (p_workers p) i \<noteq> Some h" for i h
    using all by (auto simp: all_returned_def waits_def list_all_length)
  have "None \<in> set (p_workers p)"
    using all reaches_workers [OF reach] by (cases "p_workers p") (auto simp: all_returned_def FETCH_CONCURRENCY_def)
  then have fin: "p_aborted p \<or> j_tip job < p_next p" using inv by (auto simp: pool_inv_def finished_def)
  have drawn: "p_cache p x \<noteq> None \<or> (broken src x \<and> p_aborted p)" if "lo \<le> x" "x < p_next p" for x
    using d(6) [OF that] idle by simp
  show 1: "p_cache p h = Some f \<Longrightarrow> lo \<le> h \<and> h \<le> j_tip job \<and> src h = Inr f" for h f
    using d(5) [of h f] d(2) by auto
  show everything: "p_cache p h \<noteq> None" if "\<not> p_aborted p" "lo \<le> h" "h \<le> j_tip job" for h
    using drawn [of h] fin that by auto
  show "p_cache p h \<noteq> None" if h: "lo \<le> h" "h \<le> j_tip job" "\<forall>y \<in> {lo..h}. readable src y"
  proof (cases "p_aborted p")
    case True
    then obtain b where b: "lo \<le> b" "b < p_next p" "broken src b" using d(7) by blast
    have "\<not> readable src b" using b(3) by (auto simp: readable_def broken_def)
    then have "h < b" using h(3) b(1) by (meson atLeastAtMost_iff not_le)
    moreover have "readable src h" using h by simp
    then have "\<not> broken src h" by (auto simp: readable_def broken_def)
    ultimately show ?thesis using drawn [of h] h b(2) by auto
  qed (use everything h in blast)
  show "p_aborted p \<longleftrightarrow> list_ex (broken src) [lo..j_tip job]"
  proof
    assume "p_aborted p"
    then show "list_ex (broken src) [lo..j_tip job]"
      using d(2,7) by (auto simp: list_ex_iff)
  next
    assume "list_ex (broken src) [lo..j_tip job]"
    then obtain b where "lo \<le> b" "b \<le> j_tip job" "broken src b" by (auto simp: list_ex_iff)
    then show "p_aborted p" using everything [of b] 1 [of b] by (cases "p_cache p b") (auto simp: broken_def)
  qed
qed

lemma cursor_is_prefix:
  assumes reach: "pool_reaches job src lo n p" and wf: "wf_source src" and all: "all_returned p"
  shows "lastContiguousScanned job lo p = read_prefix src (j_tip job) lo"
proof -
  note j = joined [OF assms]
  have "takeWhile (\<lambda>x. \<exists>r. p_cache p x = Some (Some r)) [lo..j_tip job] = takeWhile (readable src) [lo..j_tip job]"
  proof (rule takeWhile_prefix_cong)
    fix ys x zs assume s: "[lo..j_tip job] = ys @ x # zs" "\<forall>y \<in> set ys. readable src y" "readable src x"
    have strict: "sorted_wrt (<) (ys @ x # zs)" by (simp flip: s(1))
    have range: "{lo..j_tip job} = set ys \<union> {x} \<union> set zs" using arg_cong [OF s(1), of set] by simp
    have "y \<in> set ys" if "y \<in> {lo..x}" "y \<noteq> x" for y
    proof -
      have "x \<le> j_tip job" using range by auto
      then have "y \<in> set ys \<union> {x} \<union> set zs" using that(1) unfolding range [symmetric] by simp
      then show ?thesis using strict that by (auto simp: sorted_wrt_append)
    qed
    then have "\<forall>y \<in> {lo..x}. readable src y" using s(2,3) by blast
    moreover have "x \<in> set [lo..j_tip job]" by (simp add: s(1))
    ultimately have "p_cache p x \<noteq> None" using j(2) by simp
    then obtain f where "p_cache p x = Some f" by blast
    then show "\<exists>r. p_cache p x = Some (Some r)" using j(1) s(3) by (auto simp: readable_def)
  qed (use j(1) in \<open>auto simp: readable_def\<close>)
  then show ?thesis by (simp add: lastContiguousScanned_def contiguous_takeWhile read_prefix_def)
qed

lemma outcome_sequential:
  assumes reach: "pool_reaches job src lo n p" and all: "all_returned p" and wf: "wf_source src"
  shows "scan_outcome job lo p = sequential_scan job src lo"
proof -
  note j = joined [OF reach wf all]
  let ?tip = "j_tip job" and ?top = "read_prefix src (j_tip job) lo"
  let ?ab = "list_ex (broken src) [lo..?tip]"
  let ?hs = "if ?ab then filter (\<lambda>h. h \<le> ?top) [lo..?tip] else [lo..?tip]"
  have core: "pool_core job src lo (p_next p) (p_cache p) (p_aborted p) (p_hits p) (waits (p_workers p))"
    using reaches_inv [OF reach wf] by (simp add: pool_inv_def)
  note hits = pool_coreD(8,9) [OF core]
  have read: "p_cache p h \<noteq> None" if h: "h \<in> set ?hs" for h
  proof (cases ?ab)
    case True
    then have "\<forall>y \<in> {lo..h}. y \<in> set (takeWhile (readable src) [lo..?tip])"
      using h le_prefix [of lo _ "readable src" ?tip] by (auto simp: read_prefix_def)
    then have "\<forall>y \<in> {lo..h}. readable src y" by (blast dest: set_takeWhileD)
    then show ?thesis using h j(2) by (auto split: if_splits)
  qed (use h j(3,4) in auto)
  have trimmed: "x \<in> set (trim_hits ?ab ?top (p_hits p)) \<longleftrightarrow> x \<in> set (p_hits p) \<and> (?ab \<longrightarrow> fst x \<le> ?top)" for x
    by (auto simp: trim_hits_def)
  have "set (trim_hits ?ab ?top (p_hits p)) = set (concat (map (matching job src) ?hs))"
  proof (intro equalityI subsetI)
    fix x assume "x \<in> set (trim_hits ?ab ?top (p_hits p))"
    then obtain h where h: "p_cache p h \<noteq> None" "x \<in> set (matching job src h)" "?ab \<longrightarrow> fst x \<le> ?top"
      unfolding trimmed hits(2) by blast
    then show "x \<in> set (concat (map (matching job src) ?hs))"
      using j(1) [of h] fst_matching [OF h(2)] by auto
  next
    fix x assume "x \<in> set (concat (map (matching job src) ?hs))"
    then obtain h where h: "h \<in> set ?hs" "x \<in> set (matching job src h)" by auto
    then have "?ab \<longrightarrow> fst x \<le> ?top" using fst_matching [OF h(2)] by (auto split: if_splits)
    then show "x \<in> set (trim_hits ?ab ?top (p_hits p))"
      unfolding trimmed hits(2) using read [OF h(1)] h(2) by blast
  qed
  moreover have "distinct (map fst (trim_hits ?ab ?top (p_hits p)))"
    using hits(1) by (simp add: trim_hits_def distinct_map_filter)
  moreover have "sorted_wrt (<) ?hs" by (simp add: sorted_wrt_filter)
  ultimately have "sortByAscendingHeight (trim_hits ?ab ?top (p_hits p)) = concat (map (matching job src) ?hs)"
    using sort_by_height_unique matching_list by blast
  then show ?thesis
    by (simp add: scan_outcome_def sequential_scan_def Let_def cursor_is_prefix [OF reach wf all] j(4))
qed

section \<open>Properties\<close>

text \<open>
  C12: the filter stage is independent of the interleaving: whatever the order in which the answers
  of the source arrive at the 32 workers, once all have returned the cursor, the abort flag and
  the ordered list of blocks to fetch are those of the loop that reads one height after the
  other; in particular the cursor stops right below the first height that could not be read, and
  after an abort no block above the cursor is fetched.
\<close>

theorem filter_scan_is_sequential:
  assumes "pool_reaches job src lo n p" and "all_returned p" and "wf_source src"
  shows "scan_outcome job lo p = sequential_scan job src lo"
  using assms by (rule outcome_sequential)

text \<open>A source whose filter at height 102 cannot be fetched; every filter matches.\<close>

definition sample_job :: scan_job where
  "sample_job = \<lparr>j_tip = 103, j_match = (\<lambda>_ _. True)\<rparr>"

definition sample_filters :: "int \<Rightarrow> filter_answer" where
  "sample_filters h = (if h = 102 then Inl ''status 403''
     else Inr (Some \<lparr>flt_height = h, flt_hash = ''00'', flt_bytes = []\<rparr>))"

lemma sample_job_simps [simp]: "j_tip sample_job = 103" "j_match sample_job a b"
  by (simp_all add: sample_job_def)

lemma pool_sample_start:
  "start_pool sample_job 100 = \<lparr>p_next = 104, p_workers = map Some [100, 101, 102, 103] @ replicate 28 None,
     p_cache = Map.empty, p_hits = [], p_aborted = False, p_failure = None, p_read = 0, p_bytes = 0,
     p_thrown = None\<rparr>"
  by (simp add: start_pool_def FETCH_CONCURRENCY_def eval_nat_numeral fresh_pool_def start_worker_def
      claim_def)

lemma pool_sample_run:
  "\<exists>p. pool_reaches sample_job sample_filters 100 (Suc (Suc (Suc (Suc 0)))) p \<and> all_returned p"
proof -
  let ?r = "\<lambda>i h. resume sample_job i h (sample_filters h)"
  note answer = pool_reaches.step [OF _ pool_step.answered]
  note eval = pool_sample_start resume_def sample_filters_def set_worker_def take_answer_def give_up_def
    claim_def match_filter_def hexToBytes_def Let_def all_returned_def
  have 1: "pool_reaches sample_job sample_filters 100 (Suc 0) (?r 3 103 (start_pool sample_job 100))"
    by (rule answer [OF pool_reaches.start]) (simp_all add: pool_sample_start)
  have 2: "pool_reaches sample_job sample_filters 100 (Suc (Suc 0)) (?r 2 102 (?r 3 103 (start_pool sample_job 100)))"
    by (rule answer [OF 1]) (simp_all add: eval)
  have 3: "pool_reaches sample_job sample_filters 100 (Suc (Suc (Suc 0)))
      (?r 1 101 (?r 2 102 (?r 3 103 (start_pool sample_job 100))))"
    by (rule answer [OF 2]) (simp_all add: eval)
  have 4: "pool_reaches sample_job sample_filters 100 (Suc (Suc (Suc (Suc 0))))
      (?r 0 100 (?r 1 101 (?r 2 102 (?r 3 103 (start_pool sample_job 100)))))"
    by (rule answer [OF 3]) (simp_all add: eval)
  have "all_returned (?r 0 100 (?r 1 101 (?r 2 102 (?r 3 103 (start_pool sample_job 100)))))"
    by (simp add: eval list.pred_set)
  with 4 show ?thesis by blast
qed

lemma sample_filters_wf: "wf_source sample_filters"
  by (simp add: wf_source_def sample_filters_def)

theorem filter_scan_is_sequential_witness:
  "\<exists>n p. pool_reaches sample_job sample_filters 100 n p \<and> all_returned p \<and>
     scan_outcome sample_job 100 p = (101, True, [(100, ''00''), (101, ''00'')])"
proof -
  obtain n p where p: "pool_reaches sample_job sample_filters 100 n p" "all_returned p"
    using pool_sample_run by blast
  have "sequential_scan sample_job sample_filters 100 = (101, True, [(100, ''00''), (101, ''00'')])"
    by (simp add: sequential_scan_def read_prefix_def readable_def broken_def sample_filters_def
        matching_def match_filter_def hexToBytes_def upto.simps)
  then show ?thesis using filter_scan_is_sequential [OF p sample_filters_wf] p by auto
qed

text \<open>
  The filter stage ends: however the answers interleave, at most one fetch is answered per
  height up to the ceiling, and as long as a worker has not returned some answer is still due.
\<close>

theorem filter_scan_terminates:
  assumes reach: "pool_reaches job src lo n p" and wf: "wf_source src"
  shows "int n \<le> max 0 (j_tip job + 1 - lo) \<and> (all_returned p \<or> (\<exists>q. pool_step job src p q))"
proof
  note inv = reaches_inv [OF reach wf, unfolded pool_inv_def]
  have core: "pool_core job src lo (p_next p) (p_cache p) (p_aborted p) (p_hits p) (waits (p_workers p))"
    using inv by blast
  have "0 \<le> open_fetches (p_workers p)" by (simp add: open_fetches_def)
  then show "int n \<le> max 0 (j_tip job + 1 - lo)" using inv pool_coreD(2) [OF core] by linarith
  show "all_returned p \<or> (\<exists>q. pool_step job src p q)"
  proof (cases "\<exists>i h. i < length (p_workers p) \<and> p_workers p ! i = Some h")
    case True
    then show ?thesis by (blast intro: pool_step.answered)
  next
    case False
    then show ?thesis using inv by (auto simp: all_returned_def list_all_length)
  qed
qed

theorem filter_scan_terminates_witness:
  "\<exists>n p. pool_reaches sample_job sample_filters 100 n p \<and> int n \<le> 4 \<and> all_returned p"
proof -
  obtain n p where p: "pool_reaches sample_job sample_filters 100 n p" "all_returned p"
    using pool_sample_run by blast
  then show ?thesis using filter_scan_terminates [OF p(1) sample_filters_wf] by auto
qed

end
