(* ===== verification/FilterFetch.thy ===== *)
theory FilterFetch
  imports FilterScan
begin

text \<open>
  The live fetchers of \<open>src/stealth/lib/sync.ts\<close>: one attempt at a filter with its sidecar, the
  bounded retry around it, the block, the tip and the birthday height.  The network is a
  parameter: an answer is a rejection or a status with a body.  The theorem is the contract the
  filter stage needs of its source: a record that arrives is one for the height asked, with a
  hash of 64 lower-case digits.
\<close>

section \<open>Answers of the network\<close>

text \<open>\<open>r_json\<close> is the body read as JSON (\<open>None\<close> when that throws), \<open>r_body\<close> its bytes.\<close>

record response =
  r_status :: nat
  r_json :: "json option"
  r_body :: bytes
  r_headers :: "string \<Rightarrow> string option"

type_synonym net_answer = "string + response"

definition response_ok :: "response \<Rightarrow> bool" where
  "response_ok r \<longleftrightarrow> 200 \<le> r_status r \<and> r_status r \<le> 299"

text \<open>
  What the platform adds: \<open>inflate\<close> gives the chunks of \<open>DecompressionStream('gzip')\<close> or fails,
  \<open>parse_date\<close> is \<open>Date.parse\<close>, and \<open>to_number\<close> and \<open>json_text\<close> convert between numbers and text.
\<close>

record platform =
  inflate :: "bytes \<Rightarrow> bytes list option"
  parse_date :: "string \<Rightarrow> int option"
  to_number :: "string \<Rightarrow> jsnum"
  json_text :: "json option \<Rightarrow> string"

section \<open>Decompression\<close>

text \<open>The loop that copies the chunks behind one another into one array.\<close>

definition place :: "bytes \<times> nat \<Rightarrow> bytes \<Rightarrow> bytes \<times> nat" where
  "place st c = (take (snd st) (fst st) @ c @ drop (snd st + length c) (fst st), snd st + length c)"

definition gunzip :: "platform \<Rightarrow> bytes \<Rightarrow> bytes option" where
  "gunzip pf packed = map_option (\<lambda>chunks.
     fst (foldl place (replicate (sum_list (map length chunks)) 0, 0) chunks)) (inflate pf packed)"

lemma place_chunks:
  assumes "length out = off + sum_list (map length chunks)"
  shows "fst (foldl place (out, off) chunks) = take off out @ concat chunks"
  using assms
proof (induction chunks arbitrary: out off)
  case (Cons c cs)
  have len: "length (take off out @ c @ drop (off + length c) out) =
      (off + length c) + sum_list (map length cs)"
    using Cons.prems by simp
  show ?case
    using Cons.IH [OF len] Cons.prems by (simp add: place_def)
qed simp

lemma gunzip_concat: "gunzip pf packed = map_option concat (inflate pf packed)"
  by (cases "inflate pf packed") (simp_all add: gunzip_def place_chunks)

section \<open>One attempt\<close>

definition FILTER_FETCH_ATTEMPTS :: nat where "FILTER_FETCH_ATTEMPTS = 3"
definition FILTER_RETRY_BACKOFF_MS :: "nat list" where "FILTER_RETRY_BACKOFF_MS = [250, 1000]"
definition RETRYABLE_FILTER_STATUS :: "nat list" where
  "RETRYABLE_FILTER_STATUS = [408, 425, 429, 500, 502, 503, 504]"

datatype filter_error = DurableFilterError string | Transient string

definition status_error :: "int \<Rightarrow> string \<Rightarrow> nat \<Rightarrow> filter_error" where
  "status_error height label status =
     (let message = ''fetchFilter '' @ nat_text (nat height) @ '' '' @ label @ '' failed: '' @ nat_text status
      in if status \<in> set RETRYABLE_FILTER_STATUS then Transient message else DurableFilterError message)"

text \<open>\<open>/^[0-9a-fA-F]{64}$/\<close>.\<close>

definition is_hash :: "string \<Rightarrow> bool" where
  "is_hash s \<longleftrightarrow> length s = 64 \<and> list_all is_hex s"

definition read_sidecar :: "platform \<Rightarrow> int \<Rightarrow> json \<Rightarrow> filter_error + string" where
  "read_sidecar pf height sidecar =
     (if sidecar = JNull then Inl (Transient ''Cannot read properties of null'')
      else if field sidecar ''block_height'' \<noteq> Some (JNum (jsint height))
      then Inl (DurableFilterError (''liveFetchFilter: sidecar reports block_height ''
        @ json_text pf (field sidecar ''block_height'')))
      else case field sidecar ''block_hash'' of
        Some (JStr raw) \<Rightarrow>
          if is_hash raw then Inr (map lower_char raw)
          else Inl (DurableFilterError (''liveFetchFilter: sidecar carries no usable block_hash ''
            @ json_text pf (field sidecar ''block_hash'')))
      | x \<Rightarrow> Inl (DurableFilterError (''liveFetchFilter: sidecar carries no usable block_hash '' @ json_text pf x)))"

definition fetchFilterPair ::
    "platform \<Rightarrow> int \<Rightarrow> net_answer \<Rightarrow> net_answer \<Rightarrow> filter_error + filter_record" where
  "fetchFilterPair pf height gz_answer json_answer =
     (case (gz_answer, json_answer) of
        (Inr gz, Inr js) \<Rightarrow>
          if r_status gz = 404 \<or> r_status js = 404
          then Inl (DurableFilterError ''liveFetchFilter: 404, filter should exist for all heights up to tip'')
          else if \<not> response_ok gz then Inl (status_error height ''gz'' (r_status gz))
          else if \<not> response_ok js then Inl (status_error height ''json'' (r_status js))
          else (case r_json js of
             None \<Rightarrow> Inl (Transient ''Unexpected token in JSON'')
           | Some sidecar \<Rightarrow>
               (case read_sidecar pf height sidecar of
                  Inl e \<Rightarrow> Inl e
                | Inr block_hash \<Rightarrow>
                    (case gunzip pf (r_body gz) of
                       None \<Rightarrow> Inl (Transient ''decompression failed'')
                     | Some bs \<Rightarrow> Inr \<lparr>flt_height = height, flt_hash = block_hash, flt_bytes = bs\<rparr>)))
      | (Inl e, _) \<Rightarrow> Inl (Transient e)
      | (_, Inl e) \<Rightarrow> Inl (Transient e))"

section \<open>The retry\<close>

text \<open>
  \<open>net k\<close> is the pair of answers of attempt \<open>k\<close>.  The wait between two attempts has no effect on
  the result; an attempt without a back-off entry is the last.
\<close>

function retry_filter ::
    "platform \<Rightarrow> int \<Rightarrow> (nat \<Rightarrow> net_answer \<times> net_answer) \<Rightarrow> nat \<Rightarrow> string \<Rightarrow> string + filter_record" where
  "retry_filter pf height net k lastError =
     (if k \<ge> FILTER_FETCH_ATTEMPTS
      then Inl (''fetchFilter '' @ nat_text (nat height) @ '' failed after ''
             @ nat_text FILTER_FETCH_ATTEMPTS @ '' attempts: '' @ lastError)
      else case fetchFilterPair pf height (fst (net k)) (snd (net k)) of
        Inr r \<Rightarrow> Inr r
      | Inl (DurableFilterError e) \<Rightarrow> Inl e
      | Inl (Transient e) \<Rightarrow>
          if k < length FILTER_RETRY_BACKOFF_MS then retry_filter pf height net (Suc k) e
          else Inl (''fetchFilter '' @ nat_text (nat height) @ '' failed after ''
             @ nat_text FILTER_FETCH_ATTEMPTS @ '' attempts: '' @ e))"
  by pat_completeness auto
termination by (relation "measure (\<lambda>(_, _, _, k, _). FILTER_FETCH_ATTEMPTS - k)") auto

declare retry_filter.simps [simp del]

definition liveFetchFilter ::
    "platform \<Rightarrow> (int \<Rightarrow> nat \<Rightarrow> net_answer \<times> net_answer) \<Rightarrow> int \<Rightarrow> filter_answer" where
  "liveFetchFilter pf net height = map_sum id Some (retry_filter pf height (net height) 0 ''undefined'')"

section \<open>Block, tip and birthday\<close>

record block_record =
  blk_height :: jsnum
  blk_hash :: string
  blk_raw :: bytes

definition liveFetchBlock :: "platform \<Rightarrow> (string \<Rightarrow> net_answer) \<Rightarrow> string \<Rightarrow> string + block_record" where
  "liveFetchBlock pf net hash =
     (case net hash of
        Inl e \<Rightarrow> Inl e
      | Inr r \<Rightarrow>
          if \<not> response_ok r then Inl (''fetchBlock '' @ hash @ '' failed: '' @ nat_text (r_status r))
          else Inr \<lparr>blk_height = (case r_headers r ''X-Block-Height'' of
                        None \<Rightarrow> Fin 0 | Some s \<Rightarrow> if s = [] then Fin 0 else to_number pf s),
                    blk_hash = (case r_headers r ''X-Block-Hash'' of None \<Rightarrow> hash | Some s \<Rightarrow> s),
                    blk_raw = r_body r\<rparr>)"

definition liveFetchTip :: "net_answer \<Rightarrow> string + json option" where
  "liveFetchTip answer =
     (case answer of
        Inl e \<Rightarrow> Inl e
      | Inr r \<Rightarrow>
          if \<not> response_ok r then Inl (''fetchTip failed: '' @ nat_text (r_status r))
          else (case r_json r of
                  None \<Rightarrow> Inl ''Unexpected token in JSON''
                | Some JNull \<Rightarrow> Inl ''Cannot read properties of null''
                | Some j \<Rightarrow> Inr (field j ''height'')))"

definition GENESIS :: rat where "GENESIS = 1230940800"
definition SECONDS_PER_BLOCK :: rat where "SECONDS_PER_BLOCK = 600"

definition approximateHeightFromDate :: "platform \<Rightarrow> string \<Rightarrow> int" where
  "approximateHeightFromDate pf isoDate =
     (case parse_date pf (isoDate @ ''T00:00:00Z'') of
        None \<Rightarrow> 0
      | Some ms \<Rightarrow>
          (let ts = of_int ms / 1000 in
           if ts < GENESIS then 0 else max 0 \<lfloor>(ts - GENESIS) / SECONDS_PER_BLOCK\<rfloor>))"

definition liveResolveBirthdayHeight :: "platform \<Rightarrow> net_answer \<Rightarrow> string \<Rightarrow> jsnum" where
  "liveResolveBirthdayHeight pf answer isoDate =
     (let fallback = jsint (approximateHeightFromDate pf isoDate) in
      case answer of
        Inl _ \<Rightarrow> fallback
      | Inr r \<Rightarrow>
          if \<not> response_ok r then fallback
          else (case r_json r of
                  None \<Rightarrow> fallback
                | Some j \<Rightarrow> (case field j ''height'' of
                    Some (JNum h) \<Rightarrow> if is_finite h then h else fallback
                  | _ \<Rightarrow> fallback)))"

section \<open>What a fetched filter is\<close>

lemma lower_hex: "is_hex c \<Longrightarrow> is_lower_hex (lower_char c)"
proof -
  assume "is_hex c"
  then have "c \<in> set ''0123456789abcdefABCDEF''" by (simp add: is_hex_def)
  moreover have "list_all (\<lambda>c. is_lower_hex (lower_char c)) ''0123456789abcdefABCDEF''" by code_simp
  ultimately show ?thesis by (simp only: list_all_iff)
qed

lemma lower_hash: "is_hash s \<Longrightarrow> is_hex64 (map lower_char s)"
  by (auto simp: is_hash_def is_hex64_def list_all_iff lower_hex)

lemma fetchFilterPair_record:
  "fetchFilterPair pf h a b = Inr r \<Longrightarrow> flt_height r = h \<and> is_hex64 (flt_hash r)"
  by (auto simp: fetchFilterPair_def read_sidecar_def lower_hash
      split: sum.splits if_splits option.splits json.splits)

text \<open>The three attempts of one call.\<close>

abbreviation attempt :: "platform \<Rightarrow> (int \<Rightarrow> nat \<Rightarrow> net_answer \<times> net_answer) \<Rightarrow> int \<Rightarrow> nat \<Rightarrow> filter_error + filter_record" where
  "attempt pf net h k \<equiv> fetchFilterPair pf h (fst (net h k)) (snd (net h k))"

lemma retry_outcome:
  "liveFetchFilter pf net h = Inr x \<longleftrightarrow>
     (\<exists>m < FILTER_FETCH_ATTEMPTS. \<exists>r. x = Some r \<and> attempt pf net h m = Inr r \<and>
        (\<forall>j < m. \<exists>e. attempt pf net h j = Inl (Transient e)))"
proof -
  let ?a = "attempt pf net h"
  note unroll = retry_filter.simps [of pf h "net h" 0] retry_filter.simps [of pf h "net h" "Suc 0"]
    retry_filter.simps [of pf h "net h" "Suc (Suc 0)"]
  have upto: "(\<exists>m < FILTER_FETCH_ATTEMPTS. P m) \<longleftrightarrow> P 0 \<or> P (Suc 0) \<or> P (Suc (Suc 0))" for P
    by (auto simp: FILTER_FETCH_ATTEMPTS_def less_Suc_eq numeral_3_eq_3)
  show ?thesis
    unfolding liveFetchFilter_def upto
    by (cases "?a 0"; cases "?a (Suc 0)"; cases "?a (Suc (Suc 0))")
      (auto simp: unroll FILTER_FETCH_ATTEMPTS_def FILTER_RETRY_BACKOFF_MS_def less_Suc_eq
        split: filter_error.splits)
qed

text \<open>
  What the rest of the sync may rely on: everything up to the cursor was read, the scan stops
  short of the ceiling only right below a height that failed, and the blocks to fetch are in the
  order of the chain, none above the cursor, with every match below it and a usable hash each.
\<close>

definition sound_outcome ::
    "scan_job \<Rightarrow> (int \<Rightarrow> filter_answer) \<Rightarrow> int \<Rightarrow> int \<times> bool \<times> hit list \<Rightarrow> bool" where
  "sound_outcome job src lo out \<longleftrightarrow> (case out of (cur, failed, hs) \<Rightarrow>
     lo - 1 \<le> cur \<and> cur \<le> j_tip job \<and> (\<forall>h \<in> {lo..cur}. readable src h) \<and>
     (failed \<longleftrightarrow> cur < j_tip job) \<and> (failed \<longrightarrow> broken src (cur + 1)) \<and>
     sorted_wrt (<) (map fst hs) \<and>
     (\<forall>x \<in> set hs. lo \<le> fst x \<and> fst x \<le> cur \<and> is_hex64 (snd x)) \<and>
     (\<forall>h \<in> {lo..cur}. set (matching job src h) \<subseteq> set hs))"

section \<open>The contract of a filter source\<close>

locale filter_source =
  fixes src :: "int \<Rightarrow> filter_answer"
  assumes never_null: "src h \<noteq> Inr None"
    and bound_to_height: "src h = Inr (Some r) \<Longrightarrow> flt_height r = h \<and> is_hex64 (flt_hash r)"
begin

lemma wf: "wf_source src"
  using bound_to_height by (auto simp: wf_source_def is_hex64_def)

lemma readable_iff: "readable src h \<longleftrightarrow> \<not> broken src h"
  using never_null [of h] by (cases "src h") (auto simp: readable_def broken_def)

lemma scan:
  assumes "pool_reaches job src lo n p" and "all_returned p"
  shows "scan_outcome job lo p = sequential_scan job src lo"
  using assms wf by (rule outcome_sequential)

text \<open>Below the cursor everything was read, and it stops short of the ceiling only at a failure.\<close>

lemma prefix_end:
  assumes "lo \<le> tip + 1"
  shows "lo - 1 \<le> read_prefix src tip lo" "read_prefix src tip lo \<le> tip"
    and "h \<in> {lo..read_prefix src tip lo} \<Longrightarrow> readable src h"
    and "read_prefix src tip lo < tip \<Longrightarrow> broken src (read_prefix src tip lo + 1)"
proof -
  let ?P = "readable src" and ?xs = "[lo..tip]"
  have len: "length (takeWhile ?P ?xs) \<le> length ?xs" by (rule length_takeWhile_le)
  then show "lo - 1 \<le> read_prefix src tip lo" "read_prefix src tip lo \<le> tip"
    using assms by (auto simp: read_prefix_def)
  show "readable src h" if "h \<in> {lo..read_prefix src tip lo}"
    using that le_prefix [of lo h ?P tip] set_takeWhileD by (fastforce simp: read_prefix_def)
  assume "read_prefix src tip lo < tip"
  then have k: "length (takeWhile ?P ?xs) < length ?xs" by (simp add: read_prefix_def)
  then have "\<not> ?P (?xs ! length (takeWhile ?P ?xs))" by (rule nth_length_takeWhile)
  moreover have "?xs ! length (takeWhile ?P ?xs) = read_prefix src tip lo + 1"
    using k by (simp add: read_prefix_def)
  ultimately show "broken src (read_prefix src tip lo + 1)" by (simp add: readable_iff)
qed

lemma matching_hash: "x \<in> set (matching job src h) \<Longrightarrow> is_hex64 (snd x) \<and> fst x = h"
  using bound_to_height by (auto simp: matching_def split: sum.splits option.splits if_splits)

lemma sequential_sound:
  assumes "lo \<le> j_tip job + 1"
  shows "sound_outcome job src lo (sequential_scan job src lo)"
proof -
  let ?tip = "j_tip job" and ?cur = "read_prefix src (j_tip job) lo"
  let ?failed = "list_ex (broken src) [lo..?tip]"
  let ?hs = "if ?failed then filter (\<lambda>h. h \<le> ?cur) [lo..?tip] else [lo..?tip]"
  note pre = prefix_end [OF assms]
  have failed: "?failed \<longleftrightarrow> ?cur < ?tip"
  proof
    assume ?failed
    then obtain b where b: "lo \<le> b" "b \<le> ?tip" "broken src b" by (auto simp: list_ex_iff)
    then have "\<not> readable src b" by (simp add: readable_iff)
    then have "\<not> b \<le> ?cur" using pre(3) [of b] b(1) by auto
    then show "?cur < ?tip" using b(2) by simp
  next
    assume "?cur < ?tip"
    then show ?failed using pre(1,4) by (auto simp: list_ex_iff intro!: bexI [of _ "?cur + 1"])
  qed
  have hs: "set ?hs = {lo..?cur}" using failed pre(2) by auto
  have "sorted_wrt (<) ?hs" by (simp add: sorted_wrt_filter)
  then have "sorted_wrt (<) (map fst (concat (map (matching job src) ?hs)))" by (rule matching_list)
  moreover have "lo \<le> fst x \<and> fst x \<le> ?cur \<and> is_hex64 (snd x)"
    if "x \<in> set (concat (map (matching job src) ?hs))" for x
  proof -
    obtain h where "h \<in> {lo..?cur}" "x \<in> set (matching job src h)"
      using \<open>x \<in> set (concat (map (matching job src) ?hs))\<close> hs by auto
    then show ?thesis using matching_hash [of x job h] by auto
  qed
  moreover have "set (matching job src h) \<subseteq> set (concat (map (matching job src) ?hs))" if "h \<in> {lo..?cur}" for h
    using that hs by auto
  ultimately show ?thesis
    using pre failed unfolding sound_outcome_def sequential_scan_def Let_def by simp
qed

end

interpretation live: filter_source "liveFetchFilter pf net" for pf net
proof
  show "liveFetchFilter pf net h \<noteq> Inr None" for h by (simp add: retry_outcome)
  show "liveFetchFilter pf net h = Inr (Some r) \<Longrightarrow> flt_height r = h \<and> is_hex64 (flt_hash r)" for h r
    unfolding retry_outcome using fetchFilterPair_record by blast
qed

section \<open>Properties\<close>

text \<open>
  The filter fetch makes at most three attempts and returns the record of the first that
  succeeds, provided that every attempt before it failed for a passing reason; a missing file, any
  other lasting status, or a sidecar for another height or without a usable hash ends it at once
  with an error, and it never answers that a height has no filter.
\<close>

theorem filter_fetch_outcome:
  "liveFetchFilter pf net h = Inr x \<longleftrightarrow>
     (\<exists>m < FILTER_FETCH_ATTEMPTS. \<exists>r. x = Some r \<and>
        fetchFilterPair pf h (fst (net h m)) (snd (net h m)) = Inr r \<and>
        (\<forall>j < m. \<exists>e. fetchFilterPair pf h (fst (net h j)) (snd (net h j)) = Inl (Transient e)))"
  by (rule retry_outcome)

text \<open>A network whose first attempt is always rejected and whose second serves the pair.\<close>

definition sample_platform :: platform where
  "sample_platform = \<lparr>inflate = (\<lambda>b. Some [b]), parse_date = (\<lambda>_. None), to_number = (\<lambda>_. NaN),
     json_text = (\<lambda>_. [])\<rparr>"

definition sample_sidecar :: "int \<Rightarrow> response" where
  "sample_sidecar h = \<lparr>r_status = 200, r_json = Some (JObj [(''block_height'', JNum (jsint h)),
     (''block_hash'', JStr (replicate 64 (CHR ''A'')))]), r_body = [], r_headers = Map.empty\<rparr>"

definition sample_net :: "int \<Rightarrow> nat \<Rightarrow> net_answer \<times> net_answer" where
  "sample_net h k = (if k = 0 then Inl ''Failed to fetch'' else Inr (sample_sidecar h), Inr (sample_sidecar h))"

lemma sample_pair:
  "fetchFilterPair sample_platform h (fst (sample_net h k)) (snd (sample_net h k)) =
     (if k = 0 then Inl (Transient ''Failed to fetch'')
      else Inr \<lparr>flt_height = h, flt_hash = replicate 64 (CHR ''a''), flt_bytes = []\<rparr>)"
proof -
  have "is_hash (replicate 64 (CHR ''A''))" "lower_char (CHR ''A'') = CHR ''a''" by code_simp+
  then show ?thesis
    by (simp add: sample_net_def fetchFilterPair_def sample_sidecar_def response_ok_def read_sidecar_def
        gunzip_concat sample_platform_def)
qed

lemma sample_fetch:
  "liveFetchFilter sample_platform sample_net h =
     Inr (Some \<lparr>flt_height = h, flt_hash = replicate 64 (CHR ''a''), flt_bytes = []\<rparr>)"
  unfolding retry_outcome sample_pair by (rule exI [of _ 1]) (simp add: FILTER_FETCH_ATTEMPTS_def)

theorem filter_fetch_outcome_witness:
  "liveFetchFilter sample_platform sample_net 103 =
     Inr (Some \<lparr>flt_height = 103, flt_hash = replicate 64 (CHR ''a''), flt_bytes = []\<rparr>)"
  unfolding filter_fetch_outcome sample_pair
  by (rule exI [of _ 1]) (simp add: FILTER_FETCH_ATTEMPTS_def)

text \<open>
  C29: a filter stage over the live source leaves a sound outcome whatever the network answers and
  however the answers interleave: every height up to the cursor was read, it stops short of the
  ceiling only right below a height whose fetch failed for good, and the blocks it hands on are in
  the order of the chain, not above the cursor, contain every match below it, and carry a hash of
  64 lower-case hexadecimal digits.
\<close>

theorem live_scan_is_sound:
  assumes "pool_reaches job (liveFetchFilter pf net) lo n p" and "all_returned p"
    and "lo \<le> j_tip job + 1"
  shows "sound_outcome job (liveFetchFilter pf net) lo (scan_outcome job lo p)"
  using live.scan [OF assms(1,2)] live.sequential_sound [OF assms(3)] by simp

theorem live_scan_is_sound_witness:
  "\<exists>p. pool_reaches sample_job (liveFetchFilter sample_platform sample_net) 103 1 p \<and>
     snd (snd (scan_outcome sample_job 103 p)) = [(103, replicate 64 (CHR ''a''))] \<and>
     sound_outcome sample_job (liveFetchFilter sample_platform sample_net) 103 (scan_outcome sample_job 103 p)"
proof -
  let ?src = "liveFetchFilter sample_platform sample_net"
  let ?p = "resume sample_job 0 103 (?src 103) (start_pool sample_job 103)"
  have start: "start_pool sample_job 103 = \<lparr>p_next = 104, p_workers = Some 103 # replicate 31 None,
     p_cache = Map.empty, p_hits = [], p_aborted = False, p_failure = None, p_read = 0, p_bytes = 0,
     p_thrown = None\<rparr>"
    by (simp add: start_pool_def FETCH_CONCURRENCY_def eval_nat_numeral fresh_pool_def start_worker_def
      claim_def)
  have reach: "pool_reaches sample_job ?src 103 1 ?p"
    using pool_reaches.step [OF pool_reaches.start pool_step.answered [of 0 "start_pool sample_job 103" 103]]
    by (simp add: start)
  have all: "all_returned ?p"
    by (simp add: start resume_def sample_fetch set_worker_def take_answer_def claim_def
        match_filter_def hexToBytes_def Let_def all_returned_def list.pred_set)
  have "snd (snd (scan_outcome sample_job 103 ?p)) = [(103, replicate 64 (CHR ''a''))]"
    unfolding live.scan [OF reach all]
    by (simp add: sequential_scan_def matching_def match_filter_def hexToBytes_def
        sample_fetch broken_def)
  then show ?thesis using live_scan_is_sound [OF reach all] reach by auto
qed

end
