(* ===== verification/Labels.thy ===== *)
theory Labels
  imports FilterFetch TransactionStore
begin

unbundle bit_operations_syntax

text \<open>
  The two labels that \<open>runSync\<close> derives for a transaction: the date of its block
  (\<open>isoDateFromUnix\<close> with the calendar of \<open>Date\<close>) and the best-effort address of an output script
  (\<open>scriptToAddressBestEffort\<close> with its Bech32 encoder).  A date is one the server stores; an address
  carries a checksum that the decoder of the address format accepts.
\<close>

section \<open>The calendar\<close>

definition days_in_year :: "nat \<Rightarrow> nat" where
  "days_in_year y = (if y mod 4 = 0 \<and> (y mod 100 \<noteq> 0 \<or> y mod 400 = 0) then 366 else 365)"

text \<open>The year with the day in it, counting from day \<open>n\<close> of year \<open>y\<close>.\<close>

function year_from :: "nat \<Rightarrow> nat \<Rightarrow> nat \<times> nat" where
  "year_from y n = (if n < days_in_year y then (y, n) else year_from (Suc y) (n - days_in_year y))"
  by pat_completeness auto
termination by (relation "measure snd") (auto simp: days_in_year_def)

declare year_from.simps [simp del]

fun month_from :: "nat \<Rightarrow> nat list \<Rightarrow> nat \<Rightarrow> nat \<times> nat" where
  "month_from y [] n = (12, n)"
| "month_from y (m # ms) n =
     (if n < days_in_month y m then (m, Suc n) else month_from y ms (n - days_in_month y m))"

definition civil_date :: "nat \<Rightarrow> nat \<times> nat \<times> nat" where
  "civil_date ts = (let (y, n) = year_from 1970 (ts div 86400) in (y, month_from y [1..<13] n))"

definition padStart :: "nat \<Rightarrow> string \<Rightarrow> string" where
  "padStart k s = replicate (k - length s) (CHR ''0'') @ s"

definition isoDateFromUnix :: "nat \<Rightarrow> string" where
  "isoDateFromUnix ts =
     (let (y, m, d) = civil_date ts
      in padStart 4 (nat_text y) @ ''-'' @ padStart 2 (nat_text m) @ ''-'' @ padStart 2 (nat_text d))"

text \<open>\<open>new Date(ts * 1000).toISOString()\<close>.\<close>

definition isoInstant :: "nat \<Rightarrow> string" where
  "isoInstant ts = isoDateFromUnix ts @ ''T'' @ padStart 2 (nat_text (ts mod 86400 div 3600)) @ '':''
     @ padStart 2 (nat_text (ts mod 3600 div 60)) @ '':'' @ padStart 2 (nat_text (ts mod 60)) @ ''.000Z''"

section \<open>Dates are well formed\<close>

lemma months_sum: "sum_list (map (days_in_month y) [1..<13]) = days_in_year y"
  by (simp add: days_in_month_def days_in_year_def upt_rec)

lemma month_from_valid:
  "n < sum_list (map (days_in_month y) ms) \<Longrightarrow> month_from y ms n = (m, d) \<Longrightarrow>
     m \<in> set ms \<and> 1 \<le> d \<and> d \<le> days_in_month y m"
  by (induction y ms n rule: month_from.induct) (auto split: if_splits)

lemma year_from_valid:
  "year_from y n = (y', n') \<Longrightarrow> y \<le> y' \<and> n' < days_in_year y' \<and> 365 * (y' - y) \<le> n"
proof (induction y n rule: year_from.induct)
  case (1 y n)
  show ?case
  proof (cases "n < days_in_year y")
    case True
    then show ?thesis using 1(2) by (simp add: year_from.simps [of y n])
  next
    case False
    then have "year_from (Suc y) (n - days_in_year y) = (y', n')"
      using 1(2) by (simp add: year_from.simps [of y n])
    from 1(1) [OF False this] False show ?thesis by (auto simp: days_in_year_def split: if_splits)
  qed
qed

lemma civil_date_valid:
  assumes "civil_date ts = (y, m, d)"
  shows "1970 \<le> y \<and> 365 * (y - 1970) \<le> ts div 86400 \<and> 1 \<le> m \<and> m \<le> 12 \<and> 1 \<le> d \<and> d \<le> days_in_month y m"
proof -
  obtain n where yn: "year_from 1970 (ts div 86400) = (y, n)" "month_from y [1..<13] n = (m, d)"
    using assms by (auto simp: civil_date_def split: prod.splits)
  note year = year_from_valid [OF yn(1)]
  have "m \<in> set [1..<13] \<and> 1 \<le> d \<and> d \<le> days_in_month y m"
    by (rule month_from_valid [OF _ yn(2)]) (use year in \<open>simp only: months_sum\<close>)
  then show ?thesis using year by auto
qed

lemma nat_text_digits: "list_all is_digit (nat_text n)"
proof (induction n rule: nat_text.induct)
  case (1 n)
  have dig: "is_digit (''0123456789'' ! k)" if "k < 10" for k
    using that by (auto simp: is_digit_def eval_nat_numeral less_Suc_eq)
  show ?case using 1 dig by (subst nat_text.simps) auto
qed

lemma digits_value_append: "digits_value (s @ [c]) = 10 * digits_value s + (of_char c - 48)"
  by simp

lemma digits_value_zeros: "digits_value (replicate k (CHR ''0'') @ s) = digits_value s"
  by (induction k) auto

declare digits_value.simps [simp del]

lemma digits_value_nat_text: "digits_value (nat_text n) = n"
proof (induction n rule: nat_text.induct)
  case (1 n)
  have dig: "of_char (''0123456789'' ! k) - 48 = k" if "k < 10" for k :: nat
    using that by (auto simp: eval_nat_numeral less_Suc_eq)
  show ?case
  proof (cases "n < 10")
    case True
    then show ?thesis
      using digits_value_append [of "[]"] dig by (subst nat_text.simps) (simp add: digits_value.simps)
  next
    case False
    then show ?thesis
      using 1 dig [of "n mod 10"] by (subst nat_text.simps) (simp add: digits_value_append)
  qed
qed

lemma length_nat_text: "n < 10 ^ Suc k \<Longrightarrow> length (nat_text n) \<le> Suc k"
proof (induction k arbitrary: n)
  case 0
  then show ?case by (subst nat_text.simps) simp
next
  case (Suc k)
  have "length (nat_text (n div 10)) \<le> Suc k" by (rule Suc.IH) (use Suc.prems in simp)
  then show ?case by (subst nat_text.simps) simp
qed

lemma padStart:
  assumes "n < 10 ^ w" and "0 < w"
  shows "length (padStart w (nat_text n)) = w" "list_all is_digit (padStart w (nat_text n))"
    "digits_value (padStart w (nat_text n)) = n"
proof -
  show "length (padStart w (nat_text n)) = w"
    using length_nat_text [of n "w - 1"] assms by (simp add: padStart_def)
  have "is_digit (CHR ''0'')" by (simp add: is_digit_def)
  then show "list_all is_digit (padStart w (nat_text n))"
    using nat_text_digits [of n] by (auto simp: padStart_def list_all_iff)
  show "digits_value (padStart w (nat_text n)) = n"
    by (simp add: padStart_def digits_value_zeros digits_value_nat_text)
qed

lemma dashed_date:
  assumes "list_all is_digit a" "list_all is_digit b" "list_all is_digit c"
    and "length a = 4" "length b = 2" "length c = 2"
  shows "is_iso_date (a @ ''-'' @ b @ ''-'' @ c)"
proof -
  obtain a1 a2 a3 a4 b1 b2 c1 c2 where "a = [a1, a2, a3, a4]" "b = [b1, b2]" "c = [c1, c2]"
    using assms(4-6) by (auto simp: length_Suc_conv eval_nat_numeral)
  then show ?thesis using assms(1-3) by (simp add: is_iso_date_def upt_rec)
qed

text \<open>The date of a block is one that the \<open>DATE\<close> column takes.\<close>

lemma isoDate_pg:
  assumes "ts < 2 ^ 32"
  shows "is_pg_date (isoDateFromUnix ts)"
proof -
  obtain y m d where c: "civil_date ts = (y, m, d)" by (metis surj_pair)
  note v = civil_date_valid [OF c]
  have "ts div 86400 \<le> 49710" using assms div_le_mono [of ts "2 ^ 32 - 1" 86400] by simp
  then have "y - 1970 \<le> 136" using v by linarith
  then have y: "y < 10 ^ 4" by simp
  have "days_in_month y m \<le> 31" by (simp add: days_in_month_def)
  then have md: "m < 10 ^ 2" "d < 10 ^ 2" using v by auto
  let ?y = "padStart 4 (nat_text y)" and ?m = "padStart 2 (nat_text m)" and ?d = "padStart 2 (nat_text d)"
  have iso: "isoDateFromUnix ts = ?y @ ''-'' @ ?m @ ''-'' @ ?d" by (simp add: isoDateFromUnix_def c)
  note p = padStart [OF y] padStart [OF md(1)] padStart [OF md(2)]
  have "is_iso_date (?y @ ''-'' @ ?m @ ''-'' @ ?d)"
    by (rule dashed_date) (use p in simp_all)
  moreover have "take 4 (?y @ ''-'' @ ?m @ ''-'' @ ?d) = ?y" "take 2 (drop 5 (?y @ ''-'' @ ?m @ ''-'' @ ?d)) = ?m"
      "drop 8 (?y @ ''-'' @ ?m @ ''-'' @ ?d) = ?d"
    using p by simp_all
  ultimately show ?thesis
    unfolding is_pg_date_def iso Let_def using p v by simp
qed

section \<open>The Bech32 encoder\<close>

text \<open>
  The bitwise operators of JavaScript work on 32-bit integers: \<open>>>>\<close> is \<open>drop_bit\<close> and \<open>>>\<close> is
  \<open>signed_drop_bit\<close> on words.
\<close>

definition GEN :: "32 word list" where
  "GEN = [0x3b6a57b2, 0x26508e6d, 0x1ea119fa, 0x3d4233dd, 0x2a1462b3]"

text \<open>The loop over the generators, and the loop over the values.\<close>

fun xor_generators :: "32 word \<Rightarrow> nat \<Rightarrow> 32 word list \<Rightarrow> 32 word \<Rightarrow> 32 word" where
  "xor_generators t i [] chk = chk"
| "xor_generators t i (g # gs) chk = xor_generators t (Suc i) gs (if bit t i then chk XOR g else chk)"

definition polymod_step :: "32 word \<Rightarrow> 32 word \<Rightarrow> 32 word" where
  "polymod_step chk v =
     xor_generators (drop_bit 25 chk) 0 GEN (push_bit 5 (chk AND 0x1ffffff) XOR v)"

definition bech32Polymod :: "32 word list \<Rightarrow> 32 word" where
  "bech32Polymod values = foldl polymod_step 1 values"

definition hrp_values :: "string \<Rightarrow> 32 word list" where
  "hrp_values hrp = map (\<lambda>c. of_nat (of_char c div 32)) hrp @ 0 # map (\<lambda>c. of_nat (of_char c mod 32)) hrp"

definition bech32Checksum :: "string \<Rightarrow> 32 word list \<Rightarrow> 32 word \<Rightarrow> 32 word list" where
  "bech32Checksum hrp data const =
     (let polymod = bech32Polymod (hrp_values hrp @ data @ [0, 0, 0, 0, 0, 0]) XOR const
      in map (\<lambda>i. signed_drop_bit (5 * (5 - i)) polymod AND 31) [0..<6])"

text \<open>
  \<open>convertBits\<close>: the accumulator keeps all its bits, as a 32-bit integer, and only the low ones
  of it are read.  The inner loop would not end for \<open>toBits = 0\<close>, which the code never passes.
\<close>

fun push_groups :: "32 word \<Rightarrow> nat \<Rightarrow> nat \<Rightarrow> nat \<times> 32 word list" where
  "push_groups acc to k =
     (if to = 0 \<or> k < to then (k, [])
      else (let (r, vs) = push_groups acc to (k - to)
            in (r, (signed_drop_bit (k - to) acc AND (push_bit to 1 - 1)) # vs)))"

declare push_groups.simps [simp del]

fun convert_loop :: "nat \<Rightarrow> nat \<Rightarrow> bytes \<Rightarrow> 32 word \<Rightarrow> nat \<Rightarrow> 32 word list \<times> 32 word \<times> nat" where
  "convert_loop frm to [] acc k = ([], acc, k)"
| "convert_loop frm to (v # vs) acc k =
     (let acc' = push_bit frm acc OR ucast v; (k', out) = push_groups acc' to (k + frm);
          (out', acc'', k'') = convert_loop frm to vs acc' k'
      in (out @ out', acc'', k''))"

definition convertBits :: "bytes \<Rightarrow> nat \<Rightarrow> nat \<Rightarrow> bool \<Rightarrow> 32 word list" where
  "convertBits inp frm to pad =
     (let (out, acc, k) = convert_loop frm to inp 0 0
      in if pad \<and> 0 < k then out @ [push_bit (to - k) acc AND (push_bit to 1 - 1)] else out)"

definition ALPHABET :: string where "ALPHABET = ''qpzry9x8gf2tvdw0s3jn54khce6mua7l''"

definition checksum_const :: "nat \<Rightarrow> 32 word" where
  "checksum_const witnessVersion = (if witnessVersion = 0 then 1 else 0x2bc830a3)"

definition address_data :: "nat \<Rightarrow> bytes \<Rightarrow> 32 word list" where
  "address_data witnessVersion program = of_nat witnessVersion # convertBits program 8 5 True"

definition encodeBech32 :: "string \<Rightarrow> nat \<Rightarrow> bytes \<Rightarrow> string" where
  "encodeBech32 hrp witnessVersion program =
     (let data = address_data witnessVersion program;
          checksum = bech32Checksum hrp data (checksum_const witnessVersion)
      in hrp @ ''1'' @ map (\<lambda>v. ALPHABET ! unat v) (data @ checksum))"

definition scriptToAddressBestEffort :: "bytes \<Rightarrow> string" where
  "scriptToAddressBestEffort script =
     (if length script = 22 \<and> script ! 0 = 0x00 \<and> script ! 1 = 0x14 then encodeBech32 ''bc'' 0 (drop 2 script)
      else if length script = 34 \<and> script ! 0 = 0x00 \<and> script ! 1 = 0x20 then encodeBech32 ''bc'' 0 (drop 2 script)
      else if length script = 34 \<and> script ! 0 = 0x51 \<and> script ! 1 = 0x20 then encodeBech32 ''bc'' 1 (drop 2 script)
      else '''')"

section \<open>The checksum is linear\<close>

lemma xor_generators_xor:
  "xor_generators (s XOR t) i gs (a XOR b) = xor_generators s i gs a XOR xor_generators t i gs b"
proof (induction gs arbitrary: i a b)
  case (Cons g gs)
  have "(if bit (s XOR t) i then (a XOR b) XOR g else a XOR b) =
      (if bit s i then a XOR g else a) XOR (if bit t i then b XOR g else b)"
    by (simp add: bit_xor_iff ac_simps)
  then show ?case by (simp only: xor_generators.simps Cons)
qed simp

lemma polymod_step_xor: "polymod_step (a XOR b) (v XOR w) = polymod_step a v XOR polymod_step b w"
proof -
  have "push_bit 5 ((a XOR b) AND 0x1ffffff) XOR (v XOR w) =
      (push_bit 5 (a AND 0x1ffffff) XOR v) XOR (push_bit 5 (b AND 0x1ffffff) XOR w)"
    by (simp add: bit.conj_xor_distrib2 push_bit_xor ac_simps)
  then show ?thesis unfolding polymod_step_def drop_bit_xor by (simp only: xor_generators_xor)
qed

lemma polymod_xor:
  "length xs = length ys \<Longrightarrow>
     foldl polymod_step (a XOR b) (map2 (XOR) xs ys) = foldl polymod_step a xs XOR foldl polymod_step b ys"
  by (induction xs ys arbitrary: a b rule: list_induct2) (simp_all add: polymod_step_xor)

section \<open>The checksum is accepted\<close>

lemma high_bits_xor_generators:
  "drop_bit 30 chk = 0 \<Longrightarrow> list_all (\<lambda>g. drop_bit 30 g = 0) gs \<Longrightarrow> drop_bit 30 (xor_generators t i gs chk) = 0"
  by (induction gs arbitrary: i chk) (simp_all add: drop_bit_xor)

lemma high_bits_step:
  assumes "drop_bit 5 v = 0"
  shows "drop_bit 30 (polymod_step chk v) = 0"
proof -
  have "drop_bit 30 (push_bit 5 (chk AND 0x1ffffff)) = 0"
  proof (rule bit_word_eqI)
    fix n assume "n < LENGTH(32)"
    have "(0x1ffffff :: 32 word) = mask 25" by (simp add: mask_eq_exp_minus_1)
    then show "bit (drop_bit 30 (push_bit 5 (chk AND 0x1ffffff))) n = bit (0 :: 32 word) n"
      by (simp add: bit_simps)
  qed
  moreover have "drop_bit 30 v = 0"
  proof -
    have "drop_bit 25 (drop_bit 5 v) = 0" using assms by simp
    then show ?thesis by simp
  qed
  moreover have "list_all (\<lambda>g. drop_bit 30 g = 0) GEN" by code_simp
  ultimately show ?thesis
    unfolding polymod_step_def by (intro high_bits_xor_generators) (simp_all add: drop_bit_xor)
qed

lemma step_append_group:
  assumes "drop_bit 30 q = 0"
  shows "polymod_step (drop_bit 5 q) (q AND 31) = q"
proof -
  have "drop_bit 25 (drop_bit 5 q) = 0" using assms by simp
  moreover have "xor_generators 0 i gs c = c" for i gs c
    by (induction gs arbitrary: i c) simp_all
  moreover have "push_bit 5 (drop_bit 5 q AND 0x1ffffff) XOR (q AND 31) = q"
  proof (rule bit_word_eqI)
    fix n assume n: "n < LENGTH(32)"
    have mask: "(0x1ffffff :: 32 word) = mask 25" "(31 :: 32 word) = mask 5"
      by (simp_all add: mask_eq_exp_minus_1)
    have "bit (drop_bit 30 q) (n - 30) = False" unfolding assms by simp
    then have high: "bit q n \<Longrightarrow> n < 30" by (cases "30 \<le> n") (simp_all add: bit_simps)
    show "bit (push_bit 5 (drop_bit 5 q AND 0x1ffffff) XOR (q AND 31)) n = bit q n"
      unfolding mask using n high
      by (cases "n < 5") (simp_all add: bit_push_bit_iff bit_and_iff bit_xor_iff bit_mask_iff bit_drop_bit_eq, linarith)
  qed
  ultimately show ?thesis unfolding polymod_step_def by simp
qed

lemma group_shift:
  "k \<le> 25 \<Longrightarrow> signed_drop_bit k (p :: 32 word) AND 31 = drop_bit k p AND 31"
proof (rule bit_word_eqI)
  fix n assume k: "k \<le> 25" and n: "n < LENGTH(32)"
  have mask: "(31 :: 32 word) = mask 5" by (simp add: mask_eq_exp_minus_1)
  show "bit (signed_drop_bit k p AND 31) n = bit (drop_bit k p AND 31) n"
    unfolding mask using k n by (auto simp: bit_simps)
qed

text \<open>The six groups rebuild the value they were cut from.\<close>

lemma groups_rebuild:
  assumes "drop_bit 30 p = 0"
  shows "foldl polymod_step 0 (map (\<lambda>i. signed_drop_bit (5 * (5 - i)) p AND 31) [0..<6]) = p"
proof -
  have step: "polymod_step (drop_bit (k + 5) p) (drop_bit k p AND 31) = drop_bit k p" for k
  proof -
    have "drop_bit 30 (drop_bit k p) = drop_bit k (drop_bit 30 p)" by (simp add: ac_simps)
    then show ?thesis
      using step_append_group [of "drop_bit k p"] assms by (simp add: add.commute)
  qed
  have "drop_bit 30 p = drop_bit (25 + 5) p" by simp
  then show ?thesis
    using assms step [of 25] step [of 20] step [of 15] step [of 10] step [of 5] step [of 0]
    by (simp add: upt_rec group_shift)
qed

text \<open>What a decoder checks: the polymod of the whole is the constant of the encoding.\<close>

lemma checksum_accepted:
  assumes "drop_bit 30 const = 0"
  shows "bech32Polymod (hrp_values hrp @ data @ bech32Checksum hrp data const) = const"
proof -
  let ?zeros = "[0, 0, 0, 0, 0, 0] :: 32 word list"
  let ?chk = "foldl polymod_step 1 (hrp_values hrp @ data)"
  let ?p = "bech32Polymod (hrp_values hrp @ data @ ?zeros) XOR const"
  let ?groups = "bech32Checksum hrp data const"
  have z: "bech32Polymod (hrp_values hrp @ data @ ?zeros) = foldl polymod_step ?chk ?zeros"
    by (simp add: bech32Polymod_def)
  have "foldl polymod_step ?chk ?zeros = polymod_step (foldl polymod_step ?chk (replicate 5 0)) 0"
    by (simp add: numeral_eq_Suc)
  then have p: "drop_bit 30 ?p = 0"
    unfolding z using assms by (simp add: drop_bit_xor high_bits_step)
  have g: "foldl polymod_step 0 ?groups = ?p"
    using groups_rebuild [OF p] by (simp add: bech32Checksum_def Let_def)
  have "length ?groups = 6" by (simp add: bech32Checksum_def Let_def)
  then have "map2 (XOR) ?zeros ?groups = ?groups"
    by (simp add: length_Suc_conv eval_nat_numeral) (auto)
  then have "foldl polymod_step ?chk ?groups = foldl polymod_step ?chk ?zeros XOR foldl polymod_step 0 ?groups"
    using polymod_xor [of ?zeros ?groups ?chk 0] \<open>length ?groups = 6\<close> by simp
  then show ?thesis unfolding g z by (simp add: bech32Polymod_def flip: xor.assoc)
qed

section \<open>Regrouping keeps the bits\<close>

text \<open>The \<open>k\<close> low bits of a word, the highest first.\<close>

definition bits_of :: "nat \<Rightarrow> 'a :: len word \<Rightarrow> bool list" where
  "bits_of k v = rev (map (bit v) [0..<k])"

lemma bits_of_add: "bits_of (a + b) v = bits_of a (drop_bit b v) @ bits_of b v"
proof -
  have "[b..<b + a] = map (\<lambda>i. i + b) [0..<a]" by (simp only: map_add_upt add.commute [of b a])
  then have "map (bit v) [b..<b + a] = map (\<lambda>i. bit v (i + b)) [0..<a]" by (simp add: comp_def)
  also have "\<dots> = map (bit (drop_bit b v)) [0..<a]"
    unfolding bit_drop_bit_eq comp_def by (rule map_cong [OF refl]) (simp only: add.commute)
  finally have "map (bit v) [b..<b + a] = map (bit (drop_bit b v)) [0..<a]" .
  moreover have "[0..<a + b] = [0..<b] @ [b..<b + a]" using upt_add_eq_append [of 0 b a] by (simp only: add.commute [of a b])
  ultimately show ?thesis by (simp add: bits_of_def)
qed

lemma bits_of_cong: "(\<And>i. i < k \<Longrightarrow> bit v i = bit w i) \<Longrightarrow> bits_of k v = bits_of k w"
  by (simp add: bits_of_def)

lemma bits_of_mask5: "bits_of 5 (v AND 31 :: 32 word) = bits_of 5 v"
proof (rule bits_of_cong)
  have mask: "(31 :: 32 word) = mask 5" by (simp add: mask_eq_exp_minus_1)
  show "i < 5 \<Longrightarrow> bit (v AND 31) i = bit v i" for i unfolding mask by (simp add: bit_simps)
qed

lemma push_groups_bits:
  "k \<le> 30 \<Longrightarrow> push_groups acc 5 k = (r, vs) \<Longrightarrow>
     r < 5 \<and> concat (map (bits_of 5) vs) @ bits_of r acc = bits_of k acc"
proof (induction k arbitrary: vs rule: less_induct)
  case (less k)
  show ?case
  proof (cases "k < 5")
    case True
    then show ?thesis using less.prems(2) by (simp add: push_groups.simps [of acc 5 k])
  next
    case False
    then obtain vs' where vs: "push_groups acc 5 (k - 5) = (r, vs')"
        "vs = (signed_drop_bit (k - 5) acc AND 31) # vs'"
      using less.prems(2) by (auto simp: push_groups.simps [of acc 5 k] split: prod.splits)
    have "r < 5 \<and> concat (map (bits_of 5) vs') @ bits_of r acc = bits_of (k - 5) acc"
      by (rule less.IH [OF _ _ vs(1)]) (use False less.prems(1) in auto)
    moreover have "bits_of k acc = bits_of 5 (drop_bit (k - 5) acc) @ bits_of (k - 5) acc"
      using bits_of_add [of 5 "k - 5" acc] False by simp
    moreover have "bits_of 5 (signed_drop_bit (k - 5) acc AND 31) = bits_of 5 (drop_bit (k - 5) acc)"
      using less.prems(1) by (simp add: group_shift bits_of_mask5)
    ultimately show ?thesis by (simp add: vs(2))
  qed
qed

lemma push_byte_bits:
  fixes v :: "8 word"
  assumes "k < 5"
  shows "bits_of (k + 8) (push_bit 8 acc OR ucast v :: 32 word) = bits_of k acc @ bits_of 8 v"
proof -
  have "bits_of k (drop_bit 8 (push_bit 8 acc OR ucast v) :: 32 word) = bits_of k acc"
    by (rule bits_of_cong) (use assms in \<open>auto simp: bit_simps dest: bit_imp_le_length\<close>)
  moreover have "bits_of 8 (push_bit 8 acc OR ucast v :: 32 word) = bits_of 8 v"
    unfolding bits_of_def by (intro arg_cong [where f = rev] map_cong) (auto simp: bit_simps)
  ultimately show ?thesis by (simp add: bits_of_add)
qed

lemma convert_loop_bits:
  "k < 5 \<Longrightarrow> convert_loop 8 5 vs acc k = (out, acc', k') \<Longrightarrow>
     k' < 5 \<and> concat (map (bits_of 5) out) @ bits_of k' acc' = bits_of k acc @ concat (map (bits_of 8) vs)"
proof (induction vs arbitrary: acc k out)
  case (Cons v vs)
  let ?acc = "push_bit 8 acc OR ucast v"
  obtain r gs out' where g: "push_groups ?acc 5 (k + 8) = (r, gs)"
      "convert_loop 8 5 vs ?acc r = (out', acc', k')" "out = gs @ out'"
    using Cons.prems(2) by (auto simp: Let_def split: prod.splits)
  have "r < 5 \<and> concat (map (bits_of 5) gs) @ bits_of r ?acc = bits_of (k + 8) ?acc"
    by (rule push_groups_bits [OF _ g(1)]) (use Cons.prems(1) in simp)
  then show ?case
    using Cons.IH [OF _ g(2)] push_byte_bits [OF Cons.prems(1), of acc v] g(3) by auto
qed simp

text \<open>The program in groups of five bits is the program, with fewer than five zero bits behind it.\<close>

lemma convertBits_bits:
  "\<exists>pad < 5. concat (map (bits_of 5) (convertBits inp 8 5 True)) =
     concat (map (bits_of 8) inp) @ replicate pad False"
proof -
  obtain out acc k where c: "convert_loop 8 5 inp 0 0 = (out, acc, k)" by (metis surj_pair)
  have l: "k < 5" "concat (map (bits_of 5) out) @ bits_of k acc = concat (map (bits_of 8) inp)"
    using convert_loop_bits [OF _ c] by (simp_all add: bits_of_def)
  show ?thesis
  proof (cases "k = 0")
    case True
    then show ?thesis using l(2) by (intro exI [of _ 0]) (simp add: convertBits_def c bits_of_def)
  next
    case False
    have "bits_of 5 (push_bit (5 - k) acc AND 31) = bits_of (k + (5 - k)) (push_bit (5 - k) acc)"
      using l(1) by (simp add: bits_of_mask5)
    also have "\<dots> = bits_of k (drop_bit (5 - k) (push_bit (5 - k) acc)) @ bits_of (5 - k) (push_bit (5 - k) acc)"
      by (rule bits_of_add)
    also have "bits_of k (drop_bit (5 - k) (push_bit (5 - k) acc)) = bits_of k acc"
      by (rule bits_of_cong) (use l(1) in \<open>auto simp: bit_simps dest: bit_imp_le_length\<close>)
    also have "bits_of (5 - k) (push_bit (5 - k) acc) = replicate (5 - k) False"
      by (rule nth_equalityI) (auto simp: bits_of_def bit_simps rev_nth)
    finally show ?thesis
      using l False by (intro exI [of _ "5 - k"]) (simp add: convertBits_def c flip: l(2))
  qed
qed

section \<open>Properties\<close>

text \<open>Every group is a digit of the alphabet.\<close>

lemma and_31_small: "w AND 31 < (32 :: 32 word)"
  using word_and_le1 [of w 31] by (simp add: le_less_trans)

lemma push_groups_small: "u \<in> set (snd (push_groups a 5 n)) \<Longrightarrow> u < 32"
proof (induction n rule: less_induct)
  case (less n)
  show ?case
  proof (cases "n < 5")
    case True
    then show ?thesis using less.prems by (simp add: push_groups.simps [of a 5 n])
  next
    case False
    then have "u = signed_drop_bit (n - 5) a AND 31 \<or> u \<in> set (snd (push_groups a 5 (n - 5)))"
      using less.prems by (auto simp: push_groups.simps [of a 5 n] split: prod.splits)
    then show ?thesis
    proof
      assume "u \<in> set (snd (push_groups a 5 (n - 5)))"
      then show ?thesis by (rule less.IH [rotated]) (use False in simp)
    qed (simp only: and_31_small)
  qed
qed

lemma convert_loop_small: "v \<in> set (fst (convert_loop 8 5 bs acc k)) \<Longrightarrow> v < 32"
proof (induction bs arbitrary: acc k)
  case (Cons b bs)
  obtain r gs where g: "push_groups (push_bit 8 acc OR ucast b) 5 (k + 8) = (r, gs)" by fastforce
  obtain out a n where c: "convert_loop 8 5 bs (push_bit 8 acc OR ucast b) r = (out, a, n)"
    by (metis surj_pair)
  have "v \<in> set gs \<or> v \<in> set out" using Cons.prems by (simp add: g c)
  then show ?case
    using push_groups_small [of v "push_bit 8 acc OR ucast b" "k + 8"] Cons.IH [of "push_bit 8 acc OR ucast b" r]
    by (auto simp: g c)
qed simp

lemma convertBits_small: "list_all (\<lambda>v. v < 32) (convertBits bs 8 5 True)"
proof -
  obtain out a k where c: "convert_loop 8 5 bs 0 0 = (out, a, k)" by (metis surj_pair)
  then show ?thesis
    using convert_loop_small [of _ bs 0 0] by (auto simp: convertBits_def list_all_iff and_31_small)
qed

text \<open>
  The recipient label of an output is empty or a SegWit address that a decoder accepts: after
  the prefix come values below 32 in the alphabet of the format, whose checksum is that of the
  witness version, and between the version and the checksum stand the bits of the script behind
  its two opcodes, padded with fewer than five zero bits.
\<close>

theorem address_label_decodes:
  assumes "scriptToAddressBestEffort script \<noteq> []"
  shows "\<exists>ver data check pad. scriptToAddressBestEffort script =
       ''bc1'' @ map (\<lambda>v. ALPHABET ! unat v) (of_nat ver # data @ check) \<and>
     list_all (\<lambda>v. v < 32) (of_nat ver # data @ check) \<and> length check = 6 \<and>
     bech32Polymod (hrp_values ''bc'' @ of_nat ver # data @ check) = checksum_const ver \<and>
     concat (map (bits_of 5) data) = concat (map (bits_of 8) (drop 2 script)) @ replicate pad False \<and> pad < 5"
proof -
  obtain ver where v: "scriptToAddressBestEffort script = encodeBech32 ''bc'' ver (drop 2 script)" "ver < 2"
    using assms by (fastforce simp: scriptToAddressBestEffort_def split: if_splits)
  let ?data = "convertBits (drop 2 script) 8 5 True"
  let ?check = "bech32Checksum ''bc'' (of_nat ver # ?data) (checksum_const ver)"
  obtain pad where pad: "pad < 5"
      "concat (map (bits_of 5) ?data) = concat (map (bits_of 8) (drop 2 script)) @ replicate pad False"
    using convertBits_bits by blast
  have "list_all (\<lambda>v. v < 32) ?data" by (rule convertBits_small)
  moreover have "list_all (\<lambda>v. v < 32) ?check"
    by (simp add: bech32Checksum_def Let_def list_all_iff and_31_small)
  moreover have "(of_nat ver :: 32 word) < 32" using v(2) by (cases ver) auto
  moreover have "drop_bit 30 (checksum_const ver) = 0"
    unfolding checksum_const_def by (cases "ver = 0"; simp only: if_True if_False; code_simp)
  then have "bech32Polymod (hrp_values ''bc'' @ (of_nat ver # ?data) @ ?check) = checksum_const ver"
    by (rule checksum_accepted)
  moreover have "length ?check = 6" by (simp add: bech32Checksum_def Let_def)
  ultimately show ?thesis
    using v(1) pad
    by (intro exI [of _ ver] exI [of _ ?data] exI [of _ ?check] exI [of _ pad])
      (simp add: encodeBech32_def address_data_def Let_def)
qed

theorem address_label_decodes_witness:
  "\<exists>ver data check. scriptToAddressBestEffort (0x00 # 0x14 # replicate 20 7) =
       ''bc1'' @ map (\<lambda>v. ALPHABET ! unat v) (of_nat ver # data @ check) \<and>
     bech32Polymod (hrp_values ''bc'' @ of_nat ver # data @ check) = checksum_const ver \<and> length check = 6"
proof -
  have "scriptToAddressBestEffort (0x00 # 0x14 # replicate 20 7) \<noteq> []"
    by (simp add: scriptToAddressBestEffort_def encodeBech32_def Let_def)
  from address_label_decodes [OF this] show ?thesis by blast
qed

text \<open>
  The date label of every block time that fits the header is a calendar date in the form
  that the request check tests and the \<open>DATE\<close> column takes.
\<close>

theorem block_date_is_storable:
  assumes "parseBlockHeader sha raw = Inr header"
  shows "is_pg_date (isoDateFromUnix (timestamp header))"
proof -
  have "unat (w :: 32 word) < 2 ^ 32" for w using unsigned_less [of w] by simp
  then have "timestamp header < 2 ^ 32"
    using assms by (auto simp: parseBlockHeader_def Let_def split: if_splits sum.splits)
  then show ?thesis by (rule isoDate_pg)
qed

theorem block_date_is_storable_witness:
  "\<exists>header. parseBlockHeader (\<lambda>b. b) (replicate 81 0) = Inr header \<and>
     is_pg_date (isoDateFromUnix (timestamp header))"
proof -
  obtain header where "parseBlockHeader (\<lambda>b. b) (replicate 81 0) = Inr header"
    by (simp add: parseBlockHeader_def Let_def readVarInt_def bindp_def retp_def readBytes_def)
  then show ?thesis using block_date_is_storable by blast
qed

end
