(* ===== verification/UtxoWalk.thy ===== *)
theory UtxoWalk
  imports Labels
begin

text \<open>
  The block stage of \<open>runSync\<close>: one walk over the transactions of the matched blocks, in the order
  of the chain, that consumes the wallet's outputs where they are spent, records new ones, and
  accumulates per transaction what left and what arrived.  The initial walk knows the first
  window of addresses; a walk of an extension pass looks for the addresses of that pass only and
  adds to what earlier walks found.  The accounting is exact: what the accumulator took in, less
  what it gave out, is the change in the value of the wallet's outputs.
\<close>

section \<open>State\<close>

record derived_addr =
  d_chain :: nat
  d_index :: int
  d_script :: bytes
  d_address :: string

record utxo =
  ut_value :: int
  ut_address :: string

type_synonym utxo_map = "(string \<times> utxo) list"

record tx_acc =
  ac_height :: int
  ac_block :: string
  ac_date :: string
  ac_instant :: string
  ac_vin :: nat
  ac_vout :: nat
  ac_spent :: int
  ac_received :: int
  ac_from :: string
  ac_to :: string

text \<open>\<open>maxMatchedIndexPerChain\<close> is a pair; the walk also counts the bytes of the blocks it read.\<close>

record walk =
  wk_utxos :: utxo_map
  wk_accs :: "(string \<times> tx_acc) list"
  wk_max :: "int \<times> int"
  wk_bytes :: nat

definition int_text :: "int \<Rightarrow> string" where
  "int_text i = (if i < 0 then ''-'' @ nat_text (nat (- i)) else nat_text (nat i))"

definition utxoKey :: "string \<Rightarrow> int \<Rightarrow> string" where
  "utxoKey tid i = tid @ '':'' @ int_text i"

section \<open>One transaction\<close>

fun spend_inputs :: "tx_input list \<Rightarrow> int \<times> utxo_map \<Rightarrow> int \<times> utxo_map" where
  "spend_inputs [] st = st"
| "spend_inputs (inp # inps) (spent, m) =
     (let key = utxoKey (prevTxid inp) (voutIdx inp) in
      case map_of m key of
        None \<Rightarrow> spend_inputs inps (spent, m)
      | Some u \<Rightarrow> spend_inputs inps (spent + ut_value u, AList.delete key m))"

record receipt =
  rc_amount :: int
  rc_address :: string
  rc_new :: "(nat \<times> utxo) list"
  rc_max :: "int \<times> int"

definition ours :: "derived_addr list \<Rightarrow> bytes \<Rightarrow> derived_addr option" where
  "ours ds script = List.find (\<lambda>d. bytesEqual script (d_script d)) ds"

definition raise_max :: "derived_addr \<Rightarrow> int \<times> int \<Rightarrow> int \<times> int" where
  "raise_max d mx = (if d_chain d = 0 then (max (fst mx) (d_index d), snd mx)
     else (fst mx, max (snd mx) (d_index d)))"

text \<open>The loop over the outputs from index \<open>oi\<close> on.\<close>

fun receive_outputs :: "derived_addr list \<Rightarrow> nat \<Rightarrow> tx_output list \<Rightarrow> receipt \<Rightarrow> receipt" where
  "receive_outputs ds oi [] r = r"
| "receive_outputs ds oi (out # outs) r =
     receive_outputs ds (Suc oi) outs
       (case ours ds (out_script out) of
          None \<Rightarrow> r
        | Some d \<Rightarrow> \<lparr>rc_amount = rc_amount r + int (out_value out),
            rc_address = (if rc_address r = [] then d_address d else rc_address r),
            rc_new = rc_new r @ [(oi, \<lparr>ut_value = int (out_value out), ut_address = d_address d\<rparr>)],
            rc_max = raise_max d (rc_max r)\<rparr>)"

fun recipient :: "derived_addr list \<Rightarrow> tx_output list \<Rightarrow> string" where
  "recipient ds [] = []"
| "recipient ds (out # outs) =
     (if ours ds (out_script out) \<noteq> None then recipient ds outs
      else (let a = scriptToAddressBestEffort (out_script out) in
            if a \<noteq> [] then a else recipient ds outs))"

definition add_utxos :: "string \<Rightarrow> (nat \<times> utxo) list \<Rightarrow> utxo_map \<Rightarrow> utxo_map" where
  "add_utxos tid news m = foldl (\<lambda>m (i, u). AList.update (utxoKey tid (int i)) u m) m news"

text \<open>What the walk knows of the block: its height, the hash it was asked by, and its time.\<close>

record block_info =
  bi_height :: int
  bi_hash :: string
  bi_time :: nat

definition fresh_acc :: "block_info \<Rightarrow> parsed_tx \<Rightarrow> int \<Rightarrow> receipt \<Rightarrow> string \<Rightarrow> tx_acc" where
  "fresh_acc b tx spent r rcpt = \<lparr>ac_height = bi_height b, ac_block = bi_hash b,
     ac_date = isoDateFromUnix (bi_time b), ac_instant = isoInstant (bi_time b),
     ac_vin = vinCount tx, ac_vout = voutCount tx, ac_spent = spent, ac_received = rc_amount r,
     ac_from = rc_address r, ac_to = rcpt\<rparr>"

definition no_receipt :: "walk \<Rightarrow> receipt" where
  "no_receipt w = \<lparr>rc_amount = 0, rc_address = [], rc_new = [], rc_max = wk_max w\<rparr>"

text \<open>The initial walk: the entry of a transaction is written, whatever stood there.\<close>

definition initial_tx :: "derived_addr list \<Rightarrow> block_info \<Rightarrow> walk \<Rightarrow> parsed_tx \<Rightarrow> walk" where
  "initial_tx derived b w tx =
     (let (spent, m) = spend_inputs (inputs tx) (0, wk_utxos w);
          r = receive_outputs derived 0 (outputs tx) (no_receipt w);
          w' = w\<lparr>wk_utxos := m, wk_max := rc_max r\<rparr>
      in if spent > 0 \<or> rc_new r \<noteq> []
         then w'\<lparr>wk_accs := AList.update (txid tx)
                (fresh_acc b tx spent r (if spent > 0 then recipient derived (outputs tx) else []))
                (wk_accs w'),
              wk_utxos := add_utxos (txid tx) (rc_new r) m\<rparr>
         else w')"

text \<open>An extension walk: \<open>passNew\<close> are the addresses of the pass, \<open>derived\<close> all so far.\<close>

definition merge_acc :: "derived_addr list \<Rightarrow> parsed_tx \<Rightarrow> int \<Rightarrow> receipt \<Rightarrow> tx_acc \<Rightarrow> tx_acc" where
  "merge_acc derived tx spent r a = a\<lparr>ac_spent := ac_spent a + spent,
     ac_received := ac_received a + rc_amount r,
     ac_from := (if ac_from a = [] then rc_address r else ac_from a),
     ac_to := (if ac_to a = [] \<and> spent > 0 then recipient derived (outputs tx) else ac_to a)\<rparr>"

definition extension_tx ::
    "derived_addr list \<Rightarrow> derived_addr list \<Rightarrow> block_info \<Rightarrow> walk \<Rightarrow> parsed_tx \<Rightarrow> walk" where
  "extension_tx passNew derived b w tx =
     (let (spent, m) = spend_inputs (inputs tx) (0, wk_utxos w);
          r = receive_outputs passNew 0 (outputs tx) (no_receipt w);
          accs = (if spent > 0 \<or> rc_new r \<noteq> [] then
            (case map_of (wk_accs w) (txid tx) of
               Some a \<Rightarrow> AList.update (txid tx) (merge_acc derived tx spent r a) (wk_accs w)
             | None \<Rightarrow> AList.update (txid tx)
                 (fresh_acc b tx spent r (if spent > 0 then recipient derived (outputs tx) else []))
                 (wk_accs w))
            else wk_accs w)
      in w\<lparr>wk_max := rc_max r, wk_accs := accs, wk_utxos := add_utxos (txid tx) (rc_new r) m\<rparr>)"

section \<open>The blocks\<close>

datatype sync_error =
  BlockFetch string
| BlockParse parse_error

text \<open>
  The blocks in order: fetch, header, hash check, transactions.  A throw inside the transaction
  list leaves no trace of the block, because it ends the whole run; the look-ahead of eight
  fetches changes only when a block is asked for.
\<close>

definition open_block ::
    "(bytes \<Rightarrow> bytes) \<Rightarrow> (string \<Rightarrow> string + block_record) \<Rightarrow> hit \<Rightarrow> sync_error + block_info \<times> nat \<times> parsed_tx list" where
  "open_block sha fetch hit =
     (case fetch (snd hit) of
        Inl e \<Rightarrow> Inl (BlockFetch e)
      | Inr blk \<Rightarrow>
          (let raw = blk_raw blk in
           case parseBlockHeader sha raw of
             Inl e \<Rightarrow> Inl (BlockParse e)
           | Inr header \<Rightarrow>
               (case assertBlockContentMatchesHash header (snd hit) (fst hit) of
                  Inl e \<Rightarrow> Inl (BlockParse e)
                | Inr _ \<Rightarrow>
                    (case parse_block_txs sha raw header of
                       Inl e \<Rightarrow> Inl (BlockParse e)
                     | Inr ts \<Rightarrow>
                         Inr (\<lparr>bi_height = fst hit, bi_hash = snd hit, bi_time = timestamp header\<rparr>,
                              length raw, ts)))))"

fun walk_blocks ::
    "(block_info \<Rightarrow> walk \<Rightarrow> parsed_tx \<Rightarrow> walk) \<Rightarrow> (hit \<Rightarrow> sync_error + block_info \<times> nat \<times> parsed_tx list) \<Rightarrow>
       hit list \<Rightarrow> walk \<Rightarrow> sync_error + walk" where
  "walk_blocks step opened [] w = Inr w"
| "walk_blocks step opened (h # hs) w =
     (case opened h of
        Inl e \<Rightarrow> Inl e
      | Inr (b, n, ts) \<Rightarrow> walk_blocks step opened hs (foldl (step b) (w\<lparr>wk_bytes := wk_bytes w + n\<rparr>) ts))"

section \<open>Values\<close>

text \<open>The sum of a quantity over the values of an association list.\<close>

definition asum :: "('a \<Rightarrow> int) \<Rightarrow> (string \<times> 'a) list \<Rightarrow> int" where
  "asum f m = sum_list (map (f \<circ> snd) m)"

lemma asum_simps [simp]: "asum f [] = 0" "asum f (x # m) = f (snd x) + asum f m"
  by (simp_all add: asum_def)

lemma asum_update_fresh: "map_of m k = None \<Longrightarrow> asum f (AList.update k v m) = asum f m + f v"
  by (induction m) (auto split: if_splits)

lemma asum_update:
  "distinct (map fst m) \<Longrightarrow> map_of m k = Some u \<Longrightarrow> asum f (AList.update k v m) = asum f m - f u + f v"
  by (induction m) (auto split: if_splits)

lemma delete_fresh: "map_of m k = None \<Longrightarrow> AList.delete k m = m"
  by (metis delete_id map_of_eq_None_iff)

lemma asum_delete:
  "distinct (map fst m) \<Longrightarrow> map_of m k = Some u \<Longrightarrow> asum f (AList.delete k m) = asum f m - f u"
proof (induction m)
  case (Cons x m)
  then show ?case
    by (cases "fst x = k") (auto simp: AList.delete_simps delete_fresh map_of_eq_None_iff)
qed simp

definition wf_utxos :: "utxo_map \<Rightarrow> bool" where
  "wf_utxos m \<longleftrightarrow> distinct (map fst m) \<and> (\<forall>x \<in> set m. 0 \<le> ut_value (snd x))"

abbreviation total :: "utxo_map \<Rightarrow> int" where
  "total m \<equiv> asum ut_value m"

definition net :: "tx_acc \<Rightarrow> int" where
  "net a = ac_received a - ac_spent a"

section \<open>Keys\<close>

lemma nat_text_inject: "nat_text m = nat_text n \<longleftrightarrow> m = n"
  by (metis digits_value_nat_text)

lemma utxoKey_index: "utxoKey t (int i) = utxoKey t (int k) \<longleftrightarrow> i = k"
  by (simp add: utxoKey_def int_text_def nat_text_inject)

section \<open>One transaction keeps the balance\<close>

lemma spend_inputs_balance:
  "spend_inputs inps (s, m) = (s', m') \<Longrightarrow> wf_utxos m \<Longrightarrow>
     wf_utxos m' \<and> total m' + s' = total m + s \<and> s \<le> s' \<and> set m' \<subseteq> set m"
proof (induction inps arbitrary: s m)
  case (Cons inp inps)
  let ?k = "utxoKey (prevTxid inp) (voutIdx inp)"
  show ?case
  proof (cases "map_of m ?k")
    case None
    then show ?thesis using Cons by simp
  next
    case (Some u)
    have sub: "set (AList.delete ?k m) \<subseteq> set m" by (simp add: AList.delete_eq filter_is_subset)
    have wf: "wf_utxos (AList.delete ?k m)"
      using Cons.prems(2) sub by (auto simp: wf_utxos_def distinct_keys_delete)
    have "0 \<le> ut_value u" using Cons.prems(2) map_of_SomeD [OF Some] by (force simp: wf_utxos_def)
    moreover have "total (AList.delete ?k m) = total m - ut_value u"
      using Cons.prems(2) Some by (simp add: asum_delete wf_utxos_def)
    ultimately show ?thesis
      using Cons.IH [of "s + ut_value u" "AList.delete ?k m"] Cons.prems(1) Some wf sub by fastforce
  qed
qed auto

fun receipt_of :: "derived_addr list \<Rightarrow> nat \<Rightarrow> tx_output list \<Rightarrow> (nat \<times> utxo) list" where
  "receipt_of ds oi [] = []"
| "receipt_of ds oi (out # outs) = (case ours ds (out_script out) of
     None \<Rightarrow> [] | Some d \<Rightarrow> [(oi, \<lparr>ut_value = int (out_value out), ut_address = d_address d\<rparr>)])
     @ receipt_of ds (Suc oi) outs"

lemma receive_outputs_receipt:
  "rc_new (receive_outputs ds oi outs r) = rc_new r @ receipt_of ds oi outs"
  "rc_amount (receive_outputs ds oi outs r) =
     rc_amount r + sum_list (map (ut_value \<circ> snd) (receipt_of ds oi outs))"
  by (induction ds oi outs r rule: receive_outputs.induct)
    (simp_all split: option.splits)

lemma receipt_of_index:
  "(i, u) \<in> set (receipt_of ds oi outs) \<Longrightarrow> oi \<le> i \<and> 0 \<le> ut_value u \<and>
     i < oi + length outs \<and> ours ds (out_script (outs ! (i - oi))) \<noteq> None"
proof (induction outs arbitrary: oi)
  case (Cons out outs)
  show ?case
  proof (cases "(i, u) \<in> set (receipt_of ds (Suc oi) outs)")
    case True
    then have "i - oi = Suc (i - Suc oi)" using Cons.IH by fastforce
    then show ?thesis using Cons.IH [OF True] by auto
  next
    case False
    then show ?thesis using Cons.prems by (cases "ours ds (out_script out)") auto
  qed
qed simp

lemma receipt_of_distinct: "distinct (map fst (receipt_of ds oi outs))"
proof (induction outs arbitrary: oi)
  case (Cons out outs)
  have "oi \<notin> fst ` set (receipt_of ds (Suc oi) outs)"
    by (auto dest: receipt_of_index)
  then show ?case using Cons by (auto split: option.splits)
qed simp

lemma set_update_subset_insert_entry: "set (AList.update k v m) \<subseteq> insert (k, v) (set m)"
  by (induction m) auto

lemma add_utxos_balance:
  assumes "distinct (map fst news)" and "\<forall>(i, u) \<in> set news. 0 \<le> ut_value u"
    and "\<forall>(i, u) \<in> set news. map_of m (utxoKey tid (int i)) = None" and "wf_utxos m"
  shows "wf_utxos (add_utxos tid news m) \<and>
    total (add_utxos tid news m) = total m + sum_list (map (ut_value \<circ> snd) news) \<and>
    fst ` set (add_utxos tid news m) = fst ` set m \<union> (\<lambda>(i, u). utxoKey tid (int i)) ` set news"
  using assms
proof (induction news arbitrary: m)
  case (Cons n ns)
  obtain i u where n: "n = (i, u)" by fastforce
  let ?m = "AList.update (utxoKey tid (int i)) u m"
  have fresh: "map_of m (utxoKey tid (int i)) = None" using Cons.prems(3) n by auto
  have wf: "wf_utxos ?m"
    using Cons.prems(2,4) n by (auto simp: wf_utxos_def distinct_keys_update dest!: set_mp [OF set_update_subset_insert_entry])
  have "\<forall>(k, v) \<in> set ns. map_of ?m (utxoKey tid (int k)) = None"
    using Cons.prems(1,3) n by (force simp: map_of_update utxoKey_index)
  then have "wf_utxos (add_utxos tid ns ?m) \<and>
      total (add_utxos tid ns ?m) = total ?m + sum_list (map (ut_value \<circ> snd) ns) \<and>
      fst ` set (add_utxos tid ns ?m) = fst ` set ?m \<union> (\<lambda>(i, u). utxoKey tid (int i)) ` set ns"
    using Cons.prems(1,2) wf by (intro Cons.IH) auto
  then show ?case
    using n asum_update_fresh [OF fresh] by (auto simp: add_utxos_def dom_update comp_def)
qed (simp add: add_utxos_def)

text \<open>The keys of the outputs of a transaction that pay one of the addresses.\<close>

definition output_keys :: "derived_addr list \<Rightarrow> parsed_tx \<Rightarrow> string set" where
  "output_keys ds tx = {utxoKey (txid tx) (int i) | i. i < length (outputs tx) \<and>
     ours ds (out_script (outputs tx ! i)) \<noteq> None}"

text \<open>
  The books balance: the wallet holds what the base held plus what the accumulator took in less
  what it gave out.
\<close>

definition fair_accs :: "(string \<times> tx_acc) list \<Rightarrow> bool" where
  "fair_accs accs \<longleftrightarrow> (\<forall>x \<in> set accs. 0 \<le> ac_spent (snd x) \<and> 0 \<le> ac_received (snd x))"

lemma fair_accs_simps [simp]: "fair_accs []"
  by (simp add: fair_accs_def)

lemma fair_update: "fair_accs m \<Longrightarrow> 0 \<le> ac_spent a \<Longrightarrow> 0 \<le> ac_received a \<Longrightarrow> fair_accs (AList.update k a m)"
  by (auto simp: fair_accs_def dest!: set_mp [OF set_update_subset_insert_entry])

lemma fair_lookup: "fair_accs m \<Longrightarrow> map_of m k = Some a \<Longrightarrow> 0 \<le> ac_spent a \<and> 0 \<le> ac_received a"
  by (force simp: fair_accs_def dest: map_of_SomeD)

definition ledger :: "int \<Rightarrow> walk \<Rightarrow> bool" where
  "ledger base w \<longleftrightarrow> wf_utxos (wk_utxos w) \<and> distinct (map fst (wk_accs w)) \<and> fair_accs (wk_accs w) \<and>
     total (wk_utxos w) = base + asum net (wk_accs w)"

text \<open>What both kinds of walk do to the outputs of the wallet.\<close>

lemma utxo_step:
  assumes "wf_utxos m" and "output_keys ds tx \<inter> fst ` set m = {}"
    and sp: "spend_inputs (inputs tx) (0, m) = (spent, m1)"
    and r: "r = receive_outputs ds 0 (outputs tx) (no_receipt w)"
  shows "wf_utxos (add_utxos (txid tx) (rc_new r) m1)"
    and "total (add_utxos (txid tx) (rc_new r) m1) = total m + rc_amount r - spent"
    and "fst ` set (add_utxos (txid tx) (rc_new r) m1) \<subseteq> fst ` set m \<union> output_keys ds tx"
    and "0 \<le> spent" and "rc_new r = [] \<Longrightarrow> rc_amount r = 0"
    and "wf_utxos m1" and "total m1 = total m - spent" and "fst ` set m1 \<subseteq> fst ` set m"
    and "0 \<le> rc_amount r"
proof -
  have new: "rc_new r = receipt_of ds 0 (outputs tx)"
    and amount: "rc_amount r = sum_list (map (ut_value \<circ> snd) (receipt_of ds 0 (outputs tx)))"
    by (simp_all add: r receive_outputs_receipt no_receipt_def)
  note s = spend_inputs_balance [OF sp assms(1)]
  then show s': "0 \<le> spent" "wf_utxos m1" "total m1 = total m - spent" "fst ` set m1 \<subseteq> fst ` set m"
    by auto
  show "rc_new r = [] \<Longrightarrow> rc_amount r = 0" by (simp add: new amount)
  show "0 \<le> rc_amount r"
    unfolding amount by (rule sum_list_nonneg) (auto dest: receipt_of_index)
  have keys: "(\<lambda>(i, u). utxoKey (txid tx) (int i)) ` set (rc_new r) \<subseteq> output_keys ds tx"
    using receipt_of_index [where ds = ds and oi = 0 and outs = "outputs tx"]
    unfolding new output_keys_def by fastforce
  have "map_of m1 (utxoKey (txid tx) (int i)) = None" if "(i, u) \<in> set (rc_new r)" for i u
    using that keys s'(4) assms(2) by (auto simp: map_of_eq_None_iff)
  then have "wf_utxos (add_utxos (txid tx) (rc_new r) m1) \<and>
      total (add_utxos (txid tx) (rc_new r) m1) = total m1 + sum_list (map (ut_value \<circ> snd) (rc_new r)) \<and>
      fst ` set (add_utxos (txid tx) (rc_new r) m1) =
        fst ` set m1 \<union> (\<lambda>(i, u). utxoKey (txid tx) (int i)) ` set (rc_new r)"
    using receipt_of_distinct receipt_of_index s'(2)
    by (intro add_utxos_balance) (fastforce simp: new)+
  then show "wf_utxos (add_utxos (txid tx) (rc_new r) m1)"
    "total (add_utxos (txid tx) (rc_new r) m1) = total m + rc_amount r - spent"
    "fst ` set (add_utxos (txid tx) (rc_new r) m1) \<subseteq> fst ` set m \<union> output_keys ds tx"
    using s'(3,4) keys by (auto simp: new amount)
qed

lemma initial_tx_ledger:
  assumes led: "ledger base w" and acc: "map_of (wk_accs w) (txid tx) = None"
    and keys: "output_keys ds tx \<inter> fst ` set (wk_utxos w) = {}"
  shows "ledger base (initial_tx ds b w tx)"
    and "fst ` set (wk_accs (initial_tx ds b w tx)) \<subseteq> insert (txid tx) (fst ` set (wk_accs w))"
    and "fst ` set (wk_utxos (initial_tx ds b w tx)) \<subseteq> fst ` set (wk_utxos w) \<union> output_keys ds tx"
proof -
  let ?r = "receive_outputs ds 0 (outputs tx) (no_receipt w)"
  obtain spent m where sp: "spend_inputs (inputs tx) (0, wk_utxos w) = (spent, m)" by fastforce
  have wf: "wf_utxos (wk_utxos w)" using led by (simp add: ledger_def)
  note s = utxo_step [OF wf keys sp refl]
  show "ledger base (initial_tx ds b w tx)"
    using led s acc by (auto simp: initial_tx_def sp Let_def ledger_def asum_update_fresh distinct_keys_update
        fresh_acc_def net_def intro!: fair_update)
  show "fst ` set (wk_accs (initial_tx ds b w tx)) \<subseteq> insert (txid tx) (fst ` set (wk_accs w))"
    "fst ` set (wk_utxos (initial_tx ds b w tx)) \<subseteq> fst ` set (wk_utxos w) \<union> output_keys ds tx"
    using s(3,8) by (auto simp: initial_tx_def sp Let_def dom_update)
qed

lemma extension_tx_ledger:
  assumes led: "ledger base w" and keys: "output_keys new tx \<inter> fst ` set (wk_utxos w) = {}"
  shows "ledger base (extension_tx new ds b w tx)"
    and "fst ` set (wk_utxos (extension_tx new ds b w tx)) \<subseteq> fst ` set (wk_utxos w) \<union> output_keys new tx"
proof -
  let ?r = "receive_outputs new 0 (outputs tx) (no_receipt w)"
  obtain spent m where sp: "spend_inputs (inputs tx) (0, wk_utxos w) = (spent, m)" by fastforce
  have wf: "wf_utxos (wk_utxos w)" using led by (simp add: ledger_def)
  note s = utxo_step [OF wf keys sp refl]
  have "0 \<le> ac_spent a \<and> 0 \<le> ac_received a" if "map_of (wk_accs w) (txid tx) = Some a" for a
    using led fair_lookup [OF _ that] by (simp add: ledger_def)
  then show "ledger base (extension_tx new ds b w tx)"
    using led s by (auto simp: extension_tx_def sp Let_def ledger_def asum_update_fresh asum_update
        distinct_keys_update fresh_acc_def merge_acc_def net_def intro!: fair_update split: option.splits)
  show "fst ` set (wk_utxos (extension_tx new ds b w tx)) \<subseteq> fst ` set (wk_utxos w) \<union> output_keys new tx"
    using s(3) by (simp add: extension_tx_def sp Let_def)
qed

section \<open>A walk over blocks\<close>

text \<open>The transactions of the blocks that open, each with its block, in order.\<close>

definition flat :: "(hit \<Rightarrow> sync_error + block_info \<times> nat \<times> parsed_tx list) \<Rightarrow> hit list \<Rightarrow> (block_info \<times> parsed_tx) list" where
  "flat opened hs = concat (map (\<lambda>h. case opened h of Inl _ \<Rightarrow> [] | Inr (b, _, ts) \<Rightarrow> map (Pair b) ts) hs)"

definition walk_txs :: "(block_info \<Rightarrow> walk \<Rightarrow> parsed_tx \<Rightarrow> walk) \<Rightarrow> (block_info \<times> parsed_tx) list \<Rightarrow> walk \<Rightarrow> walk" where
  "walk_txs step bts w = foldl (\<lambda>w (b, tx). step b w tx) w bts"

lemma walk_txs_simps [simp]:
  "walk_txs step [] w = w" "walk_txs step ((b, tx) # bts) w = walk_txs step bts (step b w tx)"
  "walk_txs step (bts @ bts') w = walk_txs step bts' (walk_txs step bts w)"
  by (simp_all add: walk_txs_def)

lemma walk_txs_block: "walk_txs step (map (Pair b) ts) w = foldl (step b) w ts"
  by (induction ts arbitrary: w) simp_all

definition counts_apart :: "(block_info \<Rightarrow> walk \<Rightarrow> parsed_tx \<Rightarrow> walk) \<Rightarrow> bool" where
  "counts_apart step \<longleftrightarrow> (\<forall>b w n tx. step b (w\<lparr>wk_bytes := n\<rparr>) tx = (step b w tx)\<lparr>wk_bytes := n\<rparr>)"

lemma counts_apart_steps: "counts_apart (initial_tx ds)" "counts_apart (extension_tx new ds)"
proof -
  have "initial_tx ds b (w\<lparr>wk_bytes := n\<rparr>) tx = (initial_tx ds b w tx)\<lparr>wk_bytes := n\<rparr>" for b w n tx
    by (cases w) (simp add: initial_tx_def no_receipt_def Let_def split: prod.splits)
  moreover have "extension_tx new ds b (w\<lparr>wk_bytes := n\<rparr>) tx = (extension_tx new ds b w tx)\<lparr>wk_bytes := n\<rparr>" for b w n tx
    by (cases w) (simp add: extension_tx_def no_receipt_def Let_def split: prod.splits option.splits)
  ultimately show "counts_apart (initial_tx ds)" "counts_apart (extension_tx new ds)"
    by (simp_all add: counts_apart_def)
qed

lemma walk_txs_bytes:
  "counts_apart step \<Longrightarrow> walk_txs step bts (w\<lparr>wk_bytes := n\<rparr>) = (walk_txs step bts w)\<lparr>wk_bytes := n\<rparr>"
  by (induction bts arbitrary: w) (auto simp: counts_apart_def)

lemma walk_blocks_flat:
  assumes step: "counts_apart step"
  shows "walk_blocks step opened hs w = Inr w' \<Longrightarrow> \<exists>n. w' = (walk_txs step (flat opened hs) w)\<lparr>wk_bytes := n\<rparr>"
proof (induction hs arbitrary: w)
  case Nil
  then show ?case by (intro exI [of _ "wk_bytes w"]) (simp add: flat_def)
next
  case (Cons h hs)
  then obtain b n ts where o: "opened h = Inr (b, n, ts)" by (auto split: sum.splits)
  have "walk_blocks step opened hs ((foldl (step b) w ts)\<lparr>wk_bytes := wk_bytes w + n\<rparr>) = Inr w'"
    using Cons.prems walk_txs_bytes [OF step, where bts = "map (Pair b) ts" and w = w] by (simp add: o walk_txs_block)
  from Cons.IH [OF this] show ?case
    using walk_txs_bytes [OF step, where bts = "flat opened hs" and w = "foldl (step b) w ts"]
    by (auto simp: flat_def o walk_txs_block)
qed

text \<open>The identifier of a parsed transaction is hexadecimal, so keys of different ones differ.\<close>

definition plain_id :: "parsed_tx \<Rightarrow> bool" where
  "plain_id tx \<longleftrightarrow> CHR '':'' \<notin> set (txid tx)"

lemma utxoKey_id:
  assumes "utxoKey s i = utxoKey t k" and "CHR '':'' \<notin> set s" and "CHR '':'' \<notin> set t"
  shows "s = t"
proof -
  have "takeWhile (\<lambda>c. c \<noteq> CHR '':'') (utxoKey u j) = u" if "CHR '':'' \<notin> set u" for u j
  proof -
    have "takeWhile (\<lambda>c. c \<noteq> CHR '':'') (u @ CHR '':'' # int_text j) = u @ takeWhile (\<lambda>c. c \<noteq> CHR '':'') (CHR '':'' # int_text j)"
      by (rule takeWhile_append2) (use that in blast)
    then show ?thesis by (simp add: utxoKey_def)
  qed
  then show ?thesis using assms by metis
qed

lemma output_keys_disjoint:
  assumes "plain_id tx" "plain_id tx'" "txid tx \<noteq> txid tx'"
  shows "output_keys ds tx \<inter> output_keys ds' tx' = {}"
  using assms utxoKey_id unfolding output_keys_def plain_id_def by blast

lemma bytesToHex_plain: "CHR '':'' \<notin> set (bytesToHex bs)"
proof -
  have "list_all (\<lambda>n. hex_digit n \<noteq> CHR '':'') [0..<16]" by code_simp
  then have digit: "hex_digit n \<noteq> CHR '':''" if "n < 16" for n using that by (simp add: list_all_iff)
  have "CHR '':'' \<notin> set (byte_hex b)" for b
  proof -
    have "unat b < 256" using unsigned_less [of b] by simp
    then have "unat b div 16 < 16" by simp
    then show ?thesis using digit [of "unat b div 16"] digit [of "unat b mod 16"] by (simp add: byte_hex_def)
  qed
  then show ?thesis by (simp add: bytesToHex_def)
qed

lemma initial_walk_ledger:
  assumes "ledger base w" and "distinct (map (txid \<circ> snd) bts)" and "\<forall>(b, tx) \<in> set bts. plain_id tx"
    and "\<forall>(b, tx) \<in> set bts. txid tx \<notin> fst ` set (wk_accs w)"
    and "\<forall>(b, tx) \<in> set bts. output_keys ds tx \<inter> fst ` set (wk_utxos w) = {}"
  shows "ledger base (walk_txs (initial_tx ds) bts w) \<and>
    fst ` set (wk_utxos (walk_txs (initial_tx ds) bts w)) \<subseteq>
      fst ` set (wk_utxos w) \<union> (\<Union>(b, tx) \<in> set bts. output_keys ds tx)"
  using assms
proof (induction bts arbitrary: w)
  case (Cons bt bts)
  obtain b tx where bt: "bt = (b, tx)" by fastforce
  let ?w = "initial_tx ds b w tx"
  have acc: "map_of (wk_accs w) (txid tx) = None" using Cons.prems(4) bt by (simp add: map_of_eq_None_iff)
  have keys: "output_keys ds tx \<inter> fst ` set (wk_utxos w) = {}" using Cons.prems(5) bt by simp
  note s = initial_tx_ledger [OF Cons.prems(1) acc keys, of b]
  have other: "txid tx' \<noteq> txid tx" if "(b', tx') \<in> set bts" for b' tx'
    using Cons.prems(2) that bt by force
  have "ledger base (walk_txs (initial_tx ds) bts ?w) \<and>
    fst ` set (wk_utxos (walk_txs (initial_tx ds) bts ?w)) \<subseteq>
      fst ` set (wk_utxos ?w) \<union> (\<Union>(b, tx) \<in> set bts. output_keys ds tx)"
  proof (rule Cons.IH [OF s(1)])
    show "\<forall>(b', tx') \<in> set bts. txid tx' \<notin> fst ` set (wk_accs ?w)"
    proof -
      have "txid tx' \<notin> fst ` set (wk_accs ?w)" if "(b', tx') \<in> set bts" for b' tx'
        using other [OF that] bspec [OF Cons.prems(4), of "(b', tx')"] that s(2) by auto
      then show ?thesis by blast
    qed
    have "output_keys ds tx' \<inter> output_keys ds tx = {}" if "(b', tx') \<in> set bts" for b' tx'
      using that other [OF that] Cons.prems(3) bt by (intro output_keys_disjoint) auto
    moreover have "output_keys ds tx' \<inter> fst ` set (wk_utxos w) = {}" if "(b', tx') \<in> set bts" for b' tx'
      using bspec [OF Cons.prems(5), of "(b', tx')"] that by simp
    ultimately have "output_keys ds tx' \<inter> fst ` set (wk_utxos ?w) = {}" if "(b', tx') \<in> set bts" for b' tx'
      using that s(3) by (meson disjoint_iff subset_iff Un_iff)
    then show "\<forall>(b', tx') \<in> set bts. output_keys ds tx' \<inter> fst ` set (wk_utxos ?w) = {}"
      unfolding split_beta by (metis prod.collapse)
  qed (use Cons.prems(2,3) in auto)
  note ih = this
  show ?case
  proof
    show "ledger base (walk_txs (initial_tx ds) (bt # bts) w)" using ih by (simp add: bt)
    have "fst ` set (wk_utxos ?w) \<union> (\<Union>(b, tx) \<in> set bts. output_keys ds tx) \<subseteq>
        fst ` set (wk_utxos w) \<union> (\<Union>(b, tx) \<in> set (bt # bts). output_keys ds tx)"
      using s(3) by (simp add: bt) blast
    then show "fst ` set (wk_utxos (walk_txs (initial_tx ds) (bt # bts) w)) \<subseteq>
        fst ` set (wk_utxos w) \<union> (\<Union>(b, tx) \<in> set (bt # bts). output_keys ds tx)"
      using ih unfolding bt walk_txs_simps by (meson order_trans)
  qed
qed simp

lemma extension_walk_ledger:
  assumes "ledger base w" and "distinct (map (txid \<circ> snd) bts)" and "\<forall>(b, tx) \<in> set bts. plain_id tx"
    and "\<forall>(b, tx) \<in> set bts. output_keys new tx \<inter> fst ` set (wk_utxos w) = {}"
  shows "ledger base (walk_txs (extension_tx new ds) bts w) \<and>
    fst ` set (wk_utxos (walk_txs (extension_tx new ds) bts w)) \<subseteq>
      fst ` set (wk_utxos w) \<union> (\<Union>(b, tx) \<in> set bts. output_keys new tx)"
  using assms
proof (induction bts arbitrary: w)
  case (Cons bt bts)
  obtain b tx where bt: "bt = (b, tx)" by fastforce
  let ?w = "extension_tx new ds b w tx"
  have keys: "output_keys new tx \<inter> fst ` set (wk_utxos w) = {}" using Cons.prems(4) bt by simp
  note s = extension_tx_ledger [OF Cons.prems(1) keys, of ds b]
  have "ledger base (walk_txs (extension_tx new ds) bts ?w) \<and>
    fst ` set (wk_utxos (walk_txs (extension_tx new ds) bts ?w)) \<subseteq>
      fst ` set (wk_utxos ?w) \<union> (\<Union>(b, tx) \<in> set bts. output_keys new tx)"
  proof (rule Cons.IH [OF s(1)])
    have "output_keys new tx' \<inter> output_keys new tx = {}" if "(b', tx') \<in> set bts" for b' tx'
      using that Cons.prems(2,3) bt by (intro output_keys_disjoint) (force simp: plain_id_def)+
    moreover have "output_keys new tx' \<inter> fst ` set (wk_utxos w) = {}" if "(b', tx') \<in> set bts" for b' tx'
      using bspec [OF Cons.prems(4), of "(b', tx')"] that by simp
    ultimately have "output_keys new tx' \<inter> fst ` set (wk_utxos ?w) = {}" if "(b', tx') \<in> set bts" for b' tx'
      using that s(2) by (meson disjoint_iff subset_iff Un_iff)
    then show "\<forall>(b', tx') \<in> set bts. output_keys new tx' \<inter> fst ` set (wk_utxos ?w) = {}"
      unfolding split_beta by (metis prod.collapse)
  qed (use Cons.prems(2,3) in auto)
  note ih = this
  show ?case
  proof
    show "ledger base (walk_txs (extension_tx new ds) (bt # bts) w)" using ih by (simp add: bt)
    have "fst ` set (wk_utxos ?w) \<union> (\<Union>(b, tx) \<in> set bts. output_keys new tx) \<subseteq>
        fst ` set (wk_utxos w) \<union> (\<Union>(b, tx) \<in> set (bt # bts). output_keys new tx)"
      using s(2) by (simp add: bt) blast
    then show "fst ` set (wk_utxos (walk_txs (extension_tx new ds) (bt # bts) w)) \<subseteq>
        fst ` set (wk_utxos w) \<union> (\<Union>(b, tx) \<in> set (bt # bts). output_keys new tx)"
      using ih unfolding bt walk_txs_simps by (meson order_trans)
  qed
qed simp

text \<open>The transactions that a block parses into have plain identifiers.\<close>

lemma bindp_Inr: "bindp p f c = Inr r \<longleftrightarrow> (\<exists>x c'. p c = Inr (x, c') \<and> f x c' = Inr r)"
  by (auto simp: bindp_def split: sum.splits)

lemma read_many_all:
  assumes "\<And>c x c'. p c = Inr (x, c') \<Longrightarrow> P x"
  shows "read_many p n c = Inr (xs, c') \<Longrightarrow> \<forall>x \<in> set xs. P x"
proof (induction n arbitrary: c xs)
  case (Suc n)
  then obtain x c1 ys where r: "p c = Inr (x, c1)" "read_many p n c1 = Inr (ys, c')" "xs = x # ys"
    by (auto simp: bindp_Inr retp_def)
  then show ?case using assms [OF r(1)] Suc.IH [OF r(2)] by simp
qed (simp add: retp_def)

lemma parseTx_plain: "parseTx sha c = Inr (tx, c') \<Longrightarrow> plain_id tx"
  unfolding parseTx_def plain_id_def
  by (clarsimp simp: bindp_Inr retp_def bytesToHex_plain simp del: bytesToHex_plain)
    (simp add: bytesToHex_plain)

lemma parse_block_txs_plain: "parse_block_txs sha raw header = Inr ts \<Longrightarrow> tx \<in> set ts \<Longrightarrow> plain_id tx"
  using read_many_all [where P = plain_id and p = "parseTx sha", OF parseTx_plain]
  unfolding parse_block_txs_def
  by (cases "read_many (parseTx sha) (txCount header) \<lparr>pos = txStart header, buf = raw\<rparr>") fastforce+

end
