(* ===== verification/Seal.thy ===== *)
theory Seal
  imports BlockParser
begin

text \<open>
  The sealed envelopes and blind indexes of \<open>src/stealth/lib/seal.ts\<close>: the guards on the key and on
  the text to index, the base64 coding of keys, nonces and ciphertexts, sealing and unsealing, and
  the two indexes.  Web Crypto, the text codec and JSON belong to the platform and are parameters;
  what the code relies on is \<open>web_laws\<close>.  Every entry point checks the key before it calls
  a primitive, what is sealed is unsealed again under the same key, and the errors are typed.
\<close>

section \<open>Base64\<close>

definition ALPHABET64 :: string where
  "ALPHABET64 = ''ABCDEFGHIJKLMNOPQRSTUVWXYZabcdefghijklmnopqrstuvwxyz0123456789+/''"

text \<open>\<open>btoa\<close> on the bytes of the binary string that \<open>b64encode\<close> builds.\<close>

definition sextet :: "nat \<Rightarrow> char" where
  "sextet n = ALPHABET64 ! n"

fun b64encode :: "bytes \<Rightarrow> string" where
  "b64encode [] = []"
| "b64encode [a] = (let x = unat a in [sextet (x div 4), sextet (x mod 4 * 16), CHR ''='', CHR ''=''])"
| "b64encode [a, b] = (let x = unat a; y = unat b in
     [sextet (x div 4), sextet (x mod 4 * 16 + y div 16), sextet (y mod 16 * 4), CHR ''=''])"
| "b64encode (a # b # c # r) = (let x = unat a; y = unat b; z = unat c in
     [sextet (x div 4), sextet (x mod 4 * 16 + y div 16), sextet (y mod 16 * 4 + z div 64), sextet (z mod 64)]
     @ b64encode r)"

text \<open>
  \<open>atob\<close>, the forgiving decoding: white space is dropped, up to two padding signs of a text whose
  length is a multiple of four are dropped, any other character and a left-over single digit
  throw, and left-over bits are ignored.
\<close>

definition sextet_value :: "char \<Rightarrow> nat option" where
  "sextet_value c = (let n = (of_char c :: nat) in
     if 65 \<le> n \<and> n \<le> 90 then Some (n - 65)
     else if 97 \<le> n \<and> n \<le> 122 then Some (n - 71)
     else if 48 \<le> n \<and> n \<le> 57 then Some (n + 4)
     else if n = 43 then Some 62 else if n = 47 then Some 63 else None)"

definition ascii_space :: "char \<Rightarrow> bool" where
  "ascii_space c \<longleftrightarrow> (of_char c :: nat) \<in> {9, 10, 12, 13, 32}"

fun strip_pad :: "string \<Rightarrow> string" where
  "strip_pad [c, d] = (if d = CHR ''='' then (if c = CHR ''='' then [] else [c]) else [c, d])"
| "strip_pad (c # s) = c # strip_pad s"
| "strip_pad [] = []"

fun join_sextets :: "nat list \<Rightarrow> bytes option" where
  "join_sextets [] = Some []"
| "join_sextets [_] = None"
| "join_sextets [a, b] = Some [of_nat (a * 4 + b div 16)]"
| "join_sextets [a, b, c] = Some [of_nat (a * 4 + b div 16), of_nat (b mod 16 * 16 + c div 4)]"
| "join_sextets (a # b # c # d # r) = map_option (\<lambda>bs.
     of_nat (a * 4 + b div 16) # of_nat (b mod 16 * 16 + c div 4) # of_nat (c mod 4 * 64 + d) # bs)
     (join_sextets r)"

definition b64decode :: "string \<Rightarrow> bytes option" where
  "b64decode s =
     (let t = filter (\<lambda>c. \<not> ascii_space c) s;
          u = (if length t mod 4 = 0 then strip_pad t else t);
          vs = map sextet_value u
      in if list_ex (\<lambda>v. v = None) vs then None else join_sextets (map the vs))"

section \<open>The platform\<close>

text \<open>
  \<open>TextEncoder\<close> and \<open>TextDecoder\<close>, AES-256-GCM, HMAC-SHA-256, and HKDF-SHA-256 with an empty salt,
  from the master and the label to a number of bytes.
\<close>

record web =
  w_encode :: "string \<Rightarrow> bytes"
  w_decode :: "bytes \<Rightarrow> string"
  w_seal :: "bytes \<Rightarrow> bytes \<Rightarrow> bytes \<Rightarrow> bytes"
  w_open :: "bytes \<Rightarrow> bytes \<Rightarrow> bytes \<Rightarrow> bytes option"
  w_hmac :: "bytes \<Rightarrow> bytes \<Rightarrow> bytes"
  w_hkdf :: "bytes \<Rightarrow> bytes \<Rightarrow> nat \<Rightarrow> bytes"

text \<open>\<open>JSON.stringify\<close> and \<open>JSON.parse\<close> on the values of one type.\<close>

record 'a codec =
  stringify :: "'a \<Rightarrow> string"
  parse :: "string \<Rightarrow> 'a option"

section \<open>Errors and guards\<close>

datatype seal_error =
  StealthKeyMissing string
| StealthKeyInvalid string string
| StealthTxidInvalid
| StealthConnectionInputInvalid
| VersionNotSupported jsnum
| AlgorithmNotSupported string
| NotBase64
| DecryptFailed
| NotJson

definition IV_LEN :: nat where "IV_LEN = 12"
definition KEY_LEN :: nat where "KEY_LEN = 32"
definition ALGO :: string where "ALGO = ''AES-256-GCM''"
definition BLIND_INDEX_INFO :: string where "BLIND_INDEX_INFO = ''or-stealth/blind-index/v1''"

text \<open>The arguments arrive from messages, so they are values of any kind; \<open>None\<close> is \<open>undefined\<close>.\<close>

definition requireKeyB64 :: "string \<Rightarrow> json option \<Rightarrow> seal_error + string" where
  "requireKeyB64 fn k = (case nonempty_string k of Some s \<Rightarrow> Inr s | None \<Rightarrow> Inl (StealthKeyMissing fn))"

definition requireCanonicalTxid :: "json option \<Rightarrow> seal_error + string" where
  "requireCanonicalTxid t = (case t of
     Some (JStr s) \<Rightarrow> if is_hex64 s then Inr s else Inl StealthTxidInvalid
   | _ \<Rightarrow> Inl StealthTxidInvalid)"

definition requireConnectionInput :: "json option \<Rightarrow> seal_error + string" where
  "requireConnectionInput t = (case nonempty_string t of
     Some s \<Rightarrow> Inr s | None \<Rightarrow> Inl StealthConnectionInputInvalid)"

definition wrong_length :: "nat \<Rightarrow> string" where
  "wrong_length n = ''expected '' @ nat_text KEY_LEN @ '' bytes, got '' @ nat_text n"

definition decodeKeyBytes :: "string \<Rightarrow> json option \<Rightarrow> seal_error + bytes" where
  "decodeKeyBytes fn k =
     (case requireKeyB64 fn k of
        Inl e \<Rightarrow> Inl e
      | Inr s \<Rightarrow>
          (case b64decode s of
             None \<Rightarrow> Inl (StealthKeyInvalid fn ''not valid base64'')
           | Some raw \<Rightarrow> if length raw \<noteq> KEY_LEN then Inl (StealthKeyInvalid fn (wrong_length (length raw)))
                        else Inr raw))"

section \<open>Envelopes\<close>

record sealed_env =
  se_version :: jsnum
  se_algorithm :: string
  iv_b64 :: string
  ciphertext_b64 :: string

text \<open>\<open>iv\<close> is what \<open>getRandomValues\<close> gives.\<close>

definition sealEnvelope :: "web \<Rightarrow> 'a codec \<Rightarrow> bytes \<Rightarrow> 'a \<Rightarrow> json option \<Rightarrow> seal_error + sealed_env" where
  "sealEnvelope w c iv payload k =
     (case decodeKeyBytes ''sealEnvelope'' k of
        Inl e \<Rightarrow> Inl e
      | Inr key \<Rightarrow>
          Inr \<lparr>se_version = Fin 1, se_algorithm = ALGO, iv_b64 = b64encode iv,
               ciphertext_b64 = b64encode (w_seal w key iv (w_encode w (stringify c payload)))\<rparr>)"

definition unsealEnvelope :: "web \<Rightarrow> 'a codec \<Rightarrow> sealed_env \<Rightarrow> json option \<Rightarrow> seal_error + 'a" where
  "unsealEnvelope w c env k =
     (case requireKeyB64 ''unsealEnvelope'' k of
        Inl e \<Rightarrow> Inl e
      | Inr _ \<Rightarrow>
          if se_version env \<noteq> Fin 1 then Inl (VersionNotSupported (se_version env))
          else if se_algorithm env \<noteq> ALGO then Inl (AlgorithmNotSupported (se_algorithm env))
          else case decodeKeyBytes ''unsealEnvelope'' k of
                 Inl e \<Rightarrow> Inl e
               | Inr key \<Rightarrow>
                   (case b64decode (iv_b64 env) of
                      None \<Rightarrow> Inl NotBase64
                    | Some iv \<Rightarrow>
                        (case b64decode (ciphertext_b64 env) of
                           None \<Rightarrow> Inl NotBase64
                         | Some ciphertext \<Rightarrow>
                             (case w_open w key iv ciphertext of
                                None \<Rightarrow> Inl DecryptFailed
                              | Some plaintext \<Rightarrow>
                                  (case parse c (w_decode w plaintext) of
                                     None \<Rightarrow> Inl NotJson
                                   | Some x \<Rightarrow> Inr x)))))"

section \<open>Blind indexes\<close>

definition deriveBlindIndexKey :: "web \<Rightarrow> string \<Rightarrow> json option \<Rightarrow> seal_error + bytes" where
  "deriveBlindIndexKey w fn k =
     map_sum id (\<lambda>master. w_hkdf w master (w_encode w BLIND_INDEX_INFO) KEY_LEN) (decodeKeyBytes fn k)"

definition importHmacKeyFromMaster :: "string \<Rightarrow> json option \<Rightarrow> seal_error + bytes" where
  "importHmacKeyFromMaster fn k = decodeKeyBytes fn k"

definition hexEncode :: "bytes \<Rightarrow> string" where
  "hexEncode bs = concat (map byte_hex bs)"

definition computeTxidBlindIndex :: "web \<Rightarrow> json option \<Rightarrow> json option \<Rightarrow> seal_error + string" where
  "computeTxidBlindIndex w t k =
     (case requireCanonicalTxid t of
        Inl e \<Rightarrow> Inl e
      | Inr tid \<Rightarrow>
          (case deriveBlindIndexKey w ''computeTxidBlindIndex'' k of
             Inl e \<Rightarrow> Inl e
           | Inr hmacKey \<Rightarrow> Inr (hexEncode (w_hmac w hmacKey (w_encode w tid)))))"

definition blindIndex :: "web \<Rightarrow> json option \<Rightarrow> json option \<Rightarrow> seal_error + string" where
  "blindIndex = computeTxidBlindIndex"

definition computeConnectionBlindIndex :: "web \<Rightarrow> json option \<Rightarrow> json option \<Rightarrow> seal_error + string" where
  "computeConnectionBlindIndex w t k =
     (case requireConnectionInput t of
        Inl e \<Rightarrow> Inl e
      | Inr input \<Rightarrow>
          (case importHmacKeyFromMaster ''computeConnectionBlindIndex'' k of
             Inl e \<Rightarrow> Inl e
           | Inr hmacKey \<Rightarrow> Inr (hexEncode (w_hmac w hmacKey (w_encode w input)))))"

section \<open>Base64 loses nothing\<close>

lemma sextet_values: "map sextet_value ALPHABET64 = map Some [0..<64]"
  by (simp add: ALPHABET64_def sextet_value_def upt_conv_Cons)

lemma sextet_plain_all: "list_all (\<lambda>c. \<not> ascii_space c \<and> c \<noteq> CHR ''='') ALPHABET64"
  by (simp add: ALPHABET64_def ascii_space_def)

lemma length_ALPHABET64: "length ALPHABET64 = 64"
  by (simp add: ALPHABET64_def)

lemma sextet_value_sextet: "n < 64 \<Longrightarrow> sextet_value (sextet n) = Some n"
  using arg_cong [OF sextet_values, of "\<lambda>vs. vs ! n"] by (simp add: sextet_def length_ALPHABET64)

lemma sextet_plain: "n < 64 \<Longrightarrow> \<not> ascii_space (sextet n) \<and> sextet n \<noteq> CHR ''=''"
  using sextet_plain_all by (simp add: list_all_length length_ALPHABET64 sextet_def)

lemma byte_less: "unat (b :: byte) < 256"
  using unsigned_less [of b] by simp

text \<open>The digits without the padding.\<close>

fun sextets :: "bytes \<Rightarrow> nat list" where
  "sextets [] = []"
| "sextets [a] = [unat a div 4, unat a mod 4 * 16]"
| "sextets [a, b] = [unat a div 4, unat a mod 4 * 16 + unat b div 16, unat b mod 16 * 4]"
| "sextets (a # b # c # r) = unat a div 4 # (unat a mod 4 * 16 + unat b div 16) #
     (unat b mod 16 * 4 + unat c div 64) # unat c mod 64 # sextets r"

lemma sextets_less: "n \<in> set (sextets bs) \<Longrightarrow> n < 64"
proof (induction bs rule: sextets.induct)
  case (2 a)
  then show ?case using byte_less [of a] by auto
next
  case (3 a b)
  then show ?case using byte_less [of a] byte_less [of b] by auto
next
  case (4 a b c r)
  then show ?case using byte_less [of a] byte_less [of b] byte_less [of c] by auto
qed simp

lemma join_byte: "unat (b :: byte) = n \<Longrightarrow> of_nat n = b"
  by auto

lemma join_sextets_sextets: "join_sextets (sextets bs) = Some bs"
proof (induction bs rule: sextets.induct)
  case (2 a)
  show ?case using byte_less [of a] by (auto intro!: join_byte)
next
  case (3 a b)
  show ?case using byte_less [of a] byte_less [of b] by (auto intro!: join_byte)
next
  case (4 a b c r)
  have "(unat a mod 4 * 16 + unat b div 16) div 16 = unat a mod 4" "(unat a mod 4 * 16 + unat b div 16) mod 16 = unat b div 16"
    "(unat b mod 16 * 4 + unat c div 64) div 4 = unat b mod 16" "(unat b mod 16 * 4 + unat c div 64) mod 4 = unat c div 64"
    using byte_less [of b] byte_less [of c] by auto
  then show ?case using 4 by (auto intro!: join_byte)
qed simp

text \<open>The padding that \<open>b64encode\<close> puts behind the digits.\<close>

definition padding :: "bytes \<Rightarrow> string" where
  "padding bs = replicate ((3 - length bs mod 3) mod 3) (CHR ''='')"

lemma b64encode_sextets: "b64encode bs = map sextet (sextets bs) @ padding bs"
  by (induction bs rule: sextets.induct) (simp_all add: padding_def Let_def numeral_2_eq_2 mod_Suc)

lemma length_sextets: "length (sextets bs) + length (padding bs) = 4 * ((length bs + 2) div 3)"
proof (induction bs rule: sextets.induct)
  case (4 a b c r)
  have "(3 - length (a # b # c # r) mod 3) mod 3 = (3 - length r mod 3) mod 3" by (simp add: mod_Suc)
  then have "padding (a # b # c # r) = padding r" by (simp only: padding_def)
  moreover have "(length (a # b # c # r) + 2) div 3 = Suc ((length r + 2) div 3)"
    using div_add_self2 [of 3 "length r + 2"] by (simp add: add.commute)
  ultimately show ?case using 4 by (simp only: sextets.simps length_Cons) simp
qed (simp_all add: padding_def)

lemma strip_pad_append: "strip_pad (xs @ [c, d]) = xs @ strip_pad [c, d]"
proof (induction xs)
  case (Cons x xs)
  obtain y z r where "xs @ [c, d] = y # z # r" by (cases xs; cases "tl xs") auto
  then show ?case using Cons by (auto split: if_splits)
qed simp

lemma strip_pad_plain:
  assumes "CHR ''='' \<notin> set u" and "length u \<noteq> 1"
  shows "strip_pad u = u"
proof (cases u rule: rev_exhaust)
  case (snoc v d)
  then obtain v' c where "v = v' @ [c]" using assms(2) by (cases v rule: rev_exhaust) auto
  then show ?thesis using snoc assms(1) strip_pad_append [of v' c d] by auto
qed simp

lemma strip_pad_padding:
  assumes "CHR ''='' \<notin> set u" and "length u \<noteq> 1" and "k \<le> 2" and "k = 1 \<Longrightarrow> u \<noteq> []"
  shows "strip_pad (u @ replicate k (CHR ''='')) = u"
proof -
  consider "k = 0" | "k = 1" | "k = 2" using assms(3) by linarith
  then show ?thesis
  proof cases
    case 1
    then show ?thesis using strip_pad_plain [OF assms(1,2)] by simp
  next
    case 2
    then obtain v c where u: "u = v @ [c]" using assms(4) by (cases u rule: rev_exhaust) auto
    then have "c \<noteq> CHR ''=''" using assms(1) by auto
    then show ?thesis using 2 u strip_pad_append [of v c "CHR ''=''"] by simp
  next
    case 3
    then show ?thesis using strip_pad_append [of u "CHR ''=''" "CHR ''=''"] by (simp add: numeral_2_eq_2)
  qed
qed

lemma base64_inverse: "b64decode (b64encode bs) = Some bs"
proof -
  let ?u = "map sextet (sextets bs)"
  have digits: "\<forall>c \<in> set ?u. \<not> ascii_space c \<and> c \<noteq> CHR ''=''"
    using sextets_less [of _ bs] sextet_plain by auto
  have none: "CHR ''='' \<notin> set ?u" using digits by blast
  have kept: "filter (\<lambda>c. \<not> ascii_space c) (b64encode bs) = b64encode bs"
    using digits by (auto simp: b64encode_sextets padding_def ascii_space_def intro!: filter_True)
  have len: "length (b64encode bs) mod 4 = 0"
    using length_sextets [of bs] by (simp add: b64encode_sextets)
  have short: "length (padding bs) \<le> 2" by (simp add: padding_def)
  have "length ?u \<noteq> 1 \<and> (length (padding bs) = 1 \<longrightarrow> ?u \<noteq> [])"
    by (cases bs rule: sextets.cases) (auto simp: padding_def)
  then have strip: "strip_pad (b64encode bs) = ?u"
    using strip_pad_padding [OF none, of "length (padding bs)"] short
    by (simp add: b64encode_sextets) (simp add: padding_def)
  have vals: "map sextet_value ?u = map Some (sextets bs)"
    using sextets_less [of _ bs] by (simp add: sextet_value_sextet)
  show ?thesis
    unfolding b64decode_def Let_def kept len if_True simp_thms strip vals
    by (simp add: join_sextets_sextets list_ex_iff comp_def)
qed

lemma b64encode_Nil: "b64encode bs = [] \<longleftrightarrow> bs = []"
  by (cases bs rule: b64encode.cases) (simp_all add: Let_def)

section \<open>What the code relies on\<close>

definition web_laws :: "web \<Rightarrow> bool" where
  "web_laws w \<longleftrightarrow> (\<forall>s. w_decode w (w_encode w s) = s) \<and>
     (\<forall>k iv p. length k = KEY_LEN \<longrightarrow> w_open w k iv (w_seal w k iv p) = Some p) \<and>
     (\<forall>k m. length (w_hmac w k m) = 32) \<and> (\<forall>k iv p. w_seal w k iv p \<noteq> [])"

lemma web_lawsD:
  assumes "web_laws w"
  shows "w_decode w (w_encode w s) = s" "length k = KEY_LEN \<Longrightarrow> w_open w k iv (w_seal w k iv p) = Some p"
    "length (w_hmac w k m) = 32" "w_seal w k iv p \<noteq> []"
  using assms by (auto simp: web_laws_def)

lemma decodeKeyBytes_cases:
  "decodeKeyBytes fn k = (case k of
     Some (JStr s) \<Rightarrow> if s = [] then Inl (StealthKeyMissing fn)
       else (case b64decode s of None \<Rightarrow> Inl (StealthKeyInvalid fn ''not valid base64'')
             | Some raw \<Rightarrow> if length raw = KEY_LEN then Inr raw
                         else Inl (StealthKeyInvalid fn (wrong_length (length raw))))
   | _ \<Rightarrow> Inl (StealthKeyMissing fn))"
  by (auto simp: decodeKeyBytes_def requireKeyB64_def split: option.splits json.splits)

lemma decodeKeyBytes_Inr:
  "decodeKeyBytes fn k = Inr key \<longleftrightarrow> length key = KEY_LEN \<and>
     (\<exists>s. k = Some (JStr s) \<and> s \<noteq> [] \<and> b64decode s = Some key)"
  by (auto simp: decodeKeyBytes_cases split: option.splits json.splits)

lemma decodeKeyBytes_fn: "decodeKeyBytes fn k = Inr key \<Longrightarrow> decodeKeyBytes fn' k = Inr key"
  by (simp add: decodeKeyBytes_Inr)

lemma seal_unseal:
  assumes "web_laws w" and "parse c (stringify c x) = Some x" and "sealEnvelope w c iv x k = Inr env"
  shows "unsealEnvelope w c env k = Inr x"
proof -
  obtain key where key: "decodeKeyBytes ''sealEnvelope'' k = Inr key"
    using assms(3) by (auto simp: sealEnvelope_def split: sum.splits)
  then have "length key = KEY_LEN" by (simp add: decodeKeyBytes_Inr)
  moreover have "\<exists>s. requireKeyB64 ''unsealEnvelope'' k = Inr s"
    using key by (auto simp: decodeKeyBytes_Inr requireKeyB64_def)
  ultimately show ?thesis
    using assms web_lawsD [OF assms(1)] decodeKeyBytes_fn [OF key, of "''unsealEnvelope''"]
    by (auto simp: sealEnvelope_def unsealEnvelope_def key base64_inverse)
qed

lemma hexEncode_hex: "list_all is_lower_hex (hexEncode bs) \<and> length (hexEncode bs) = 2 * length bs"
proof -
  have "list_all (\<lambda>n. is_lower_hex (hex_digit n)) [0..<16]" by code_simp
  then have digit: "is_lower_hex (hex_digit n)" if "n < 16" for n using that by (simp add: list_all_iff)
  have "unat (b :: byte) div 16 < 16" for b using byte_less [of b] by (simp add: less_mult_imp_div_less)
  then have "list_all is_lower_hex (byte_hex b)" for b using digit by (simp add: byte_hex_def)
  then show ?thesis by (induction bs) (auto simp: hexEncode_def byte_hex_def)
qed

text \<open>What an index looks like, when it is computed at all.\<close>

lemma index_hex64: "web_laws w \<Longrightarrow> is_hex64 (hexEncode (w_hmac w k m))"
  using hexEncode_hex [of "w_hmac w k m"] by (simp add: is_hex64_def web_lawsD)

text \<open>Hexadecimal text determines the bytes.\<close>

lemma byte_hex_inject: "byte_hex a = byte_hex b \<longleftrightarrow> a = b"
proof -
  have "list_all (\<lambda>m. list_all (\<lambda>n. (hex_digit m = hex_digit n) = (m = n)) [0..<16]) [0..<16]" by code_simp
  then have digit: "hex_digit m = hex_digit n \<longleftrightarrow> m = n" if "m < 16" "n < 16" for m n
    using that by (simp add: list_all_iff)
  have less: "unat (b :: byte) div 16 < 16" for b using byte_less [of b] by (simp add: less_mult_imp_div_less)
  have "a = b" if "unat a div 16 = unat b div 16" "unat a mod 16 = unat b mod 16"
    using that by (metis div_mult_mod_eq word_unat_eq_iff)
  then show ?thesis using less by (auto simp: byte_hex_def digit)
qed

lemma hexEncode_inject: "hexEncode as = hexEncode bs \<longleftrightarrow> as = bs"
proof
  show "hexEncode as = hexEncode bs \<Longrightarrow> as = bs"
  proof (induction as arbitrary: bs)
    case Nil
    then show ?case by (cases bs) (auto simp: hexEncode_def byte_hex_def)
  next
    case (Cons a as)
    then obtain b bs' where bs: "bs = b # bs'" by (cases bs) (auto simp: hexEncode_def byte_hex_def)
    have "byte_hex a @ hexEncode as = byte_hex b @ hexEncode bs'" using Cons.prems by (simp add: bs hexEncode_def)
    then have "byte_hex a = byte_hex b \<and> hexEncode as = hexEncode bs'" by (auto simp: byte_hex_def)
    then show ?case using Cons.IH bs by (simp add: byte_hex_inject)
  qed
qed simp

section \<open>Properties\<close>

text \<open>The keys that every entry point accepts.\<close>

definition valid_key :: "json option \<Rightarrow> bool" where
  "valid_key k \<longleftrightarrow> (\<exists>key. decodeKeyBytes [] k = Inr key)"

lemma decodeKeyBytes_valid: "valid_key k \<longleftrightarrow> (\<exists>key. decodeKeyBytes fn k = Inr key)"
  unfolding valid_key_def by (auto simp: decodeKeyBytes_Inr)

text \<open>A platform in which sealing puts one byte in front of the plaintext.\<close>

definition sample_web :: web where
  "sample_web = \<lparr>w_encode = map (\<lambda>c. of_nat (of_char c)), w_decode = map (\<lambda>b. char_of (unat b)),
     w_seal = (\<lambda>k iv p. 0 # p), w_open = (\<lambda>k iv c. Some (tl c)),
     w_hmac = (\<lambda>k m. take 32 (m @ replicate 32 0)), w_hkdf = (\<lambda>m i n. replicate n 1)\<rparr>"

definition sample_key :: "json option" where
  "sample_key = Some (JStr (b64encode (replicate 32 7)))"

lemma sample_web_laws: "web_laws sample_web"
proof -
  have "char_of (unat (of_nat (of_char c) :: byte)) = c" for c
    by (simp add: unat_of_nat)
  moreover have "min n 32 + (32 - n) = 32" for n :: nat by simp
  ultimately show ?thesis by (simp add: web_laws_def sample_web_def comp_def)
qed

lemma decode_sample_key: "decodeKeyBytes fn sample_key = Inr (replicate 32 7)"
  by (simp add: sample_key_def decodeKeyBytes_cases base64_inverse b64encode_Nil KEY_LEN_def)

lemma connection_input_Inr: "requireConnectionInput t = Inr s \<longleftrightarrow> t = Some (JStr s) \<and> s \<noteq> []"
  by (cases t rule: nonempty_string.cases) (auto simp: requireConnectionInput_def)

text \<open>
  C16: what \<open>sealEnvelope\<close> seals, \<open>unsealEnvelope\<close> gives back under the same key, through the base64
  texts of nonce and ciphertext, for every payload that survives JSON.
\<close>

theorem seal_roundtrip:
  assumes "web_laws w" and "parse c (stringify c x) = Some x" and "sealEnvelope w c iv x k = Inr e"
  shows "unsealEnvelope w c e k = Inr x \<and> b64decode (iv_b64 e) = Some iv"
  using seal_unseal [OF assms] assms(3) by (auto simp: sealEnvelope_def base64_inverse split: sum.splits)

theorem seal_roundtrip_witness:
  "\<exists>e. sealEnvelope sample_web \<lparr>stringify = (\<lambda>s. s), parse = Some\<rparr> [1, 2, 3, 4] ''{}'' sample_key = Inr e \<and>
     unsealEnvelope sample_web \<lparr>stringify = (\<lambda>s. s), parse = Some\<rparr> e sample_key = Inr ''{}'' \<and>
     b64decode (iv_b64 e) = Some [1, 2, 3, 4]"
proof -
  obtain e where e: "sealEnvelope sample_web \<lparr>stringify = (\<lambda>s. s), parse = Some\<rparr> [1, 2, 3, 4] ''{}'' sample_key = Inr e"
    by (simp add: sealEnvelope_def decode_sample_key)
  show ?thesis using seal_roundtrip [OF sample_web_laws _ e] e by auto
qed

text \<open>
  A key is accepted by sealing and by both indexes alike, exactly when it is a non-empty base64
  text of 32 bytes; any other key, also a value that is no text, is refused with a typed error that
  does not depend on the platform, so that no primitive was asked; unsealing refuses it too, and an
  index exists only of a canonical txid or of a non-empty identifier.
\<close>

theorem key_guard_exact:
  "(valid_key k \<longleftrightarrow> (\<exists>s key. k = Some (JStr s) \<and> s \<noteq> [] \<and> b64decode s = Some key \<and> length key = 32)) \<and>
   ((\<exists>e. sealEnvelope w c iv x k = Inr e) \<longleftrightarrow> valid_key k) \<and>
   ((\<exists>i. computeTxidBlindIndex w t k = Inr i) \<longleftrightarrow> valid_key k \<and> (\<exists>s. t = Some (JStr s) \<and> is_hex64 s)) \<and>
   ((\<exists>i. computeConnectionBlindIndex w t k = Inr i) \<longleftrightarrow> valid_key k \<and> (\<exists>s. t = Some (JStr s) \<and> s \<noteq> [])) \<and>
   (\<not> valid_key k \<longrightarrow> (\<forall>w' c' iv' x'. sealEnvelope w' c' iv' x' k = sealEnvelope w c iv x k) \<and>
     (\<forall>e. unsealEnvelope w c e k \<noteq> Inr y) \<and>
     (\<exists>d. sealEnvelope w c iv x k \<in> {Inl (StealthKeyMissing ''sealEnvelope''), Inl (StealthKeyInvalid ''sealEnvelope'' d)}))"
proof (intro conjI impI)
  show "valid_key k \<longleftrightarrow> (\<exists>s key. k = Some (JStr s) \<and> s \<noteq> [] \<and> b64decode s = Some key \<and> length key = 32)"
    by (auto simp: valid_key_def decodeKeyBytes_Inr KEY_LEN_def)
  show "(\<exists>e. sealEnvelope w c iv x k = Inr e) \<longleftrightarrow> valid_key k"
    unfolding decodeKeyBytes_valid [of k "''sealEnvelope''"] by (auto simp: sealEnvelope_def split: sum.splits)
  show "(\<exists>i. computeTxidBlindIndex w t k = Inr i) \<longleftrightarrow> valid_key k \<and> (\<exists>s. t = Some (JStr s) \<and> is_hex64 s)"
    unfolding decodeKeyBytes_valid [of k "''computeTxidBlindIndex''"]
    by (cases "decodeKeyBytes ''computeTxidBlindIndex'' k")
      (auto simp: computeTxidBlindIndex_def requireCanonicalTxid_def deriveBlindIndexKey_def
        split: option.splits json.splits)
  show "(\<exists>i. computeConnectionBlindIndex w t k = Inr i) \<longleftrightarrow> valid_key k \<and> (\<exists>s. t = Some (JStr s) \<and> s \<noteq> [])"
    unfolding decodeKeyBytes_valid [of k "''computeConnectionBlindIndex''"]
    by (cases "requireConnectionInput t"; cases "decodeKeyBytes ''computeConnectionBlindIndex'' k")
      (auto simp: computeConnectionBlindIndex_def importHmacKeyFromMaster_def simp flip: connection_input_Inr)
  assume bad: "\<not> valid_key k"
  then obtain e where e: "decodeKeyBytes ''sealEnvelope'' k = Inl e"
    unfolding decodeKeyBytes_valid [of k "''sealEnvelope''"] by (metis sum.exhaust)
  then show "\<forall>w' c' iv' x'. sealEnvelope w' c' iv' x' k = sealEnvelope w c iv x k"
    by (simp add: sealEnvelope_def)
  show "\<exists>d. sealEnvelope w c iv x k \<in> {Inl (StealthKeyMissing ''sealEnvelope''), Inl (StealthKeyInvalid ''sealEnvelope'' d)}"
    using e by (auto simp: sealEnvelope_def decodeKeyBytes_cases split: option.splits json.splits if_splits)
  show "\<forall>e. unsealEnvelope w c e k \<noteq> Inr y"
    using bad unfolding decodeKeyBytes_valid [of k "''unsealEnvelope''"]
    by (auto simp: unsealEnvelope_def split: sum.splits)
qed

theorem key_guard_exact_witness:
  "\<not> valid_key (Some JNull) \<and> (\<exists>d. sealEnvelope sample_web \<lparr>stringify = (\<lambda>s. s), parse = Some\<rparr> [] ''{}'' (Some JNull) \<in>
     {Inl (StealthKeyMissing ''sealEnvelope''), Inl (StealthKeyInvalid ''sealEnvelope'' d)})"
proof
  show no: "\<not> valid_key (Some JNull)" by (simp add: valid_key_def decodeKeyBytes_cases)
  show "\<exists>d. sealEnvelope sample_web \<lparr>stringify = (\<lambda>s. s), parse = Some\<rparr> [] ''{}'' (Some JNull) \<in>
     {Inl (StealthKeyMissing ''sealEnvelope''), Inl (StealthKeyInvalid ''sealEnvelope'' d)}"
    using key_guard_exact [of "Some JNull" sample_web "\<lparr>stringify = (\<lambda>s. s), parse = Some\<rparr>" "[]" "''{}''"] no by blast
qed

end
