(* ===== verification/RunSync.thy ===== *)
theory RunSync
  imports UtxoWalk Seal Ranges "HOL-Library.Countable"
begin

text \<open>
  The orchestrator \<open>runSync\<close> of \<open>src/stealth/lib/sync.ts\<close>: unseal the wallet, derive the first
  window of addresses, check the birthday, choose the range of heights, scan it, walk the matched
  blocks, extend the window while matches lie near its edge, decide direction and amount of each
  transaction once, and seal the transactions and the set of unspent outputs.  The filter stage is
  the worker pool of \<open>FilterScan\<close>, so a run is a relation: whatever way the answers interleave.
  Progress events have no effect on the result and are left out.
\<close>

section \<open>Numbers\<close>

text \<open>\<open>Number(x)\<close> of a \<open>bigint\<close>: 53 significant bits, ties to even.\<close>

fun bit_count :: "nat \<Rightarrow> nat" where
  "bit_count n = (if n = 0 then 0 else Suc (bit_count (n div 2)))"

declare bit_count.simps [simp del]

definition round53 :: "nat \<Rightarrow> nat" where
  "round53 n = (let k = bit_count n - 53; q = n div 2 ^ k; r = n mod 2 ^ k;
      up = (2 * r > 2 ^ k \<or> (2 * r = 2 ^ k \<and> odd q)) in (if up then q + 1 else q) * 2 ^ k)"

definition js_Number :: "int \<Rightarrow> int" where
  "js_Number x = (if x < 0 then - int (round53 (nat (- x))) else int (round53 (nat x)))"

text \<open>\<open>BigInt(s)\<close>: white space around, a prefix for the base or a sign; anything else throws.\<close>

fun read_digits :: "nat \<Rightarrow> nat \<Rightarrow> string \<Rightarrow> nat option" where
  "read_digits r n [] = Some n"
| "read_digits r n (c # cs) = (case hex_value c of
     Some d \<Rightarrow> if d < r then read_digits r (n * r + d) cs else None | None \<Rightarrow> None)"

definition whole :: "nat \<Rightarrow> string \<Rightarrow> nat option" where
  "whole r s = (if s = [] then None else read_digits r 0 s)"

definition trim_text :: "string \<Rightarrow> string" where
  "trim_text s = rev (dropWhile is_space (rev (dropWhile is_space s)))"

definition signed_whole :: "string \<Rightarrow> int option" where
  "signed_whole t = (case t of
     c # ds \<Rightarrow> if c = CHR ''-'' then map_option (\<lambda>n. - int n) (whole 10 ds)
       else map_option int (whole 10 (if c = CHR ''+'' then ds else t))
   | [] \<Rightarrow> None)"

definition based_whole :: "string \<Rightarrow> nat option" where
  "based_whole t = (case t of
     z # p # ds \<Rightarrow> if z \<noteq> CHR ''0'' then None
       else if p \<in> set ''xX'' then whole 16 ds
       else if p \<in> set ''oO'' then whole 8 ds
       else if p \<in> set ''bB'' then whole 2 ds else None
   | _ \<Rightarrow> None)"

definition js_BigInt :: "string \<Rightarrow> int option" where
  "js_BigInt s = (let t = trim_text s in
     if t = [] then Some 0
     else case based_whole t of Some n \<Rightarrow> Some (int n) | None \<Rightarrow> signed_whole t)"

section \<open>Options and results\<close>

text \<open>What the run reads of the wallet: which kind of payload it is, and its gap limit.\<close>

record wallet_payload =
  wp_xpub :: bool
  wp_gap :: int

record normalized_tx =
  nt_txid :: string
  nt_height :: int
  nt_block :: string
  nt_date :: string
  nt_instant :: string
  nt_out :: bool
  nt_amount :: int
  nt_address :: string
  nt_vin :: nat
  nt_vout :: nat

text \<open>
  What is injected or belongs to the platform.  \<open>re_derive\<close> gives script and address of an index of
  a chain, \<open>re_match\<close> is \<open>matchAny\<close>, \<open>re_iv k\<close> the random bytes of the \<open>k\<close>-th seal.
\<close>

record run_env =
  re_web :: web
  re_payload :: "wallet_payload codec"
  re_utxos :: "json codec"
  re_tx :: "normalized_tx codec"
  re_iv :: "nat \<Rightarrow> bytes"
  re_sha :: "bytes \<Rightarrow> bytes"
  re_derive :: "wallet_payload \<Rightarrow> nat \<Rightarrow> int \<Rightarrow> bytes \<times> string"
  re_match :: "bytes \<Rightarrow> bytes \<Rightarrow> bytes list \<Rightarrow> bool"
  re_filter :: "int \<Rightarrow> filter_answer"
  re_block :: "string \<Rightarrow> string + block_record"
  re_tip :: "string + int"

record run_options =
  ro_envelope :: sealed_env
  ro_key :: "json option"
  ro_last :: "int option"
  ro_resume :: "int option"
  ro_birthday :: jsnum
  ro_descriptor :: bool
  ro_passes :: "nat option"
  ro_sealed :: "sealed_env option"

record sync_result =
  sr_count :: nat
  sr_cursor :: int
  sr_scanned :: bool
  sr_bytes :: nat
  sr_sealed :: "sealed_tx list"
  sr_normalized :: "normalized_tx list"
  sr_exhausted :: bool
  sr_utxos :: "sealed_env option"
  sr_error :: "(int \<times> string) option"

datatype run_error =
  Sealing seal_error
| NeedsDescriptor
| NoTip string
| BirthdayOutOfRange jsnum int
| WorkerThrew parse_error
| Blocks sync_error
| WindowExhausted

section \<open>Before the scan\<close>

definition CONFIRMATION_DEPTH :: int where "CONFIRMATION_DEPTH = 6"

definition derive_range :: "(nat \<Rightarrow> int \<Rightarrow> bytes \<times> string) \<Rightarrow> nat \<Rightarrow> int \<Rightarrow> int \<Rightarrow> derived_addr list" where
  "derive_range derive chain lo hi = map (\<lambda>i. \<lparr>d_chain = chain, d_index = i,
     d_script = fst (derive chain i), d_address = snd (derive chain i)\<rparr>) [lo..hi - 1]"

definition derive_window ::
    "run_env \<Rightarrow> run_options \<Rightarrow> wallet_payload \<Rightarrow> run_error + derived_addr list" where
  "derive_window ev opts p =
     (let hi = wp_gap p * 2; d = re_derive ev p in
      if \<not> wp_xpub p \<and> \<not> ro_descriptor opts then Inl NeedsDescriptor
      else Inr (derive_range d 0 0 hi @ derive_range d 1 0 hi))"

text \<open>The range to scan, with the ceiling as \<open>pl_tip\<close>.\<close>

record plan =
  pl_payload :: wallet_payload
  pl_derived :: "derived_addr list"
  pl_tip :: int
  pl_from :: int

definition birthday_refused :: "jsnum \<Rightarrow> int \<Rightarrow> bool" where
  "birthday_refused b chainTip \<longleftrightarrow> \<not> is_integer b \<or> js_lt b (Fin 0) \<or> js_lt (jsint chainTip) b"

definition from_height_of :: "run_options \<Rightarrow> int" where
  "from_height_of opts = int_of_num (scanStartHeight \<lparr>birthdayHeight = ro_birthday opts,
     lastBlockScanned = map_option jsint (ro_last opts), resumeFromHeight = map_option jsint (ro_resume opts)\<rparr>)"

definition up_to_date :: "run_options \<Rightarrow> sync_result" where
  "up_to_date opts = \<lparr>sr_count = 0, sr_cursor = (case ro_last opts of None \<Rightarrow> - 1 | Some c \<Rightarrow> c),
     sr_scanned = False, sr_bytes = 0, sr_sealed = [], sr_normalized = [], sr_exhausted = False,
     sr_utxos = ro_sealed opts, sr_error = None\<rparr>"

definition before_scan :: "run_env \<Rightarrow> run_options \<Rightarrow> run_error + plan + sync_result" where
  "before_scan ev opts =
     (case unsealEnvelope (re_web ev) (re_payload ev) (ro_envelope opts) (ro_key opts) of
        Inl e \<Rightarrow> Inl (Sealing e)
      | Inr p \<Rightarrow>
          (case derive_window ev opts p of
             Inl e \<Rightarrow> Inl e
           | Inr derived \<Rightarrow>
               (case re_tip ev of
                  Inl e \<Rightarrow> Inl (NoTip e)
                | Inr chainTip \<Rightarrow>
                    if birthday_refused (ro_birthday opts) chainTip
                    then Inl (BirthdayOutOfRange (ro_birthday opts) chainTip)
                    else (let tip = chainTip - CONFIRMATION_DEPTH; lo = from_height_of opts in
                          if lo > tip then Inr (Inr (up_to_date opts))
                          else Inr (Inl \<lparr>pl_payload = p, pl_derived = derived, pl_tip = tip, pl_from = lo\<rparr>)))))"

definition job_of :: "run_env \<Rightarrow> int \<Rightarrow> derived_addr list \<Rightarrow> scan_job" where
  "job_of ev tip ds = \<lparr>j_tip = tip, j_match = (\<lambda>f h. re_match ev f h (map d_script ds))\<rparr>"

definition plan_job :: "run_env \<Rightarrow> plan \<Rightarrow> scan_job" where
  "plan_job ev pl = job_of ev (pl_tip pl) (pl_derived pl)"

section \<open>The outputs of earlier runs\<close>

text \<open>
  One entry of the unsealed array: \<open>None\<close> when destructuring or \<open>BigInt\<close> throws.  A string can be
  destructured but its parts have no \<open>value\<close>.
\<close>

definition seed_entry :: "json \<Rightarrow> utxo_map \<Rightarrow> utxo_map option" where
  "seed_entry e m =
     (case e of
        JArr (JStr k # v # _) \<Rightarrow>
          (case (field v ''value'', field v ''address'') of
             (Some (JStr val), Some (JStr a)) \<Rightarrow>
               map_option (\<lambda>n. AList.update k \<lparr>ut_value = n, ut_address = a\<rparr> m) (js_BigInt val)
           | _ \<Rightarrow> Some m)
      | JArr _ \<Rightarrow> Some m
      | JStr _ \<Rightarrow> Some m
      | _ \<Rightarrow> None)"

text \<open>A throw ends the loop and is swallowed; the entries before it stay.\<close>

fun seed_loop :: "json list \<Rightarrow> utxo_map \<Rightarrow> utxo_map" where
  "seed_loop [] m = m"
| "seed_loop (e # es) m = (case seed_entry e m of None \<Rightarrow> m | Some m' \<Rightarrow> seed_loop es m')"

definition seed_utxos :: "run_env \<Rightarrow> json option \<Rightarrow> sealed_env option \<Rightarrow> utxo_map" where
  "seed_utxos ev key prior =
     (case prior of
        None \<Rightarrow> []
      | Some se \<Rightarrow>
          (case unsealEnvelope (re_web ev) (re_utxos ev) se key of
             Inr (JArr es) \<Rightarrow> seed_loop es []
           | _ \<Rightarrow> []))"

definition start_walk :: "utxo_map \<Rightarrow> walk" where
  "start_walk m = \<lparr>wk_utxos = m, wk_accs = [], wk_max = (- 1, - 1), wk_bytes = 0\<rparr>"

section \<open>The rolling window\<close>

record window =
  wi_derived :: "derived_addr list"
  wi_end :: "int \<times> int"
  wi_exhausted :: bool
  wi_walk :: walk
  wi_cache :: "int \<rightharpoonup> filter_record option"

text \<open>What all passes share: the payload's addresses, the range, and how the first scan ended.\<close>

record pass_env =
  pe_ev :: run_env
  pe_plan :: plan
  pe_aborted :: bool
  pe_cursor :: int

definition near_edge :: "int \<Rightarrow> int \<times> int \<Rightarrow> int \<times> int \<Rightarrow> bool \<times> bool" where
  "near_edge gap mx e = (fst mx \<ge> fst e - gap, snd mx \<ge> snd e - gap)"

text \<open>
  The scan of a pass.  Its workers draw from one counter and never stop early, each height is
  treated on its own, and the matches are sorted afterwards: one height after the other.  A height
  that is not in the cache is fetched again, and skipped when that fails.
\<close>

type_synonym pass_scan = "(int \<rightharpoonup> filter_record option) \<times> nat \<times> hit list"

definition ext_answer :: "(int \<Rightarrow> filter_answer) \<Rightarrow> int \<Rightarrow> pass_scan \<Rightarrow> filter_record option option \<times> pass_scan" where
  "ext_answer src h st = (let (cache, n, hs) = st in
     case cache h of
       Some f \<Rightarrow> (Some f, st)
     | None \<Rightarrow> (case src h of
         Inl _ \<Rightarrow> (None, st)
       | Inr f \<Rightarrow> (Some f, cache(h \<mapsto> f), n + (case f of None \<Rightarrow> 0 | Some r \<Rightarrow> length (flt_bytes r)), hs)))"

fun ext_scan :: "scan_job \<Rightarrow> (int \<Rightarrow> filter_answer) \<Rightarrow> int list \<Rightarrow> pass_scan \<Rightarrow> parse_error + pass_scan" where
  "ext_scan job src [] st = Inr st"
| "ext_scan job src (h # heights) st =
     (case ext_answer src h st of
        (Some (Some r), cache, n, hs) \<Rightarrow>
          (case match_filter job r of
             Inl e \<Rightarrow> Inl e
           | Inr m \<Rightarrow> ext_scan job src heights (cache, n, if m then hs @ [(h, flt_hash r)] else hs))
      | (_, st') \<Rightarrow> ext_scan job src heights st')"

definition pass_new :: "pass_env \<Rightarrow> window \<Rightarrow> derived_addr list" where
  "pass_new pe wi =
     (let p = pl_payload (pe_plan pe); gap = wp_gap p; d = re_derive (pe_ev pe) p;
          (n0, n1) = near_edge gap (wk_max (wi_walk wi)) (wi_end wi); (e0, e1) = wi_end wi
      in (if n0 then derive_range d 0 e0 (e0 + gap) else []) @ (if n1 then derive_range d 1 e1 (e1 + gap) else []))"

definition pass_end :: "int \<Rightarrow> window \<Rightarrow> int \<times> int" where
  "pass_end gap wi = (let (n0, n1) = near_edge gap (wk_max (wi_walk wi)) (wi_end wi); (e0, e1) = wi_end wi
     in (if n0 then e0 + gap else e0, if n1 then e1 + gap else e1))"

definition extension_pass :: "pass_env \<Rightarrow> window \<Rightarrow> run_error + window" where
  "extension_pass pe wi =
     (let ev = pe_ev pe; pl = pe_plan pe; new = pass_new pe wi; all = wi_derived wi @ new in
      case ext_scan (job_of ev (pl_tip pl) new) (re_filter ev) [pl_from pl..pl_tip pl] (wi_cache wi, 0, []) of
        Inl e \<Rightarrow> Inl (WorkerThrew e)
      | Inr (cache, n, hs) \<Rightarrow>
          (let w = wi_walk wi; w' = w\<lparr>wk_bytes := wk_bytes w + n\<rparr>;
               safe = trim_hits (pe_aborted pe) (pe_cursor pe) (sortByAscendingHeight hs) in
           case walk_blocks (extension_tx new all) (open_block (re_sha ev) (re_block ev)) safe w' of
             Inl e \<Rightarrow> Inl (Blocks e)
           | Inr w'' \<Rightarrow> Inr \<lparr>wi_derived = all, wi_end = pass_end (wp_gap (pl_payload pl)) wi,
               wi_exhausted = True, wi_walk = w'', wi_cache = cache\<rparr>))"

text \<open>The loop with the number of passes left; the check behind it is the case of no pass left.\<close>

definition still_near :: "pass_env \<Rightarrow> window \<Rightarrow> bool" where
  "still_near pe wi = (let (n0, n1) = near_edge (wp_gap (pl_payload (pe_plan pe))) (wk_max (wi_walk wi)) (wi_end wi)
     in n0 \<or> n1)"

primrec extension_loop :: "pass_env \<Rightarrow> nat \<Rightarrow> window \<Rightarrow> run_error + window" where
  "extension_loop pe 0 wi = (if still_near pe wi then Inl WindowExhausted else Inr wi)"
| "extension_loop pe (Suc n) wi =
     (if \<not> still_near pe wi then Inr wi
      else case extension_pass pe wi of Inl e \<Rightarrow> Inl e | Inr wi' \<Rightarrow> extension_loop pe n wi')"

section \<open>Direction and amount\<close>

definition finalize_tx :: "string \<times> tx_acc \<Rightarrow> normalized_tx option" where
  "finalize_tx ka = (let (tid, a) = ka;
      entry = (\<lambda>out amount addr. \<lparr>nt_txid = tid, nt_height = ac_height a, nt_block = ac_block a,
        nt_date = ac_date a, nt_instant = ac_instant a, nt_out = out, nt_amount = js_Number amount,
        nt_address = addr, nt_vin = ac_vin a, nt_vout = ac_vout a\<rparr>)
     in if ac_spent a > 0 then Some (entry True (ac_spent a - ac_received a) (ac_to a))
        else if ac_received a > 0 then Some (entry False (ac_received a) (ac_from a))
        else None)"

definition finalize :: "(string \<times> tx_acc) list \<Rightarrow> normalized_tx list" where
  "finalize accs = List.map_filter finalize_tx accs"

section \<open>Sealing\<close>

definition seal_tx :: "run_env \<Rightarrow> json option \<Rightarrow> nat \<Rightarrow> normalized_tx \<Rightarrow> seal_error + sealed_tx" where
  "seal_tx ev key i tx =
     (case sealEnvelope (re_web ev) (re_tx ev) (re_iv ev i) tx key of
        Inl e \<Rightarrow> Inl e
      | Inr e \<Rightarrow>
          (case blindIndex (re_web ev) (Some (JStr (nt_txid tx))) key of
             Inl x \<Rightarrow> Inl x
           | Inr blind \<Rightarrow> Inr \<lparr>st_iv = iv_b64 e, st_cipher = ciphertext_b64 e, st_date = nt_date tx,
               st_height = nt_height tx, st_blind = blind, st_hash = Some (nt_block tx)\<rparr>))"

fun seal_all :: "run_env \<Rightarrow> json option \<Rightarrow> nat \<Rightarrow> normalized_tx list \<Rightarrow> seal_error + sealed_tx list" where
  "seal_all ev key i [] = Inr []"
| "seal_all ev key i (tx # rest) =
     (case seal_tx ev key i tx of
        Inl e \<Rightarrow> Inl e
      | Inr s \<Rightarrow> (case seal_all ev key (Suc i) rest of Inl e \<Rightarrow> Inl e | Inr ss \<Rightarrow> Inr (s # ss)))"

definition utxo_entry :: "string \<times> utxo \<Rightarrow> json" where
  "utxo_entry x = JArr [JStr (fst x), JObj [(''value'', JStr (int_text (ut_value (snd x)))),
     (''address'', JStr (ut_address (snd x)))]]"

definition seal_utxos :: "run_env \<Rightarrow> json option \<Rightarrow> nat \<Rightarrow> utxo_map \<Rightarrow> seal_error + sealed_env option" where
  "seal_utxos ev key i m =
     (if m = [] then Inr None
      else map_sum id Some (sealEnvelope (re_web ev) (re_utxos ev) (re_iv ev i) (JArr (map utxo_entry m)) key))"

section \<open>The run\<close>

definition finish_run :: "run_env \<Rightarrow> run_options \<Rightarrow> pool \<Rightarrow> int \<Rightarrow> window \<Rightarrow> run_error + sync_result" where
  "finish_run ev opts p cursor_height wi =
     (let ts = finalize (wk_accs (wi_walk wi)) in
      case seal_all ev (ro_key opts) 0 ts of
        Inl e \<Rightarrow> Inl (Sealing e)
      | Inr ss \<Rightarrow>
          (case seal_utxos ev (ro_key opts) (length ts) (wk_utxos (wi_walk wi)) of
             Inl e \<Rightarrow> Inl (Sealing e)
           | Inr u \<Rightarrow> Inr \<lparr>sr_count = length ts, sr_cursor = cursor_height, sr_scanned = True,
               sr_bytes = p_bytes p + wk_bytes (wi_walk wi), sr_sealed = ss, sr_normalized = ts,
               sr_exhausted = wi_exhausted wi, sr_utxos = u, sr_error = p_failure p\<rparr>))"

definition after_scan :: "run_env \<Rightarrow> run_options \<Rightarrow> plan \<Rightarrow> pool \<Rightarrow> run_error + sync_result" where
  "after_scan ev opts pl p =
     (let (cursor_height, aborted, hits) = scan_outcome (plan_job ev pl) (pl_from pl) p;
          seed = seed_utxos ev (ro_key opts) (ro_sealed opts);
          hi = wp_gap (pl_payload pl) * 2;
          passes = (case ro_passes opts of None \<Rightarrow> 10 | Some n \<Rightarrow> n)
      in case walk_blocks (initial_tx (pl_derived pl)) (open_block (re_sha ev) (re_block ev)) hits (start_walk seed) of
           Inl e \<Rightarrow> Inl (Blocks e)
         | Inr w \<Rightarrow>
             (case extension_loop \<lparr>pe_ev = ev, pe_plan = pl, pe_aborted = aborted, pe_cursor = cursor_height\<rparr> passes
                     \<lparr>wi_derived = pl_derived pl, wi_end = (hi, hi), wi_exhausted = False, wi_walk = w, wi_cache = p_cache p\<rparr> of
                Inl e \<Rightarrow> Inl e
              | Inr wi \<Rightarrow> finish_run ev opts p cursor_height wi))"

lemma after_scanI:
  assumes "scan_outcome (plan_job ev pl) (pl_from pl) p = (cur, aborted, hits)"
    and "walk_blocks (initial_tx (pl_derived pl)) (open_block (re_sha ev) (re_block ev)) hits
      (start_walk (seed_utxos ev (ro_key opts) (ro_sealed opts))) = Inr w"
    and "extension_loop \<lparr>pe_ev = ev, pe_plan = pl, pe_aborted = aborted, pe_cursor = cur\<rparr>
      (case ro_passes opts of None \<Rightarrow> 10 | Some n \<Rightarrow> n)
      \<lparr>wi_derived = pl_derived pl, wi_end = (wp_gap (pl_payload pl) * 2, wp_gap (pl_payload pl) * 2),
        wi_exhausted = False, wi_walk = w, wi_cache = p_cache p\<rparr> = Inr wi"
  shows "after_scan ev opts pl p = finish_run ev opts p cur wi"
  using assms by (simp add: after_scan_def)

inductive run_sync :: "run_env \<Rightarrow> run_options \<Rightarrow> run_error + sync_result \<Rightarrow> bool" for ev opts where
  refused: "before_scan ev opts = Inl e \<Longrightarrow> run_sync ev opts (Inl e)"
| current: "before_scan ev opts = Inr (Inr r) \<Longrightarrow> run_sync ev opts (Inr r)"
| threw: "before_scan ev opts = Inr (Inl pl) \<Longrightarrow>
    pool_reaches (plan_job ev pl) (re_filter ev) (pl_from pl) n p \<Longrightarrow> p_thrown p = Some e \<Longrightarrow>
    run_sync ev opts (Inl (WorkerThrew e))"
| scanned: "before_scan ev opts = Inr (Inl pl) \<Longrightarrow>
    pool_reaches (plan_job ev pl) (re_filter ev) (pl_from pl) n p \<Longrightarrow> all_returned p \<Longrightarrow>
    run_sync ev opts (after_scan ev opts pl p)"

inductive_cases run_syncE: "run_sync ev opts r"

section \<open>A small run\<close>

text \<open>
  One block at height 103 pays the first address; the network of \<open>FilterFetch\<close> serves its filter at
  the second attempt.
\<close>

definition sample_payload :: wallet_payload where
  "sample_payload = \<lparr>wp_xpub = True, wp_gap = 1\<rparr>"

definition sample_block :: bytes where
  "sample_block = replicate 80 0 @ [1] @ [1, 0, 0, 0] @ [1] @ replicate 32 0 @ replicate 4 0 @ [0] @ replicate 4 0
     @ [1] @ [7, 0, 0, 0, 0, 0, 0, 0] @ [3, 0x51, 0, 48] @ replicate 4 0"

definition sample_derive :: "wallet_payload \<Rightarrow> nat \<Rightarrow> int \<Rightarrow> bytes \<times> string" where
  "sample_derive p c i = ([0x51, of_nat c] @ map (\<lambda>d. of_nat (of_char d)) (int_text i), ''bc1'' @ int_text i)"

text \<open>The code of the unspent outputs numbers all JSON values.\<close>

instance jsnum :: countable by countable_datatype

instance json :: countable by countable_datatype

definition json_codec :: "json codec" where
  "json_codec = \<lparr>stringify = (\<lambda>x. nat_text (to_nat x)), parse = (\<lambda>s. Some (from_nat (digits_value s)))\<rparr>"

lemma json_codec_law: "parse json_codec (stringify json_codec x) = Some x"
  by (simp add: json_codec_def digits_value_nat_text)

definition sample_chain :: "int \<Rightarrow> nat \<Rightarrow> net_answer \<times> net_answer" where
  "sample_chain h = (if h = 103 then sample_net h else (\<lambda>k. (Inl ''Failed to fetch'', Inl ''Failed to fetch'')))"

definition sample_ev :: run_env where
  "sample_ev = \<lparr>re_web = sample_web, re_payload = \<lparr>stringify = (\<lambda>_. []), parse = (\<lambda>_. Some sample_payload)\<rparr>,
     re_utxos = json_codec, re_tx = \<lparr>stringify = (\<lambda>_. ''t''), parse = (\<lambda>_. None)\<rparr>, re_iv = (\<lambda>_. replicate 12 2),
     re_sha = (\<lambda>_. replicate 32 0xaa), re_derive = sample_derive, re_match = (\<lambda>f h ss. ss \<noteq> []),
     re_filter = liveFetchFilter sample_platform sample_chain,
     re_block = (\<lambda>_. Inr \<lparr>blk_height = Fin 0, blk_hash = [], blk_raw = sample_block\<rparr>), re_tip = Inr 109\<rparr>"

definition sample_opts :: run_options where
  "sample_opts = \<lparr>ro_envelope = \<lparr>se_version = Fin 1, se_algorithm = ALGO, iv_b64 = [], ciphertext_b64 = []\<rparr>,
     ro_key = sample_key, ro_last = None, ro_resume = None, ro_birthday = Fin 103,
     ro_descriptor = False, ro_passes = None, ro_sealed = None\<rparr>"

definition sample_plan :: plan where
  "sample_plan = \<lparr>pl_payload = sample_payload,
     pl_derived = derive_range (sample_derive sample_payload) 0 0 2 @ derive_range (sample_derive sample_payload) 1 0 2,
     pl_tip = 103, pl_from = 103\<rparr>"

abbreviation sample_hash :: string where
  "sample_hash \<equiv> replicate 64 (CHR ''a'')"

definition sample_filter :: filter_record where
  "sample_filter = \<lparr>flt_height = 103, flt_hash = sample_hash, flt_bytes = []\<rparr>"

definition sample_pool :: pool where
  "sample_pool = \<lparr>p_next = 104, p_workers = None # replicate 31 None, p_cache = [103 \<mapsto> Some sample_filter],
     p_hits = [(103, sample_hash)], p_aborted = False, p_failure = None, p_read = 1, p_bytes = 0, p_thrown = None\<rparr>"

definition paid_tx :: parsed_tx where
  "paid_tx = \<lparr>txid = sample_hash, vinCount = 1, voutCount = 1, inputs = [],
     outputs = [\<lparr>out_value = 7, out_script = [0x51, 0, 48]\<rparr>]\<rparr>"

definition sample_walk :: walk where
  "sample_walk = \<lparr>wk_utxos = [(utxoKey sample_hash 0, \<lparr>ut_value = 7, ut_address = ''bc10''\<rparr>)],
     wk_accs = [(sample_hash, \<lparr>ac_height = 103, ac_block = sample_hash, ac_date = isoDateFromUnix 0,
       ac_instant = isoInstant 0, ac_vin = 1, ac_vout = 1, ac_spent = 0, ac_received = 7, ac_from = ''bc10'', ac_to = []\<rparr>)],
     wk_max = (0, - 1), wk_bytes = 144\<rparr>"

definition paid_entry :: normalized_tx where
  "paid_entry = \<lparr>nt_txid = sample_hash, nt_height = 103, nt_block = sample_hash, nt_date = isoDateFromUnix 0,
     nt_instant = isoInstant 0, nt_out = False, nt_amount = 7, nt_address = ''bc10'', nt_vin = 1, nt_vout = 1\<rparr>"

lemma sample_before: "before_scan sample_ev sample_opts = Inr (Inl sample_plan)"
proof -
  have "b64decode [] = Some []" by code_simp
  then show ?thesis
    by (simp add: before_scan_def unsealEnvelope_def sample_ev_def sample_opts_def requireKeyB64_def sample_key_def
        b64encode_Nil decodeKeyBytes_cases base64_inverse KEY_LEN_def sample_web_def derive_window_def sample_payload_def
        birthday_refused_def from_height_of_def scanStartHeight_def CONFIRMATION_DEPTH_def sample_plan_def Let_def)
qed

lemma sample_job: "plan_job sample_ev sample_plan = \<lparr>j_tip = 103, j_match = \<lambda>f h. True\<rparr>"
  by (simp add: plan_job_def job_of_def sample_ev_def sample_plan_def derive_range_def)

lemma sample_filter_answer: "re_filter sample_ev 103 = Inr (Some sample_filter)"
  using sample_fetch [of 103] by (simp add: sample_ev_def liveFetchFilter_def sample_chain_def sample_filter_def)

lemma sample_filter_only: "re_filter sample_ev h = Inr x \<Longrightarrow> h = 103"
  by (rule ccontr) (simp add: sample_ev_def retry_outcome sample_chain_def fetchFilterPair_def)

lemma sample_start: "start_pool (plan_job sample_ev sample_plan) 103 = \<lparr>p_next = 104, p_workers = Some 103 # replicate 31 None,
    p_cache = Map.empty, p_hits = [], p_aborted = False, p_failure = None, p_read = 0, p_bytes = 0, p_thrown = None\<rparr>"
  by (simp add: sample_job start_pool_def FETCH_CONCURRENCY_def eval_nat_numeral fresh_pool_def start_worker_def claim_def)

lemma sample_reaches: "pool_reaches (plan_job sample_ev sample_plan) (re_filter sample_ev) 103 1 sample_pool"
proof -
  let ?job = "plan_job sample_ev sample_plan"
  have "resume ?job 0 103 (re_filter sample_ev 103) (start_pool ?job 103) = sample_pool"
    unfolding sample_start unfolding sample_job
    by (simp add: resume_def sample_filter_answer set_worker_def take_answer_def claim_def match_filter_def
        hexToBytes_def Let_def sample_pool_def sample_filter_def)
  then show ?thesis
    using pool_reaches.step [OF pool_reaches.start pool_step.answered [of 0 "start_pool ?job 103" 103]]
    by (metis One_nat_def length_Cons list.size(3) nth_Cons_0 pool.select_convs(2) sample_start zero_less_Suc)
qed

lemma sample_joined: "all_returned sample_pool"
  by (simp add: all_returned_def sample_pool_def list.pred_set)

lemma sample_open:
  "open_block (re_sha sample_ev) (re_block sample_ev) (103, sample_hash) =
     Inr (\<lparr>bi_height = 103, bi_hash = sample_hash, bi_time = 0\<rparr>, 144, [paid_tx])"
  unfolding sample_ev_def run_env.simps by code_simp

lemma sample_derived:
  "pl_derived sample_plan = [\<lparr>d_chain = 0, d_index = 0, d_script = [81, 0, 48], d_address = ''bc10''\<rparr>,
     \<lparr>d_chain = 0, d_index = 1, d_script = [81, 0, 49], d_address = ''bc11''\<rparr>,
     \<lparr>d_chain = 1, d_index = 0, d_script = [81, 1, 48], d_address = ''bc10''\<rparr>,
     \<lparr>d_chain = 1, d_index = 1, d_script = [81, 1, 49], d_address = ''bc11''\<rparr>]"
  by code_simp

lemma sample_step:
  "initial_tx (pl_derived sample_plan) \<lparr>bi_height = 103, bi_hash = sample_hash, bi_time = 0\<rparr>
     (start_walk []\<lparr>wk_bytes := 144\<rparr>) paid_tx = sample_walk"
  unfolding sample_derived
  by (simp add: initial_tx_def paid_tx_def start_walk_def no_receipt_def ours_def bytesEqual_def raise_max_def
      fresh_acc_def add_utxos_def sample_walk_def)

lemma sample_finalize: "finalize (wk_accs sample_walk) = [paid_entry]"
  by (simp add: finalize_def sample_walk_def finalize_tx_def js_Number_def round53_def bit_count.simps
      paid_entry_def List.map_filter_def)

lemma sample_outcome: "scan_outcome (plan_job sample_ev sample_plan) 103 sample_pool = (103, False, [(103, sample_hash)])"
  by (simp add: sample_job scan_outcome_def sample_pool_def lastContiguousScanned_def contiguous.simps
      trim_hits_def sortByAscendingHeight_def)

lemma sample_run:
  "\<exists>r. run_sync sample_ev sample_opts (Inr r) \<and> sr_scanned r \<and> sr_cursor r = 103 \<and> sr_normalized r = [paid_entry] \<and>
     sr_error r = None \<and> seal_utxos sample_ev (ro_key sample_opts) 1 (wk_utxos sample_walk) = Inr (sr_utxos r) \<and>
     sr_utxos r \<noteq> None"
proof -
  have hex: "is_hex64 sample_hash" by code_simp
  have key: "ro_key sample_opts = sample_key" and web: "re_web sample_ev = sample_web"
    by (simp_all add: sample_opts_def sample_ev_def)
  obtain s where s: "seal_all sample_ev sample_key 0 [paid_entry] = Inr s"
    using hex by (simp add: seal_tx_def sealEnvelope_def blindIndex_def computeTxidBlindIndex_def
        requireCanonicalTxid_def deriveBlindIndexKey_def decode_sample_key paid_entry_def)
  obtain u where u: "seal_utxos sample_ev sample_key 1 (wk_utxos sample_walk) = Inr (Some u)"
    by (simp add: seal_utxos_def sealEnvelope_def decode_sample_key sample_walk_def)
  have seed: "seed_utxos sample_ev sample_key (ro_sealed sample_opts) = []"
    by (simp add: seed_utxos_def sample_opts_def)
  have "wk_bytes (start_walk []) = 0" by (simp add: start_walk_def)
  then have walk: "walk_blocks (initial_tx (pl_derived sample_plan)) (open_block (re_sha sample_ev) (re_block sample_ev))
      [(103, sample_hash)] (start_walk []) = Inr sample_walk"
    by (simp add: sample_open sample_step)
  have loop: "extension_loop pe n \<lparr>wi_derived = d, wi_end = (2, 2), wi_exhausted = False, wi_walk = sample_walk, wi_cache = c\<rparr> =
      Inr \<lparr>wi_derived = d, wi_end = (2, 2), wi_exhausted = False, wi_walk = sample_walk, wi_cache = c\<rparr>"
    if "pe_plan pe = sample_plan" for pe n d c
    using that by (cases n) (simp_all add: still_near_def near_edge_def sample_plan_def sample_payload_def sample_walk_def)
  have pl: "pl_from sample_plan = 103" "wp_gap (pl_payload sample_plan) * 2 = 2"
    by (simp_all add: sample_plan_def sample_payload_def)
  have "after_scan sample_ev sample_opts sample_plan sample_pool = finish_run sample_ev sample_opts sample_pool 103
      \<lparr>wi_derived = pl_derived sample_plan, wi_end = (2, 2), wi_exhausted = False, wi_walk = sample_walk, wi_cache = p_cache sample_pool\<rparr>"
    by (rule after_scanI [where w = sample_walk])
      (use walk in \<open>simp_all only: pl sample_outcome key seed loop pass_env.simps\<close>)
  then obtain r where r: "after_scan sample_ev sample_opts sample_plan sample_pool = Inr r" "sr_scanned r" "sr_cursor r = 103"
      "sr_normalized r = [paid_entry]" "sr_error r = None" "sr_utxos r = Some u"
    using s u by (simp add: key finish_run_def sample_finalize) (simp add: sample_pool_def)
  have "run_sync sample_ev sample_opts (Inr r)"
    using run_sync.scanned [OF sample_before, of 1 sample_pool] sample_reaches sample_joined r(1) pl(1) by simp
  then show ?thesis using r u key by auto
qed

end
