(* ===== verification/RunCursor.thy ===== *)
theory RunCursor
  imports RunSync
begin

text \<open>
  Heights of a run: whatever the network answers and however the workers interleave, the cursor a
  run reports was reached without a gap, and no transaction it reports lies above it.
\<close>

section \<open>The accumulator remembers its blocks\<close>

definition made_in :: "block_info \<Rightarrow> tx_acc \<Rightarrow> bool" where
  "made_in b a \<longleftrightarrow> ac_height a = bi_height b \<and> ac_block a = bi_hash b \<and>
     ac_date a = isoDateFromUnix (bi_time b) \<and> ac_instant a = isoInstant (bi_time b)"

definition accs_in :: "(block_info \<Rightarrow> bool) \<Rightarrow> (string \<times> tx_acc) list \<Rightarrow> bool" where
  "accs_in P accs \<longleftrightarrow> (\<forall>x \<in> set accs. \<exists>b. P b \<and> made_in b (snd x))"

lemma accs_in_Nil [simp]: "accs_in P []"
  by (simp add: accs_in_def)

lemma accs_in_update: "accs_in P m \<Longrightarrow> P b \<Longrightarrow> made_in b a \<Longrightarrow> accs_in P (AList.update k a m)"
  by (auto simp: accs_in_def dest!: set_mp [OF set_update_subset_insert_entry])

lemma accs_in_lookup: "accs_in P m \<Longrightarrow> map_of m k = Some a \<Longrightarrow> \<exists>b. P b \<and> made_in b a"
  by (force simp: accs_in_def dest: map_of_SomeD)

lemma made_in_fresh [simp]: "made_in b (fresh_acc b tx s r t)"
  by (simp add: made_in_def fresh_acc_def)

lemma made_in_merge [simp]: "made_in b (merge_acc ds tx s r a) = made_in b a"
  by (simp add: made_in_def merge_acc_def)

definition keeps_accs :: "(block_info \<Rightarrow> bool) \<Rightarrow> (block_info \<Rightarrow> walk \<Rightarrow> parsed_tx \<Rightarrow> walk) \<Rightarrow> bool" where
  "keeps_accs P step \<longleftrightarrow> (\<forall>b w tx. P b \<longrightarrow> accs_in P (wk_accs w) \<longrightarrow> accs_in P (wk_accs (step b w tx)))"

lemma keeps_accs_initial: "keeps_accs P (initial_tx ds)"
  by (auto simp: keeps_accs_def initial_tx_def Let_def intro!: accs_in_update split: prod.splits)

lemma keeps_accs_extension: "keeps_accs P (extension_tx new ds)"
proof -
  have "accs_in P (wk_accs (extension_tx new ds b w tx))"
    if P: "P b" and acc: "accs_in P (wk_accs w)" for b w tx
  proof (cases "map_of (wk_accs w) (txid tx)")
    case None
    then show ?thesis using P acc
      by (auto simp: extension_tx_def Let_def intro!: accs_in_update split: prod.splits)
  next
    case (Some a)
    then obtain c where "P c" "made_in c a" using accs_in_lookup [OF acc] by blast
    then show ?thesis using Some acc
      by (auto simp: extension_tx_def Let_def intro!: accs_in_update [of P _ c] split: prod.splits)
  qed
  then show ?thesis by (simp add: keeps_accs_def)
qed

lemma foldl_accs:
  "keeps_accs P step \<Longrightarrow> P b \<Longrightarrow> accs_in P (wk_accs w) \<Longrightarrow> accs_in P (wk_accs (foldl (step b) w ts))"
  by (induction ts arbitrary: w) (auto simp: keeps_accs_def)

lemma walk_blocks_accs:
  assumes "keeps_accs P step" and "\<And>h b n ts. h \<in> set hs \<Longrightarrow> opened h = Inr (b, n, ts) \<Longrightarrow> P b"
  shows "walk_blocks step opened hs w = Inr w' \<Longrightarrow> accs_in P (wk_accs w) \<Longrightarrow> accs_in P (wk_accs w')"
  using assms(2)
proof (induction hs arbitrary: w)
  case (Cons h hs)
  then obtain b n ts where o: "opened h = Inr (b, n, ts)" by (auto split: sum.splits)
  show ?case
  proof (rule Cons.IH)
    show "walk_blocks step opened hs (foldl (step b) (w\<lparr>wk_bytes := wk_bytes w + n\<rparr>) ts) = Inr w'"
      using Cons.prems(1) o by simp
    show "accs_in P (wk_accs (foldl (step b) (w\<lparr>wk_bytes := wk_bytes w + n\<rparr>) ts))"
      using Cons.prems(2) Cons.prems(3) [OF _ o] by (intro foldl_accs [OF assms(1)]) simp_all
    show "\<And>h' b n ts. h' \<in> set hs \<Longrightarrow> opened h' = Inr (b, n, ts) \<Longrightarrow> P b"
      using Cons.prems(3) by (meson list.set_intros(2))
  qed
qed simp

text \<open>What is known of the blocks of a run.\<close>

definition block_of :: "int \<Rightarrow> int \<Rightarrow> block_info \<Rightarrow> bool" where
  "block_of lo hi b \<longleftrightarrow> lo \<le> bi_height b \<and> bi_height b \<le> hi \<and> is_hex64 (bi_hash b) \<and> bi_time b < 2 ^ 32"

definition good_hits :: "int \<Rightarrow> int \<Rightarrow> hit list \<Rightarrow> bool" where
  "good_hits lo hi hs \<longleftrightarrow> (\<forall>x \<in> set hs. lo \<le> fst x \<and> fst x \<le> hi \<and> is_hex64 (snd x))"

lemma header_time: "parseBlockHeader sha raw = Inr header \<Longrightarrow> timestamp header < 2 ^ 32"
  using unsigned_less [of "le32 (drop 68 (take 80 raw))"]
  by (auto simp: parseBlockHeader_def Let_def split: if_splits sum.splits)

lemma open_block_of:
  assumes "open_block sha fetch h = Inr (b, n, ts)" and "good_hits lo hi hs" and "h \<in> set hs"
  shows "block_of lo hi b"
  using assms header_time
  by (auto simp: open_block_def Let_def block_of_def good_hits_def split: sum.splits)

lemma walk_blocks_block_of:
  assumes "keeps_accs (block_of lo hi) step" and "good_hits lo hi hs"
    and "walk_blocks step (open_block sha fetch) hs w = Inr w'" and "accs_in (block_of lo hi) (wk_accs w)"
  shows "accs_in (block_of lo hi) (wk_accs w')"
  by (rule walk_blocks_accs [OF assms(1) _ assms(3,4)]) (use open_block_of [OF _ assms(2)] in blast)

section \<open>The scan of a pass\<close>

definition hex_cache :: "(int \<rightharpoonup> filter_record option) \<Rightarrow> bool" where
  "hex_cache c \<longleftrightarrow> (\<forall>h r. c h = Some (Some r) \<longrightarrow> is_hex64 (flt_hash r))"

definition hex_source :: "(int \<Rightarrow> filter_answer) \<Rightarrow> bool" where
  "hex_source src \<longleftrightarrow> (\<forall>h r. src h = Inr (Some r) \<longrightarrow> is_hex64 (flt_hash r))"

lemma ext_answer_hex:
  assumes "hex_source src" and "hex_cache c"
  shows "\<exists>f c1 n1. ext_answer src h (c, n, hs) = (f, c1, n1, hs) \<and> hex_cache c1 \<and>
    (\<forall>r. f = Some (Some r) \<longrightarrow> is_hex64 (flt_hash r))"
proof (cases "c h")
  case None
  then show ?thesis using assms
    by (cases "src h") (auto simp: ext_answer_def hex_cache_def hex_source_def)
qed (use assms in \<open>auto simp: ext_answer_def hex_cache_def\<close>)

lemma ext_scan_hits:
  assumes src: "hex_source src"
  shows "ext_scan job src heights (c, n, hs) = Inr (c', n', hs') \<Longrightarrow> hex_cache c \<Longrightarrow>
    good_hits lo hi hs \<Longrightarrow> set heights \<subseteq> {lo..hi} \<Longrightarrow> hex_cache c' \<and> good_hits lo hi hs'"
proof (induction heights arbitrary: c n hs)
  case (Cons h heights)
  obtain f c1 n1 where a: "ext_answer src h (c, n, hs) = (f, c1, n1, hs)"
    and c1: "hex_cache c1" and f: "\<And>r. f = Some (Some r) \<Longrightarrow> is_hex64 (flt_hash r)"
    using ext_answer_hex [OF src Cons.prems(2)] by metis
  show ?case
  proof (cases "\<exists>r. f = Some (Some r)")
    case True
    then obtain r m where r: "f = Some (Some r)" "match_filter job r = Inr m"
      using Cons.prems(1) a by (auto split: sum.splits)
    then show ?thesis using Cons.prems a f [of r] c1
      by (intro Cons.IH [of c1 n1 "if m then hs @ [(h, flt_hash r)] else hs"]) (auto simp: good_hits_def)
  next
    case False
    then have rest: "ext_scan job src heights (c1, n1, hs) = Inr (c', n', hs')"
      using Cons.prems(1) a by (cases f rule: option.exhaust; auto split: option.splits)
    show ?thesis by (rule Cons.IH [OF rest c1 Cons.prems(3)]) (use Cons.prems(4) in auto)
  qed
qed simp

lemma set_sorted_hits [simp]: "set (sortByAscendingHeight hs) = set hs"
  by (simp add: sortByAscendingHeight_def)

lemma sorted_hits_Nil [simp]: "sortByAscendingHeight hs = [] \<longleftrightarrow> hs = []"
  by (metis set_empty set_sorted_hits)

lemma trim_good:
  "good_hits lo hi hs \<Longrightarrow> (aborted \<or> cur = hi) \<Longrightarrow> good_hits lo cur (trim_hits aborted cur (sortByAscendingHeight hs))"
  by (auto simp: good_hits_def trim_hits_def)

section \<open>The rolling window\<close>

text \<open>What every pass keeps: hashes in the cache, and blocks of the accumulator up to the cursor.\<close>

definition window_ok :: "int \<Rightarrow> int \<Rightarrow> window \<Rightarrow> bool" where
  "window_ok lo cur wi \<longleftrightarrow> hex_cache (wi_cache wi) \<and> accs_in (block_of lo cur) (wk_accs (wi_walk wi))"

definition pass_safe :: "pass_env \<Rightarrow> bool" where
  "pass_safe pe \<longleftrightarrow> hex_source (re_filter (pe_ev pe)) \<and> (pe_aborted pe \<or> pe_cursor pe = pl_tip (pe_plan pe))"

lemma extension_pass_ok:
  assumes safe: "pass_safe pe" and ok: "window_ok (pl_from (pe_plan pe)) (pe_cursor pe) wi"
    and pass: "extension_pass pe wi = Inr wi'"
  shows "window_ok (pl_from (pe_plan pe)) (pe_cursor pe) wi'"
proof -
  let ?lo = "pl_from (pe_plan pe)" and ?hi = "pl_tip (pe_plan pe)" and ?new = "pass_new pe wi"
  obtain c n hs where scan: "ext_scan (job_of (pe_ev pe) ?hi ?new) (re_filter (pe_ev pe)) [?lo..?hi] (wi_cache wi, 0, []) = Inr (c, n, hs)"
    using pass by (auto simp: extension_pass_def Let_def split: sum.splits)
  then have h: "hex_cache c" "good_hits ?lo ?hi hs"
    using ext_scan_hits [of "re_filter (pe_ev pe)" _ "[?lo..?hi]" "wi_cache wi" 0 "[]" c n hs ?lo ?hi] safe ok
    by (auto simp: pass_safe_def window_ok_def good_hits_def)
  let ?hs = "trim_hits (pe_aborted pe) (pe_cursor pe) (sortByAscendingHeight hs)"
  have hits: "good_hits ?lo (pe_cursor pe) ?hs"
    using trim_good [OF h(2)] safe by (auto simp: pass_safe_def)
  have walk: "walk_blocks (extension_tx ?new (wi_derived wi @ ?new)) (open_block (re_sha (pe_ev pe)) (re_block (pe_ev pe)))
      ?hs ((wi_walk wi)\<lparr>wk_bytes := wk_bytes (wi_walk wi) + n\<rparr>) = Inr (wi_walk wi')" and c: "wi_cache wi' = c"
    using pass scan by (auto simp: extension_pass_def Let_def split: sum.splits)
  have "accs_in (block_of ?lo (pe_cursor pe)) (wk_accs (wi_walk wi'))"
    by (rule walk_blocks_block_of [OF keeps_accs_extension hits walk]) (use ok in \<open>simp add: window_ok_def\<close>)
  then show ?thesis using h(1) c by (simp add: window_ok_def)
qed

lemma extension_loop_ok:
  assumes "pass_safe pe"
  shows "extension_loop pe n wi = Inr wi' \<Longrightarrow> window_ok (pl_from (pe_plan pe)) (pe_cursor pe) wi \<Longrightarrow>
    window_ok (pl_from (pe_plan pe)) (pe_cursor pe) wi'"
proof (induction n arbitrary: wi)
  case (Suc n)
  show ?case
  proof (cases "still_near pe wi")
    case True
    then obtain wi1 where "extension_pass pe wi = Inr wi1" "extension_loop pe n wi1 = Inr wi'"
      using Suc.prems(1) by (auto split: sum.splits)
    then show ?thesis using Suc.IH extension_pass_ok [OF assms Suc.prems(2)] by blast
  qed (use Suc.prems in simp)
qed (simp split: if_splits)

section \<open>Whole runs\<close>

lemma finalize_from:
  assumes "accs_in P accs" and "t \<in> set (finalize accs)"
  shows "\<exists>b. P b \<and> nt_height t = bi_height b \<and> nt_block t = bi_hash b \<and> nt_date t = isoDateFromUnix (bi_time b)"
proof -
  obtain k a where "(k, a) \<in> set accs" "finalize_tx (k, a) = Some t"
    using assms(2) by (auto simp: finalize_def map_filter_def)
  then show ?thesis using assms(1)
    by (force simp: finalize_tx_def Let_def accs_in_def made_in_def split: if_splits)
qed

text \<open>The scan of a run starts at or above height 0 and stays six blocks below the tip.\<close>

lemma before_scan_plan:
  assumes "before_scan ev opts = Inr (Inl pl)"
  shows "\<exists>chainTip. re_tip ev = Inr chainTip \<and> pl_tip pl = chainTip - CONFIRMATION_DEPTH"
    and "pl_from pl \<le> pl_tip pl" and "0 \<le> pl_from pl" and "pl_from pl = from_height_of opts"
    and "unsealEnvelope (re_web ev) (re_payload ev) (ro_envelope opts) (ro_key opts) = Inr (pl_payload pl)"
    and "derive_window ev opts (pl_payload pl) = Inr (pl_derived pl)"
proof -
  obtain p derived chainTip where b: "unsealEnvelope (re_web ev) (re_payload ev) (ro_envelope opts) (ro_key opts) = Inr p"
    "derive_window ev opts p = Inr derived" "re_tip ev = Inr chainTip"
    "\<not> birthday_refused (ro_birthday opts) chainTip" "\<not> from_height_of opts > chainTip - CONFIRMATION_DEPTH"
    and pl: "pl = \<lparr>pl_payload = p, pl_derived = derived, pl_tip = chainTip - CONFIRMATION_DEPTH, pl_from = from_height_of opts\<rparr>"
    using assms by (auto simp: before_scan_def Let_def split: sum.splits if_splits)
  obtain n where n: "ro_birthday opts = jsint n" "0 \<le> n"
    using b(4) by (auto simp: birthday_refused_def is_integer_iff)
  show "0 \<le> pl_from pl"
    using n by (simp add: pl from_height_of_def scanStartHeight_int)
  show "\<exists>chainTip. re_tip ev = Inr chainTip \<and> pl_tip pl = chainTip - CONFIRMATION_DEPTH"
    "pl_from pl \<le> pl_tip pl" "pl_from pl = from_height_of opts"
    "unsealEnvelope (re_web ev) (re_payload ev) (ro_envelope opts) (ro_key opts) = Inr (pl_payload pl)"
    "derive_window ev opts (pl_payload pl) = Inr (pl_derived pl)"
    using b by (simp_all add: pl)
qed

text \<open>The stages of a run that returned after a scan.\<close>

lemma run_stages:
  assumes "run_sync ev opts (Inr r)" and "sr_scanned r"
  obtains pl n p cur aborted hits w wi where "before_scan ev opts = Inr (Inl pl)"
    and "pool_reaches (plan_job ev pl) (re_filter ev) (pl_from pl) n p" and "all_returned p"
    and "scan_outcome (plan_job ev pl) (pl_from pl) p = (cur, aborted, hits)" and "aborted = p_aborted p"
    and "walk_blocks (initial_tx (pl_derived pl)) (open_block (re_sha ev) (re_block ev)) hits
      (start_walk (seed_utxos ev (ro_key opts) (ro_sealed opts))) = Inr w"
    and "extension_loop \<lparr>pe_ev = ev, pe_plan = pl, pe_aborted = aborted, pe_cursor = cur\<rparr>
      (case ro_passes opts of None \<Rightarrow> 10 | Some n \<Rightarrow> n)
      \<lparr>wi_derived = pl_derived pl, wi_end = (wp_gap (pl_payload pl) * 2, wp_gap (pl_payload pl) * 2),
        wi_exhausted = False, wi_walk = w, wi_cache = p_cache p\<rparr> = Inr wi"
    and "finish_run ev opts p cur wi = Inr r"
  using assms(1)
proof (cases rule: run_sync.cases)
  case current
  then have "\<not> sr_scanned r"
    by (auto simp: before_scan_def up_to_date_def Let_def split: sum.splits if_splits)
  then show ?thesis using assms(2) by simp
next
  case (scanned pl n p)
  obtain cur aborted hits where o: "scan_outcome (plan_job ev pl) (pl_from pl) p = (cur, aborted, hits)"
    by (metis prod_cases3)
  have "aborted = p_aborted p" using o by (simp add: scan_outcome_def Let_def)
  then show ?thesis using scanned o that [OF scanned(2,3,4) o]
    by (auto simp: after_scan_def Let_def split: sum.splits)
qed

lemma claim_failure: "p_aborted (snd (claim job p)) = p_aborted p \<and> p_failure (snd (claim job p)) = p_failure p"
  by (simp add: claim_def)

lemma abort_has_failure: "pool_reaches job src lo n p \<Longrightarrow> p_aborted p \<longleftrightarrow> p_failure p \<noteq> None"
proof (induction rule: pool_reaches.induct)
  case start
  have "p_aborted ((start_worker job ^^ k) (fresh_pool lo)) = False \<and> p_failure ((start_worker job ^^ k) (fresh_pool lo)) = None" for k
    by (induction k) (simp_all add: fresh_pool_def start_worker_def claim_failure split_beta)
  then show ?case by (simp add: start_pool_def)
next
  case (step n p q)
  from step.hyps(2) show ?case
  proof (cases rule: pool_step.cases)
    case (answered i h)
    have "p_aborted (take_answer job h f p) = p_aborted p \<and> p_failure (take_answer job h f p) = p_failure p" for f
      by (simp add: take_answer_def Let_def split: option.splits sum.splits)
    then show ?thesis using step.IH claim_failure answered
      by (simp add: resume_def set_worker_def give_up_def Let_def split_beta split: sum.splits option.splits)
  qed
qed

lemma live_hex: "hex_source (liveFetchFilter pf nw)"
  using live.bound_to_height by (simp add: hex_source_def)

lemma joined_cache:
  assumes "pool_reaches job src lo n p" and "wf_source src" and "hex_source src"
  shows "hex_cache (p_cache p)"
proof -
  have "pool_core job src lo (p_next p) (p_cache p) (p_aborted p) (p_hits p) (waits (p_workers p))"
    using reaches_inv [OF assms(1,2)] by (simp add: pool_inv_def)
  from pool_coreD(5) [OF this] assms(3) show ?thesis by (force simp: hex_cache_def hex_source_def)
qed

text \<open>The invariant of the whole run over the live source.\<close>

lemma live_run:
  assumes run: "run_sync ev opts (Inr r)" "sr_scanned r" and live: "re_filter ev = liveFetchFilter pf nw"
  obtains chainTip where "re_tip ev = Inr chainTip"
    and "0 \<le> from_height_of opts" "from_height_of opts - 1 \<le> sr_cursor r" "sr_cursor r \<le> chainTip - CONFIRMATION_DEPTH"
    and "\<forall>h \<in> {from_height_of opts..sr_cursor r}. readable (re_filter ev) h"
    and "sr_cursor r < chainTip - CONFIRMATION_DEPTH \<longleftrightarrow> sr_error r \<noteq> None"
    and "\<forall>t \<in> set (sr_normalized r). \<exists>b. block_of (from_height_of opts) (sr_cursor r) b \<and>
      nt_height t = bi_height b \<and> nt_block t = bi_hash b \<and> nt_date t = isoDateFromUnix (bi_time b)"
  using run
proof (rule run_stages)
  fix pl n p cur aborted hits w wi
  assume plan: "before_scan ev opts = Inr (Inl pl)"
    and reach: "pool_reaches (plan_job ev pl) (re_filter ev) (pl_from pl) n p" and all: "all_returned p"
    and o: "scan_outcome (plan_job ev pl) (pl_from pl) p = (cur, aborted, hits)" and ab: "aborted = p_aborted p"
    and walk: "walk_blocks (initial_tx (pl_derived pl)) (open_block (re_sha ev) (re_block ev)) hits
      (start_walk (seed_utxos ev (ro_key opts) (ro_sealed opts))) = Inr w"
    and loop: "extension_loop \<lparr>pe_ev = ev, pe_plan = pl, pe_aborted = aborted, pe_cursor = cur\<rparr>
      (case ro_passes opts of None \<Rightarrow> 10 | Some n \<Rightarrow> n)
      \<lparr>wi_derived = pl_derived pl, wi_end = (wp_gap (pl_payload pl) * 2, wp_gap (pl_payload pl) * 2),
        wi_exhausted = False, wi_walk = w, wi_cache = p_cache p\<rparr> = Inr wi"
    and fin: "finish_run ev opts p cur wi = Inr r"
  note b = before_scan_plan [OF plan]
  have tip: "j_tip (plan_job ev pl) = pl_tip pl" by (simp add: plan_job_def job_of_def)
  have s: "sound_outcome (plan_job ev pl) (re_filter ev) (pl_from pl) (cur, aborted, hits)"
    using live.scan [OF reach [unfolded live] all] live.sequential_sound [of "pl_from pl" "plan_job ev pl" pf nw] b(2) o
    by (simp add: live tip)
  have hits: "good_hits (pl_from pl) cur hits" using s by (simp add: sound_outcome_def good_hits_def)
  have "accs_in (block_of (pl_from pl) cur) (wk_accs w)"
    by (rule walk_blocks_block_of [OF keeps_accs_initial hits walk]) (simp add: start_walk_def)
  moreover have "hex_cache (p_cache p)"
    using joined_cache [OF reach] live.wf live_hex by (simp add: live)
  ultimately have "window_ok (pl_from pl) cur wi"
    using extension_loop_ok [OF _ loop] s live_hex
    by (auto simp: pass_safe_def window_ok_def sound_outcome_def tip live)
  then have txs: "\<forall>t \<in> set (finalize (wk_accs (wi_walk wi))). \<exists>c. block_of (pl_from pl) cur c \<and>
      nt_height t = bi_height c \<and> nt_block t = bi_hash c \<and> nt_date t = isoDateFromUnix (bi_time c)"
    using finalize_from by (auto simp: window_ok_def)
  obtain chainTip where ct: "re_tip ev = Inr chainTip" "pl_tip pl = chainTip - CONFIRMATION_DEPTH" using b(1) by blast
  have r: "sr_cursor r = cur" "sr_error r = p_failure p" "sr_normalized r = finalize (wk_accs (wi_walk wi))"
    using fin by (auto simp: finish_run_def Let_def split: sum.splits)
  show thesis
    using that [OF ct(1)] s b(3,4) txs ct r ab abort_has_failure [OF reach]
    by (auto simp: sound_outcome_def tip)
qed

text \<open>
  C5: over the live filter source, whatever the network answers and however the workers interleave,
  every height from the start of a scanning run up to the cursor it returns was read, the cursor
  stays six blocks below the tip and short of that only when the run reports a failed filter fetch,
  and every transaction the run reports, found in the first walk or in a later pass over the
  rolling window, lies in a block between the start and the cursor: what a run seals never lies
  above a height it has not read.
\<close>

theorem run_stays_below_cursor:
  assumes "run_sync ev opts (Inr r)" and "sr_scanned r" and "re_filter ev = liveFetchFilter pf nw"
  shows "\<exists>chainTip. re_tip ev = Inr chainTip \<and> sr_cursor r \<le> chainTip - 6 \<and>
    (sr_cursor r < chainTip - 6 \<longleftrightarrow> sr_error r \<noteq> None) \<and>
    (\<forall>h \<in> {from_height_of opts..sr_cursor r}. readable (re_filter ev) h) \<and>
    (\<forall>t \<in> set (sr_normalized r). from_height_of opts \<le> nt_height t \<and> nt_height t \<le> sr_cursor r)"
proof (rule live_run [OF assms])
  fix chainTip
  assume "re_tip ev = Inr chainTip" "sr_cursor r \<le> chainTip - CONFIRMATION_DEPTH"
    "\<forall>h \<in> {from_height_of opts..sr_cursor r}. readable (re_filter ev) h"
    "sr_cursor r < chainTip - CONFIRMATION_DEPTH \<longleftrightarrow> sr_error r \<noteq> None"
    and t: "\<forall>t \<in> set (sr_normalized r). \<exists>b. block_of (from_height_of opts) (sr_cursor r) b \<and>
      nt_height t = bi_height b \<and> nt_block t = bi_hash b \<and> nt_date t = isoDateFromUnix (bi_time b)"
  moreover have "\<forall>t \<in> set (sr_normalized r). from_height_of opts \<le> nt_height t \<and> nt_height t \<le> sr_cursor r"
    using t by (auto simp: block_of_def)
  ultimately show ?thesis by (auto simp: CONFIRMATION_DEPTH_def)
qed

theorem run_stays_below_cursor_witness:
  "\<exists>r. run_sync sample_ev sample_opts (Inr r) \<and> sr_normalized r = [paid_entry] \<and> sr_cursor r = 103 \<and>
     readable (re_filter sample_ev) 103 \<and> 103 \<le> nt_height paid_entry \<and> nt_height paid_entry \<le> 103"
proof -
  obtain r where r: "run_sync sample_ev sample_opts (Inr r)" "sr_scanned r" "sr_cursor r = 103" "sr_normalized r = [paid_entry]"
    using sample_run by auto
  have "re_filter sample_ev = liveFetchFilter sample_platform sample_chain" by (simp add: sample_ev_def)
  from run_stays_below_cursor [OF r(1,2) this]
  have "(\<forall>h \<in> {from_height_of sample_opts..103}. readable (re_filter sample_ev) h) \<and>
      from_height_of sample_opts \<le> nt_height paid_entry \<and> nt_height paid_entry \<le> 103"
    using r(3,4) by auto
  moreover have "from_height_of sample_opts = 103"
    by (simp add: from_height_of_def sample_opts_def scanStartHeight_def)
  ultimately show ?thesis using r by auto
qed

end
