(* ===== verification/RunLedger.thy ===== *)
theory RunLedger
  imports RunCursor
begin

text \<open>
  Value through a whole run: the set of unspent outputs survives sealing, and what a run reports
  is the difference between the set it leaves and the set it was given.
\<close>

section \<open>Numbers as text\<close>

lemma read_digits_append:
  "read_digits r n (s @ t) = (case read_digits r n s of None \<Rightarrow> None | Some k \<Rightarrow> read_digits r k t)"
  by (induction s arbitrary: n) (auto split: option.splits)

lemma hex_value_decimal: "k < 10 \<Longrightarrow> hex_value (''0123456789'' ! k) = Some k"
  by (auto simp: eval_nat_numeral less_Suc_eq)

lemma read_digits_nat_text: "read_digits 10 0 (nat_text n) = Some n"
proof (induction n rule: nat_text.induct)
  case (1 n)
  show ?case
  proof (cases "n < 10")
    case True
    then show ?thesis using hex_value_decimal [OF True] by (subst nat_text.simps) (simp del: hex_value.simps)
  next
    case False
    then show ?thesis using 1 hex_value_decimal [of "n mod 10"]
      by (subst nat_text.simps) (simp add: read_digits_append del: hex_value.simps)
  qed
qed

lemma digit_plain: "is_digit c \<Longrightarrow> \<not> is_space c \<and> c \<noteq> CHR ''-'' \<and> c \<noteq> CHR ''+'' \<and> c \<notin> set ''xXoObB''"
  by (auto simp: is_digit_def is_space_def)

lemma nat_text_not_Nil: "nat_text n \<noteq> []"
  by (subst nat_text.simps) simp

lemma whole_nat_text: "whole 10 (nat_text n) = Some n"
  by (simp add: whole_def nat_text_not_Nil read_digits_nat_text)

lemma trim_plain: "\<forall>c \<in> set t. \<not> is_space c \<Longrightarrow> trim_text t = t"
  unfolding trim_text_def by (metis dropWhile_eq_self_iff hd_in_set rev_rev_ident set_rev)

lemma js_BigInt_nat: "js_BigInt (nat_text n) = Some (int n)"
proof -
  have digits: "\<forall>c \<in> set (nat_text n). is_digit c" using nat_text_digits [of n] by (simp add: list_all_iff)
  obtain c cs where t: "nat_text n = c # cs" using nat_text_not_Nil by (cases "nat_text n") auto
  have c: "is_digit c" using digits t by simp
  have based: "based_whole (nat_text n) = None"
    using digits digit_plain by (auto simp: t based_whole_def split: list.splits)
  have "signed_whole (nat_text n) = Some (int n)"
    using digit_plain [OF c] whole_nat_text [of n] by (simp add: t signed_whole_def)
  then show ?thesis
    using trim_plain [of "nat_text n"] digits digit_plain based by (simp add: js_BigInt_def nat_text_not_Nil)
qed

lemma js_BigInt_minus: "js_BigInt (''-'' @ nat_text n) = Some (- int n)"
proof -
  have "\<forall>c \<in> set (''-'' @ nat_text n). \<not> is_space c"
    using nat_text_digits [of n] digit_plain by (auto simp: list_all_iff is_space_def)
  then have "trim_text (''-'' @ nat_text n) = ''-'' @ nat_text n" by (rule trim_plain)
  moreover have "based_whole (''-'' @ nat_text n) = None"
    by (simp add: based_whole_def split: list.splits)
  ultimately show ?thesis by (simp add: js_BigInt_def signed_whole_def whole_nat_text)
qed

lemma js_BigInt_int_text: "js_BigInt (int_text v) = Some v"
  using js_BigInt_nat [of "nat v"] js_BigInt_minus [of "nat (- v)"] by (simp add: int_text_def)

section \<open>The set of unspent outputs survives sealing\<close>

lemma update_append_fresh: "k \<notin> fst ` set m \<Longrightarrow> AList.update k v m = m @ [(k, v)]"
  by (induction m) auto

lemma seed_loop_entries:
  "distinct (map fst (m @ n)) \<Longrightarrow> seed_loop (map utxo_entry n) m = m @ n"
proof (induction n arbitrary: m)
  case (Cons x n)
  have "seed_entry (utxo_entry x) m = Some (AList.update (fst x) (snd x) m)"
    by (cases "snd x") (simp add: seed_entry_def utxo_entry_def js_BigInt_int_text)
  moreover have "AList.update (fst x) (snd x) m = m @ [x]"
    using update_append_fresh [of "fst x" m "snd x"] Cons.prems by simp
  moreover have "seed_loop (map utxo_entry n) (m @ [x]) = (m @ [x]) @ n"
    by (rule Cons.IH) (use Cons.prems in auto)
  ultimately show ?case by simp
qed simp

definition utxos_survive :: "run_env \<Rightarrow> bool" where
  "utxos_survive ev \<longleftrightarrow> web_laws (re_web ev) \<and>
     (\<forall>m. parse (re_utxos ev) (stringify (re_utxos ev) (JArr (map utxo_entry m))) = Some (JArr (map utxo_entry m)))"

lemma seed_of_sealed:
  assumes laws: "utxos_survive ev" and dist: "distinct (map fst m)" and seal: "seal_utxos ev key i m = Inr u"
  shows "seed_utxos ev key u = m"
proof (cases "m = []")
  case True
  then show ?thesis using seal by (simp add: seal_utxos_def seed_utxos_def)
next
  case False
  then obtain e where e: "sealEnvelope (re_web ev) (re_utxos ev) (re_iv ev i) (JArr (map utxo_entry m)) key = Inr e" "u = Some e"
    using seal by (cases "sealEnvelope (re_web ev) (re_utxos ev) (re_iv ev i) (JArr (map utxo_entry m)) key")
      (auto simp: seal_utxos_def)
  have "unsealEnvelope (re_web ev) (re_utxos ev) e key = Inr (JArr (map utxo_entry m))"
    using laws seal_unseal [OF _ _ e(1)] by (simp add: utxos_survive_def)
  then show ?thesis using e(2) seed_loop_entries [of "[]" m] dist by (simp add: seed_utxos_def)
qed

section \<open>Amounts\<close>

lemma bit_count_bounds: "0 < n \<Longrightarrow> 2 ^ (bit_count n - 1) \<le> n \<and> n < 2 ^ bit_count n"
proof (induction n rule: bit_count.induct)
  case (1 n)
  show ?case
  proof (cases "n = 1")
    case True
    then show ?thesis by (simp add: bit_count.simps)
  next
    case False
    then have pos: "0 < n div 2" and n: "n \<noteq> 0" using "1.prems" by auto
    have half: "2 ^ (bit_count (n div 2) - 1) \<le> n div 2" "n div 2 < 2 ^ bit_count (n div 2)"
      using "1.IH" [OF n pos] by auto
    have count: "bit_count n = Suc (bit_count (n div 2))" using n by (simp add: bit_count.simps [of n])
    have "0 < bit_count (n div 2)" using pos by (simp add: bit_count.simps [of "n div 2"])
    then have "(2::nat) ^ bit_count (n div 2) = 2 * 2 ^ (bit_count (n div 2) - 1)"
      by (metis Suc_diff_1 power_Suc)
    then have "2 ^ bit_count n = 4 * (2::nat) ^ (bit_count (n div 2) - 1)" "2 ^ (bit_count n - 1) = 2 * (2::nat) ^ (bit_count (n div 2) - 1)"
      "(2::nat) ^ bit_count (n div 2) = 2 * 2 ^ (bit_count (n div 2) - 1)"
      by (simp_all add: count)
    moreover have "2 * (n div 2) \<le> n" "n < 2 * (n div 2) + 2" by auto
    ultimately show ?thesis using half by linarith
  qed
qed

lemma round53_exact: "n < 2 ^ 53 \<Longrightarrow> round53 n = n"
proof -
  assume n: "n < 2 ^ 53"
  have "bit_count n \<le> 53"
  proof (rule ccontr)
    assume "\<not> bit_count n \<le> 53"
    then have "53 \<le> bit_count n - 1" and pos: "0 < n" by (auto simp: bit_count.simps [of 0] intro!: Nat.gr0I)
    then have "(2::nat) ^ 53 \<le> 2 ^ (bit_count n - 1)" by (intro power_increasing) simp_all
    then show False using bit_count_bounds [OF pos] n by linarith
  qed
  then show ?thesis by (simp add: round53_def)
qed

lemma round53_large: "2 ^ 53 \<le> n \<Longrightarrow> 2 ^ 53 \<le> round53 n"
proof -
  assume n: "(2::nat) ^ 53 \<le> n"
  define k where "k = bit_count n - 53"
  have pos: "0 < n" using n by (metis gr0I not_less zero_less_numeral zero_less_power)
  have "2 ^ 53 < (2::nat) ^ bit_count n" using bit_count_bounds [OF pos] n by linarith
  then have "53 < bit_count n" by (rule power_less_imp_less_exp [rotated]) simp
  then have k: "bit_count n - 1 = 52 + k" "0 < k" by (auto simp: k_def)
  have "2 ^ (52 + k) \<le> n" using bit_count_bounds [OF pos] k(1) by simp
  then have "2 ^ 52 \<le> n div 2 ^ k"
    by (metis div_le_mono nonzero_mult_div_cancel_right power_add power_not_zero zero_neq_numeral)
  then have "2 ^ 52 * 2 ^ k \<le> n div 2 ^ k * (2::nat) ^ k" by (rule mult_right_mono) simp
  moreover have "(2::nat) ^ 53 \<le> 2 ^ 52 * 2 ^ k"
    using k(2) power_increasing [of 53 "52 + k" "2::nat"] by (simp add: power_add)
  moreover have "n div 2 ^ k * 2 ^ k \<le> round53 n"
    by (simp add: round53_def Let_def k_def)
  ultimately show ?thesis by linarith
qed

lemma js_Number_exact: "\<bar>js_Number x\<bar> < 2 ^ 53 \<Longrightarrow> js_Number x = x"
proof -
  have small: "round53 n = n" if "int (round53 n) < 2 ^ 53" for n
  proof (rule round53_exact, rule ccontr)
    assume "\<not> n < 2 ^ 53"
    then have "2 ^ 53 \<le> round53 n" by (intro round53_large) (simp only: not_less)
    then have "int (2 ^ 53) \<le> int (round53 n)" by (simp only: of_nat_le_iff)
    then show False using that by simp
  qed
  assume "\<bar>js_Number x\<bar> < 2 ^ 53"
  then show ?thesis using small [of "nat x"] small [of "nat (- x)"]
    by (auto simp: js_Number_def split: if_splits)
qed

text \<open>The signed amount of a reported transaction.\<close>

definition signed_amount :: "normalized_tx \<Rightarrow> int" where
  "signed_amount t = (if nt_out t then - nt_amount t else nt_amount t)"

lemma finalize_net:
  "fair_accs accs \<Longrightarrow> \<forall>t \<in> set (finalize accs). \<bar>nt_amount t\<bar> < 2 ^ 53 \<Longrightarrow>
     sum_list (map signed_amount (finalize accs)) = asum net accs"
proof (induction accs)
  case Nil
  then show ?case by (simp add: finalize_def List.map_filter_def)
next
  case (Cons x accs)
  obtain k a where x: "x = (k, a)" by fastforce
  have fair: "fair_accs accs" "0 \<le> ac_spent a" "0 \<le> ac_received a"
    using Cons.prems(1) by (auto simp: fair_accs_def x)
  have fin: "finalize (x # accs) = (case finalize_tx x of None \<Rightarrow> [] | Some t \<Rightarrow> [t]) @ finalize accs"
    by (simp add: finalize_def List.map_filter_def split: option.splits)
  have IH: "sum_list (map signed_amount (finalize accs)) = asum net accs"
    using Cons.IH fair(1) Cons.prems(2) fin by auto
  have "(case finalize_tx x of None \<Rightarrow> 0 | Some t \<Rightarrow> signed_amount t) = net a"
  proof (cases "finalize_tx x")
    case None
    then show ?thesis using fair by (auto simp: x finalize_tx_def net_def Let_def split: if_splits)
  next
    case (Some t)
    then have "\<bar>nt_amount t\<bar> < 2 ^ 53" using Cons.prems(2) fin by simp
    then show ?thesis using Some js_Number_exact [of "ac_spent a - ac_received a"] js_Number_exact [of "ac_received a"] fair
      by (auto simp: x finalize_tx_def net_def signed_amount_def Let_def split: if_splits)
  qed
  then show ?case using IH fin by (simp add: x split: option.splits)
qed

section \<open>The chain\<close>

abbreviation opened :: "run_env \<Rightarrow> hit \<Rightarrow> sync_error + block_info \<times> nat \<times> parsed_tx list" where
  "opened ev \<equiv> open_block (re_sha ev) (re_block ev)"

text \<open>A block that the filter source announces at a height from \<open>lo\<close> on, and its transactions.\<close>

definition served :: "run_env \<Rightarrow> int \<Rightarrow> hit \<Rightarrow> bool" where
  "served ev lo x \<longleftrightarrow> lo \<le> fst x \<and> (\<exists>r. re_filter ev (fst x) = Inr (Some r) \<and> flt_hash r = snd x)"

definition on_chain :: "run_env \<Rightarrow> int \<Rightarrow> parsed_tx \<Rightarrow> bool" where
  "on_chain ev lo tx \<longleftrightarrow> (\<exists>x b n ts. served ev lo x \<and> opened ev x = Inr (b, n, ts) \<and> tx \<in> set ts)"

text \<open>
  What a chain promises: an identifier stands for one transaction in one place.  And of the
  derivation: no two addresses share a script.
\<close>

definition honest_blocks :: "run_env \<Rightarrow> int \<Rightarrow> bool" where
  "honest_blocks ev lo \<longleftrightarrow> (\<forall>x y b n ts b' n' ts'. served ev lo x \<longrightarrow> served ev lo y \<longrightarrow>
     opened ev x = Inr (b, n, ts) \<longrightarrow> opened ev y = Inr (b', n', ts') \<longrightarrow> distinct (map txid ts) \<and>
     (\<forall>tx \<in> set ts. \<forall>tx' \<in> set ts'. txid tx = txid tx' \<longrightarrow> x = y \<and> tx = tx'))"

definition distinct_scripts :: "run_env \<Rightarrow> bool" where
  "distinct_scripts ev \<longleftrightarrow> (\<forall>p c c' i i'. c \<le> 1 \<longrightarrow> c' \<le> 1 \<longrightarrow>
     fst (re_derive ev p c i) = fst (re_derive ev p c' i') \<longrightarrow> c = c' \<and> i = i')"

lemma honest_blocksD:
  assumes "honest_blocks ev lo" and "served ev lo x" "opened ev x = Inr (b, n, ts)"
  shows "distinct (map txid ts)"
    and "served ev lo y \<Longrightarrow> opened ev y = Inr (b', n', ts') \<Longrightarrow> tx \<in> set ts \<Longrightarrow> tx' \<in> set ts' \<Longrightarrow>
      txid tx = txid tx' \<Longrightarrow> x = y \<and> tx = tx'"
  using assms unfolding honest_blocks_def by blast+

lemma chain_unique: "honest_blocks ev lo \<Longrightarrow> on_chain ev lo tx \<Longrightarrow> on_chain ev lo tx' \<Longrightarrow> txid tx = txid tx' \<Longrightarrow> tx = tx'"
  unfolding on_chain_def using honest_blocksD(2) by blast

lemma opened_plain: "opened ev x = Inr (b, n, ts) \<Longrightarrow> tx \<in> set ts \<Longrightarrow> plain_id tx"
  by (auto simp: open_block_def Let_def split: sum.splits dest: parse_block_txs_plain)

lemma chain_plain: "on_chain ev lo tx \<Longrightarrow> plain_id tx"
  unfolding on_chain_def using opened_plain by blast

lemma bytesEqual_eq: "bytesEqual a b \<longleftrightarrow> a = b"
  by (auto simp: bytesEqual_def list.rel_eq)

lemma ours_script: "ours ds s \<noteq> None \<Longrightarrow> s \<in> d_script ` set ds"
  by (auto simp: ours_def find_Some_iff bytesEqual_eq)

lemma output_keys_apart:
  assumes "honest_blocks ev lo" "on_chain ev lo tx" "on_chain ev lo tx'" and "d_script ` set ds \<inter> d_script ` set ds' = {}"
  shows "output_keys ds tx \<inter> output_keys ds' tx' = {}"
proof (rule ccontr)
  assume "output_keys ds tx \<inter> output_keys ds' tx' \<noteq> {}"
  then obtain i i' where k: "utxoKey (txid tx) (int i) = utxoKey (txid tx') (int i')"
    "ours ds (out_script (outputs tx ! i)) \<noteq> None" "ours ds' (out_script (outputs tx' ! i')) \<noteq> None"
    by (auto simp: output_keys_def)
  have "txid tx = txid tx'"
    using utxoKey_id [OF k(1)] chain_plain [OF assms(2)] chain_plain [OF assms(3)] by (simp add: plain_id_def)
  moreover from this have "tx = tx'" using chain_unique [OF assms(1-3)] by blast
  ultimately have "i = i'" using k(1) by (simp add: utxoKey_index)
  then show False using \<open>tx = tx'\<close> k(2,3) ours_script assms(4) by blast
qed

text \<open>The transactions of distinct announced blocks.\<close>

lemma flat_place:
  assumes "bt \<in> set (flat (opened ev) hs)"
  shows "\<exists>x b n ts. x \<in> set hs \<and> opened ev x = Inr (b, n, ts) \<and> snd bt \<in> set ts"
proof -
  obtain x where x: "x \<in> set hs" "bt \<in> set (case opened ev x of Inl _ \<Rightarrow> [] | Inr (b, _, ts) \<Rightarrow> map (Pair b) ts)"
    using assms unfolding flat_def set_concat set_map by blast
  show ?thesis
  proof (cases "opened ev x")
    case (Inr y)
    then obtain b n ts where o: "opened ev x = Inr (b, n, ts)" by (cases y) auto
    then have "snd bt \<in> set ts" using x(2) by auto
    then show ?thesis using x(1) o by blast
  qed (use x(2) in simp)
qed

lemma flat_on_chain: "\<forall>x \<in> set hs. served ev lo x \<Longrightarrow> bt \<in> set (flat (opened ev) hs) \<Longrightarrow> on_chain ev lo (snd bt)"
  using flat_place unfolding on_chain_def by blast

lemma flat_distinct:
  assumes honest: "honest_blocks ev lo"
  shows "distinct hs \<Longrightarrow> \<forall>x \<in> set hs. served ev lo x \<Longrightarrow> distinct (map (txid \<circ> snd) (flat (opened ev) hs))"
proof (induction hs)
  case (Cons x hs)
  have IH: "distinct (map (txid \<circ> snd) (flat (opened ev) hs))"
    by (rule Cons.IH) (use Cons.prems in auto)
  show ?case
  proof (cases "opened ev x")
    case (Inr y)
    then obtain b n ts where o: "opened ev x = Inr (b, n, ts)" by (cases y) auto
    have x: "served ev lo x" using Cons.prems(2) by simp
    have flat: "flat (opened ev) (x # hs) = map (Pair b) ts @ flat (opened ev) hs" by (simp add: flat_def o)
    have "txid tx \<noteq> txid (snd bt)" if tx: "tx \<in> set ts" and bt: "bt \<in> set (flat (opened ev) hs)" for tx bt
    proof
      assume eq: "txid tx = txid (snd bt)"
      obtain z b' n' ts' where z: "z \<in> set hs" "opened ev z = Inr (b', n', ts')" "snd bt \<in> set ts'"
        using flat_place [OF bt] by blast
      then have "x = z" using honest_blocksD(2) [OF honest x o _ z(2) tx z(3) eq] Cons.prems(2) by simp
      then show False using z(1) Cons.prems(1) by simp
    qed
    then show ?thesis using IH honest_blocksD(1) [OF honest x o]
      by (force simp: flat comp_def)
  qed (use IH in \<open>simp add: flat_def comp_def\<close>)
qed (simp add: flat_def)

section \<open>The scan of a pass announces blocks\<close>

definition from_source :: "run_env \<Rightarrow> (int \<rightharpoonup> filter_record option) \<Rightarrow> bool" where
  "from_source ev c \<longleftrightarrow> (\<forall>h f. c h = Some f \<longrightarrow> re_filter ev h = Inr f)"

lemma ext_answer_source:
  assumes "from_source ev c"
  shows "\<exists>f c1 n1. ext_answer (re_filter ev) h (c, n, hs) = (f, c1, n1, hs) \<and> from_source ev c1 \<and>
    (\<forall>r. f = Some (Some r) \<longrightarrow> re_filter ev h = Inr (Some r))"
proof (cases "c h")
  case None
  then show ?thesis using assms
    by (cases "re_filter ev h") (auto simp: ext_answer_def from_source_def)
qed (use assms in \<open>auto simp: ext_answer_def from_source_def\<close>)

lemma ext_scan_served:
  "ext_scan job (re_filter ev) heights (c, n, hs) = Inr (c', n', hs') \<Longrightarrow> from_source ev c \<Longrightarrow>
     distinct heights \<Longrightarrow> \<forall>h \<in> set heights. lo \<le> h \<Longrightarrow> \<forall>x \<in> set hs. served ev lo x \<Longrightarrow>
     distinct (map fst hs) \<Longrightarrow> set heights \<inter> fst ` set hs = {} \<Longrightarrow>
     from_source ev c' \<and> (\<forall>x \<in> set hs'. served ev lo x) \<and> distinct (map fst hs')"
proof (induction heights arbitrary: c n hs)
  case (Cons h heights)
  obtain f c1 n1 where a: "ext_answer (re_filter ev) h (c, n, hs) = (f, c1, n1, hs)" and c1: "from_source ev c1"
    and f: "\<And>r. f = Some (Some r) \<Longrightarrow> re_filter ev h = Inr (Some r)"
    using ext_answer_source [OF Cons.prems(2)] by metis
  show ?case
  proof (cases "\<exists>r. f = Some (Some r)")
    case True
    then obtain r m where r: "f = Some (Some r)" "match_filter job r = Inr m"
      using Cons.prems(1) a by (auto split: sum.splits)
    have rest: "ext_scan job (re_filter ev) heights (c1, n1, if m then hs @ [(h, flt_hash r)] else hs) = Inr (c', n', hs')"
      using Cons.prems(1) a r by simp
    show ?thesis
      by (rule Cons.IH [OF rest c1]) (use Cons.prems(3-7) f [OF r(1)] in \<open>auto simp: served_def\<close>)
  next
    case False
    then have rest: "ext_scan job (re_filter ev) heights (c1, n1, hs) = Inr (c', n', hs')"
      using Cons.prems(1) a by (cases f rule: option.exhaust; auto split: option.splits)
    show ?thesis by (rule Cons.IH [OF rest c1]) (use Cons.prems(3-7) in auto)
  qed
qed simp

lemma sorted_trim_served:
  assumes "\<forall>x \<in> set hs. served ev lo x" and "distinct (map fst hs)"
  shows "\<forall>x \<in> set (trim_hits ab cur (sortByAscendingHeight hs)). served ev lo x"
    and "distinct (trim_hits ab cur (sortByAscendingHeight hs))"
proof -
  have "distinct hs" using assms(2) by (simp add: distinct_map)
  then show "distinct (trim_hits ab cur (sortByAscendingHeight hs))"
    by (simp add: trim_hits_def sortByAscendingHeight_def)
  show "\<forall>x \<in> set (trim_hits ab cur (sortByAscendingHeight hs)). served ev lo x"
    using assms(1) by (simp add: trim_hits_def)
qed

section \<open>The ledger through the passes\<close>

text \<open>The addresses derived so far, by the ends of the two windows.\<close>

definition derived_upto :: "run_env \<Rightarrow> wallet_payload \<Rightarrow> int \<times> int \<Rightarrow> derived_addr list \<Rightarrow> bool" where
  "derived_upto ev p e ds \<longleftrightarrow> (\<forall>d \<in> set ds. \<exists>c i. c \<le> 1 \<and> i < (if c = 0 then fst e else snd e) \<and>
     d_script d = fst (re_derive ev p c i))"

definition old_keys :: "run_env \<Rightarrow> int \<Rightarrow> derived_addr list \<Rightarrow> utxo_map \<Rightarrow> string set" where
  "old_keys ev lo ds seed = fst ` set seed \<union> (\<Union>tx \<in> {tx. on_chain ev lo tx}. output_keys ds tx)"

definition window_ledger :: "run_env \<Rightarrow> plan \<Rightarrow> utxo_map \<Rightarrow> window \<Rightarrow> bool" where
  "window_ledger ev pl seed wi \<longleftrightarrow> ledger (total seed) (wi_walk wi) \<and> from_source ev (wi_cache wi) \<and>
     derived_upto ev (pl_payload pl) (wi_end wi) (wi_derived wi) \<and>
     fst ` set (wk_utxos (wi_walk wi)) \<subseteq> old_keys ev (pl_from pl) (wi_derived wi) seed"

text \<open>No output of an announced block is in the set at the start: no block is read again.\<close>

definition unread :: "run_env \<Rightarrow> int \<Rightarrow> utxo_map \<Rightarrow> bool" where
  "unread ev lo seed \<longleftrightarrow> (\<forall>tx i. on_chain ev lo tx \<longrightarrow> utxoKey (txid tx) (int i) \<notin> fst ` set seed)"

lemma unread_keys: "unread ev lo seed \<Longrightarrow> on_chain ev lo tx \<Longrightarrow> output_keys ds tx \<inter> fst ` set seed = {}"
  by (force simp: unread_def output_keys_def)

lemma output_keys_append: "output_keys (ds @ ds') tx = output_keys ds tx \<union> output_keys ds' tx"
  by (auto simp: output_keys_def ours_def find_None_iff Bex_def split: option.splits)

lemma old_keys_mono: "old_keys ev lo ds seed \<subseteq> old_keys ev lo (ds @ new) seed"
  by (auto simp: old_keys_def output_keys_append)

lemma old_keys_apart:
  assumes "honest_blocks ev lo" "unread ev lo seed" "on_chain ev lo tx"
    and "d_script ` set new \<inter> d_script ` set ds = {}"
  shows "output_keys new tx \<inter> old_keys ev lo ds seed = {}"
  using unread_keys [OF assms(2,3), of new] output_keys_apart [OF assms(1,3) _ assms(4)]
  unfolding old_keys_def by blast

lemma set_derive_range:
  "x \<in> set (derive_range dv c lo hi) \<Longrightarrow> \<exists>i. lo \<le> i \<and> i < hi \<and> d_script x = fst (dv c i)"
  by (auto simp: derive_range_def)

lemma pass_new_scripts:
  assumes gap: "0 \<le> wp_gap (pl_payload (pe_plan pe)) \<or> wi_derived wi = []" and scripts: "distinct_scripts ev" and pe: "pe_ev pe = ev"
    and upto: "derived_upto ev (pl_payload (pe_plan pe)) (wi_end wi) (wi_derived wi)"
  shows "d_script ` set (pass_new pe wi) \<inter> d_script ` set (wi_derived wi) = {}"
    and "derived_upto ev (pl_payload (pe_plan pe)) (pass_end (wp_gap (pl_payload (pe_plan pe))) wi) (wi_derived wi @ pass_new pe wi)"
proof -
  let ?p = "pl_payload (pe_plan pe)"
  let ?gap = "wp_gap ?p"
  obtain e0 e1 where e: "wi_end wi = (e0, e1)" by fastforce
  obtain n0 n1 where near: "near_edge ?gap (wk_max (wi_walk wi)) (e0, e1) = (n0, n1)" by fastforce
  have new: "\<exists>c i. c \<le> 1 \<and> (if c = 0 then e0 else e1) \<le> i \<and> (c = 0 \<and> n0 \<or> c = 1 \<and> n1) \<and>
      i < (if c = 0 then e0 else e1) + ?gap \<and> d_script d = fst (re_derive ev ?p c i)" if d: "d \<in> set (pass_new pe wi)" for d
  proof -
    have eq: "pass_new pe wi = (if n0 then derive_range (re_derive ev ?p) 0 e0 (e0 + ?gap) else []) @
        (if n1 then derive_range (re_derive ev ?p) 1 e1 (e1 + ?gap) else [])"
      by (simp add: pass_new_def near e pe Let_def)
    then consider "n0" "d \<in> set (derive_range (re_derive ev ?p) 0 e0 (e0 + ?gap))"
      | "n1" "d \<in> set (derive_range (re_derive ev ?p) 1 e1 (e1 + ?gap))"
      using d unfolding eq by (auto split: if_splits)
    then show ?thesis
    proof cases
      case 1
      then obtain i where "e0 \<le> i" "i < e0 + ?gap" "d_script d = fst (re_derive ev ?p 0 i)"
        using set_derive_range by blast
      then show ?thesis using 1(1) by (intro exI [of _ 0] exI [of _ i]) simp
    next
      case 2
      then obtain i where "e1 \<le> i" "i < e1 + ?gap" "d_script d = fst (re_derive ev ?p 1 i)"
        using set_derive_range by blast
      then show ?thesis using 2(1) by (intro exI [of _ 1] exI [of _ i]) simp
    qed
  qed
  have old: "\<exists>c i. c \<le> 1 \<and> i < (if c = 0 then e0 else e1) \<and> d_script d = fst (re_derive ev ?p c i)"
    if "d \<in> set (wi_derived wi)" for d
    using upto that unfolding derived_upto_def e fst_conv snd_conv by blast
  show "d_script ` set (pass_new pe wi) \<inter> d_script ` set (wi_derived wi) = {}"
  proof (rule ccontr)
    assume "d_script ` set (pass_new pe wi) \<inter> d_script ` set (wi_derived wi) \<noteq> {}"
    then obtain d d' where d: "d \<in> set (pass_new pe wi)" "d' \<in> set (wi_derived wi)" "d_script d = d_script d'" by force
    obtain c i c' i' where ci: "c \<le> 1" "(if c = 0 then e0 else e1) \<le> i" "d_script d = fst (re_derive ev ?p c i)"
      "c' \<le> 1" "i' < (if c' = 0 then e0 else e1)" "d_script d' = fst (re_derive ev ?p c' i')"
      using new [OF d(1)] old [OF d(2)] by blast
    have "c = c' \<and> i = i'"
      using scripts ci d(3) unfolding distinct_scripts_def by metis
    then show False using ci(2,5) by simp
  qed
  have grow: "fst (pass_end ?gap wi) = (if n0 then e0 + ?gap else e0)" "snd (pass_end ?gap wi) = (if n1 then e1 + ?gap else e1)"
    by (simp_all add: pass_end_def near e)
  show "derived_upto ev ?p (pass_end ?gap wi) (wi_derived wi @ pass_new pe wi)"
    unfolding derived_upto_def
  proof
    fix d
    assume "d \<in> set (wi_derived wi @ pass_new pe wi)"
    then consider "d \<in> set (pass_new pe wi)" | "d \<in> set (wi_derived wi)" by auto
    then show "\<exists>c i. c \<le> 1 \<and> i < (if c = 0 then fst (pass_end ?gap wi) else snd (pass_end ?gap wi)) \<and>
        d_script d = fst (re_derive ev ?p c i)"
    proof cases
      case 1
      then obtain c i where "c \<le> 1" "c = 0 \<and> n0 \<or> c = 1 \<and> n1" "i < (if c = 0 then e0 else e1) + ?gap"
        "d_script d = fst (re_derive ev ?p c i)" using new by blast
      then show ?thesis by (intro exI [of _ c] exI [of _ i]) (auto simp: grow)
    next
      case 2
      then obtain c i where "c \<le> 1" "i < (if c = 0 then e0 else e1)" "d_script d = fst (re_derive ev ?p c i)"
        using old by blast
      then show ?thesis using gap 2 by (intro exI [of _ c] exI [of _ i]) (auto simp: grow)
    qed
  qed
qed

lemma ledger_bytes: "ledger base (w\<lparr>wk_bytes := n\<rparr>) = ledger base w"
  by (simp add: ledger_def)

lemma extension_pass_ledger:
  assumes honest: "honest_blocks ev (pl_from pl)" and scripts: "distinct_scripts ev"
    and un: "unread ev (pl_from pl) seed" and pe: "pe_ev pe = ev" "pe_plan pe = pl"
    and gap: "0 \<le> wp_gap (pl_payload pl) \<or> wi_derived wi = []"
    and led: "window_ledger ev pl seed wi" and pass: "extension_pass pe wi = Inr wi'"
  shows "window_ledger ev pl seed wi' \<and> (0 \<le> wp_gap (pl_payload pl) \<or> wi_derived wi' = [])"
proof -
  let ?new = "pass_new pe wi" and ?lo = "pl_from pl"
  let ?all = "wi_derived wi @ ?new"
  obtain c n hs where scan: "ext_scan (job_of ev (pl_tip pl) ?new) (re_filter ev) [?lo..pl_tip pl] (wi_cache wi, 0, []) = Inr (c, n, hs)"
    using pass by (auto simp: extension_pass_def Let_def pe split: sum.splits)
  have "from_source ev c \<and> (\<forall>x \<in> set hs. served ev ?lo x) \<and> distinct (map fst hs)"
    by (rule ext_scan_served [OF scan]) (use led in \<open>auto simp: window_ledger_def\<close>)
  then have c: "from_source ev c" and hs: "\<forall>x \<in> set hs. served ev ?lo x" "distinct (map fst hs)" by auto
  let ?hs = "trim_hits (pe_aborted pe) (pe_cursor pe) (sortByAscendingHeight hs)"
  let ?w = "(wi_walk wi)\<lparr>wk_bytes := wk_bytes (wi_walk wi) + n\<rparr>"
  note safe = sorted_trim_served [OF hs, of "pe_aborted pe" "pe_cursor pe"]
  have walk: "walk_blocks (extension_tx ?new ?all) (opened ev) ?hs ?w = Inr (wi_walk wi')"
    and wi': "wi_cache wi' = c" "wi_derived wi' = ?all" "wi_end wi' = pass_end (wp_gap (pl_payload pl)) wi"
    using pass scan by (auto simp: extension_pass_def Let_def pe split: sum.splits)
  note news = pass_new_scripts [of pe wi ev, unfolded pe, OF gap scripts refl]
  have upto: "derived_upto ev (pl_payload pl) (wi_end wi) (wi_derived wi)" using led by (simp add: window_ledger_def)
  let ?bts = "flat (opened ev) ?hs"
  have on: "on_chain ev ?lo tx" if "(b, tx) \<in> set ?bts" for b tx
    using flat_on_chain [OF safe(1) that] by simp
  have "ledger (total seed) (walk_txs (extension_tx ?new ?all) ?bts ?w) \<and>
      fst ` set (wk_utxos (walk_txs (extension_tx ?new ?all) ?bts ?w)) \<subseteq>
        fst ` set (wk_utxos ?w) \<union> (\<Union>(b, tx) \<in> set ?bts. output_keys ?new tx)"
  proof (rule extension_walk_ledger)
    show "ledger (total seed) ?w" using led by (simp add: window_ledger_def ledger_bytes)
    show "distinct (map (txid \<circ> snd) ?bts)" by (rule flat_distinct [OF honest safe(2,1)])
    show "\<forall>(b, tx) \<in> set ?bts. plain_id tx" using on chain_plain by blast
    have "output_keys ?new tx \<inter> fst ` set (wk_utxos ?w) = {}" if "(b, tx) \<in> set ?bts" for b tx
      using old_keys_apart [OF honest un on [OF that] news(1) [OF upto]] led by (auto simp: window_ledger_def)
    then show "\<forall>(b, tx) \<in> set ?bts. output_keys ?new tx \<inter> fst ` set (wk_utxos ?w) = {}" by blast
  qed
  moreover have "(\<Union>(b, tx) \<in> set ?bts. output_keys ?new tx) \<subseteq> old_keys ev ?lo ?all seed"
    using on by (auto simp: old_keys_def output_keys_append)
  moreover have "fst ` set (wk_utxos ?w) \<subseteq> old_keys ev ?lo ?all seed"
    using led order_trans [OF _ old_keys_mono [of ev ?lo "wi_derived wi" seed ?new]] by (simp add: window_ledger_def)
  moreover obtain k where "wi_walk wi' = (walk_txs (extension_tx ?new ?all) ?bts ?w)\<lparr>wk_bytes := k\<rparr>"
    using walk_blocks_flat [OF counts_apart_steps(2) walk] by blast
  ultimately have "ledger (total seed) (wi_walk wi')" "fst ` set (wk_utxos (wi_walk wi')) \<subseteq> old_keys ev ?lo ?all seed"
    by (simp_all add: ledger_bytes) (meson order_trans Un_least)
  moreover have "0 \<le> wp_gap (pl_payload pl) \<or> ?all = []"
    using gap by (auto simp: pass_new_def derive_range_def pe Let_def split: prod.splits)
  ultimately show ?thesis using c news(2) [OF upto] by (simp add: window_ledger_def wi')
qed

lemma extension_loop_ledger:
  assumes "honest_blocks ev (pl_from pl)" "distinct_scripts ev" "unread ev (pl_from pl) seed" "pe_ev pe = ev" "pe_plan pe = pl"
  shows "extension_loop pe n wi = Inr wi' \<Longrightarrow> 0 \<le> wp_gap (pl_payload pl) \<or> wi_derived wi = [] \<Longrightarrow>
    window_ledger ev pl seed wi \<Longrightarrow> window_ledger ev pl seed wi'"
proof (induction n arbitrary: wi)
  case (Suc n)
  show ?case
  proof (cases "still_near pe wi")
    case True
    then obtain wi1 where wi1: "extension_pass pe wi = Inr wi1" "extension_loop pe n wi1 = Inr wi'"
      using Suc.prems(1) by (auto split: sum.splits)
    then show ?thesis using extension_pass_ledger [OF assms Suc.prems(2,3) wi1(1)] Suc.IH by blast
  qed (use Suc.prems in simp)
qed (simp split: if_splits)

lemma derive_window_upto:
  assumes "derive_window ev opts p = Inr ds"
  shows "derived_upto ev p (wp_gap p * 2, wp_gap p * 2) ds" and "0 \<le> wp_gap p \<or> ds = []"
proof -
  have ds: "ds = derive_range (re_derive ev p) 0 0 (wp_gap p * 2) @ derive_range (re_derive ev p) 1 0 (wp_gap p * 2)"
    using assms by (auto simp: derive_window_def Let_def split: if_splits)
  show "derived_upto ev p (wp_gap p * 2, wp_gap p * 2) ds"
    unfolding derived_upto_def
  proof
    fix d
    assume "d \<in> set ds"
    then consider "d \<in> set (derive_range (re_derive ev p) 0 0 (wp_gap p * 2))" | "d \<in> set (derive_range (re_derive ev p) 1 0 (wp_gap p * 2))"
      by (auto simp: ds)
    then show "\<exists>c i. c \<le> 1 \<and> i < (if c = 0 then fst (wp_gap p * 2, wp_gap p * 2) else snd (wp_gap p * 2, wp_gap p * 2)) \<and>
        d_script d = fst (re_derive ev p c i)"
    proof cases
      case 1
      then obtain i where "i < wp_gap p * 2" "d_script d = fst (re_derive ev p 0 i)" using set_derive_range by blast
      then show ?thesis by (intro exI [of _ 0] exI [of _ i]) simp
    next
      case 2
      then obtain i where "i < wp_gap p * 2" "d_script d = fst (re_derive ev p 1 i)" using set_derive_range by blast
      then show ?thesis by (intro exI [of _ 1] exI [of _ i]) simp
    qed
  qed
  show "0 \<le> wp_gap p \<or> ds = []" by (auto simp: ds derive_range_def)
qed

lemma initial_window_ledger:
  assumes honest: "honest_blocks ev (pl_from pl)" and un: "unread ev (pl_from pl) seed" and wf: "wf_utxos seed"
    and plan: "derive_window ev opts (pl_payload pl) = Inr (pl_derived pl)"
    and hits: "\<forall>x \<in> set hs. served ev (pl_from pl) x" "distinct hs"
    and walk: "walk_blocks (initial_tx (pl_derived pl)) (opened ev) hs (start_walk seed) = Inr w" and c: "from_source ev c"
  shows "window_ledger ev pl seed \<lparr>wi_derived = pl_derived pl, wi_end = (wp_gap (pl_payload pl) * 2, wp_gap (pl_payload pl) * 2),
    wi_exhausted = x, wi_walk = w, wi_cache = c\<rparr>"
proof -
  let ?lo = "pl_from pl" and ?ds = "pl_derived pl" and ?bts = "flat (opened ev) hs" and ?w = "start_walk seed"
  have on: "on_chain ev ?lo tx" if "(b, tx) \<in> set ?bts" for b tx
    using flat_on_chain [OF hits(1) that] by simp
  have "ledger (total seed) (walk_txs (initial_tx ?ds) ?bts ?w) \<and>
      fst ` set (wk_utxos (walk_txs (initial_tx ?ds) ?bts ?w)) \<subseteq>
        fst ` set (wk_utxos ?w) \<union> (\<Union>(b, tx) \<in> set ?bts. output_keys ?ds tx)"
  proof (rule initial_walk_ledger)
    show "ledger (total seed) ?w" using wf by (simp add: ledger_def start_walk_def)
    show "distinct (map (txid \<circ> snd) ?bts)" by (rule flat_distinct [OF honest hits(2,1)])
    show "\<forall>(b, tx) \<in> set ?bts. plain_id tx" using on chain_plain by blast
    show "\<forall>(b, tx) \<in> set ?bts. txid tx \<notin> fst ` set (wk_accs ?w)" by (simp add: start_walk_def)
    have "output_keys ?ds tx \<inter> fst ` set (wk_utxos ?w) = {}" if "(b, tx) \<in> set ?bts" for b tx
      using unread_keys [OF un on [OF that]] by (simp add: start_walk_def)
    then show "\<forall>(b, tx) \<in> set ?bts. output_keys ?ds tx \<inter> fst ` set (wk_utxos ?w) = {}" by blast
  qed
  moreover have "fst ` set (wk_utxos ?w) \<union> (\<Union>(b, tx) \<in> set ?bts. output_keys ?ds tx) \<subseteq> old_keys ev ?lo ?ds seed"
    using on by (auto simp: old_keys_def start_walk_def)
  moreover obtain k where "w = (walk_txs (initial_tx ?ds) ?bts ?w)\<lparr>wk_bytes := k\<rparr>"
    using walk_blocks_flat [OF counts_apart_steps(1) walk] by blast
  ultimately have "ledger (total seed) w" "fst ` set (wk_utxos w) \<subseteq> old_keys ev ?lo ?ds seed"
    by (simp_all add: ledger_bytes) (meson order_trans Un_least)
  then show ?thesis using c derive_window_upto(1) [OF plan] by (simp add: window_ledger_def)
qed

lemma matching_served: "x \<in> set (matching job (re_filter ev) h) \<Longrightarrow> lo \<le> h \<Longrightarrow> served ev lo x"
  by (cases "re_filter ev h") (auto simp: matching_def served_def split: option.splits if_splits)

lemma scan_served:
  assumes "re_filter ev = liveFetchFilter pf nw" and "pool_reaches job (re_filter ev) lo n p" and "all_returned p"
    and "scan_outcome job lo p = (cur, ab, hs)" and "lo \<le> j_tip job + 1"
  shows "(\<forall>x \<in> set hs. served ev lo x) \<and> distinct hs \<and> from_source ev (p_cache p)"
proof -
  have seq: "(cur, ab, hs) = sequential_scan job (re_filter ev) lo"
    using live.scan [OF assms(2) [unfolded assms(1)] assms(3)] assms(4) by (simp add: assms(1))
  then have "\<forall>x \<in> set hs. served ev lo x"
    by (auto simp: sequential_scan_def Let_def intro!: matching_served)
  moreover have "sorted_wrt (<) (map fst hs)"
    using live.sequential_sound [OF assms(5), of pf nw] seq [symmetric] by (simp add: assms(1) sound_outcome_def)
  then have "distinct hs" using strict_sorted_iff distinct_map by blast
  moreover have "pool_core job (re_filter ev) lo (p_next p) (p_cache p) (p_aborted p) (p_hits p) (waits (p_workers p))"
    using reaches_inv [OF assms(2)] live.wf by (simp add: pool_inv_def assms(1))
  from pool_coreD(5) [OF this] have "from_source ev (p_cache p)" by (simp add: from_source_def)
  ultimately show ?thesis by blast
qed


text \<open>The small run satisfies the hypotheses.\<close>

lemma int_text_inject: "int_text i = int_text k \<longleftrightarrow> i = k"
  by (metis js_BigInt_int_text option.inject)

lemma char_byte: "char_of (unat (of_nat (of_char c) :: byte)) = c"
  by (simp add: unat_of_nat)

lemma sample_scripts: "distinct_scripts sample_ev"
proof -
  have inj: "inj (\<lambda>d :: char. of_nat (of_char d) :: byte)"
    by (rule injI) (metis char_byte)
  have chain: "c = c'" if "c \<le> 1" "c' \<le> 1" "(of_nat c :: byte) = of_nat c'" for c c' :: nat
  proof -
    have "c = 0 \<or> c = 1" "c' = 0 \<or> c' = 1" using that(1,2) by auto
    then show ?thesis using that(3) by auto
  qed
  show ?thesis
    unfolding distinct_scripts_def
  proof (intro allI impI)
    fix p c c' i i'
    assume c: "c \<le> 1" "c' \<le> 1" and eq: "fst (re_derive sample_ev p c i) = fst (re_derive sample_ev p c' i')"
    then have "(of_nat c :: byte) = of_nat c'" "map (\<lambda>d. of_nat (of_char d) :: byte) (int_text i) = map (\<lambda>d. of_nat (of_char d)) (int_text i')"
      by (simp_all add: sample_ev_def sample_derive_def)
    then show "c = c' \<and> i = i'" using chain [OF c] int_text_inject inj by (simp add: inj_map_eq_map)
  qed
qed

lemma sample_survive: "utxos_survive sample_ev"
  by (simp add: utxos_survive_def sample_ev_def sample_web_laws json_codec_law)

lemma sample_served:
  assumes "served sample_ev lo x"
  shows "x = (103, sample_hash)"
proof -
  obtain r where r: "re_filter sample_ev (fst x) = Inr (Some r)" "flt_hash r = snd x"
    using assms by (auto simp: served_def)
  have h: "fst x = 103" by (rule sample_filter_only [OF r(1)])
  then have "r = sample_filter" using r(1) sample_filter_answer by simp
  then show ?thesis using r(2) h by (simp add: sample_filter_def prod_eq_iff)
qed

lemma sample_opened:
  assumes "served sample_ev lo x" and "opened sample_ev x = Inr (b, n, ts)"
  shows "x = (103, sample_hash) \<and> ts = [paid_tx]"
  using assms(2) sample_open unfolding sample_served [OF assms(1)] by simp

lemma sample_honest: "honest_blocks sample_ev lo"
  unfolding honest_blocks_def
proof (intro allI impI)
  fix x y b n ts b' n' ts'
  assume "served sample_ev lo x" "served sample_ev lo y" "opened sample_ev x = Inr (b, n, ts)" "opened sample_ev y = Inr (b', n', ts')"
  then have "x = y" "ts = [paid_tx]" "ts' = [paid_tx]" using sample_opened by blast+
  then show "distinct (map txid ts) \<and> (\<forall>tx \<in> set ts. \<forall>tx' \<in> set ts'. txid tx = txid tx' \<longrightarrow> x = y \<and> tx = tx')"
    by simp
qed


end
