(* ===== verification/RunWindow.thy ===== *)
theory RunWindow
  imports RunLedger
begin

text \<open>
  Two limits of a run that starts from an earlier one: the window of addresses starts anew, and the
  block at the resume height is walked again.
\<close>

section \<open>Inputs are consumed once\<close>

lemma spend_inputs_gone:
  "spend_inputs inps (s, m) = (s', m') \<Longrightarrow> (\<forall>k. map_of m k = None \<longrightarrow> map_of m' k = None) \<and>
     (\<forall>inp \<in> set inps. map_of m' (utxoKey (prevTxid inp) (voutIdx inp)) = None)"
proof (induction inps arbitrary: s m)
  case (Cons inp inps)
  let ?k = "utxoKey (prevTxid inp) (voutIdx inp)"
  show ?case
  proof (cases "map_of m ?k")
    case None
    then have "spend_inputs inps (s, m) = (s', m')" using Cons.prems by simp
    then show ?thesis using Cons.IH [of s m] None by simp
  next
    case (Some u)
    then have "spend_inputs inps (s + ut_value u, AList.delete ?k m) = (s', m')" using Cons.prems by simp
    then show ?thesis using Cons.IH [of "s + ut_value u" "AList.delete ?k m"] by (simp add: map_of_delete)
  qed
qed simp

lemma spend_inputs_none:
  "\<forall>inp \<in> set inps. map_of m (utxoKey (prevTxid inp) (voutIdx inp)) = None \<Longrightarrow> spend_inputs inps (s, m) = (s, m)"
  by (induction inps) simp_all

lemma add_utxos_other:
  "\<forall>i. k \<noteq> utxoKey tid (int i) \<Longrightarrow> map_of (add_utxos tid news m) k = map_of m k"
  by (induction news arbitrary: m) (auto simp: add_utxos_def map_of_update)

lemma receive_new:
  assumes "0 < rc_amount (receive_outputs ds 0 outs (no_receipt w))"
  shows "rc_new (receive_outputs ds 0 outs (no_receipt w)) \<noteq> []"
  using assms by (auto simp: receive_outputs_receipt no_receipt_def)

lemma receive_amount: "rc_amount (receive_outputs ds 0 outs (no_receipt w)) = rc_amount (receive_outputs ds 0 outs (no_receipt w'))"
  by (simp add: receive_outputs_receipt no_receipt_def)

text \<open>What one walk over one transaction reports.\<close>

lemma walk_one:
  assumes "spend_inputs (inputs tx) (0, m) = (spent, m1)" and "0 \<le> spent"
    and change: "change = rc_amount (receive_outputs ds 0 (outputs tx) (no_receipt (start_walk m)))" "0 < change"
  shows "map (\<lambda>t. (nt_txid t, nt_out t, nt_amount t)) (finalize (wk_accs (initial_tx ds b (start_walk m) tx))) =
      [(txid tx, 0 < spent, js_Number (if 0 < spent then spent - change else change))]"
    and "wk_utxos (initial_tx ds b (start_walk m) tx) =
      add_utxos (txid tx) (rc_new (receive_outputs ds 0 (outputs tx) (no_receipt (start_walk m)))) m1"
proof -
  let ?r = "receive_outputs ds 0 (outputs tx) (no_receipt (start_walk m))"
  have new: "rc_new ?r \<noteq> []" using receive_new change by simp
  have utxos: "wk_utxos (start_walk m) = m" "wk_accs (start_walk m) = []" by (simp_all add: start_walk_def)
  have w: "initial_tx ds b (start_walk m) tx = (start_walk m)\<lparr>wk_utxos := add_utxos (txid tx) (rc_new ?r) m1, wk_max := rc_max ?r,
      wk_accs := [(txid tx, fresh_acc b tx spent ?r (if spent > 0 then recipient ds (outputs tx) else []))]\<rparr>"
    using assms(1) new by (simp add: initial_tx_def utxos Let_def start_walk_def)
  show "wk_utxos (initial_tx ds b (start_walk m) tx) = add_utxos (txid tx) (rc_new ?r) m1" by (simp add: w)
  show "map (\<lambda>t. (nt_txid t, nt_out t, nt_amount t)) (finalize (wk_accs (initial_tx ds b (start_walk m) tx))) =
      [(txid tx, 0 < spent, js_Number (if 0 < spent then spent - change else change))]"
    using change assms(2) by (simp add: w finalize_def List.map_filter_def finalize_tx_def fresh_acc_def Let_def)
qed

text \<open>
  When a block is walked again in the next run, as the block at the resume height is, a payment
  of the wallet with change turns into income: the first run reports it outgoing with what left less
  the change, the next run, which starts from the set the first one left, reports the same
  identifier incoming with the change.
\<close>

theorem reread_spend_reads_as_income:
  assumes spend: "spend_inputs (inputs tx) (0, m) = (spent, m1)" "0 < spent"
    and change: "change = rc_amount (receive_outputs ds 0 (outputs tx) (no_receipt (start_walk m)))" "0 < change"
    and plain: "plain_id tx" "\<forall>inp \<in> set (inputs tx). CHR '':'' \<notin> set (prevTxid inp) \<and> prevTxid inp \<noteq> txid tx"
  shows "map (\<lambda>t. (nt_txid t, nt_out t, nt_amount t)) (finalize (wk_accs (initial_tx ds b (start_walk m) tx))) =
      [(txid tx, True, js_Number (spent - change))] \<and>
    map (\<lambda>t. (nt_txid t, nt_out t, nt_amount t))
      (finalize (wk_accs (initial_tx ds b (start_walk (wk_utxos (initial_tx ds b (start_walk m) tx))) tx))) =
      [(txid tx, False, js_Number change)]"
proof
  note first = walk_one [OF spend(1) less_imp_le [OF spend(2)] change, of b]
  then show "map (\<lambda>t. (nt_txid t, nt_out t, nt_amount t)) (finalize (wk_accs (initial_tx ds b (start_walk m) tx))) =
      [(txid tx, True, js_Number (spent - change))]"
    using spend(2) by simp
  let ?m = "wk_utxos (initial_tx ds b (start_walk m) tx)"
  have "map_of ?m (utxoKey (prevTxid inp) (voutIdx inp)) = None" if inp: "inp \<in> set (inputs tx)" for inp
  proof -
    have "\<forall>i. utxoKey (prevTxid inp) (voutIdx inp) \<noteq> utxoKey (txid tx) (int i)"
      using utxoKey_id plain inp unfolding plain_id_def by blast
    then show ?thesis using add_utxos_other spend_inputs_gone [OF spend(1)] inp by (simp add: first(2))
  qed
  then have again: "spend_inputs (inputs tx) (0, ?m) = (0, ?m)" by (intro spend_inputs_none) blast
  have "change = rc_amount (receive_outputs ds 0 (outputs tx) (no_receipt (start_walk ?m)))"
    unfolding change(1) by (rule receive_amount)
  from walk_one(1) [OF again order_refl this change(2), of b]
  show "map (\<lambda>t. (nt_txid t, nt_out t, nt_amount t)) (finalize (wk_accs (initial_tx ds b (start_walk ?m) tx))) =
      [(txid tx, False, js_Number change)]"
    by simp
qed

definition change_tx :: parsed_tx where
  "change_tx = \<lparr>txid = ''bb'', vinCount = 1, voutCount = 1, inputs = [\<lparr>prevTxid = ''aa'', voutIdx = 0\<rparr>],
     outputs = [\<lparr>out_value = 4, out_script = [0x51, 0, 48]\<rparr>]\<rparr>"

theorem reread_spend_reads_as_income_witness:
  "\<exists>w :: walk. map (\<lambda>t. (nt_txid t, nt_out t, nt_amount t)) (finalize (wk_accs w)) = [(''bb'', True, js_Number (10 - 4))] \<and>
     map (\<lambda>t. (nt_txid t, nt_out t, nt_amount t)) (finalize (wk_accs (initial_tx (pl_derived sample_plan)
       \<lparr>bi_height = 104, bi_hash = [], bi_time = 0\<rparr> (start_walk (wk_utxos w)) change_tx))) = [(''bb'', False, js_Number 4)]"
proof -
  let ?m = "[(''aa:0'', \<lparr>ut_value = 10, ut_address = ''bc10''\<rparr>)]"
  have key: "utxoKey ''aa'' 0 = ''aa:0''" by code_simp
  have spend: "spend_inputs (inputs change_tx) (0, ?m) = (10, [])"
    by (simp add: change_tx_def key)
  have change: "4 = rc_amount (receive_outputs (pl_derived sample_plan) 0 (outputs change_tx) (no_receipt (start_walk ?m)))"
    unfolding sample_derived by (simp add: change_tx_def ours_def bytesEqual_def no_receipt_def)
  have "plain_id change_tx" "\<forall>inp \<in> set (inputs change_tx). CHR '':'' \<notin> set (prevTxid inp) \<and> prevTxid inp \<noteq> txid change_tx"
    by (simp_all add: plain_id_def change_tx_def)
  note both = reread_spend_reads_as_income [OF spend _ change _ this, of "\<lparr>bi_height = 104, bi_hash = [], bi_time = 0\<rparr>"]
  have name: "txid change_tx = ''bb''" by (simp add: change_tx_def)
  show ?thesis
    by (intro exI [of _ "initial_tx (pl_derived sample_plan) \<lparr>bi_height = 104, bi_hash = [], bi_time = 0\<rparr> (start_walk ?m) change_tx"])
      (use both name in simp)
qed

section \<open>The window starts anew\<close>

text \<open>
  The window of a run is that of its first two gaps of addresses, whatever earlier runs found
  beyond it.  When no filter of the range matches these addresses, the run reports nothing, moves its
  cursor to the ceiling and hands on the set of unspent outputs as it was: a payment to an address
  further out, or the spending of an output that the set still holds there, is passed over and its
  height is never scanned again.
\<close>

theorem run_forgets_wide_window:
  assumes run: "run_sync ev opts (Inr r)" "sr_scanned r" and live: "re_filter ev = liveFetchFilter pf nw"
    and laws: "utxos_survive ev" and seed: "distinct (map fst (seed_utxos ev (ro_key opts) (ro_sealed opts)))"
    and wallet: "unsealEnvelope (re_web ev) (re_payload ev) (ro_envelope opts) (ro_key opts) = Inr p"
      "derive_window ev opts p = Inr ds" "0 < wp_gap p"
    and tip: "re_tip ev = Inr chainTip"
    and quiet: "\<forall>h f. from_height_of opts \<le> h \<longrightarrow> re_filter ev h = Inr (Some f) \<longrightarrow> match_filter (job_of ev (chainTip - 6) ds) f \<noteq> Inr True"
  shows "sr_normalized r = [] \<and> (sr_error r = None \<longrightarrow> sr_cursor r = chainTip - 6) \<and>
    seed_utxos ev (ro_key opts) (sr_utxos r) = seed_utxos ev (ro_key opts) (ro_sealed opts)"
  using run
proof (rule run_stages)
  fix pl n q cur aborted hits w wi
  let ?seed = "seed_utxos ev (ro_key opts) (ro_sealed opts)"
  assume plan: "before_scan ev opts = Inr (Inl pl)"
    and reach: "pool_reaches (plan_job ev pl) (re_filter ev) (pl_from pl) n q" and all: "all_returned q"
    and o: "scan_outcome (plan_job ev pl) (pl_from pl) q = (cur, aborted, hits)"
    and walk: "walk_blocks (initial_tx (pl_derived pl)) (opened ev) hits (start_walk ?seed) = Inr w"
    and loop: "extension_loop \<lparr>pe_ev = ev, pe_plan = pl, pe_aborted = aborted, pe_cursor = cur\<rparr>
      (case ro_passes opts of None \<Rightarrow> 10 | Some n \<Rightarrow> n)
      \<lparr>wi_derived = pl_derived pl, wi_end = (wp_gap (pl_payload pl) * 2, wp_gap (pl_payload pl) * 2),
        wi_exhausted = False, wi_walk = w, wi_cache = p_cache q\<rparr> = Inr wi"
    and fin: "finish_run ev opts q cur wi = Inr r"
  note b = before_scan_plan [OF plan]
  have pl: "pl_payload pl = p" "pl_derived pl = ds" using b(5,6) wallet by auto
  have "plan_job ev pl = job_of ev (chainTip - 6) ds"
    using b(1) tip by (simp add: plan_job_def pl CONFIRMATION_DEPTH_def)
  then have "matching (plan_job ev pl) (re_filter ev) h = []" if "pl_from pl \<le> h" for h
    using quiet that b(4) by (cases "re_filter ev h") (simp_all add: matching_def split: option.splits)
  then have "hits = []"
    using live.scan [OF reach [unfolded live] all] o by (auto simp: sequential_scan_def Let_def live [symmetric])
  then have w: "w = start_walk ?seed" using walk by simp
  have "\<not> still_near pe \<lparr>wi_derived = ds, wi_end = (wp_gap p * 2, wp_gap p * 2), wi_exhausted = False,
      wi_walk = start_walk ?seed, wi_cache = c\<rparr>" if "pe_plan pe = pl" for pe c
    using that wallet(3) by (simp add: still_near_def near_edge_def pl start_walk_def)
  then have "wi_walk wi = start_walk ?seed"
    using loop w pl by (cases "case ro_passes opts of None \<Rightarrow> 10 | Some n \<Rightarrow> n") auto
  then have m: "wk_utxos (wi_walk wi) = ?seed" "wk_accs (wi_walk wi) = []" by (simp_all add: start_walk_def)
  have r: "sr_normalized r = []" "seal_utxos ev (ro_key opts) 0 ?seed = Inr (sr_utxos r)"
    using fin by (auto simp: finish_run_def m finalize_def List.map_filter_def split: sum.splits)
  obtain ct where "re_tip ev = Inr ct" "sr_cursor r \<le> ct - CONFIRMATION_DEPTH"
    "sr_cursor r < ct - CONFIRMATION_DEPTH \<longleftrightarrow> sr_error r \<noteq> None"
    using live_run [OF run live] by metis
  then show ?thesis using r seed_of_sealed [OF laws seed r(2)] tip by (auto simp: CONFIRMATION_DEPTH_def)
qed

text \<open>A wallet whose set holds an output of the sixth address, and a source that matches only that.\<close>

definition wide_ev :: run_env where
  "wide_ev = sample_ev\<lparr>re_match := (\<lambda>f h ss. fst (sample_derive sample_payload 0 5) \<in> set ss)\<rparr>"

definition wide_set :: utxo_map where
  "wide_set = [(''cc:0'', \<lparr>ut_value = 10, ut_address = ''bc15''\<rparr>)]"

definition wide_opts :: run_options where
  "wide_opts = sample_opts\<lparr>ro_sealed := (case seal_utxos wide_ev sample_key 0 wide_set of Inr u \<Rightarrow> u | Inl _ \<Rightarrow> None)\<rparr>"

lemma wide_survive: "utxos_survive wide_ev"
  using sample_survive by (simp add: utxos_survive_def wide_ev_def)

lemma wide_fields: "ro_key wide_opts = sample_key" "re_filter wide_ev = re_filter sample_ev" "re_tip wide_ev = Inr 109"
  "ro_passes wide_opts = None"
  by (simp_all add: wide_opts_def wide_ev_def sample_opts_def sample_ev_def)

lemma wide_seed: "seed_utxos wide_ev sample_key (ro_sealed wide_opts) = wide_set"
proof -
  obtain u where u: "seal_utxos wide_ev sample_key 0 wide_set = Inr u"
    by (simp add: seal_utxos_def sealEnvelope_def decode_sample_key wide_set_def)
  show ?thesis using seed_of_sealed [OF wide_survive _ u] u by (simp add: wide_opts_def wide_set_def)
qed

lemma wide_before: "before_scan wide_ev wide_opts = Inr (Inl sample_plan)"
proof -
  note p = before_scan_plan [OF sample_before]
  have "unsealEnvelope (re_web wide_ev) (re_payload wide_ev) (ro_envelope wide_opts) (ro_key wide_opts) = Inr (pl_payload sample_plan)"
    using p(5) by (simp add: wide_ev_def wide_opts_def)
  moreover have "derive_window wide_ev wide_opts (pl_payload sample_plan) = Inr (pl_derived sample_plan)"
    using p(6) by (simp add: derive_window_def wide_ev_def wide_opts_def)
  moreover have "from_height_of wide_opts = 103" "ro_birthday wide_opts = Fin 103"
    using p(4) by (simp_all add: from_height_of_def wide_opts_def sample_plan_def sample_opts_def scanStartHeight_def)
  ultimately show ?thesis
    by (simp add: before_scan_def wide_fields birthday_refused_def CONFIRMATION_DEPTH_def sample_plan_def)
qed

definition wide_pool :: pool where
  "wide_pool = sample_pool\<lparr>p_hits := []\<rparr>"

lemma wide_match: "re_match wide_ev f h (map d_script (pl_derived sample_plan)) = False"
proof -
  have "fst (sample_derive sample_payload 0 5) = [81, 0, 53]" by code_simp
  then show ?thesis unfolding sample_derived by (simp add: wide_ev_def)
qed

lemma wide_job: "plan_job wide_ev sample_plan = \<lparr>j_tip = 103, j_match = \<lambda>f h. False\<rparr>"
  unfolding plan_job_def job_of_def wide_match by (simp add: sample_plan_def)

lemma wide_reaches: "pool_reaches (plan_job wide_ev sample_plan) (re_filter wide_ev) 103 1 wide_pool"
proof -
  let ?job = "plan_job wide_ev sample_plan"
  have start: "start_pool ?job 103 = start_pool (plan_job sample_ev sample_plan) 103"
    by (simp add: wide_job sample_job start_pool_def FETCH_CONCURRENCY_def eval_nat_numeral fresh_pool_def start_worker_def claim_def)
  have "resume ?job 0 103 (re_filter wide_ev 103) (start_pool ?job 103) = wide_pool"
    unfolding start sample_start unfolding wide_job wide_fields
    by (simp add: resume_def sample_filter_answer set_worker_def take_answer_def claim_def match_filter_def
        hexToBytes_def Let_def sample_pool_def sample_filter_def wide_pool_def)
  then show ?thesis
    using pool_reaches.step [OF pool_reaches.start pool_step.answered [of 0 "start_pool ?job 103" 103]]
    unfolding start sample_start by (metis One_nat_def length_Cons nth_Cons_0 pool.select_convs(2) zero_less_Suc)
qed

lemma wide_run: "\<exists>r. run_sync wide_ev wide_opts (Inr r) \<and> sr_scanned r \<and> sr_error r = None"
proof -
  have joined: "all_returned wide_pool" by (simp add: all_returned_def wide_pool_def sample_pool_def list.pred_set)
  have outcome: "scan_outcome (plan_job wide_ev sample_plan) 103 wide_pool = (103, False, [])"
    by (simp add: wide_job scan_outcome_def wide_pool_def sample_pool_def lastContiguousScanned_def contiguous.simps
      trim_hits_def sortByAscendingHeight_def)
  have pl: "pl_from sample_plan = 103" "wp_gap (pl_payload sample_plan) = 1"
    by (simp_all add: sample_plan_def sample_payload_def)
  let ?wi = "\<lparr>wi_derived = pl_derived sample_plan, wi_end = (1 * 2, 1 * 2), wi_exhausted = False,
    wi_walk = start_walk wide_set, wi_cache = p_cache wide_pool\<rparr>"
  have loop: "extension_loop pe n ?wi = Inr ?wi" if "pe_plan pe = sample_plan" for pe n
    using that pl by (cases n) (simp_all add: still_near_def near_edge_def start_walk_def)
  have walk: "walk_blocks (initial_tx (pl_derived sample_plan)) (opened wide_ev) [] (start_walk wide_set) = Inr (start_walk wide_set)"
    by simp
  have "after_scan wide_ev wide_opts sample_plan wide_pool = finish_run wide_ev wide_opts wide_pool 103 ?wi"
    by (rule after_scanI [where w = "start_walk wide_set"])
      (use walk in \<open>simp_all only: pl outcome wide_fields wide_seed loop pass_env.simps\<close>)
  moreover obtain u where u: "seal_utxos wide_ev sample_key 0 wide_set = Inr u"
    by (simp add: seal_utxos_def sealEnvelope_def decode_sample_key wide_set_def)
  ultimately obtain r where "after_scan wide_ev wide_opts sample_plan wide_pool = Inr r" "sr_scanned r" "sr_error r = None"
    by (auto simp: finish_run_def wide_fields start_walk_def finalize_def List.map_filter_def wide_pool_def sample_pool_def)
  then show ?thesis
    using run_sync.scanned [OF wide_before, of 1 wide_pool] wide_reaches joined pl(1) by auto
qed

theorem run_forgets_wide_window_witness:
  "\<exists>r. run_sync wide_ev wide_opts (Inr r) \<and> sr_normalized r = [] \<and> sr_cursor r = 103 \<and>
     re_match wide_ev [] [] [fst (re_derive wide_ev sample_payload 0 5)] \<and>
     seed_utxos wide_ev sample_key (sr_utxos r) = wide_set"
proof -
  obtain r where r: "run_sync wide_ev wide_opts (Inr r)" "sr_scanned r" "sr_error r = None" using wide_run by auto
  note b = before_scan_plan [OF wide_before]
  have "sr_normalized r = [] \<and> (sr_error r = None \<longrightarrow> sr_cursor r = 109 - 6) \<and>
      seed_utxos wide_ev (ro_key wide_opts) (sr_utxos r) = seed_utxos wide_ev (ro_key wide_opts) (ro_sealed wide_opts)"
  proof (rule run_forgets_wide_window [OF r(1,2) _ wide_survive _ b(5,6)])
    show "re_filter wide_ev = liveFetchFilter sample_platform sample_chain" by (simp add: wide_fields sample_ev_def)
    show "distinct (map fst (seed_utxos wide_ev (ro_key wide_opts) (ro_sealed wide_opts)))"
      by (simp add: wide_fields wide_seed wide_set_def)
    show "0 < wp_gap (pl_payload sample_plan)" by (simp add: sample_plan_def sample_payload_def)
    show "re_tip wide_ev = Inr 109" by (simp add: wide_fields)
    show "\<forall>h f. from_height_of wide_opts \<le> h \<longrightarrow> re_filter wide_ev h = Inr (Some f) \<longrightarrow>
        match_filter (job_of wide_ev (109 - 6) (pl_derived sample_plan)) f \<noteq> Inr True"
    proof (intro allI impI)
      fix h f
      show "match_filter (job_of wide_ev (109 - 6) (pl_derived sample_plan)) f \<noteq> Inr True"
        by (cases "hexToBytes (flt_hash f)") (simp_all add: match_filter_def job_of_def wide_match)
    qed
  qed
  moreover have "re_match wide_ev [] [] [fst (re_derive wide_ev sample_payload 0 5)]" by (simp add: wide_ev_def sample_ev_def)
  ultimately show ?thesis using r by (auto simp: wide_fields wide_seed)
qed

end
