(* ===== verification/Handshake.thy ===== *)
theory Handshake
  imports RunSync
begin

text \<open>
  The messages between a consuming app and the widget: \<open>src/stealth/lib/postmessage.ts\<close> on the
  app's side, \<open>src/stealth/widget/App.tsx\<close> with \<open>allowed-origins.ts\<close> on the widget's.  The widget is
  a state machine over the messages it receives; the lemmas show that a session always is one that
  a listed origin opened with a key, and that no key goes out in app mode.  A message is what the
  structured clone carries, as a JSON value (\<open>None\<close> is \<open>undefined\<close>), and the origin it came from,
  which the browser vouches for.
\<close>

section \<open>Messages\<close>

record message_event =
  me_origin :: string
  me_data :: "json option"

text \<open>\<open>!data || data.type !== t\<close> is the test for a message of another kind.\<close>

definition message_of :: "string \<Rightarrow> message_event \<Rightarrow> json option" where
  "message_of t e = (case me_data e of
     None \<Rightarrow> None
   | Some d \<Rightarrow> if truthy (Some d) \<and> field d ''type'' = Some (JStr t) then Some d else None)"

definition strip_slash :: "string \<Rightarrow> string" where
  "strip_slash s = (if s \<noteq> [] \<and> last s = CHR ''/'' then butlast s else s)"

section \<open>Allowed origins\<close>

definition STEALTH_DEFAULT_ORIGIN :: string where
  "STEALTH_DEFAULT_ORIGIN = ''https://app.orangerails.com''"

fun split_comma :: "string \<Rightarrow> string \<Rightarrow> string list" where
  "split_comma w [] = [w]"
| "split_comma w (c # s) = (if c = CHR '','' then w # split_comma [] s else split_comma (w @ [c]) s)"

definition parseAllowedOrigins :: "string option \<Rightarrow> string option \<Rightarrow> string set" where
  "parseAllowedOrigins raw self =
     (let resolved = (case raw of Some r \<Rightarrow> if r = [] then STEALTH_DEFAULT_ORIGIN else r
                      | None \<Rightarrow> STEALTH_DEFAULT_ORIGIN);
          listed = filter (\<lambda>s. s \<noteq> []) (map trim_text (split_comma [] resolved));
          own = (case self of Some s \<Rightarrow> if s \<noteq> [] \<and> s \<noteq> ''null'' then [s] else [] | None \<Rightarrow> [])
      in set (listed @ own))"

definition isAllowedOrigin :: "string \<Rightarrow> string set \<Rightarrow> bool" where
  "isAllowedOrigin origin allowlist \<longleftrightarrow> origin \<in> allowlist"

section \<open>The app's side\<close>

definition STEALTH_HKDF_INFO :: string where "STEALTH_HKDF_INFO = ''or-stealth-v1''"

text \<open>The key of an app: 256 bits out of the raw bytes of its master key, in base64.\<close>

definition deriveOrStealthKey :: "web \<Rightarrow> bytes \<Rightarrow> string" where
  "deriveOrStealthKey w mek = b64encode (w_hkdf w mek (w_encode w STEALTH_HKDF_INFO) 32)"

fun without :: "string \<Rightarrow> json \<Rightarrow> json" where
  "without k (JObj kvs) = JObj (filter (\<lambda>x. fst x \<noteq> k) kvs)"
| "without k x = x"

text \<open>\<open>None\<close> is the \<open>StealthKeyLeakError\<close>.\<close>

definition assertNoKeyInAppMode :: "json \<Rightarrow> json option" where
  "assertNoKeyInAppMode init =
     (if field init ''seal_mode'' \<noteq> Some (JStr ''app'') then Some init
      else case nonempty_string (field init ''or_stealth_key_b64'') of
             Some _ \<Rightarrow> None
           | None \<Rightarrow> Some (without ''or_stealth_key_b64'' init))"

text \<open>
  An opened widget: what goes out to the popup, with the target origin, and what the app is told.
  The popup and its address are the browser's.
\<close>

datatype app_effect = ToPopup json string | OnMessage "json option"

definition widget_base :: "string option \<Rightarrow> string" where
  "widget_base b = strip_slash (case b of Some s \<Rightarrow> s | None \<Rightarrow> ''https://connect.orangerails.com'')"

definition on_widget_message :: "string \<Rightarrow> json \<Rightarrow> message_event \<Rightarrow> app_effect list" where
  "on_widget_message base init e =
     (if me_origin e \<noteq> base then []
      else case me_data e of
             Some d \<Rightarrow> if field d ''type'' = Some (JStr ''OR_STEALTH_READY'') then [ToPopup init base]
                       else [OnMessage (Some d)]
           | None \<Rightarrow> [OnMessage None])"

definition openStealthWidget :: "string option \<Rightarrow> json \<Rightarrow> message_event list \<Rightarrow> app_effect list option" where
  "openStealthWidget base_url init0 evs =
     (case assertNoKeyInAppMode init0 of
        None \<Rightarrow> None
      | Some init \<Rightarrow> Some (concat (map (on_widget_message (widget_base base_url) init) evs)))"

section \<open>The widget's side\<close>

definition STEALTH_SUPPORTED_PROTOCOL_VERSIONS :: "rat list" where
  "STEALTH_SUPPORTED_PROTOCOL_VERSIONS = [1]"

definition APP_MODE_IMPLEMENTED_MODES :: "string list" where
  "APP_MODE_IMPLEMENTED_MODES = []"

definition STEALTH_MODES :: "string list" where
  "STEALTH_MODES = [''add'', ''sync'', ''list'', ''delete'']"

definition is_string :: "json option \<Rightarrow> bool" where
  "is_string x \<longleftrightarrow> (case x of Some (JStr _) \<Rightarrow> True | _ \<Rightarrow> False)"

definition version_supported :: "json option \<Rightarrow> bool" where
  "version_supported x \<longleftrightarrow> (case x of
     Some (JNum (Fin v)) \<Rightarrow> v \<in> set STEALTH_SUPPORTED_PROTOCOL_VERSIONS | _ \<Rightarrow> False)"

definition gap_in_range :: "json option \<Rightarrow> bool" where
  "gap_in_range x \<longleftrightarrow> (case x of
     None \<Rightarrow> True
   | Some (JNum g) \<Rightarrow> is_integer g \<and> \<not> js_lt g (Fin 1) \<and> \<not> js_lt (Fin 1000) g
   | _ \<Rightarrow> False)"

text \<open>The checks on an INIT in their order: the code and the text shown of the first that fails.\<close>

definition check_init :: "string set \<Rightarrow> string \<Rightarrow> json \<Rightarrow> (string \<times> string) option" where
  "check_init allowlist origin d =
     (if \<not> isAllowedOrigin origin allowlist
      then Some (''ORIGIN_NOT_ALLOWED'', ''Origin not allowed: '' @ origin)
      else if field d ''return_callback_origin'' \<noteq> Some (JStr origin)
      then Some (''ORIGIN_NOT_ALLOWED'', ''return_callback_origin mismatch'')
      else if \<not> version_supported (field d ''protocol_version'')
      then Some (''PROTOCOL_VERSION_MISMATCH'', ''protocol version mismatch'')
      else if \<not> is_string (field d ''app_slug'') \<or> \<not> is_string (field d ''app_user_id'') \<or>
              field d ''mode'' \<notin> set (map (\<lambda>m. Some (JStr m)) STEALTH_MODES)
      then Some (''INTERNAL'', ''INIT message is missing required fields'')
      else if field d ''seal_mode'' = Some (JStr ''app'') \<and> is_string (field d ''or_stealth_key_b64'')
      then Some (''INTERNAL'', ''seal_mode=app must not carry or_stealth_key_b64'')
      else if field d ''seal_mode'' = Some (JStr ''app'') \<and>
              field d ''mode'' \<notin> set (map (\<lambda>m. Some (JStr m)) APP_MODE_IMPLEMENTED_MODES)
      then Some (''INTERNAL'', ''seal_mode='' @ [CHR 0x27] @ ''app'' @ [CHR 0x27] @
        '' is not yet supported. This feature is not available in the current widget version.'')
      else if field d ''seal_mode'' \<noteq> Some (JStr ''app'') \<and> nonempty_string (field d ''or_stealth_key_b64'') = None
      then Some (''INTERNAL'', ''INIT message is missing or_stealth_key_b64'')
      else if \<not> gap_in_range (field d ''gap_limit'')
      then Some (''INVALID_GAP_LIMIT'', ''INIT gap_limit out of range'')
      else if field d ''mode'' \<noteq> Some (JStr ''add'') \<and> \<not> is_string (field d ''connection_id'')
      then Some (''CONNECTION_NOT_FOUND'', ''INIT mode requires a connection_id'')
      else None)"

record widget_state =
  ws_init :: "json option"
  ws_error :: "string option"
  ws_waiting :: bool

definition fresh_widget :: "bool \<Rightarrow> widget_state" where
  "fresh_widget opened = \<lparr>ws_init = None, ws_error = None, ws_waiting = opened\<rparr>"

text \<open>The handler; the second component is the error posted back to the sender.\<close>

definition on_init_message ::
    "string set \<Rightarrow> message_event \<Rightarrow> widget_state \<Rightarrow> widget_state \<times> (string \<times> string) option" where
  "on_init_message allowlist e ws =
     (case message_of ''OR_STEALTH_INIT'' e of
        None \<Rightarrow> (ws, None)
      | Some d \<Rightarrow>
          (case check_init allowlist (me_origin e) d of
             Some (code, shown) \<Rightarrow> (ws\<lparr>ws_error := Some shown\<rparr>, Some (me_origin e, code))
           | None \<Rightarrow> (\<lparr>ws_init = Some d, ws_error = None, ws_waiting = False\<rparr>, None)))"

datatype widget_event = Message message_event | GraceOver

definition widget_step :: "string set \<Rightarrow> widget_state \<Rightarrow> widget_event \<Rightarrow> widget_state" where
  "widget_step allowlist ws ev =
     (case ev of Message e \<Rightarrow> fst (on_init_message allowlist e ws) | GraceOver \<Rightarrow> ws\<lparr>ws_waiting := False\<rparr>)"

definition widget_run :: "string set \<Rightarrow> bool \<Rightarrow> widget_event list \<Rightarrow> widget_state" where
  "widget_run allowlist opened evs = foldl (widget_step allowlist) (fresh_widget opened) evs"

text \<open>What the component renders.\<close>

datatype screen = ErrorCard string | DirectLoadCard | WaitingForInit | NoKeyless | Route string json | UnknownMode

definition screen_of :: "widget_state \<Rightarrow> screen" where
  "screen_of ws =
     (case ws_error ws of
        Some m \<Rightarrow> ErrorCard m
      | None \<Rightarrow>
          (case ws_init ws of
             None \<Rightarrow> if ws_waiting ws then WaitingForInit else DirectLoadCard
           | Some d \<Rightarrow>
               if field d ''seal_mode'' = Some (JStr ''app'') then NoKeyless
               else (case field d ''mode'' of
                       Some (JStr m) \<Rightarrow> if m \<in> set STEALTH_MODES then Route m d else UnknownMode
                     | _ \<Rightarrow> UnknownMode)))"

section \<open>What an admitted INIT is\<close>

definition trusted_init :: "string set \<Rightarrow> string \<Rightarrow> json \<Rightarrow> bool" where
  "trusted_init allowlist origin d \<longleftrightarrow> origin \<in> allowlist \<and>
     field d ''return_callback_origin'' = Some (JStr origin) \<and>
     field d ''protocol_version'' = Some (JNum (Fin 1)) \<and>
     field d ''seal_mode'' \<noteq> Some (JStr ''app'') \<and>
     (\<exists>k. field d ''or_stealth_key_b64'' = Some (JStr k) \<and> k \<noteq> []) \<and>
     (\<exists>u. field d ''app_user_id'' = Some (JStr u)) \<and> (\<exists>a. field d ''app_slug'' = Some (JStr a)) \<and>
     (\<exists>m \<in> {''add'', ''sync'', ''list'', ''delete''}. field d ''mode'' = Some (JStr m) \<and>
        (m \<noteq> ''add'' \<longrightarrow> (\<exists>c. field d ''connection_id'' = Some (JStr c)))) \<and>
     (\<forall>g. field d ''gap_limit'' = Some g \<longrightarrow> (\<exists>n. g = JNum (jsint n) \<and> 1 \<le> n \<and> n \<le> 1000))"

lemma is_string_iff: "is_string x \<longleftrightarrow> (\<exists>s. x = Some (JStr s))"
  by (auto simp: is_string_def split: option.splits json.splits)

lemma nonempty_string_iff: "nonempty_string x = Some s \<longleftrightarrow> x = Some (JStr s) \<and> s \<noteq> []"
  by (cases x rule: nonempty_string.cases) auto

lemma version_iff: "version_supported x \<longleftrightarrow> x = Some (JNum (Fin 1))"
  by (auto simp: version_supported_def STEALTH_SUPPORTED_PROTOCOL_VERSIONS_def split: option.splits json.splits jsnum.splits)

lemma gap_iff: "gap_in_range x \<longleftrightarrow> (\<forall>g. x = Some g \<longrightarrow> (\<exists>n. g = JNum (jsint n) \<and> 1 \<le> n \<and> n \<le> 1000))"
proof -
  have "js_lt (jsint n) (Fin 1) \<longleftrightarrow> n < 1" "js_lt (Fin 1000) (jsint n) \<longleftrightarrow> 1000 < n" for n
    by (simp_all add: of_int_less_1_iff)
  then show ?thesis
    by (auto simp: gap_in_range_def is_integer_iff not_less split: option.splits json.splits)
qed

lemma check_init_ok: "check_init allowlist origin d = None \<longleftrightarrow> trusted_init allowlist origin d"
proof -
  have modes: "x \<in> set (map (\<lambda>m. Some (JStr m)) STEALTH_MODES) \<longleftrightarrow>
      (\<exists>m \<in> {''add'', ''sync'', ''list'', ''delete''}. x = Some (JStr m))" for x
    by (auto simp: STEALTH_MODES_def)
  show ?thesis
    unfolding check_init_def trusted_init_def modes gap_iff version_iff is_string_iff isAllowedOrigin_def APP_MODE_IMPLEMENTED_MODES_def
    by (cases "nonempty_string (field d ''or_stealth_key_b64'')")
      (auto simp: nonempty_string_iff option.distinct)
qed

section \<open>The running widget\<close>

lemma on_init_message_cases:
  obtains (ignored) "on_init_message al e ws = (ws, None)"
  | (refused) d code shown where "message_of ''OR_STEALTH_INIT'' e = Some d" "\<not> trusted_init al (me_origin e) d"
      "on_init_message al e ws = (ws\<lparr>ws_error := Some shown\<rparr>, Some (me_origin e, code))"
  | (admitted) d where "me_data e = Some d" "trusted_init al (me_origin e) d"
      "on_init_message al e ws = (\<lparr>ws_init = Some d, ws_error = None, ws_waiting = False\<rparr>, None)"
proof (cases "message_of ''OR_STEALTH_INIT'' e")
  case None
  then show thesis using ignored by (simp add: on_init_message_def)
next
  case (Some d)
  then have data: "me_data e = Some d" by (auto simp: message_of_def split: option.splits if_splits)
  show thesis
  proof (cases "check_init al (me_origin e) d")
    case None
    then have "trusted_init al (me_origin e) d" by (simp add: check_init_ok)
    then show thesis using Some None data admitted by (simp add: on_init_message_def)
  next
    case (Some v)
    have "\<not> trusted_init al (me_origin e) d" using Some by (simp flip: check_init_ok)
    then show thesis
      using Some refused [of d "snd v" "fst v"] \<open>message_of ''OR_STEALTH_INIT'' e = Some d\<close>
      by (simp add: on_init_message_def split: prod.split)
  qed
qed

lemma widget_run_snoc: "widget_run al b (evs @ [ev]) = widget_step al (widget_run al b evs) ev"
  by (simp add: widget_run_def)

lemma widget_session:
  "ws_init (widget_run al b evs) = Some d \<Longrightarrow>
     \<exists>e. Message e \<in> set evs \<and> me_data e = Some d \<and> trusted_init al (me_origin e) d"
proof (induction evs rule: rev_induct)
  case Nil
  then show ?case by (simp add: widget_run_def fresh_widget_def)
next
  case (snoc ev evs)
  show ?case
  proof (cases ev)
    case GraceOver
    then show ?thesis using snoc by (simp add: widget_run_snoc widget_step_def)
  next
    case (Message e)
    show ?thesis
      by (rule on_init_message_cases [of al e "widget_run al b evs"])
        (use snoc Message in \<open>auto simp: widget_run_snoc widget_step_def\<close>)
  qed
qed

lemma route_screen: "screen_of ws = Route m d \<Longrightarrow> ws_init ws = Some d \<and> ws_error ws = None \<and>
    field d ''mode'' = Some (JStr m) \<and> m \<in> set STEALTH_MODES"
  by (auto simp: screen_of_def split: option.splits json.splits if_splits)

section \<open>Samples\<close>

definition app_origin :: string where "app_origin = ''https://v2.example''"

definition sample_init :: json where
  "sample_init = JObj [(''type'', JStr ''OR_STEALTH_INIT''), (''protocol_version'', JNum (Fin 1)),
     (''app_slug'', JStr ''v2''), (''app_user_id'', JStr ''alice''), (''mode'', JStr ''sync''),
     (''connection_id'', JStr ''c''), (''or_stealth_key_b64'', JStr ''k''), (''gap_limit'', JNum (jsint 20)),
     (''return_callback_origin'', JStr app_origin)]"

lemma sample_trusted: "trusted_init {app_origin} app_origin sample_init"
  by (auto simp: trusted_init_def sample_init_def)

lemma sample_session:
  "screen_of (widget_run {app_origin} True [Message \<lparr>me_origin = app_origin, me_data = Some sample_init\<rparr>]) = Route ''sync'' sample_init"
proof -
  have "check_init {app_origin} app_origin sample_init = None" using sample_trusted by (simp add: check_init_ok)
  then show ?thesis
    by (simp add: widget_run_def widget_step_def on_init_message_def message_of_def screen_of_def)
      (simp add: sample_init_def STEALTH_MODES_def)
qed

section \<open>Properties\<close>

text \<open>
  C21: whatever messages arrive from whatever windows, a route of the widget only ever runs on an
  INIT that came from a listed origin, names that origin as the one replies go to, speaks the
  supported version, carries a non-empty key and is not in app mode, names user, app and a known
  mode, with a connection unless the mode is add, and with a gap limit from 1 to 1000 if it has one.
\<close>

theorem session_from_trusted_origin:
  assumes "screen_of (widget_run al b evs) = Route m d"
  shows "\<exists>e. Message e \<in> set evs \<and> me_data e = Some d \<and> trusted_init al (me_origin e) d \<and>
    field d ''mode'' = Some (JStr m)"
  using route_screen [OF assms] widget_session by blast

theorem session_from_trusted_origin_witness:
  "trusted_init {app_origin} app_origin sample_init \<and> field sample_init ''mode'' = Some (JStr ''sync'')"
  using session_from_trusted_origin [OF sample_session] by auto

text \<open>
  A message of another origin ends a running session.  It needs no secret and no listing: an
  INIT from a window that is not allowed is refused, but the refusal replaces the route by the error
  card, which stops a sync half way, until the app sends a valid INIT again.
\<close>

theorem stranger_ends_session:
  assumes "screen_of (widget_run al b evs) = Route m d"
    and "message_of ''OR_STEALTH_INIT'' e \<noteq> None" and "me_origin e \<notin> al"
  shows "screen_of (widget_run al b (evs @ [Message e])) = ErrorCard (''Origin not allowed: '' @ me_origin e)"
  using assms
  by (auto simp: widget_run_snoc widget_step_def on_init_message_def check_init_def isAllowedOrigin_def screen_of_def)

theorem stranger_ends_session_witness:
  "screen_of (widget_run {app_origin} True ([Message \<lparr>me_origin = app_origin, me_data = Some sample_init\<rparr>] @
     [Message \<lparr>me_origin = ''x'', me_data = Some (JObj [(''type'', JStr ''OR_STEALTH_INIT'')])\<rparr>])) =
     ErrorCard (''Origin not allowed: '' @ ''x'')"
  using stranger_ends_session [OF sample_session,
    of "\<lparr>me_origin = ''x'', me_data = Some (JObj [(''type'', JStr ''OR_STEALTH_INIT'')])\<rparr>"]
  by (simp add: message_of_def app_origin_def)

lemma field_without [simp]: "field (without k x) k' = (if k' = k then None else field x k')"
proof (cases x)
  case (JObj kvs)
  have "map_of (rev (filter (\<lambda>x. fst x \<noteq> k) kvs)) k' = (if k' = k then None else map_of (rev kvs) k')"
  proof -
    have "map_of (filter (\<lambda>x. fst x \<noteq> k) l) k' = (if k' = k then None else map_of l k')" for l :: "(string \<times> json) list"
      by (induction l) auto
    then show ?thesis by (simp add: rev_filter)
  qed
  then show ?thesis using JObj by simp
qed auto

text \<open>
  On the app's side an app-mode session either fails before the popup opens or posts an INIT
  that has no key field, in any mode the INIT only goes to the origin of the widget and only when
  the widget reports ready, and the widget refuses every INIT in app mode: no key reaches the
  widget in app mode, by either side alone.
\<close>

theorem app_mode_posts_no_key:
  assumes "openStealthWidget base init evs = Some out" and "ToPopup x target \<in> set out"
  shows "target = widget_base base \<and>
    (\<exists>e \<in> set evs. me_origin e = target \<and> (\<exists>r. me_data e = Some r \<and> field r ''type'' = Some (JStr ''OR_STEALTH_READY''))) \<and>
    (field init ''seal_mode'' = Some (JStr ''app'') \<longrightarrow> field x ''or_stealth_key_b64'' = None \<and>
       check_init al origin x \<noteq> None \<and> check_init al origin init \<noteq> None) \<and>
    (\<forall>k. k \<noteq> ''or_stealth_key_b64'' \<longrightarrow> field x k = field init k)"
proof -
  obtain y where y: "assertNoKeyInAppMode init = Some y"
    and out: "out = concat (map (on_widget_message (widget_base base) y) evs)"
    using assms(1) by (auto simp: openStealthWidget_def split: option.splits)
  obtain e where e: "e \<in> set evs" "ToPopup x target \<in> set (on_widget_message (widget_base base) y e)"
    using assms(2) out by auto
  then have x: "x = y" "target = widget_base base" "me_origin e = target"
      "\<exists>r. me_data e = Some r \<and> field r ''type'' = Some (JStr ''OR_STEALTH_READY'')"
    by (auto simp: on_widget_message_def split: if_splits option.splits)
  have "y = init \<or> y = without ''or_stealth_key_b64'' init"
    and app: "field init ''seal_mode'' = Some (JStr ''app'') \<longrightarrow> y = without ''or_stealth_key_b64'' init"
    using y by (auto simp: assertNoKeyInAppMode_def split: if_splits option.splits)
  then have fields: "\<forall>k. k \<noteq> ''or_stealth_key_b64'' \<longrightarrow> field y k = field init k" by auto
  then have "field init ''seal_mode'' = Some (JStr ''app'') \<longrightarrow>
      check_init al origin y \<noteq> None \<and> check_init al origin init \<noteq> None"
    by (auto simp: check_init_ok trusted_init_def)
  then show ?thesis using x e(1) app fields by auto
qed

definition app_init :: json where
  "app_init = JObj [(''seal_mode'', JStr ''app''), (''or_stealth_key_b64'', JStr [])]"

definition ready_event :: message_event where
  "ready_event = \<lparr>me_origin = ''https://connect.orangerails.com'',
     me_data = Some (JObj [(''type'', JStr ''OR_STEALTH_READY'')])\<rparr>"

theorem app_mode_posts_no_key_witness:
  "\<exists>x. openStealthWidget None app_init [ready_event] = Some [ToPopup x (widget_base None)] \<and>
     field x ''or_stealth_key_b64'' = None \<and> check_init {[]} [] x \<noteq> None"
proof -
  have base: "widget_base None = ''https://connect.orangerails.com''" by (simp add: widget_base_def strip_slash_def)
  have o: "openStealthWidget None app_init [ready_event] = Some [ToPopup (without ''or_stealth_key_b64'' app_init) (widget_base None)]"
    by (simp add: openStealthWidget_def assertNoKeyInAppMode_def app_init_def on_widget_message_def ready_event_def base)
  from app_mode_posts_no_key [OF this, of _ "widget_base None" "{[]}" "[]"] show ?thesis
    using o by (auto simp: app_init_def)
qed

text \<open>The key an app derives from its master key is one that all sealing functions accept.\<close>

lemma derived_key_is_valid:
  assumes "\<And>k i n. length (w_hkdf w k i n) = n"
  shows "valid_key (Some (JStr (deriveOrStealthKey w mek)))"
proof -
  have "deriveOrStealthKey w mek \<noteq> []"
    using assms [of mek "w_encode w STEALTH_HKDF_INFO" 32] by (auto simp: deriveOrStealthKey_def b64encode_Nil)
  then show ?thesis
    by (simp add: valid_key_def decodeKeyBytes_Inr deriveOrStealthKey_def base64_inverse KEY_LEN_def assms)
qed

end
