(* ===== verification/SyncRoute.thy ===== *)
theory SyncRoute
  imports Handshake RunCursor ReorgCheck
begin

text \<open>
  The sync route of the widget, \<open>src/stealth/widget/routes/sync.tsx\<close>, with its helpers \<open>proxyFetch\<close>,
  \<open>waitForDeliveryAck\<close> and \<open>resolveFunctionUrl\<close>: fetch the sealed envelope and the outputs of
  earlier runs, run the sync, upload, wait for the app to acknowledge, move the cursor, ask for the
  reorganisation check, report.  A run of the route is the list of its effects in order, requests
  and messages, and how it ends; what the other side answers is a parameter.  Progress messages,
  the render state and log output are left out, as is the wall-clock duration.
\<close>

section \<open>Helpers\<close>

text \<open>The messages that arrive at the window before the timeout, in order.\<close>

record proxy_result =
  pr_ok :: bool
  pr_status :: jsnum
  pr_text :: string
  pr_parsed :: "json option"

definition is_proxy_reply :: "string \<Rightarrow> string \<Rightarrow> message_event \<Rightarrow> bool" where
  "is_proxy_reply origin rid e \<longleftrightarrow> me_origin e = origin \<and>
     (case message_of ''OR_STEALTH_PROXY_RESPONSE'' e of
        None \<Rightarrow> False | Some d \<Rightarrow> field d ''request_id'' = Some (JStr rid))"

definition status_ok :: "jsnum \<Rightarrow> bool" where
  "status_ok s \<longleftrightarrow> js_le (Fin 200) s \<and> js_lt s (Fin 300)"

definition proxyFetch ::
    "(json option \<Rightarrow> string) \<Rightarrow> string \<Rightarrow> string \<Rightarrow> string \<Rightarrow> nat \<Rightarrow> message_event list \<Rightarrow> string + proxy_result" where
  "proxyFetch text origin rid fn timeout_ms evs =
     (case List.find (is_proxy_reply origin rid) evs of
        None \<Rightarrow> Inl (''Stealth proxy_fetch '' @ fn @ '' timed out after '' @ nat_text timeout_ms @ ''ms'')
      | Some e \<Rightarrow>
          (let d = the (me_data e); body = field d ''body'';
               status = (case field d ''status'' of Some (JNum n) \<Rightarrow> n | _ \<Rightarrow> Fin 0)
           in Inr \<lparr>pr_ok = status_ok status, pr_status = status,
                pr_text = (case body of Some (JStr s) \<Rightarrow> s | _ \<Rightarrow> text body), pr_parsed = body\<rparr>))"

definition is_ack :: "string \<Rightarrow> string \<Rightarrow> message_event \<Rightarrow> bool" where
  "is_ack origin conn e \<longleftrightarrow> me_origin e = origin \<and>
     (case me_data e of
        None \<Rightarrow> False
      | Some d \<Rightarrow> field d ''type'' = Some (JStr ''OR_STEALTH_DELIVERY_ACK'') \<and>
                 field d ''connection_id'' = Some (JStr conn))"

text \<open>Whether the promise resolves before the timeout.\<close>

definition waitForDeliveryAck :: "string \<Rightarrow> string \<Rightarrow> message_event list \<Rightarrow> bool" where
  "waitForDeliveryAck origin conn evs = list_ex (is_ack origin conn) evs"

record build_env =
  or_functions_base_url :: "string option"
  supabase_url :: "string option"

definition env_base :: "string option \<Rightarrow> string" where
  "env_base v = strip_slash (case v of None \<Rightarrow> [] | Some s \<Rightarrow> s)"

definition resolveFunctionUrl :: "build_env \<Rightarrow> string \<Rightarrow> string option \<Rightarrow> string + string" where
  "resolveFunctionUrl b name proxyBaseUrl =
     (if present proxyBaseUrl then Inr (strip_slash (the proxyBaseUrl) @ ''/'' @ name)
      else if env_base (or_functions_base_url b) \<noteq> [] then Inr (env_base (or_functions_base_url b) @ ''/'' @ name)
      else if env_base (supabase_url b) \<noteq> [] then Inr (env_base (supabase_url b) @ ''/functions/v1/'' @ name)
      else Inl (''resolveFunctionUrl: cannot build POST target for '' @ name))"

section \<open>The route's surroundings\<close>

text \<open>The INIT of a widget-mode session, as its interface types it.\<close>

record stealth_init =
  in_connection :: "string option"
  in_user :: string
  in_slug :: string
  in_token :: "string option"
  in_access :: "string option"
  in_proxy :: "string option"
  in_origin :: string
  in_key :: "json option"
  in_skip :: bool
  in_ack :: bool

text \<open>What the route reads of the wallet beside the part the run reads.\<close>

record wallet_view =
  wv_birthday :: string
  wv_descriptor :: "string option"

record complete_msg =
  cm_connection :: "string option"
  cm_sealed :: "sealed_tx list"
  cm_last :: int
  cm_count :: nat
  cm_bytes :: nat
  cm_exhausted :: bool
  cm_cursor_failed :: bool
  cm_pending :: bool

text \<open>
  A request through the parent or one over the network, with the function it is for, and the two
  messages that end a session.
\<close>

datatype effect =
  Proxied string json nat
| Fetched string string "string option" json
| Completed complete_msg
| Erred string string bool

text \<open>
  \<open>rv_messages\<close> are the messages that arrive while a proxied request waits, \<open>rv_fetch\<close> what a
  direct one gets: a network error or status and text.  \<open>rv_result\<close> is the run, \<open>rv_gone k\<close> whether
  the component was unmounted at the \<open>k\<close>-th place that asks.
\<close>

record route_env =
  rv_parent :: bool
  rv_build :: build_env
  rv_rid :: "string \<Rightarrow> string"
  rv_messages :: "string \<Rightarrow> json \<Rightarrow> message_event list"
  rv_fetch :: "string \<Rightarrow> string option \<Rightarrow> json \<Rightarrow> string + int \<times> string"
  rv_acks :: "message_event list"
  rv_text :: "json option \<Rightarrow> string"
  rv_parse :: "string \<Rightarrow> json option"
  rv_web :: web
  rv_wallet :: "wallet_view codec"
  rv_descriptor :: "string \<Rightarrow> string + bool"
  rv_platform :: platform
  rv_source :: "string \<Rightarrow> net_answer"
  rv_mock :: bool
  rv_force :: bool
  rv_gone :: "nat \<Rightarrow> bool"
  rv_result :: "run_options \<Rightarrow> run_error + sync_result"
  rv_why :: "run_error \<Rightarrow> string"

text \<open>How a route stops early: unmounted, or with one of the three kinds of error its catch tells apart.\<close>

datatype thrown = Failure string | NoAck | WindowGone
datatype stop = Unmounted | Threw thrown

type_synonym 'a route = "effect list \<times> (stop + 'a)"

definition bindr :: "'a route \<Rightarrow> ('a \<Rightarrow> 'b route) \<Rightarrow> 'b route" where
  "bindr m f = (case m of
     (es, Inl s) \<Rightarrow> (es, Inl s)
   | (es, Inr x) \<Rightarrow> (es @ fst (f x), snd (f x)))"

definition ret :: "'a \<Rightarrow> 'a route" where "ret x = ([], Inr x)"
definition throw :: "string \<Rightarrow> 'a route" where "throw m = ([], Inl (Threw (Failure m)))"
definition say :: "bool \<Rightarrow> effect \<Rightarrow> unit route" where "say b e = (if b then [e] else [], Inr ())"

text \<open>\<open>try\<close>: an error becomes a value; leaving does not.\<close>

definition tried :: "'a route \<Rightarrow> (thrown + 'a) route" where
  "tried m = (case m of
     (es, Inl (Threw t)) \<Rightarrow> (es, Inr (Inl t))
   | (es, Inl Unmounted) \<Rightarrow> (es, Inl Unmounted)
   | (es, Inr x) \<Rightarrow> (es, Inr (Inr x)))"

definition leave_if :: "bool \<Rightarrow> unit route" where
  "leave_if b = ([], if b then Inl Unmounted else Inr ())"

definition lift_err :: "string + 'a \<Rightarrow> stop + 'a" where
  "lift_err = map_sum (\<lambda>m. Threw (Failure m)) id"

definition through_parent :: "route_env \<Rightarrow> stealth_init \<Rightarrow> bool" where
  "through_parent ev i \<longleftrightarrow> present (in_proxy i) \<and> rv_parent ev"

definition proxied :: "route_env \<Rightarrow> stealth_init \<Rightarrow> string \<Rightarrow> json \<Rightarrow> nat \<Rightarrow> proxy_result route" where
  "proxied ev i fn body t =
     ([Proxied fn body t], lift_err (proxyFetch (rv_text ev) (in_origin i) (rv_rid ev fn) fn t (rv_messages ev fn body)))"

definition bearer :: "stealth_init \<Rightarrow> string option" where
  "bearer i = (if present (in_access i) then in_access i else None)"

definition fetched :: "route_env \<Rightarrow> stealth_init \<Rightarrow> string option \<Rightarrow> string \<Rightarrow> json \<Rightarrow> (int \<times> string) route" where
  "fetched ev i base fn body =
     (case resolveFunctionUrl (rv_build ev) fn base of
        Inl m \<Rightarrow> throw m
      | Inr url \<Rightarrow> ([Fetched fn url (bearer i) body], lift_err (rv_fetch ev url (bearer i) body)))"

text \<open>One call by the way the session has: status is fine, text for messages, body.\<close>

definition call :: "route_env \<Rightarrow> stealth_init \<Rightarrow> string \<Rightarrow> json \<Rightarrow> nat \<Rightarrow> (bool \<times> string) route" where
  "call ev i fn body t =
     (if through_parent ev i
      then bindr (proxied ev i fn body t) (\<lambda>r. ret (pr_ok r, pr_text r))
      else bindr (fetched ev i (in_proxy i) fn body) (\<lambda>(s, m). ret (status_ok (jsint s), m)))"

section \<open>Bodies\<close>

text \<open>An object literal as it is sent: properties that are \<open>undefined\<close> are dropped.\<close>

definition js_object :: "(string \<times> json option) list \<Rightarrow> json" where
  "js_object kvs = JObj (List.map_filter (\<lambda>(k, v). map_option (Pair k) v) kvs)"

definition text_opt :: "string option \<Rightarrow> json option" where
  "text_opt = map_option JStr"

definition envelope_json :: "sealed_env \<Rightarrow> json" where
  "envelope_json e = JObj [(''version'', JNum (se_version e)), (''algorithm'', JStr (se_algorithm e)),
     (''iv_b64'', JStr (iv_b64 e)), (''ciphertext_b64'', JStr (ciphertext_b64 e))]"

definition sealed_tx_json :: "sealed_tx \<Rightarrow> json" where
  "sealed_tx_json t = js_object [(''version'', Some (JNum (Fin 1))), (''algorithm'', Some (JStr ''AES-256-GCM'')),
     (''iv_b64'', Some (JStr (st_iv t))), (''ciphertext_b64'', Some (JStr (st_cipher t))),
     (''occurred_at'', Some (JStr (st_date t))), (''block_height'', Some (JNum (jsint (st_height t)))),
     (''block_hash_hex'', text_opt (st_hash t)), (''txid_blind_index_hex'', Some (JStr (st_blind t)))]"

definition fetch_body :: "stealth_init \<Rightarrow> json" where
  "fetch_body i = js_object [(''connection_id'', text_opt (in_connection i)), (''app_user_id'', Some (JStr (in_user i))),
     (''app_slug'', Some (JStr (in_slug i))), (''widget_token'', text_opt (in_token i))]"

definition utxos_body :: "stealth_init \<Rightarrow> json" where
  "utxos_body i = js_object [(''connection_id'', text_opt (in_connection i)), (''app_user_id'', Some (JStr (in_user i))),
     (''widget_token'', text_opt (in_token i))]"

definition upload_body :: "stealth_init \<Rightarrow> string option \<Rightarrow> json option \<Rightarrow> sync_result \<Rightarrow> json" where
  "upload_body i token generation r = js_object [(''connection_id'', text_opt (in_connection i)),
     (''app_user_id'', Some (JStr (in_user i))), (''widget_token'', text_opt token),
     (''sealed_transactions'', Some (JArr (map sealed_tx_json (sr_sealed r)))),
     (''last_block_scanned'', Some (JNum (jsint (sr_cursor r)))), (''scan_generation'', generation),
     (''sealed_utxos'', map_option envelope_json (sr_utxos r))]"

definition cursor_body :: "stealth_init \<Rightarrow> string option \<Rightarrow> json option \<Rightarrow> jsnum \<Rightarrow> sync_result \<Rightarrow> json" where
  "cursor_body i token generation scannedFrom r = js_object [(''connection_id'', text_opt (in_connection i)),
     (''app_user_id'', Some (JStr (in_user i))), (''widget_token'', text_opt token),
     (''last_block_scanned'', Some (JNum (jsint (sr_cursor r)))), (''from_height'', Some (JNum scannedFrom)),
     (''scan_generation'', generation)]"

definition reorg_body :: "stealth_init \<Rightarrow> string option \<Rightarrow> sync_result \<Rightarrow> json" where
  "reorg_body i token r = js_object [(''connection_id'', text_opt (in_connection i)),
     (''app_user_id'', Some (JStr (in_user i))), (''widget_token'', text_opt token),
     (''chain_tip'', Some (JNum (jsint (sr_cursor r))))]"

section \<open>Reading the connection\<close>

text \<open>
  Fields of another type than the interface gives read as \<open>NaN\<close>, the empty text, or \<open>None\<close>; such an
  envelope fails to unseal, as it does in the code.
\<close>

definition num_field :: "json \<Rightarrow> string \<Rightarrow> jsnum" where
  "num_field d k = (case field d k of Some (JNum n) \<Rightarrow> n | _ \<Rightarrow> NaN)"

definition text_field :: "json \<Rightarrow> string \<Rightarrow> string" where
  "text_field d k = (case field d k of Some (JStr s) \<Rightarrow> s | _ \<Rightarrow> [])"

definition envelope_of :: "json \<Rightarrow> sealed_env" where
  "envelope_of d = \<lparr>se_version = num_field d ''version'', se_algorithm = text_field d ''algorithm'',
     iv_b64 = text_field d ''iv_b64'', ciphertext_b64 = text_field d ''ciphertext_b64''\<rparr>"

definition stored_cursor :: "json \<Rightarrow> int option" where
  "stored_cursor d = (case field d ''last_block_scanned'' of
     Some (JNum n) \<Rightarrow> if is_integer n then Some (int_of_num n) else None
   | _ \<Rightarrow> None)"

text \<open>
  The rows the loop of \<open>resumeHeightFromRanges\<close> sees: bounds that are no numbers are not finite.
  Reading a row that is \<open>null\<close> throws, and so does a value that is not iterable; the characters of
  a text are rows without bounds.
\<close>

fun coverage_rows :: "json list \<Rightarrow> scan_range list option" where
  "coverage_rows [] = Some []"
| "coverage_rows (x # xs) = (if x = JNull then None
     else map_option (Cons \<lparr>from_height = num_field x ''from_height'', to_height = num_field x ''to_height''\<rparr>) (coverage_rows xs))"

definition coverage_of :: "json option \<Rightarrow> string + scan_range list option" where
  "coverage_of x =
     (if \<not> truthy x then Inr None
      else case the x of
             JArr rows \<Rightarrow> (case coverage_rows rows of
                None \<Rightarrow> Inl ''TypeError: Cannot read properties of null'' | Some rs \<Rightarrow> Inr (Some rs))
           | JStr s \<Rightarrow> Inr (Some (map (\<lambda>_. \<lparr>from_height = NaN, to_height = NaN\<rparr>) s))
           | _ \<Rightarrow> Inl ''TypeError: ranges is not iterable'')"

definition resume_of :: "json option \<Rightarrow> jsnum \<Rightarrow> string + jsnum option" where
  "resume_of x birthday =
     (case coverage_of x of
        Inl m \<Rightarrow> Inl m
      | Inr rows \<Rightarrow> map_sum (\<lambda>_. ''stealth/ranges: birthdayHeight must be a finite number'') id
          (resumeHeightFromCoverage rows birthday))"

text \<open>Step 1: the answer of \<open>or-stealth-envelope-fetch\<close>; \<open>null\<close> fails at the first property read.\<close>

definition read_connection :: "route_env \<Rightarrow> stealth_init \<Rightarrow> json route" where
  "read_connection ev i =
     (let fn = ''or-stealth-envelope-fetch''; body = fetch_body i;
          check = (\<lambda>okay parsed. if \<not> okay then throw ''Envelope fetch failed''
                   else case parsed of
                          None \<Rightarrow> throw ''TypeError: Cannot read properties of undefined''
                        | Some d \<Rightarrow> if d = JNull then throw ''TypeError: Cannot read properties of null'' else ret d)
      in if through_parent ev i
         then bindr (proxied ev i fn body 120000) (\<lambda>r. check (pr_ok r) (pr_parsed r))
         else bindr (fetched ev i (in_proxy i) fn body) (\<lambda>(s, m).
           if m = [] then check (status_ok (jsint s)) (Some JNull)
           else case rv_parse ev m of
                  None \<Rightarrow> throw ''SyntaxError''
                | Some d \<Rightarrow> check (status_ok (jsint s)) (Some d)))"

definition birthday_height :: "route_env \<Rightarrow> string \<Rightarrow> jsnum" where
  "birthday_height ev date =
     (if rv_mock ev then jsint (approximateHeightFromDate (rv_platform ev) date)
      else liveResolveBirthdayHeight (rv_platform ev) (rv_source ev date) date)"

definition open_wallet :: "route_env \<Rightarrow> stealth_init \<Rightarrow> json \<Rightarrow> wallet_view route" where
  "open_wallet ev i d =
     (case field d ''sealed_envelope'' of
        None \<Rightarrow> throw ''TypeError: Cannot read properties of undefined''
      | Some e \<Rightarrow>
          (case unsealEnvelope (rv_web ev) (rv_wallet ev) (envelope_of e) (in_key i) of
             Inl why \<Rightarrow> throw (rv_why ev (Sealing why))
           | Inr v \<Rightarrow> ret v))"

definition multisig_descriptor :: "route_env \<Rightarrow> wallet_view \<Rightarrow> bool route" where
  "multisig_descriptor ev v =
     (case wv_descriptor v of None \<Rightarrow> ret False | Some text \<Rightarrow> ([], lift_err (rv_descriptor ev text)))"

text \<open>Step 2: the outputs of earlier runs; whatever goes wrong, the run starts without them.\<close>

definition prior_of :: "json option \<Rightarrow> sealed_env option" where
  "prior_of parsed =
     (case parsed of
        None \<Rightarrow> None
      | Some d \<Rightarrow> if truthy (field d ''sealed_utxos'') then Some (envelope_of (the (field d ''sealed_utxos''))) else None)"

definition prior_utxos :: "route_env \<Rightarrow> stealth_init \<Rightarrow> sealed_env option route" where
  "prior_utxos ev i =
     (if in_skip i then ret None
      else let fn = ''or-stealth-utxos-fetch''; body = utxos_body i in
           bindr (tried (if through_parent ev i
              then bindr (proxied ev i fn body 15000) (\<lambda>r. ret (if pr_ok r then prior_of (pr_parsed r) else None))
              else bindr (fetched ev i (in_proxy i) fn body) (\<lambda>(s, m).
                ret (if status_ok (jsint s) then prior_of (rv_parse ev m) else None))))
             (\<lambda>r. ret (case r of Inl _ \<Rightarrow> None | Inr u \<Rightarrow> u)))"

section \<open>Running and reporting\<close>

definition options_of :: "stealth_init \<Rightarrow> json \<Rightarrow> jsnum \<Rightarrow> jsnum option \<Rightarrow> bool \<Rightarrow> sealed_env option \<Rightarrow> run_options" where
  "options_of i d birthday res multisig prior =
     \<lparr>ro_envelope = envelope_of (the (field d ''sealed_envelope'')), ro_key = in_key i, ro_last = stored_cursor d,
      ro_resume = map_option int_of_num res, ro_birthday = birthday, ro_descriptor = multisig,
      ro_passes = None, ro_sealed = prior\<rparr>"

definition run_it :: "route_env \<Rightarrow> run_options \<Rightarrow> sync_result route" where
  "run_it ev opts = ([], case rv_result ev opts of
     Inr r \<Rightarrow> Inr r
   | Inl WindowExhausted \<Rightarrow> Inl (Threw WindowGone)
   | Inl e \<Rightarrow> Inl (Threw (Failure (rv_why ev e))))"

text \<open>Step 2b: a fresh widget token, only through the parent; any failure keeps the old one.\<close>

definition refresh_token :: "route_env \<Rightarrow> stealth_init \<Rightarrow> string option route" where
  "refresh_token ev i =
     (if through_parent ev i \<and> present (in_token i)
      then bindr (tried (proxied ev i ''or-link-mint-token'' (JObj [(''app_user_id'', JStr (in_user i))]) 15000))
        (\<lambda>r. ret (case r of
           Inr p \<Rightarrow> if pr_ok p then (case pr_parsed p of
               Some d \<Rightarrow> (case field d ''widget_token'' of Some (JStr t) \<Rightarrow> Some t | _ \<Rightarrow> in_token i)
             | None \<Rightarrow> in_token i) else in_token i
         | Inl _ \<Rightarrow> in_token i))
      else ret (in_token i))"

definition upload :: "route_env \<Rightarrow> stealth_init \<Rightarrow> string option \<Rightarrow> json option \<Rightarrow> sync_result \<Rightarrow> unit route" where
  "upload ev i token generation r =
     (if \<not> in_skip i \<and> (sr_sealed r \<noteq> [] \<or> sr_utxos r \<noteq> None)
      then bindr (call ev i ''or-stealth-transactions-store'' (upload_body i token generation r) 120000)
        (\<lambda>(okay, m). if okay then ret () else throw (''Upload failed: '' @ m))
      else ret ())"

definition needs_ack :: "stealth_init \<Rightarrow> bool" where
  "needs_ack i \<longleftrightarrow> in_ack i \<and> in_skip i"

definition complete_of :: "stealth_init \<Rightarrow> sync_result \<Rightarrow> bool \<Rightarrow> bool \<Rightarrow> complete_msg" where
  "complete_of i r failed pending = \<lparr>cm_connection = in_connection i, cm_sealed = sr_sealed r, cm_last = sr_cursor r,
     cm_count = sr_count r, cm_bytes = sr_bytes r, cm_exhausted = sr_exhausted r,
     cm_cursor_failed = failed, cm_pending = pending\<rparr>"

text \<open>Step 4: tell the app first, and wait until it says that it has saved.\<close>

definition ack_gate :: "route_env \<Rightarrow> stealth_init \<Rightarrow> sync_result \<Rightarrow> unit route" where
  "ack_gate ev i r =
     (if needs_ack i
      then bindr (say (rv_parent ev) (Completed (complete_of i r False True))) (\<lambda>_.
           bindr (leave_if (rv_gone ev 2)) (\<lambda>_.
             ([], if waitForDeliveryAck (in_origin i) (the (in_connection i)) (rv_acks ev)
                  then Inr () else Inl (Threw NoAck))))
      else ret ())"

text \<open>Step 5: where the scan began, whether it covers anything new, and the write.\<close>

definition scanned_from :: "jsnum \<Rightarrow> jsnum option \<Rightarrow> int option \<Rightarrow> jsnum" where
  "scanned_from birthday res stored = js_max birthday
     (case res of Some h \<Rightarrow> h | None \<Rightarrow> jsint ((case stored of None \<Rightarrow> - 1 | Some k \<Rightarrow> k) + 1))"

definition reached_higher :: "int option \<Rightarrow> sync_result \<Rightarrow> bool" where
  "reached_higher stored r \<longleftrightarrow> sr_scanned r \<and> sr_cursor r > (case stored of None \<Rightarrow> - 1 | Some k \<Rightarrow> k)"

definition filled_below :: "jsnum \<Rightarrow> int option \<Rightarrow> sync_result \<Rightarrow> bool" where
  "filled_below from stored r \<longleftrightarrow> sr_scanned r \<and>
     js_le from (jsint (case stored of None \<Rightarrow> - 1 | Some k \<Rightarrow> k)) \<and> js_le from (jsint (sr_cursor r))"

text \<open>
  The write through the parent, with the direct call of a session that has a user token as its
  fallback.  Its errors are caught and logged: what is left is whether it failed.
\<close>

definition write_cursor :: "route_env \<Rightarrow> stealth_init \<Rightarrow> json \<Rightarrow> bool route" where
  "write_cursor ev i body =
     (let fn = ''or-stealth-envelope-update'';
          okay = (\<lambda>r. case r of Inr (s, m) \<Rightarrow> status_ok (jsint s) | Inl _ \<Rightarrow> False) in
      if through_parent ev i
      then bindr (tried (proxied ev i fn body 15000)) (\<lambda>r.
        if (case r of Inr p \<Rightarrow> pr_ok p | Inl _ \<Rightarrow> False) then ret True
        else if present (in_access i) then bindr (tried (fetched ev i None fn body)) (\<lambda>r. ret (okay r))
        else ret False)
      else bindr (tried (fetched ev i (in_proxy i) fn body)) (\<lambda>r. ret (okay r)))"

definition move_cursor ::
    "route_env \<Rightarrow> stealth_init \<Rightarrow> string option \<Rightarrow> json option \<Rightarrow> int option \<Rightarrow> jsnum \<Rightarrow> sync_result \<Rightarrow> bool route" where
  "move_cursor ev i token generation stored from r =
     (if (\<not> rv_mock ev \<or> rv_force ev) \<and> (reached_higher stored r \<or> filled_below from stored r)
      then bindr (write_cursor ev i (cursor_body i token generation from r)) (\<lambda>okay. ret (\<not> okay))
      else ret False)"

text \<open>Step 6: the reorganisation check; nothing of its answer is used.\<close>

definition ask_reorg :: "route_env \<Rightarrow> stealth_init \<Rightarrow> string option \<Rightarrow> sync_result \<Rightarrow> unit route" where
  "ask_reorg ev i token r =
     (if sr_scanned r \<and> \<not> rv_mock ev
      then bindr (tried (call ev i ''or-stealth-reorg-check'' (reorg_body i token r) 120000)) (\<lambda>_. ret ())
      else ret ())"

definition stopped_text :: "int \<times> string \<Rightarrow> sync_result \<Rightarrow> string" where
  "stopped_text err r = ''Sync stopped at block '' @ int_text (fst err) @ '': '' @ snd err @
     ''. Progress to block '' @ int_text (sr_cursor r) @ '' was saved. Retry to continue.''"

definition report :: "route_env \<Rightarrow> stealth_init \<Rightarrow> sync_result \<Rightarrow> bool \<Rightarrow> sync_result route" where
  "report ev i r failed =
     bindr (say (\<not> needs_ack i \<and> rv_parent ev) (Completed (complete_of i r failed False))) (\<lambda>_.
       case sr_error r of
         Some err \<Rightarrow> throw (stopped_text err r)
       | None \<Rightarrow> bindr (leave_if (rv_gone ev 3)) (\<lambda>_. ret r))"

text \<open>What follows the run.\<close>

definition after_run ::
    "route_env \<Rightarrow> stealth_init \<Rightarrow> json option \<Rightarrow> int option \<Rightarrow> jsnum \<Rightarrow> sync_result \<Rightarrow> sync_result route" where
  "after_run ev i generation stored from r =
     bindr (refresh_token ev i) (\<lambda>token.
     bindr (upload ev i token generation r) (\<lambda>_.
     bindr (ack_gate ev i r) (\<lambda>_.
     bindr (move_cursor ev i token generation stored from r) (\<lambda>failed.
     bindr (ask_reorg ev i token r) (\<lambda>_.
     report ev i r failed)))))"

text \<open>Up to the run: the connection, the birthday, where to resume, and the options.\<close>

definition prepare :: "route_env \<Rightarrow> stealth_init \<Rightarrow> (json \<times> jsnum \<times> jsnum option \<times> run_options) route" where
  "prepare ev i =
     (if \<not> present (in_connection i) then throw ''connection_id is required for mode=sync''
      else
        bindr (read_connection ev i) (\<lambda>d.
        bindr (open_wallet ev i d) (\<lambda>v.
        let birthday = birthday_height ev (wv_birthday v) in
        bindr ([], lift_err (resume_of (field d ''scan_ranges'') birthday)) (\<lambda>res.
        bindr (multisig_descriptor ev v) (\<lambda>multisig.
        bindr (prior_utxos ev i) (\<lambda>prior.
        ret (d, birthday, res, options_of i d birthday res multisig prior)))))))"

definition sync_steps :: "route_env \<Rightarrow> stealth_init \<Rightarrow> sync_result route" where
  "sync_steps ev i =
     bindr (prepare ev i) (\<lambda>(d, birthday, res, opts).
     bindr (run_it ev opts) (\<lambda>r.
     bindr (leave_if (rv_gone ev 1)) (\<lambda>_.
     after_run ev i (field d ''scan_generation'') (stored_cursor d)
       (scanned_from birthday res (stored_cursor d)) r)))"

text \<open>The catch at the end, and how the session ends: shown as done, as an error, or not at all.\<close>

datatype route_end = Done sync_result | Shown string bool | Gone

definition error_code :: "thrown \<Rightarrow> string \<times> string \<times> bool" where
  "error_code t = (case t of
     NoAck \<Rightarrow> (''DELIVERY_ACK_MISSING'', ''Delivery acknowledgement not received within the required window.'', True)
   | WindowGone \<Rightarrow> (''WINDOW_EXHAUSTED'', ''stealth/sync: address window exhausted'', False)
   | Failure m \<Rightarrow> (''INTERNAL'', m, True))"

definition sync_route :: "route_env \<Rightarrow> stealth_init \<Rightarrow> effect list \<times> route_end" where
  "sync_route ev i =
     (case sync_steps ev i of
        (es, Inr r) \<Rightarrow> (es, Done r)
      | (es, Inl Unmounted) \<Rightarrow> (es, Gone)
      | (es, Inl (Threw t)) \<Rightarrow>
          (let (code, m, again) = error_code t in
           if rv_gone ev 4 then (es, Gone)
           else (es @ (if rv_parent ev then [Erred code m again] else []), Shown code again)))"

section \<open>What a route calls\<close>

fun fn_of :: "effect \<Rightarrow> (string \<times> json) option" where
  "fn_of (Proxied fn body t) = Some (fn, body)"
| "fn_of (Fetched fn url tok body) = Some (fn, body)"
| "fn_of _ = None"

text \<open>All effects of the route are calls of these functions with bodies that satisfy the predicate.\<close>

definition calls_only :: "(string \<Rightarrow> json \<Rightarrow> bool) \<Rightarrow> effect list \<Rightarrow> bool" where
  "calls_only P es \<longleftrightarrow> (\<forall>e \<in> set es. \<exists>fn body. fn_of e = Some (fn, body) \<and> P fn body)"

lemma fst_bindr: "fst (bindr m f) = fst m @ (case snd m of Inl _ \<Rightarrow> [] | Inr x \<Rightarrow> fst (f x))"
  by (cases m) (auto simp: bindr_def split: sum.split)

lemma snd_bindr: "snd (bindr m f) = (case snd m of Inl s \<Rightarrow> Inl s | Inr x \<Rightarrow> snd (f x))"
  by (cases m) (auto simp: bindr_def split: sum.split)

lemma lift_err_Inr [simp]: "lift_err x = Inr y \<longleftrightarrow> x = Inr y"
  by (cases x) (simp_all add: lift_err_def)

lemma fst_tried [simp]: "fst (tried m) = fst m"
  by (cases m) (auto simp: tried_def split: sum.split stop.split)

lemma calls_bindr:
  "calls_only P (fst m) \<Longrightarrow> (\<And>x. snd m = Inr x \<Longrightarrow> calls_only P (fst (f x))) \<Longrightarrow> calls_only P (fst (bindr m f))"
  by (cases "snd m") (auto simp: calls_only_def fst_bindr)

lemma calls_basic [intro]:
  "calls_only P []" "calls_only P (fst (ret x))" "calls_only P (fst (throw m))" "calls_only P (fst (leave_if b))"
  "calls_only P (fst m') \<Longrightarrow> calls_only P (fst (tried m'))"
  "P fn body \<Longrightarrow> calls_only P (fst (proxied ev i fn body t))"
  "P fn body \<Longrightarrow> calls_only P (fst (fetched ev i b' fn body))"
  by (auto simp: calls_only_def ret_def throw_def leave_if_def proxied_def fetched_def split: sum.split)

lemma calls_call [intro]: "P fn body \<Longrightarrow> calls_only P (fst (call ev i fn body t))"
  unfolding call_def by (auto intro!: calls_bindr split: prod.split)

definition reads_connection :: "string \<Rightarrow> json \<Rightarrow> bool" where
  "reads_connection fn body \<longleftrightarrow> fn \<in> {''or-stealth-envelope-fetch'', ''or-stealth-utxos-fetch''}"

lemma calls_read: "calls_only reads_connection (fst (read_connection ev i))"
  unfolding read_connection_def Let_def
  by (auto intro!: calls_bindr simp: reads_connection_def split: prod.split option.split)

lemma calls_prior: "calls_only reads_connection (fst (prior_utxos ev i))"
  unfolding prior_utxos_def Let_def
  by (auto intro!: calls_bindr calls_basic simp: reads_connection_def split: prod.split)

lemma calls_wallet: "calls_only P (fst (open_wallet ev i d))"
  unfolding open_wallet_def by (auto split: option.split sum.split)

lemma calls_multisig: "calls_only P (fst (multisig_descriptor ev v))"
  unfolding multisig_descriptor_def by (auto split: option.split)

lemma calls_prepare: "calls_only reads_connection (fst (prepare ev i))"
  unfolding prepare_def Let_def
  by (auto intro!: calls_bindr calls_read calls_wallet calls_multisig calls_prior)

lemma calls_refresh: "calls_only (\<lambda>fn b. fn = ''or-link-mint-token'') (fst (refresh_token ev i))"
  unfolding refresh_token_def by (auto intro!: calls_bindr)

lemma calls_upload:
  "calls_only (\<lambda>fn b. fn = ''or-stealth-transactions-store'' \<and> b = upload_body i token g r) (fst (upload ev i token g r))"
  unfolding upload_def by (auto intro!: calls_bindr split: prod.split)

lemma calls_cursor:
  "calls_only (\<lambda>fn b. fn = ''or-stealth-envelope-update'' \<and> b = cursor_body i token g from r \<and>
     (reached_higher stored r \<or> filled_below from stored r)) (fst (move_cursor ev i token g stored from r))"
  unfolding move_cursor_def write_cursor_def Let_def by (auto intro!: calls_bindr calls_basic)

lemma calls_reorg:
  "calls_only (\<lambda>fn b. fn = ''or-stealth-reorg-check'' \<and> b = reorg_body i token r \<and> sr_scanned r) (fst (ask_reorg ev i token r))"
  unfolding ask_reorg_def by (auto intro!: calls_bindr)

lemma calls_onlyD: "calls_only P es \<Longrightarrow> e \<in> set es \<Longrightarrow> \<exists>fn body. fn_of e = Some (fn, body) \<and> P fn body"
  by (auto simp: calls_only_def)

text \<open>What the run was given.\<close>

lemma prepared:
  assumes "snd (prepare ev i) = Inr (d, birthday, res, opts)"
  obtains v :: wallet_view and multisig prior where "present (in_connection i)" "birthday = birthday_height ev (wv_birthday v)"
    and "resume_of (field d ''scan_ranges'') birthday = Inr res"
    and "opts = options_of i d birthday res multisig prior" "in_skip i \<Longrightarrow> prior = None"
proof -
  have skip: "in_skip i \<Longrightarrow> snd (prior_utxos ev i) = Inr p \<Longrightarrow> p = None" for p
    by (simp add: prior_utxos_def ret_def)
  obtain v multisig prior where a: "present (in_connection i)" "snd (open_wallet ev i d) = Inr v"
      "birthday = birthday_height ev (wv_birthday v)" "resume_of (field d ''scan_ranges'') birthday = Inr res"
      "snd (multisig_descriptor ev v) = Inr multisig" "snd (prior_utxos ev i) = Inr prior"
      "opts = options_of i d birthday res multisig prior"
    using assms by (auto simp: prepare_def snd_bindr Let_def throw_def ret_def split: if_splits sum.splits)
  show thesis using skip [OF _ a(6)] by (rule that [OF a(1,3,4,7)])
qed

text \<open>A route that got as far as a result of the run, and one that did not.\<close>

lemma sync_steps_cases:
  obtains (early) "calls_only reads_connection (fst (sync_steps ev i))" "\<nexists>r. snd (sync_steps ev i) = Inr r"
  | (ran) es d birthday res opts r where "calls_only reads_connection es"
      "snd (prepare ev i) = Inr (d, birthday, res, opts)" "rv_result ev opts = Inr r"
      "sync_steps ev i = (es @ fst (after_run ev i (field d ''scan_generation'') (stored_cursor d)
         (scanned_from birthday res (stored_cursor d)) r),
       snd (after_run ev i (field d ''scan_generation'') (stored_cursor d) (scanned_from birthday res (stored_cursor d)) r))"
proof (cases "snd (prepare ev i)")
  case (Inl s)
  then show thesis using early calls_prepare [of ev i] by (auto simp: sync_steps_def fst_bindr snd_bindr)
next
  case (Inr x)
  obtain d birthday res opts where x: "x = (d, birthday, res, opts)" by (metis prod_cases4)
  show thesis
  proof (cases "rv_result ev opts")
    case (Inl e)
    have "fst (run_it ev opts) = []" "\<exists>s. snd (run_it ev opts) = Inl s"
      using Inl by (auto simp: run_it_def split: run_error.splits)
    then show thesis using early calls_prepare [of ev i] Inr x by (auto simp: sync_steps_def fst_bindr snd_bindr)
  next
    case r: (Inr r)
    then have run: "run_it ev opts = ([], Inr r)" by (simp add: run_it_def)
    show thesis
    proof (cases "rv_gone ev 1")
      case True
      then show thesis using early calls_prepare [of ev i] Inr x run
        by (auto simp: sync_steps_def fst_bindr snd_bindr leave_if_def)
    next
      case False
      then show thesis
        using ran [OF calls_prepare [of ev i] Inr [unfolded x] r] Inr x run
        by (auto simp: sync_steps_def fst_bindr snd_bindr leave_if_def prod_eq_iff)
    qed
  qed
qed

end
