(* ===== verification/RouteFacts.thy ===== *)
theory RouteFacts
  imports SyncRoute RunWindow
begin

text \<open>
  What the sync route guarantees: the cursor write comes after a successful delivery and names
  heights the run has read, the session ends in one message, and the endpoints accept the bodies the
  route builds.  Two theorems show runs in which the bookkeeping goes wrong.
\<close>

section \<open>Order\<close>

definition is_complete :: "effect \<Rightarrow> bool" where
  "is_complete e \<longleftrightarrow> (case e of Completed _ \<Rightarrow> True | _ \<Rightarrow> False)"

definition calls_fn :: "string \<Rightarrow> effect \<Rightarrow> bool" where
  "calls_fn fn e \<longleftrightarrow> (case fn_of e of Some (f, b) \<Rightarrow> f = fn | None \<Rightarrow> False)"

lemma calls_fnD: "calls_fn fn e \<Longrightarrow> calls_only P es \<Longrightarrow> e \<in> set es \<Longrightarrow> \<exists>b. fn_of e = Some (fn, b) \<and> P fn b"
  by (auto simp: calls_only_def calls_fn_def split: option.splits prod.splits)

lemma not_complete: "calls_only P es \<Longrightarrow> e \<in> set es \<Longrightarrow> \<not> is_complete e"
  by (cases e) (auto simp: calls_only_def is_complete_def)

lemma not_calls: "calls_only P es \<Longrightarrow> \<forall>b. \<not> P fn b \<Longrightarrow> e \<in> set es \<Longrightarrow> \<not> calls_fn fn e"
  using calls_fnD by blast

lemma gate_effects: "set (fst (ack_gate ev i r)) = (if needs_ack i \<and> rv_parent ev then {Completed (complete_of i r False True)} else {})"
  by (simp add: ack_gate_def fst_bindr say_def leave_if_def ret_def split: sum.split)

lemma report_effects: "fst (report ev i r failed) =
    (if \<not> needs_ack i \<and> rv_parent ev then [Completed (complete_of i r failed False)] else [])"
  by (simp add: report_def fst_bindr say_def leave_if_def ret_def throw_def split: option.split sum.split)

text \<open>The effects behind the run, stage by stage.\<close>

lemma after_run_effects:
  obtains token A C R where
    "fst (after_run ev i g stored start r) = A @ C @ R"
    "\<forall>e \<in> set A. \<not> calls_fn ''or-stealth-envelope-update'' e"
    "\<forall>e \<in> set R. \<not> calls_fn ''or-stealth-envelope-update'' e"
    "C \<noteq> [] \<longrightarrow> C = fst (move_cursor ev i token g stored start r) \<and> snd (upload ev i token g r) = Inr () \<and>
       snd (ack_gate ev i r) = Inr () \<and> set (fst (upload ev i token g r)) \<subseteq> set A \<and> set (fst (ack_gate ev i r)) \<subseteq> set A"
proof -
  let ?fn = "''or-stealth-envelope-update''"
  have T: "\<not> calls_fn ?fn e" if "e \<in> set (fst (refresh_token ev i))" for e
    by (rule not_calls [OF calls_refresh _ that]) simp
  have U: "\<not> calls_fn ?fn e" if "e \<in> set (fst (upload ev i token g r))" for e token
    by (rule not_calls [OF calls_upload _ that]) simp
  have G: "\<not> calls_fn ?fn e" if "e \<in> set (fst (ack_gate ev i r))" for e
    using that by (auto simp: gate_effects calls_fn_def split: if_splits)
  have Q: "\<not> calls_fn ?fn e" if "e \<in> set (fst (ask_reorg ev i token r))" for e token
    by (rule not_calls [OF calls_reorg _ that]) simp
  have P: "\<not> calls_fn ?fn e" if "e \<in> set (fst (report ev i r failed))" for e failed
    using that by (auto simp: report_effects calls_fn_def split: if_splits)
  show thesis
  proof (cases "snd (refresh_token ev i)")
    case Inl
    then show thesis using that [of "fst (refresh_token ev i)" "[]" "[]"] T by (simp add: after_run_def fst_bindr)
  next
    case token: (Inr token)
    show thesis
    proof (cases "snd (upload ev i token g r)")
      case Inl
      then show thesis using that [of "fst (refresh_token ev i) @ fst (upload ev i token g r)" "[]" "[]"] T U token
        by (auto simp: after_run_def fst_bindr)
    next
      case up: (Inr u)
      let ?A = "fst (refresh_token ev i) @ fst (upload ev i token g r) @ fst (ack_gate ev i r)"
      show thesis
      proof (cases "snd (ack_gate ev i r)")
        case Inl
        then show thesis using that [of ?A "[]" "[]"] T U G token up by (auto simp: after_run_def fst_bindr)
      next
        case (Inr v)
        let ?M = "move_cursor ev i token g stored start r"
        let ?R = "case snd ?M of Inl _ \<Rightarrow> [] | Inr failed \<Rightarrow> fst (bindr (ask_reorg ev i token r) (\<lambda>_. report ev i r failed))"
        have "fst (after_run ev i g stored start r) = ?A @ fst ?M @ ?R"
          using token up Inr by (simp add: after_run_def fst_bindr)
        moreover have "\<not> calls_fn ?fn e" if "e \<in> set ?R" for e
          using that Q P by (auto simp: fst_bindr split: sum.splits)
        moreover have "\<not> calls_fn ?fn e" if "e \<in> set ?A" for e using that T U G by auto
        ultimately show thesis using token up Inr by (intro that [of ?A "fst ?M" ?R token]) auto
      qed
    qed
  qed
qed

lemma prefix_before:
  assumes "A @ B = pre @ e # post" and "e \<notin> set A"
  obtains pre' where "pre = A @ pre'"
  using assms by (auto simp: append_eq_append_conv2 append_eq_Cons_conv Cons_eq_append_conv)

lemma sync_route_effects:
  "\<exists>err. fst (sync_route ev i) = fst (sync_steps ev i) @ err \<and> (\<forall>e \<in> set err. fn_of e = None) \<and> (\<forall>e \<in> set err. \<not> is_complete e)"
  by (auto simp: sync_route_def is_complete_def split: prod.split sum.split stop.split)

lemma call_sent: "snd (call ev i fn body t) = Inr x \<Longrightarrow> \<exists>e \<in> set (fst (call ev i fn body t)). fn_of e = Some (fn, body)"
  by (auto simp: call_def fst_bindr snd_bindr proxied_def fetched_def throw_def split: if_splits sum.splits)

lemma upload_done:
  assumes "snd (upload ev i token g r) = Inr ()" and "\<not> in_skip i \<and> (sr_sealed r \<noteq> [] \<or> sr_utxos r \<noteq> None)"
  shows "(\<exists>e' \<in> set (fst (upload ev i token g r)). fn_of e' = Some (''or-stealth-transactions-store'', upload_body i token g r)) \<and>
    (\<exists>m. snd (call ev i ''or-stealth-transactions-store'' (upload_body i token g r) 120000) = Inr (True, m))"
proof -
  let ?call = "call ev i ''or-stealth-transactions-store'' (upload_body i token g r) 120000"
  have "upload ev i token g r = bindr ?call (\<lambda>(okay, m). if okay then ret () else throw (''Upload failed: '' @ m))"
    using assms(2) by (simp add: upload_def)
  moreover obtain m where "snd ?call = Inr (True, m)"
    using assms(1) calculation by (auto simp: snd_bindr throw_def split: sum.splits if_splits prod.splits)
  moreover from calculation(2) have "\<exists>e \<in> set (fst ?call). fn_of e = Some (''or-stealth-transactions-store'', upload_body i token g r)"
    by (rule call_sent)
  ultimately show ?thesis by (auto simp: fst_bindr simp del: fn_of.simps)
qed

text \<open>A cursor write and all that came before it.\<close>

lemma cursor_call:
  assumes "fst (sync_route ev i) = pre @ e # post" and "fn_of e = Some (''or-stealth-envelope-update'', body)"
  obtains d birthday res opts r token g stored start where
    "snd (prepare ev i) = Inr (d, birthday, res, opts)" "rv_result ev opts = Inr r"
    "g = field d ''scan_generation''" "stored = stored_cursor d" "start = scanned_from birthday res stored"
    "body = cursor_body i token g start r" "reached_higher stored r \<or> filled_below start stored r"
    "snd (upload ev i token g r) = Inr ()" "snd (ack_gate ev i r) = Inr ()"
    "set (fst (upload ev i token g r)) \<subseteq> set pre" "set (fst (ack_gate ev i r)) \<subseteq> set pre"
proof -
  let ?fn = "''or-stealth-envelope-update''"
  obtain err where err: "fst (sync_route ev i) = fst (sync_steps ev i) @ err" "\<forall>e \<in> set err. fn_of e = None"
    using sync_route_effects by blast
  have e: "calls_fn ?fn e" using assms(2) by (simp add: calls_fn_def)
  have "e \<in> set (fst (sync_steps ev i) @ err)" using assms(1) err(1) by simp
  then have mem: "e \<in> set (fst (sync_steps ev i))" using err(2) assms(2) by auto
  show thesis
  proof (rule sync_steps_cases [of ev i])
    assume "calls_only reads_connection (fst (sync_steps ev i))"
    then show thesis using mem assms(2) by (auto simp: calls_only_def reads_connection_def)
  next
    fix es d birthday res opts r
    define g stored where "g = field d ''scan_generation''" and "stored = stored_cursor d"
    define start where "start = scanned_from birthday res stored"
    assume early: "calls_only reads_connection es" and r: "rv_result ev opts = Inr r"
      and p: "snd (prepare ev i) = Inr (d, birthday, res, opts)"
      and "sync_steps ev i = (es @ fst (after_run ev i (field d ''scan_generation'') (stored_cursor d)
         (scanned_from birthday res (stored_cursor d)) r),
         snd (after_run ev i (field d ''scan_generation'') (stored_cursor d) (scanned_from birthday res (stored_cursor d)) r))"
    then have steps: "fst (sync_steps ev i) = es @ fst (after_run ev i g stored start r)"
      by (simp add: g_def stored_def start_def)
    obtain token A C R where split: "fst (after_run ev i g stored start r) = A @ C @ R"
      and A: "\<forall>e \<in> set A. \<not> calls_fn ?fn e" and R: "\<forall>e \<in> set R. \<not> calls_fn ?fn e"
      and C: "C \<noteq> [] \<longrightarrow> C = fst (move_cursor ev i token g stored start r) \<and> snd (upload ev i token g r) = Inr () \<and>
         snd (ack_gate ev i r) = Inr () \<and> set (fst (upload ev i token g r)) \<subseteq> set A \<and> set (fst (ack_gate ev i r)) \<subseteq> set A"
      by (rule after_run_effects [of ev i g stored start r])
    have es: "e \<notin> set es" using early assms(2) by (auto simp: calls_only_def reads_connection_def)
    then have inC: "e \<in> set C" using mem e A R by (auto simp: steps split)
    then have c: "C = fst (move_cursor ev i token g stored start r)" "snd (upload ev i token g r) = Inr ()"
        "snd (ack_gate ev i r) = Inr ()" "set (fst (upload ev i token g r)) \<subseteq> set A" "set (fst (ack_gate ev i r)) \<subseteq> set A"
      using C by auto
    obtain b where b: "fn_of e = Some (?fn, b)" "b = cursor_body i token g start r"
        "reached_higher stored r \<or> filled_below start stored r"
      using calls_onlyD [OF calls_cursor] inC c(1) by fastforce
    have "(es @ A) @ (C @ R @ err) = pre @ e # post" using assms(1) err(1) by (simp add: steps split)
    moreover have "e \<notin> set (es @ A)" using es A e by auto
    ultimately obtain pre' where pre: "pre = (es @ A) @ pre'" by (rule prefix_before)
    show thesis
      by (rule that [OF p r g_def stored_def start_def _ b(3) c(2,3)]) (use b(1,2) assms(2) c(4,5) pre in auto)
  qed
qed


section \<open>A sample session\<close>

text \<open>
  A direct session over the functions host \<open>u\<close>, with the small run of \<open>RunSync\<close>: every function
  answers 200, the envelope fetch with a connection that was never synced.
\<close>

definition sample_conn :: json where
  "sample_conn = JObj [(''sealed_envelope'', envelope_json (ro_envelope sample_opts)), (''last_block_scanned'', JNull),
     (''scan_ranges'', JArr []), (''scan_generation'', JStr G1)]"

definition sample_in :: stealth_init where
  "sample_in = \<lparr>in_connection = Some C1, in_user = ''alice'', in_slug = ''app'', in_token = None, in_access = None,
     in_proxy = None, in_origin = app_origin, in_key = sample_key, in_skip = False, in_ack = False\<rparr>"

definition sample_route :: "sync_result \<Rightarrow> route_env" where
  "sample_route r = \<lparr>rv_parent = False, rv_build = \<lparr>or_functions_base_url = Some ''u'', supabase_url = None\<rparr>,
     rv_rid = (\<lambda>_. []), rv_messages = (\<lambda>_ _. []),
     rv_fetch = (\<lambda>url _ _. Inr (200, if url = ''u/or-stealth-envelope-fetch'' then ''c'' else [])), rv_acks = [],
     rv_text = (\<lambda>_. []), rv_parse = (\<lambda>s. if s = ''c'' then Some sample_conn else None), rv_web = sample_web,
     rv_wallet = \<lparr>stringify = (\<lambda>_. []), parse = (\<lambda>_. Some \<lparr>wv_birthday = ''2024-01-01'', wv_descriptor = None\<rparr>)\<rparr>,
     rv_descriptor = Inl, rv_platform = sample_platform,
     rv_source = (\<lambda>_. Inr \<lparr>r_status = 200, r_json = Some (JObj [(''height'', JNum (Fin 103))]), r_body = [], r_headers = Map.empty\<rparr>),
     rv_mock = False, rv_force = False, rv_gone = (\<lambda>_. False),
     rv_result = (\<lambda>o1. if o1 = sample_opts then Inr r else Inl NeedsDescriptor), rv_why = (\<lambda>_. [])\<rparr>"

lemma sample_url: "resolveFunctionUrl \<lparr>or_functions_base_url = Some ''u'', supabase_url = None\<rparr> fn None = Inr (''u/'' @ fn)"
  by (simp add: resolveFunctionUrl_def env_base_def strip_slash_def present_def)

lemma sample_fetched: "fetched (sample_route r) sample_in None fn body =
    ([Fetched fn (''u/'' @ fn) None body], Inr (200, if fn = ''or-stealth-envelope-fetch'' then ''c'' else []))"
  by (simp add: fetched_def sample_route_def sample_url sample_in_def bearer_def present_def lift_err_def)

lemma sample_direct: "through_parent (sample_route r) sample_in = False" "in_proxy sample_in = None" "in_skip sample_in = False"
    "needs_ack sample_in = False" "in_token sample_in = None"
  by (simp_all add: through_parent_def sample_in_def present_def needs_ack_def)

lemma sample_status: "status_ok (jsint 200)" "status_ok (Fin 200)"
  by (simp_all add: status_ok_def)

lemma sample_call: "call (sample_route r) sample_in fn body t = ([Fetched fn (''u/'' @ fn) None body],
    Inr (True, if fn = ''or-stealth-envelope-fetch'' then ''c'' else []))"
  by (simp add: call_def sample_direct sample_fetched bindr_def ret_def sample_status)

lemma sample_prepare: "snd (prepare (sample_route r) sample_in) = Inr (sample_conn, Fin 103, None, sample_opts)"
proof -
  have read: "snd (read_connection (sample_route r) sample_in) = Inr sample_conn"
    by (simp add: read_connection_def sample_direct sample_fetched snd_bindr sample_status Let_def ret_def)
      (simp add: sample_route_def sample_conn_def sample_status ret_def)
  have env: "envelope_of (the (field sample_conn ''sealed_envelope'')) = ro_envelope sample_opts"
    by (simp add: sample_conn_def envelope_json_def envelope_of_def num_field_def text_field_def sample_opts_def)
  have wallet: "snd (open_wallet (sample_route r) sample_in sample_conn) = Inr \<lparr>wv_birthday = ''2024-01-01'', wv_descriptor = None\<rparr>"
  proof -
    have "b64decode [] = Some []" by code_simp
    then have "unsealEnvelope sample_web \<lparr>stringify = \<lambda>_. [], parse = \<lambda>_. Some v\<rparr> (ro_envelope sample_opts) sample_key = Inr v"
      for v :: wallet_view
      by (simp add: unsealEnvelope_def sample_opts_def requireKeyB64_def sample_key_def b64encode_Nil
          decodeKeyBytes_cases base64_inverse KEY_LEN_def sample_web_def)
    moreover have "field sample_conn ''sealed_envelope'' \<noteq> None" by (simp add: sample_conn_def)
    ultimately show ?thesis
      using env by (auto simp: open_wallet_def sample_route_def sample_in_def ret_def)
  qed
  have "birthday_height (sample_route r) ''2024-01-01'' = Fin 103"
    by (simp add: birthday_height_def sample_route_def liveResolveBirthdayHeight_def response_ok_def Let_def)
  moreover have "resume_of (field sample_conn ''scan_ranges'') (Fin 103) = Inr None"
    by (simp add: sample_conn_def resume_of_def coverage_of_def resumeHeightFromCoverage_def)
  moreover have "snd (prior_utxos (sample_route r) sample_in) = Inr None"
    by (simp add: prior_utxos_def sample_direct sample_fetched snd_bindr tried_def bindr_def ret_def Let_def sample_status prior_of_def)
      (simp add: sample_route_def)
  moreover have "options_of sample_in sample_conn (Fin 103) None False None = sample_opts"
    using env by (simp add: options_of_def sample_in_def stored_cursor_def) (simp add: sample_opts_def sample_conn_def)
  ultimately show ?thesis
    by (simp add: prepare_def snd_bindr read wallet multisig_descriptor_def lift_err_def ret_def Let_def)
      (simp add: sample_in_def present_def C1_def)
qed

lemma sample_cursor_call:
  assumes "sr_scanned r" "sr_cursor r = 103" "sr_utxos r \<noteq> None" "sr_error r = None"
  shows "\<exists>pre e post. fst (sync_route (sample_route r) sample_in) = pre @ e # post \<and>
    fn_of e = Some (''or-stealth-envelope-update'', cursor_body sample_in None (Some (JStr G1)) (Fin 103) r)"
proof -
  let ?ev = "sample_route r"
  have run: "run_it ?ev sample_opts = ([], Inr r)" by (simp add: run_it_def sample_route_def)
  have stay: "leave_if (rv_gone ?ev k) = ([], Inr ())" for k by (simp add: leave_if_def sample_route_def)
  have conn: "field sample_conn ''scan_generation'' = Some (JStr G1)" "stored_cursor sample_conn = None"
    by (simp_all add: sample_conn_def stored_cursor_def)
  have start: "scanned_from (Fin 103) None None = Fin 103" by (simp add: scanned_from_def)
  have token: "refresh_token ?ev sample_in = ([], Inr None)" by (simp add: refresh_token_def sample_direct ret_def)
  have gate: "ack_gate ?ev sample_in r = ([], Inr ())" by (simp add: ack_gate_def sample_direct ret_def)
  have up: "snd (upload ?ev sample_in None (Some (JStr G1)) r) = Inr ()"
    by (simp add: upload_def sample_call snd_bindr ret_def)
  have live: "rv_mock ?ev = False" by (simp add: sample_route_def)
  have move: "fst (move_cursor ?ev sample_in None (Some (JStr G1)) None (Fin 103) r) =
      [Fetched ''or-stealth-envelope-update'' (''u/'' @ ''or-stealth-envelope-update'') None
         (cursor_body sample_in None (Some (JStr G1)) (Fin 103) r)]"
    using assms by (simp add: move_cursor_def live reached_higher_def write_cursor_def sample_direct sample_fetched fst_bindr
        snd_bindr tried_def ret_def Let_def)
  let ?up = "fst (upload ?ev sample_in None (Some (JStr G1)) r)"
  obtain es where steps: "fst (sync_steps ?ev sample_in) = (fst (prepare ?ev sample_in) @ ?up) @
      fst (move_cursor ?ev sample_in None (Some (JStr G1)) None (Fin 103) r) @ es"
    by (simp add: sync_steps_def fst_bindr snd_bindr sample_prepare run stay conn start after_run_def token gate up)
  obtain err where "fst (sync_route ?ev sample_in) = fst (sync_steps ?ev sample_in) @ err"
    using sync_route_effects by blast
  then have "fst (sync_route ?ev sample_in) = (fst (prepare ?ev sample_in) @ ?up) @
      Fetched ''or-stealth-envelope-update'' (''u/'' @ ''or-stealth-envelope-update'') None
         (cursor_body sample_in None (Some (JStr G1)) (Fin 103) r) # es @ err"
    unfolding steps move by simp
  then show ?thesis by (metis fn_of.simps(2))
qed


section \<open>How a session ends\<close>

text \<open>A stage whose errors are all of the plain kind.\<close>

definition plain_errors :: "'a route \<Rightarrow> bool" where
  "plain_errors m \<longleftrightarrow> (\<forall>t. snd m = Inl (Threw t) \<longrightarrow> (\<exists>x. t = Failure x))"

lemma plain_bindr:
  "plain_errors m \<Longrightarrow> (\<And>x. snd m = Inr x \<Longrightarrow> plain_errors (f x)) \<Longrightarrow> plain_errors (bindr m f)"
  by (cases "snd m") (auto simp: plain_errors_def snd_bindr)

lemma plain_lift: "plain_errors (es, lift_err x)"
  by (cases x) (auto simp: plain_errors_def lift_err_def)

lemma plain_basic [intro]:
  "plain_errors (ret x)" "plain_errors (throw m)" "plain_errors (leave_if b)" "plain_errors (say b e)"
  "plain_errors (tried m')" "plain_errors (proxied ev i fn body t)" "plain_errors (fetched ev i b' fn body)"
  using plain_lift
  by (auto simp: ret_def throw_def leave_if_def say_def tried_def proxied_def fetched_def plain_errors_def
      split: prod.split sum.split stop.split)

lemma plain_call [intro]: "plain_errors (call ev i fn body t)"
  unfolding call_def by (auto intro!: plain_bindr split: prod.split)

lemma plain_prepare: "plain_errors (prepare ev i)"
proof -
  have "plain_errors (read_connection ev i)"
    unfolding read_connection_def Let_def by (auto intro!: plain_bindr split: prod.split option.split)
  moreover have "plain_errors (open_wallet ev i d)" for d
    unfolding open_wallet_def by (auto split: option.split sum.split)
  moreover have "plain_errors (multisig_descriptor ev v)" for v
    unfolding multisig_descriptor_def by (auto intro: plain_lift split: option.split)
  moreover have "plain_errors (prior_utxos ev i)"
    unfolding prior_utxos_def Let_def by (auto intro!: plain_bindr)
  ultimately show ?thesis unfolding prepare_def Let_def by (auto intro!: plain_bindr plain_lift)
qed

lemma plain_stages:
  "plain_errors (refresh_token ev i)" "plain_errors (upload ev i token g r)"
  "plain_errors (move_cursor ev i token g stored start r)" "plain_errors (ask_reorg ev i token r)"
  "plain_errors (report ev i r failed)"
  unfolding refresh_token_def upload_def move_cursor_def write_cursor_def ask_reorg_def report_def Let_def
  by (auto intro!: plain_bindr plain_basic split: prod.split option.split)

lemma gate_error: "snd (ack_gate ev i r) = Inl (Threw t) \<Longrightarrow>
    t = NoAck \<and> needs_ack i \<and> \<not> waitForDeliveryAck (in_origin i) (the (in_connection i)) (rv_acks ev)"
  by (auto simp: ack_gate_def snd_bindr say_def leave_if_def ret_def split: if_splits)

lemma after_run_error:
  assumes "snd (after_run ev i g stored start r) = Inl (Threw t)"
  shows "(\<exists>x. t = Failure x) \<or> (\<exists>token s. snd (ack_gate ev i r) = Inl (Threw t) \<and>
    fst (after_run ev i g stored start r) = fst (refresh_token ev i) @ fst (upload ev i token g r) @ fst (ack_gate ev i r))"
proof (cases "snd (refresh_token ev i)")
  case (Inl s)
  then show ?thesis using assms plain_stages(1) [of ev i] by (auto simp: after_run_def snd_bindr plain_errors_def)
next
  case token: (Inr token)
  show ?thesis
  proof (cases "snd (upload ev i token g r)")
    case (Inl s)
    then show ?thesis using assms token plain_stages(2) [of ev i token g r] by (auto simp: after_run_def snd_bindr plain_errors_def)
  next
    case up: (Inr u)
    show ?thesis
    proof (cases "snd (ack_gate ev i r)")
      case (Inl s)
      then show ?thesis using assms token up by (auto simp: after_run_def snd_bindr fst_bindr)
    next
      case (Inr v)
      let ?rest = "bindr (move_cursor ev i token g stored start r) (\<lambda>failed. bindr (ask_reorg ev i token r) (\<lambda>_. report ev i r failed))"
      have "plain_errors ?rest" by (intro plain_bindr plain_stages)
      then show ?thesis using assms token up Inr by (auto simp: after_run_def snd_bindr plain_errors_def)
    qed
  qed
qed

text \<open>The completion messages of what follows the run.\<close>

lemma filter_calls: "calls_only P es \<Longrightarrow> filter is_complete es = []"
  using not_complete by (auto simp: filter_empty_conv)

lemma after_run_completes:
  "length (filter is_complete (fst (after_run ev i g stored start r))) \<le> 1 \<and>
   (snd (after_run ev i g stored start r) = Inr r' \<longrightarrow> r' = r \<and> (rv_parent ev \<longrightarrow>
      (\<exists>failed. filter is_complete (fst (after_run ev i g stored start r)) = [Completed (complete_of i r failed (needs_ack i))])))"
proof -
  note none = filter_calls [OF calls_refresh] filter_calls [OF calls_upload] filter_calls [OF calls_cursor] filter_calls [OF calls_reorg]
  have gate: "filter is_complete (fst (ack_gate ev i r)) =
      (if needs_ack i \<and> rv_parent ev then [Completed (complete_of i r False True)] else [])"
    by (simp add: ack_gate_def fst_bindr snd_bindr say_def leave_if_def ret_def is_complete_def split: sum.split)
  have rep: "snd (report ev i r failed) = Inr r' \<Longrightarrow> r' = r" for failed
    by (auto simp: report_def snd_bindr say_def leave_if_def throw_def ret_def split: option.splits if_splits)
  show ?thesis
    using rep
    by (cases "needs_ack i"; cases "rv_parent ev")
      (auto simp: after_run_def fst_bindr snd_bindr none gate report_effects is_complete_def split: sum.split)
qed

definition is_erred :: "effect \<Rightarrow> bool" where
  "is_erred e \<longleftrightarrow> (case e of Erred _ _ _ \<Rightarrow> True | _ \<Rightarrow> False)"

lemma calls_not_erred: "calls_only P es \<Longrightarrow> e \<in> set es \<Longrightarrow> \<not> is_erred e"
  by (cases e) (auto simp: calls_only_def is_erred_def)

lemma after_run_not_erred: "e \<in> set (fst (after_run ev i g stored start r)) \<Longrightarrow> \<not> is_erred e"
proof -
  have "\<not> is_erred e" if "e \<in> set (fst (ack_gate ev i r))" for e
    using that by (auto simp: gate_effects is_erred_def split: if_splits)
  moreover have "\<not> is_erred e" if "e \<in> set (fst (report ev i r failed))" for e failed
    using that by (auto simp: report_effects is_erred_def split: if_splits)
  moreover note calls_not_erred [OF calls_refresh] calls_not_erred [OF calls_upload] calls_not_erred [OF calls_cursor]
    calls_not_erred [OF calls_reorg]
  ultimately show "e \<in> set (fst (after_run ev i g stored start r)) \<Longrightarrow> \<not> is_erred e"
    by (auto simp: after_run_def fst_bindr split: sum.splits)
qed

lemma sync_steps_reports:
  "length (filter is_complete (fst (sync_steps ev i))) \<le> 1" "e \<in> set (fst (sync_steps ev i)) \<Longrightarrow> \<not> is_erred e"
  "snd (sync_steps ev i) = Inr r \<Longrightarrow> rv_parent ev \<Longrightarrow>
     \<exists>failed. filter is_complete (fst (sync_steps ev i)) = [Completed (complete_of i r failed (needs_ack i))]"
proof -
  have "length (filter is_complete (fst (sync_steps ev i))) \<le> 1 \<and> (e \<in> set (fst (sync_steps ev i)) \<longrightarrow> \<not> is_erred e) \<and>
    (snd (sync_steps ev i) = Inr r \<longrightarrow> rv_parent ev \<longrightarrow>
       (\<exists>failed. filter is_complete (fst (sync_steps ev i)) = [Completed (complete_of i r failed (needs_ack i))]))"
  proof (rule sync_steps_cases [of ev i])
    assume "calls_only reads_connection (fst (sync_steps ev i))" "\<nexists>r. snd (sync_steps ev i) = Inr r"
    then show ?thesis using filter_calls calls_not_erred by fastforce
  next
    fix es d birthday res opts r1
    let ?after = "after_run ev i (field d ''scan_generation'') (stored_cursor d) (scanned_from birthday res (stored_cursor d)) r1"
    assume "calls_only reads_connection es" and s: "sync_steps ev i = (es @ fst ?after, snd ?after)"
    then have "filter is_complete es = []" "e \<in> set es \<Longrightarrow> \<not> is_erred e" using filter_calls calls_not_erred by auto
    then show ?thesis
      using s after_run_completes [of ev i "field d ''scan_generation''" "stored_cursor d" "scanned_from birthday res (stored_cursor d)" r1 r]
        after_run_not_erred by auto
  qed
  then show "length (filter is_complete (fst (sync_steps ev i))) \<le> 1" "e \<in> set (fst (sync_steps ev i)) \<Longrightarrow> \<not> is_erred e"
    "snd (sync_steps ev i) = Inr r \<Longrightarrow> rv_parent ev \<Longrightarrow>
       \<exists>failed. filter is_complete (fst (sync_steps ev i)) = [Completed (complete_of i r failed (needs_ack i))]"
    by auto
qed

lemma no_ack_ran:
  assumes "snd (sync_steps ev i) = Inl (Threw NoAck)"
  obtains es d birthday res r where "calls_only reads_connection es"
    "sync_steps ev i = (es @ fst (after_run ev i (field d ''scan_generation'') (stored_cursor d) (scanned_from birthday res (stored_cursor d)) r),
       snd (after_run ev i (field d ''scan_generation'') (stored_cursor d) (scanned_from birthday res (stored_cursor d)) r))"
proof (cases "snd (prepare ev i)")
  case (Inl s)
  then show thesis using assms plain_prepare [of ev i] by (auto simp: sync_steps_def snd_bindr plain_errors_def)
next
  case (Inr x)
  obtain d birthday res opts where x: "x = (d, birthday, res, opts)" by (metis prod_cases4)
  show thesis
  proof (cases "rv_result ev opts")
    case (Inl e)
    then show thesis using assms Inr x
      by (auto simp: sync_steps_def snd_bindr run_it_def split: run_error.splits)
  next
    case r: (Inr r)
    then have run: "run_it ev opts = ([], Inr r)" by (simp add: run_it_def)
    then have "\<not> rv_gone ev 1" using assms Inr x by (auto simp: sync_steps_def snd_bindr leave_if_def)
    then show thesis
      using that [OF calls_prepare [of ev i]] Inr x run
      by (auto simp: sync_steps_def fst_bindr snd_bindr leave_if_def prod_eq_iff)
  qed
qed

lemma gate_no_ack:
  assumes "snd (sync_steps ev i) = Inl (Threw NoAck)"
  shows "needs_ack i \<and> \<not> waitForDeliveryAck (in_origin i) (the (in_connection i)) (rv_acks ev)"
proof (rule no_ack_ran [OF assms])
  fix es d birthday res r
  assume "sync_steps ev i = (es @ fst (after_run ev i (field d ''scan_generation'') (stored_cursor d) (scanned_from birthday res (stored_cursor d)) r),
       snd (after_run ev i (field d ''scan_generation'') (stored_cursor d) (scanned_from birthday res (stored_cursor d)) r))"
  then have "snd (after_run ev i (field d ''scan_generation'') (stored_cursor d) (scanned_from birthday res (stored_cursor d)) r) = Inl (Threw NoAck)"
    using assms by simp
  from after_run_error [OF this] have "snd (ack_gate ev i r) = Inl (Threw NoAck)" by simp
  from gate_error [OF this] show ?thesis by simp
qed

lemma sync_steps_no_ack:
  assumes "snd (sync_steps ev i) = Inl (Threw NoAck)" and "e \<in> set (fst (sync_steps ev i))"
  shows "needs_ack i \<and> \<not> waitForDeliveryAck (in_origin i) (the (in_connection i)) (rv_acks ev) \<and>
    \<not> calls_fn ''or-stealth-envelope-update'' e \<and> \<not> calls_fn ''or-stealth-transactions-store'' e"
proof (rule no_ack_ran [OF assms(1)])
  fix es d birthday res r
  let ?after = "after_run ev i (field d ''scan_generation'') (stored_cursor d) (scanned_from birthday res (stored_cursor d)) r"
  assume reads: "calls_only reads_connection es" and s: "sync_steps ev i = (es @ fst ?after, snd ?after)"
  then obtain token where gate: "snd (ack_gate ev i r) = Inl (Threw NoAck)" and
    after: "fst ?after = fst (refresh_token ev i) @ fst (upload ev i token (field d ''scan_generation'') r) @ fst (ack_gate ev i r)"
    using after_run_error [of ev i _ _ _ r NoAck] assms(1) by fastforce
  note a = gate_error [OF gate]
  then have up: "fst (upload ev i token (field d ''scan_generation'') r) = []" by (simp add: upload_def needs_ack_def ret_def)
  have "e \<in> set es \<or> e \<in> set (fst (refresh_token ev i)) \<or> e \<in> set (fst (ack_gate ev i r))"
    using assms(2) s after up by auto
  moreover have "\<not> calls_fn fn e" if "e \<in> set es" "fn \<notin> {''or-stealth-envelope-fetch'', ''or-stealth-utxos-fetch''}" for fn
    by (rule not_calls [OF reads _ that(1)]) (use that(2) in \<open>simp add: reads_connection_def\<close>)
  moreover have "\<not> calls_fn fn e" if "e \<in> set (fst (refresh_token ev i))" "fn \<noteq> ''or-link-mint-token''" for fn
    by (rule not_calls [OF calls_refresh _ that(1)]) (use that(2) in simp)
  moreover have "\<not> calls_fn fn e" if "e \<in> set (fst (ack_gate ev i r))" for fn
    using that by (auto simp: gate_effects calls_fn_def split: if_splits)
  ultimately have "\<not> calls_fn fn e" if "fn \<notin> {''or-stealth-envelope-fetch'', ''or-stealth-utxos-fetch'', ''or-link-mint-token''}" for fn
    using that by blast
  then show ?thesis using a by simp
qed

lemma error_code_kinds: "error_code t = (code, m, again) \<Longrightarrow>
    (again \<longleftrightarrow> code \<noteq> ''WINDOW_EXHAUSTED'') \<and> (code = ''DELIVERY_ACK_MISSING'' \<longleftrightarrow> t = NoAck)"
  by (auto simp: error_code_def split: thrown.splits)

lemma route_ends:
  assumes "sync_route ev i = (es, out)"
  obtains (finished) r where "snd (sync_steps ev i) = Inr r" "es = fst (sync_steps ev i)" "out = Done r"
    | (left) "es = fst (sync_steps ev i)" "out = Gone"
    | (failed) t code m again where "snd (sync_steps ev i) = Inl (Threw t)" "error_code t = (code, m, again)" "out = Shown code again"
        "es = fst (sync_steps ev i) @ (if rv_parent ev then [Erred code m again] else [])"
  using assms
  by (cases "sync_steps ev i"; cases "snd (sync_steps ev i)")
    (auto simp: sync_route_def Let_def split: stop.splits prod.splits if_splits)

lemma erred_not_in_steps: "Erred c m a \<notin> set (fst (sync_steps ev i))"
  using sync_steps_reports(2) [of "Erred c m a"] by (auto simp: is_erred_def)

lemma steps_not_erred: "fst (sync_steps ev i) \<noteq> pre @ Erred c m a # post"
  using erred_not_in_steps by (metis in_set_conv_decomp)


text \<open>A session with a parent whose first fetch answers 500.\<close>

definition failing_route :: "sync_result \<Rightarrow> route_env" where
  "failing_route r = (sample_route r)\<lparr>rv_parent := True, rv_fetch := \<lambda>_ _ _. Inr (500, [])\<rparr>"

lemma failing_session: "sync_route (failing_route r) sample_in =
    ([Fetched ''or-stealth-envelope-fetch'' ''u/or-stealth-envelope-fetch'' None (fetch_body sample_in),
      Erred ''INTERNAL'' ''Envelope fetch failed'' True], Shown ''INTERNAL'' True)"
proof -
  have "through_parent (failing_route r) sample_in = False" by (simp add: through_parent_def sample_in_def present_def)
  moreover have "fetched (failing_route r) sample_in None fn body = ([Fetched fn (''u/'' @ fn) None body], Inr (500, []))" for fn body
    by (simp add: fetched_def failing_route_def sample_route_def sample_url sample_in_def bearer_def present_def lift_err_def)
  ultimately have "read_connection (failing_route r) sample_in =
      ([Fetched ''or-stealth-envelope-fetch'' (''u/'' @ ''or-stealth-envelope-fetch'') None (fetch_body sample_in)],
       Inl (Threw (Failure ''Envelope fetch failed'')))"
    by (simp add: read_connection_def sample_direct bindr_def Let_def status_ok_def throw_def)
  moreover have "rv_gone (failing_route r) k = False" "rv_parent (failing_route r)" for k
    by (simp_all add: failing_route_def sample_route_def)
  ultimately show ?thesis
    by (simp add: sync_route_def sync_steps_def prepare_def bindr_def error_code_def leave_if_def ret_def Let_def)
       (simp add: sample_in_def present_def C1_def)
qed


section \<open>What the cursor write names\<close>

text \<open>The rows the server answers with carry heights of an \<open>INTEGER\<close> column.\<close>

definition int_rows :: "json \<Rightarrow> bool" where
  "int_rows d \<longleftrightarrow> (\<forall>rows. coverage_of (field d ''scan_ranges'') = Inr (Some rows) \<longrightarrow>
     (\<forall>r \<in> set rows. is_finite (to_height r) \<longrightarrow> is_integer (to_height r)))"

lemma resume_loop_in:
  "resume_loop rs b acc = acc \<or> (\<exists>r \<in> set rs. resume_loop rs b acc = to_height r \<and> is_finite (to_height r))"
  by (induction rs arbitrary: acc) (auto simp: malformed_def)

lemma resume_whole:
  assumes "resume_of (field d ''scan_ranges'') (jsint b) = Inr (Some h)" and "int_rows d"
  shows "is_integer h"
proof -
  obtain rows where rows: "coverage_of (field d ''scan_ranges'') = Inr (Some rows)" "h = resume_loop rows (jsint b) (jsint b)"
    using assms(1) by (auto simp: resume_of_def resumeHeightFromCoverage_def resumeHeightFromRanges_def
        split: sum.splits option.splits if_splits)
  then show ?thesis using resume_loop_in [of rows "jsint b" "jsint b"] assms(2) by (auto simp: int_rows_def)
qed

lemma run_birthday:
  assumes "run_sync ev opts (Inr r)" and "sr_scanned r"
  obtains b where "ro_birthday opts = jsint b"
  using assms
  by (rule run_stages) (auto simp: before_scan_def birthday_refused_def is_integer_iff Let_def split: sum.splits if_splits)

lemma scanned_from_start:
  assumes opts: "opts = options_of i d birthday res m prior" and birthday: "birthday = jsint b"
    and res: "\<And>h. res = Some h \<Longrightarrow> is_integer h"
  shows "scanned_from birthday res (stored_cursor d) = jsint (from_height_of opts)"
proof (cases res)
  case (Some h)
  then obtain n where "h = jsint n" using res by (auto simp: is_integer_iff)
  then show ?thesis
    using Some scanStartHeight_int [of b "stored_cursor d" "Some n"]
    by (simp add: scanned_from_def opts options_of_def from_height_of_def birthday of_int_max)
next
  case None
  then show ?thesis
    using scanStartHeight_int [of b "stored_cursor d" None]
    by (simp add: scanned_from_def opts options_of_def from_height_of_def birthday of_int_max)
qed

lemma field_js_object [simp]:
  "field (js_object []) k = None"
  "field (js_object ((k', v) # kvs)) k = (case field (js_object kvs) k of Some x \<Rightarrow> Some x
     | None \<Rightarrow> if k = k' then v else None)"
  by (auto simp: js_object_def map_of_append map_add_def split: option.split)

lemma cursor_body_fields:
  "field (cursor_body i token g start r) ''last_block_scanned'' = Some (JNum (jsint (sr_cursor r)))"
  "field (cursor_body i token g start r) ''from_height'' = Some (JNum start)"
  "field (cursor_body i token g start r) ''contiguous_block_scanned'' = None"
  "field (cursor_body i token g start r) ''connection_id'' = text_opt (in_connection i)"
  "field (cursor_body i token g start r) ''app_user_id'' = Some (JStr (in_user i))"
  "field (cursor_body i token g start r) ''scan_generation'' = g"
  by (simp_all add: cursor_body_def split: option.split)

lemma prepare_read: "snd (prepare ev i) = Inr (d, birthday, res, opts) \<Longrightarrow> snd (read_connection ev i) = Inr d"
  by (auto simp: prepare_def snd_bindr Let_def throw_def ret_def split: if_splits sum.splits)

text \<open>The cursor write of a session over the live source, as the server reads it.\<close>

lemma cursor_names_read:
  assumes call: "fst (sync_route ev i) = pre @ e # post" "fn_of e = Some (''or-stealth-envelope-update'', body)"
    and run: "\<And>opts r. rv_result ev opts = Inr r \<Longrightarrow> run_sync rn opts (Inr r)" and live: "re_filter rn = liveFetchFilter pf nw"
    and rows: "\<And>d. snd (read_connection ev i) = Inr d \<Longrightarrow> int_rows d"
    and a: "parse_update_body body = Inr a"
  obtains lo chainTip where "nonneg_integer (ua_from a) = Some lo" "re_tip rn = Inr chainTip" "bound_of a \<le> chainTip - 6"
    "lo - 1 \<le> bound_of a" "\<forall>h \<in> {lo..bound_of a}. readable (re_filter rn) h"
proof (rule cursor_call [OF call])
  fix d birthday res opts r token g stored start
  assume p: "snd (prepare ev i) = Inr (d, birthday, res, opts)" and r: "rv_result ev opts = Inr r"
    and stored: "stored = stored_cursor d" and start: "start = scanned_from birthday res stored"
    and b: "body = cursor_body i token g start r" and moved: "reached_higher stored r \<or> filled_below start stored r"
  have sc: "sr_scanned r" using moved by (auto simp: reached_higher_def filled_below_def)
  obtain v :: wallet_view and m prior where o: "opts = options_of i d birthday res m prior"
    and res: "resume_of (field d ''scan_ranges'') birthday = Inr res"
    by (rule prepared [OF p])
  obtain n where n: "ro_birthday opts = jsint n" by (rule run_birthday [OF run [OF r] sc])
  then have bd: "birthday = jsint n" by (simp add: o options_of_def)
  have "is_integer h" if "res = Some h" for h
    using resume_whole [OF res [unfolded bd that] rows [OF prepare_read [OF p]]] .
  then have lo: "start = jsint (from_height_of opts)" using scanned_from_start [OF o bd] start stored by blast
  have up: "bound_of a = sr_cursor r" "ua_from a = Some (JNum start)"
    using a by (auto simp: b parse_update_body_def cursor_body_fields Let_def split: option.splits if_splits)
  show thesis
  proof (rule live_run [OF run [OF r] sc live])
    fix chainTip
    assume l: "re_tip rn = Inr chainTip" "0 \<le> from_height_of opts" "from_height_of opts - 1 \<le> sr_cursor r"
      "sr_cursor r \<le> chainTip - CONFIRMATION_DEPTH" "\<forall>h \<in> {from_height_of opts..sr_cursor r}. readable (re_filter rn) h"
    show thesis
      by (rule that [of "from_height_of opts" chainTip]) (use l in \<open>auto simp: up lo CONFIRMATION_DEPTH_def\<close>)
  qed
qed

lemma ranges_of_put: "ranges_of c (put_ranges c' rows d) = (if c = c' then rows else ranges_of c d)"
proof -
  have "map snd (filter (\<lambda>row. fst row = c) (map (Pair c') rows)) = (if c = c' then rows else [])"
    by (induction rows) auto
  moreover have "filter (\<lambda>row. fst row = c) (filter (\<lambda>row. fst row \<noteq> c') (ranges d)) =
      (if c = c' then [] else filter (\<lambda>row. fst row = c) (ranges d))"
    by (auto simp: filter_empty_conv intro!: filter_cong)
  ultimately show ?thesis by (simp add: ranges_of_def put_ranges_def)
qed

text \<open>
  C2: the coverage map only ever gains heights that were read.  When a session over the live source,
  whatever the network and the other sides answer, calls \<open>or-stealth-envelope-update\<close> and the endpoint
  accepts the body, then a write as the endpoint makes it adds to the coverage of any connection only
  heights whose filter this session has read, and neither the coverage nor the cursor it names goes
  beyond six blocks below the tip that the session saw.
\<close>

theorem coverage_gains_read_heights:
  assumes "e \<in> set (fst (sync_route ev i))" "fn_of e = Some (''or-stealth-envelope-update'', body)"
    and "\<And>opts r. rv_result ev opts = Inr r \<Longrightarrow> run_sync rn opts (Inr r)" and "re_filter rn = liveFetchFilter pf nw"
    and "\<And>d. snd (read_connection ev i) = Inr d \<Longrightarrow> int_rows d"
    and a: "parse_update_body body = Inr a" and srv: "range_advance a d d'" and norm: "\<And>c. normalized (ranges_of c d)"
  shows "(\<exists>chainTip. re_tip rn = Inr chainTip \<and> bound_of a \<le> chainTip - 6) \<and>
    (\<forall>c h. h \<in> covered (ranges_of c d') - covered (ranges_of c d) \<longrightarrow> h \<le> bound_of a \<and> readable (re_filter rn) h)"
proof -
  obtain pre post where split: "fst (sync_route ev i) = pre @ e # post" using assms(1) by (auto simp: in_set_conv_decomp)
  obtain lo chainTip where lo: "nonneg_integer (ua_from a) = Some lo" "re_tip rn = Inr chainTip" "bound_of a \<le> chainTip - 6"
    "\<forall>h \<in> {lo..bound_of a}. readable (re_filter rn) h"
    by (rule cursor_names_read [OF split assms(2-6)])
  have "h \<le> bound_of a \<and> readable (re_filter rn) h" if h: "h \<in> covered (ranges_of c d')" "h \<notin> covered (ranges_of c d)" for c h
  proof -
    have "ranges d' \<noteq> ranges d" using h by (auto simp: ranges_of_def)
    then obtain cid where "lo \<le> bound_of a"
      "ranges d' = ranges (put_ranges cid (merge_scan_range (ranges_of cid d) lo (bound_of a)) d)"
      using srv lo(1) by (auto simp: range_advance_def)
    then have "covered (ranges_of c d') \<subseteq> covered (ranges_of c d) \<union> {lo..bound_of a}"
      using covered_merge [OF norm] ranges_of_put [of c cid] by (auto simp: ranges_of_def split: if_splits)
    then show ?thesis using h lo(4) by auto
  qed
  then show ?thesis using lo(2,3) by auto
qed

definition db_gained :: db where
  "db_gained = put_ranges C1 (merge_scan_range (ranges_of C1 db1) 103 103) db1"

theorem coverage_gains_read_heights_witness:
  "103 \<in> covered (ranges_of C1 db_gained) - covered (ranges_of C1 db1) \<and> readable (re_filter sample_ev) 103"
proof -
  obtain r where r: "run_sync sample_ev sample_opts (Inr r)" "sr_scanned r" "sr_cursor r = 103" "sr_error r = None" "sr_utxos r \<noteq> None"
    using sample_run by auto
  obtain pre e post where c: "fst (sync_route (sample_route r) sample_in) = pre @ e # post"
    "fn_of e = Some (''or-stealth-envelope-update'', cursor_body sample_in None (Some (JStr G1)) (Fin 103) r)"
    using sample_cursor_call [OF r(2,3,5,4)] by blast
  have e: "e \<in> set (fst (sync_route (sample_route r) sample_in))" using c(1) by simp
  have runs: "run_sync sample_ev o1 (Inr r1)" if "rv_result (sample_route r) o1 = Inr r1" for o1 r1
    using that r(1) by (auto simp: sample_route_def split: if_splits)
  have live: "re_filter sample_ev = liveFetchFilter sample_platform sample_chain" by (simp add: sample_ev_def)
  have rows: "int_rows d" if "snd (read_connection (sample_route r) sample_in) = Inr d" for d
  proof -
    have "d = sample_conn" using that prepare_read [OF sample_prepare [of r]] by simp
    then show ?thesis by (simp add: int_rows_def sample_conn_def coverage_of_def)
  qed
  define a where "a = \<lparr>ua_conn = Plain C1, ua_user = ''alice'', ua_generation = Plain G1, ua_height = 103, ua_ceiling = None,
      ua_from = Some (JNum (Fin 103))\<rparr>"
  have a: "parse_update_body (cursor_body sample_in None (Some (JStr G1)) (Fin 103) r) = Inr a"
  proof -
    have "in_connection sample_in = Some C1" "in_user sample_in = ''alice''" by (simp_all add: sample_in_def)
    then show ?thesis by (simp add: parse_update_body_def cursor_body_fields r(3) text_opt_def a_def)
  qed
  have rs: "ranges_of C1 db1 = [(50, 100)]" "\<And>c. ranges_of c db1 = (if c = C1 then [(50, 100)] else [])"
    by (simp_all add: ranges_of_def)
  have srv: "range_advance a db1 db_gained"
    by (simp add: range_advance_def a_def db_gained_def)
  have norm: "normalized (ranges_of c db1)" for c by (simp add: rs(2))
  have gain: "103 \<in> covered (ranges_of C1 db_gained) - covered (ranges_of C1 db1)"
    by (simp add: db_gained_def ranges_of_put rs covered_merge)
  from coverage_gains_read_heights [OF e c(2) runs live rows a srv norm] gain show ?thesis by blast
qed

section \<open>The bodies and the endpoints\<close>

text \<open>A sealed transaction as the store takes it.\<close>

definition fit_tx :: "sealed_tx \<Rightarrow> bool" where
  "fit_tx t \<longleftrightarrow> is_pg_date (st_date t) \<and> 0 \<le> st_height t \<and> is_int4 (st_height t) \<and> is_hex64 (st_blind t) \<and>
     (\<exists>h. st_hash t = Some h \<and> is_hex64 h)"

lemma sealed_tx_fields:
  "field (sealed_tx_json t) ''version'' = Some (JNum (Fin 1))" "field (sealed_tx_json t) ''algorithm'' = Some (JStr ''AES-256-GCM'')"
  "field (sealed_tx_json t) ''iv_b64'' = Some (JStr (st_iv t))" "field (sealed_tx_json t) ''ciphertext_b64'' = Some (JStr (st_cipher t))"
  "field (sealed_tx_json t) ''occurred_at'' = Some (JStr (st_date t))"
  "field (sealed_tx_json t) ''block_height'' = Some (JNum (jsint (st_height t)))"
  "field (sealed_tx_json t) ''txid_blind_index_hex'' = Some (JStr (st_blind t))"
  "field (sealed_tx_json t) ''block_hash_hex'' = text_opt (st_hash t)"
  by (simp_all add: sealed_tx_json_def text_opt_def split: option.split)

lemma isSealedTx_json: "fit_tx t \<Longrightarrow> isSealedTx (sealed_tx_json t) = Some t"
  by (auto simp: isSealedTx_def sealed_tx_fields fit_tx_def is_pg_date_def text_opt_def)

lemma check_sealed:
  "list_all fit_tx ts \<Longrightarrow> \<forall>t \<in> set ts. stringify_length rt (sealed_tx_json t) \<le> MAX_SEALED_RECORD_BYTES \<Longrightarrow>
     check_txs rt k (map sealed_tx_json ts) = Inr ts"
  by (induction ts arbitrary: k) (auto simp: isSealedTx_json not_less)

lemma seal_all_fit:
  assumes w: "web_laws (re_web ev)"
  shows "seal_all ev key k ts = Inr ss \<Longrightarrow>
    (\<And>t. t \<in> set ts \<Longrightarrow> is_pg_date (nt_date t) \<and> 0 \<le> nt_height t \<and> is_int4 (nt_height t) \<and> is_hex64 (nt_block t)) \<Longrightarrow>
    list_all fit_tx ss"
proof (induction ts arbitrary: k ss)
  case (Cons t ts)
  obtain s ss' where s: "seal_tx ev key k t = Inr s" "seal_all ev key (Suc k) ts = Inr ss'" "ss = s # ss'"
    using Cons.prems(1) by (auto split: sum.splits)
  have "st_date s = nt_date t" "st_height s = nt_height t" "st_hash s = Some (nt_block t)" "is_hex64 (st_blind s)"
    using s(1) index_hex64 [OF w] by (auto simp: seal_tx_def blindIndex_def computeTxidBlindIndex_def split: sum.splits)
  then have "fit_tx s" using Cons.prems(2) [of t] by (simp add: fit_tx_def)
  then show ?case using Cons s by simp
qed simp

lemma run_fit:
  assumes run: "run_sync ev opts (Inr r)" "sr_scanned r" and live: "re_filter ev = liveFetchFilter pf nw"
    and w: "web_laws (re_web ev)" and tip: "re_tip ev = Inr chainTip" "chainTip < 2 ^ 31"
  shows "list_all fit_tx (sr_sealed r)" and "is_int4 (sr_cursor r)"
    and "sr_utxos r = Some u \<Longrightarrow> se_version u = Fin 1 \<and> se_algorithm u = ALGO"
proof -
  have sealed: "seal_all ev (ro_key opts) 0 (sr_normalized r) = Inr (sr_sealed r) \<and>
      (\<exists>m. seal_utxos ev (ro_key opts) (length (sr_normalized r)) m = Inr (sr_utxos r))"
    by (rule run_stages [OF run]) (auto simp: finish_run_def Let_def split: sum.splits)
  have "(\<forall>t \<in> set (sr_normalized r). is_pg_date (nt_date t) \<and> 0 \<le> nt_height t \<and> is_int4 (nt_height t) \<and> is_hex64 (nt_block t)) \<and>
      is_int4 (sr_cursor r)"
  proof (rule live_run [OF run live])
    fix chainTip'
    assume l: "re_tip ev = Inr chainTip'" "0 \<le> from_height_of opts" "from_height_of opts - 1 \<le> sr_cursor r"
      "sr_cursor r \<le> chainTip' - CONFIRMATION_DEPTH"
      "\<forall>t \<in> set (sr_normalized r). \<exists>b. block_of (from_height_of opts) (sr_cursor r) b \<and>
        nt_height t = bi_height b \<and> nt_block t = bi_hash b \<and> nt_date t = isoDateFromUnix (bi_time b)"
    then show ?thesis using tip
      by (fastforce simp: block_of_def isoDate_pg is_int4_def CONFIRMATION_DEPTH_def)
  qed
  then show "list_all fit_tx (sr_sealed r)" "is_int4 (sr_cursor r)" using seal_all_fit [OF w conjunct1 [OF sealed]] by auto
  show "sr_utxos r = Some u \<Longrightarrow> se_version u = Fin 1 \<and> se_algorithm u = ALGO"
    using conjunct2 [OF sealed] by (auto simp: seal_utxos_def sealEnvelope_def map_sum_def split: if_splits sum.splits)
qed


lemma seal_all_length: "seal_all ev key k ts = Inr ss \<Longrightarrow> length ss = length ts"
  by (induction ts arbitrary: k ss) (auto split: sum.splits)

definition light_runtime :: runtime where
  "light_runtime = \<lparr>json_parse = (\<lambda>_. None), stringify_length = (\<lambda>_. 0), sha256_hex = id, jwt_user = (\<lambda>_ _. None), max_rows = None\<rparr>"


text \<open>
  A first sync whose first filter cannot be fetched moves the stored cursor although it has read
  nothing.  The run returns the height before the birthday as its cursor, the route takes that for
  progress, and the endpoint stores it while it records no coverage.  The next sync starts behind
  that cursor, so when the birthday then resolves to a lower height, as it does when the block source
  failed before and the date was only approximated, the heights in between are never read.
\<close>

theorem failed_first_fetch_moves_cursor:
  assumes run: "run_sync rn opts (Inr r)" "sr_scanned r" and live: "re_filter rn = liveFetchFilter pf nw"
    and first: "ro_last opts = None" "ro_resume opts = None" "ro_birthday opts = jsint b" "0 < b"
    and broken: "\<not> readable (re_filter rn) b"
    and ids: "in_connection i = Some c" "is_uuid c" "in_user i \<noteq> []" "g = Some (JStr gen)" "is_uuid gen"
  shows "sr_cursor r = b - 1 \<and> reached_higher None r \<and>
    (\<exists>a. parse_update_body (cursor_body i tok g (jsint b) r) = Inr a \<and> bound_of a = b - 1 \<and>
       buildScanRangeArgs \<lparr>rr_connection = ua_conn a, rr_user = ua_user a, rr_last = bound_of a,
         rr_from = ua_from a, rr_generation = ua_generation a\<rparr> = None) \<and>
    (\<forall>b' \<le> b. from_height_of (opts\<lparr>ro_last := Some (b - 1), ro_birthday := jsint b'\<rparr>) = b)"
proof -
  have lo: "from_height_of opts = b"
    using first scanStartHeight_int [of b None None] by (simp add: from_height_of_def)
  have cur: "sr_cursor r = b - 1"
  proof (rule live_run [OF run live])
    assume "from_height_of opts - 1 \<le> sr_cursor r" "\<forall>h \<in> {from_height_of opts..sr_cursor r}. readable (re_filter rn) h"
    then show ?thesis using broken lo by (cases "b \<le> sr_cursor r") auto
  qed
  have "from_height_of (opts\<lparr>ro_last := Some (b - 1), ro_birthday := jsint b'\<rparr>) = b" if "b' \<le> b" for b'
    using that first(2) scanStartHeight_int [of b' "Some (b - 1)" None] by (simp add: from_height_of_def)
  moreover define a where "a = \<lparr>ua_conn = Plain c, ua_user = in_user i, ua_generation = Plain gen, ua_height = sr_cursor r,
      ua_ceiling = None, ua_from = Some (JNum (jsint b))\<rparr>"
  have "parse_update_body (cursor_body i tok g (jsint b) r) = Inr a"
    using ids cur first(4) by (simp add: parse_update_body_def cursor_body_fields text_opt_def a_def del: of_int_diff)
  moreover have "bound_of a = b - 1" by (simp add: a_def cur)
  moreover have "buildScanRangeArgs \<lparr>rr_connection = ua_conn a, rr_user = ua_user a, rr_last = bound_of a,
      rr_from = ua_from a, rr_generation = ua_generation a\<rparr> = None"
    using first(4) by (simp add: buildScanRangeArgs_def a_def cur)
  ultimately show ?thesis using cur run(2) first(4) by (auto simp: reached_higher_def)
qed

text \<open>The sample run against a source that never answers.\<close>

definition dark_ev :: run_env where
  "dark_ev = sample_ev\<lparr>re_filter := liveFetchFilter sample_platform (\<lambda>_ _. (Inl ''Failed to fetch'', Inl ''Failed to fetch''))\<rparr>"

lemma dark_answer: "\<exists>m. re_filter dark_ev h = Inl m"
proof -
  have "re_filter dark_ev h \<noteq> Inr x" for x by (simp add: dark_ev_def retry_outcome fetchFilterPair_def)
  then show ?thesis by (metis sum.exhaust)
qed

lemma dark_run: "\<exists>r. run_sync dark_ev sample_opts (Inr r) \<and> sr_scanned r"
proof -
  let ?job = "plan_job dark_ev sample_plan"
  have job: "?job = plan_job sample_ev sample_plan" by (simp add: plan_job_def job_of_def dark_ev_def)
  obtain m where m: "re_filter dark_ev 103 = Inl m" using dark_answer by blast
  define p where "p = resume ?job 0 103 (re_filter dark_ev 103) (start_pool ?job 103)"
  have p: "p = \<lparr>p_next = 104, p_workers = None # replicate 31 None, p_cache = Map.empty, p_hits = [], p_aborted = True,
      p_failure = Some (103, m), p_read = 0, p_bytes = 0, p_thrown = None\<rparr>"
    unfolding p_def job sample_start
    by (simp add: resume_def m set_worker_def give_up_def)
  have "pool_reaches ?job (re_filter dark_ev) 103 1 p"
    unfolding p_def
    using pool_reaches.step [OF pool_reaches.start pool_step.answered [of 0 "start_pool ?job 103" 103]]
    by (metis One_nat_def job length_Cons list.size(3) nth_Cons_0 pool.select_convs(2) sample_start zero_less_Suc)
  moreover have "all_returned p" by (simp add: p all_returned_def list.pred_set)
  moreover have "before_scan dark_ev sample_opts = Inr (Inl sample_plan)"
  proof -
    have same: "derive_window dark_ev = derive_window sample_ev" "re_tip dark_ev = re_tip sample_ev"
      "re_web dark_ev = re_web sample_ev" "re_payload dark_ev = re_payload sample_ev"
      by (simp_all add: fun_eq_iff derive_window_def dark_ev_def)
    show ?thesis using sample_before unfolding before_scan_def same .
  qed
  moreover have "pl_from sample_plan = 103" by (simp add: sample_plan_def)
  ultimately have run: "run_sync dark_ev sample_opts (after_scan dark_ev sample_opts sample_plan p)"
    using run_sync.scanned [of dark_ev sample_opts sample_plan 1 p] by simp
  have out: "scan_outcome ?job 103 p = (102, True, [])"
    unfolding job by (simp add: sample_job scan_outcome_def p lastContiguousScanned_def contiguous.simps trim_hits_def sortByAscendingHeight_def)
  have "after_scan dark_ev sample_opts sample_plan p = finish_run dark_ev sample_opts p 102
      \<lparr>wi_derived = pl_derived sample_plan, wi_end = (2, 2), wi_exhausted = False, wi_walk = start_walk [], wi_cache = p_cache p\<rparr>"
  proof (rule after_scanI)
    show "scan_outcome ?job (pl_from sample_plan) p = (102, True, [])" using out by (simp add: sample_plan_def)
    show "walk_blocks (initial_tx (pl_derived sample_plan)) (open_block (re_sha dark_ev) (re_block dark_ev)) []
        (start_walk (seed_utxos dark_ev (ro_key sample_opts) (ro_sealed sample_opts))) = Inr (start_walk [])"
      by (simp add: seed_utxos_def sample_opts_def)
    show "extension_loop \<lparr>pe_ev = dark_ev, pe_plan = sample_plan, pe_aborted = True, pe_cursor = 102\<rparr>
      (case ro_passes sample_opts of None \<Rightarrow> 10 | Some n \<Rightarrow> n)
      \<lparr>wi_derived = pl_derived sample_plan, wi_end = (wp_gap (pl_payload sample_plan) * 2, wp_gap (pl_payload sample_plan) * 2),
        wi_exhausted = False, wi_walk = start_walk [], wi_cache = p_cache p\<rparr> =
      Inr \<lparr>wi_derived = pl_derived sample_plan, wi_end = (2, 2), wi_exhausted = False, wi_walk = start_walk [], wi_cache = p_cache p\<rparr>"
      by (cases "case ro_passes sample_opts of None \<Rightarrow> 10 | Some n \<Rightarrow> n")
        (simp_all add: still_near_def near_edge_def start_walk_def sample_plan_def sample_payload_def)
  qed
  moreover have "finalize (wk_accs (start_walk [])) = []" "wk_utxos (start_walk []) = []"
    by (simp_all add: finalize_def start_walk_def)
  ultimately show ?thesis using run by (auto simp: finish_run_def seal_utxos_def Let_def)
qed

theorem failed_first_fetch_moves_cursor_witness:
  "\<exists>r. run_sync dark_ev sample_opts (Inr r) \<and> sr_cursor r = 102 \<and> reached_higher None r \<and>
     from_height_of (sample_opts\<lparr>ro_last := Some 102, ro_birthday := jsint 90\<rparr>) = 103"
proof -
  obtain r where r: "run_sync dark_ev sample_opts (Inr r)" "sr_scanned r" using dark_run by blast
  let ?none = "\<lambda>_ _. (Inl ''Failed to fetch'', Inl ''Failed to fetch'')"
  have broken: "\<not> readable (re_filter dark_ev) 103" using dark_answer [of 103] by (auto simp: readable_def)
  have live: "re_filter dark_ev = liveFetchFilter sample_platform ?none" by (simp add: dark_ev_def)
  have first: "ro_last sample_opts = None" "ro_resume sample_opts = None" "ro_birthday sample_opts = jsint 103" "(0 :: int) < 103"
    by (simp_all add: sample_opts_def)
  have ids: "in_connection sample_in = Some C1" "is_uuid C1" "in_user sample_in \<noteq> []" "Some (JStr G1) = Some (JStr G1)" "is_uuid G1"
    by (simp_all add: sample_in_def)
  note f = failed_first_fetch_moves_cursor [OF r live first broken ids, of None]
  have "from_height_of (sample_opts\<lparr>ro_last := Some 102, ro_birthday := jsint 90\<rparr>) = 103"
    using f [THEN conjunct2, THEN conjunct2, THEN conjunct2, rule_format, of 90] by simp
  then show ?thesis using f r(1) by auto
qed

text \<open>
  A run that finds nothing new to scan hands the stored outputs back as its own, although they
  are announced as absent then, and the route uploads them again with the cursor it echoes.  For a
  connection without a cursor that is \<open>-1\<close>, which the endpoint refuses, so that the session fails
  where there was nothing to do.
\<close>

theorem up_to_date_uploads_again:
  assumes run: "run_sync rn opts (Inr r)" "\<not> sr_scanned r" and prior: "ro_sealed opts = Some u"
    and i: "\<not> in_skip i" "through_parent ev i" "in_connection i = Some c" "is_uuid c" "in_user i \<noteq> []"
  shows "sr_sealed r = [] \<and> sr_utxos r = Some u \<and>
    fst (upload ev i tok g r) = [Proxied ''or-stealth-transactions-store'' (upload_body i tok g r) 120000] \<and>
    (ro_last opts = None \<longrightarrow> parse_store_body rt (upload_body i tok g r) =
       Inl (400, ''last_block_scanned must be a non-negative integer''))"
proof -
  have "r = up_to_date opts"
    using run(1)
  proof (cases rule: run_sync.cases)
    case current
    then show ?thesis by (auto simp: before_scan_def Let_def split: sum.splits if_splits)
  next
    case (scanned pl n p)
    then show ?thesis using run(2) by (auto simp: after_scan_def finish_run_def Let_def split: sum.splits prod.splits)
  qed
  then have r: "sr_sealed r = []" "sr_utxos r = Some u" "sr_cursor r = (case ro_last opts of None \<Rightarrow> - 1 | Some k \<Rightarrow> k)"
    by (simp_all add: up_to_date_def prior)
  have "fst (upload ev i tok g r) = [Proxied ''or-stealth-transactions-store'' (upload_body i tok g r) 120000]"
    using r i by (simp add: upload_def call_def fst_bindr snd_bindr proxied_def ret_def throw_def split: sum.split)
  moreover have "parse_store_body rt (upload_body i tok g r) = Inl (400, ''last_block_scanned must be a non-negative integer'')"
    if "ro_last opts = None"
    using that r i by (simp add: parse_store_body_def upload_body_def text_opt_def split: option.split)
  ultimately show ?thesis using r by simp
qed

definition parent_route :: route_env where
  "parent_route = (sample_route (up_to_date sample_opts))\<lparr>rv_parent := True\<rparr>"

theorem up_to_date_uploads_again_witness:
  "\<exists>r u. run_sync (sample_ev\<lparr>re_tip := Inr 104\<rparr>) (sample_opts\<lparr>ro_sealed := Some u\<rparr>) (Inr r) \<and> \<not> sr_scanned r \<and>
     fst (upload parent_route (sample_in\<lparr>in_proxy := Some ''p''\<rparr>) None None r) \<noteq> [] \<and>
     parse_store_body light_runtime (upload_body (sample_in\<lparr>in_proxy := Some ''p''\<rparr>) None None r) =
       Inl (400, ''last_block_scanned must be a non-negative integer'')"
proof -
  let ?ev = "sample_ev\<lparr>re_tip := Inr 104\<rparr>" and ?i = "sample_in\<lparr>in_proxy := Some ''p''\<rparr>"
  define u where "u = ro_envelope sample_opts"
  let ?opts = "sample_opts\<lparr>ro_sealed := Some u\<rparr>"
  have "before_scan ?ev ?opts = Inr (Inr (up_to_date ?opts))"
  proof -
    obtain p where p: "unsealEnvelope (re_web sample_ev) (re_payload sample_ev) (ro_envelope sample_opts) (ro_key sample_opts) = Inr p"
      "\<exists>ds. derive_window sample_ev sample_opts p = Inr ds"
      using sample_before by (auto simp: before_scan_def Let_def split: sum.splits if_splits)
    have "from_height_of ?opts = 103" by (simp add: from_height_of_def sample_opts_def scanStartHeight_def)
    moreover have "\<not> birthday_refused (ro_birthday ?opts) 104" by (simp add: birthday_refused_def sample_opts_def)
    moreover have "\<exists>ds. derive_window ?ev ?opts p = Inr ds" using p(2) by (simp add: derive_window_def)
    ultimately show ?thesis using p(1) by (auto simp: before_scan_def CONFIRMATION_DEPTH_def Let_def)
  qed
  then have run: "run_sync ?ev ?opts (Inr (up_to_date ?opts))" by (rule run_sync.current)
  have idle: "\<not> sr_scanned (up_to_date ?opts)" by (simp add: up_to_date_def)
  have i: "\<not> in_skip ?i" "through_parent parent_route ?i" "in_connection ?i = Some C1" "is_uuid C1" "in_user ?i \<noteq> []"
    by (simp_all add: sample_in_def parent_route_def sample_route_def through_parent_def present_def)
  have none: "ro_last ?opts = None" by (simp add: sample_opts_def)
  from up_to_date_uploads_again [OF run idle _ i, of u None None light_runtime]
  show ?thesis using run idle none by (intro exI [of _ "up_to_date ?opts"] exI [of _ u]) auto
qed

end
