(* ===== verification/ScanLive.thy ===== *)
theory ScanLive
  imports FilterFetch
begin

text \<open>
  The filter stage of \<open>runSync\<close> gets done: from every state that the pool of workers can be in, it
  comes to rest, and at rest over a source that serves every height it has come to the ceiling.
\<close>

lemma reaches_trans:
  "rtranclp (pool_step job src) p q \<Longrightarrow> pool_reaches job src lo n p \<Longrightarrow> \<exists>m. n \<le> m \<and> pool_reaches job src lo m q"
proof (induction rule: rtranclp_induct)
  case (step q r)
  then show ?case using pool_reaches.step le_SucI by blast
qed blast

lemma answers_bounded:
  assumes "pool_reaches job src lo n p" and "wf_source src"
  shows "int n \<le> max 0 (j_tip job + 1 - lo)"
proof -
  note inv = reaches_inv [OF assms, unfolded pool_inv_def]
  have "pool_core job src lo (p_next p) (p_cache p) (p_aborted p) (p_hits p) (waits (p_workers p))"
    using inv by blast
  note core = pool_coreD(2) [OF this]
  have "0 \<le> open_fetches (p_workers p)" by (simp add: open_fetches_def)
  then show ?thesis using inv core by linarith
qed

lemma at_rest:
  assumes "pool_reaches job src lo n p" and "wf_source src" and "\<nexists>q. pool_step job src p q"
  shows "all_returned p"
proof -
  have "\<not> (i < length (p_workers p) \<and> p_workers p ! i = Some h)" for i h
    using assms(3) pool_step.answered by blast
  moreover have "p_thrown p = None"
    using reaches_inv [OF assms(1,2)] by (simp add: pool_inv_def)
  ultimately show ?thesis unfolding all_returned_def list_all_length by (meson not_None_eq)
qed

lemma comes_to_rest:
  assumes "pool_reaches job src lo n p" and "wf_source src"
  shows "\<exists>q. rtranclp (pool_step job src) p q \<and> (\<nexists>r. pool_step job src q r)"
  using assms(1)
proof (induction "nat (max 0 (j_tip job + 1 - lo)) - n" arbitrary: n p rule: less_induct)
  case less
  show ?case
  proof (cases "\<exists>q. pool_step job src p q")
    case True
    then obtain q where q: "pool_step job src p q" by blast
    have r: "pool_reaches job src lo (Suc n) q" by (rule pool_reaches.step [OF less.prems q])
    have "nat (max 0 (j_tip job + 1 - lo)) - Suc n < nat (max 0 (j_tip job + 1 - lo)) - n"
      using answers_bounded [OF r assms(2)] by linarith
    from less.hyps [OF this r] q show ?thesis by (meson converse_rtranclp_into_rtranclp)
  qed blast
qed

lemma served_to_the_ceiling:
  assumes "lo \<le> j_tip job + 1" and "\<forall>h \<in> {lo..j_tip job}. readable src h"
  shows "fst (sequential_scan job src lo) = j_tip job \<and> \<not> fst (snd (sequential_scan job src lo))"
proof -
  have t: "takeWhile (readable src) [lo..j_tip job] = [lo..j_tip job]" using assms(2) by (simp add: takeWhile_eq_all_conv)
  have "read_prefix src (j_tip job) lo = j_tip job" unfolding read_prefix_def t using assms(1) by simp
  moreover have "\<not> list_ex (broken src) [lo..j_tip job]"
    using assms(2) by (fastforce simp: list_ex_iff readable_def broken_def)
  ultimately show ?thesis by (simp add: sequential_scan_def)
qed

text \<open>
  C26: a scan over a source that serves every filter gets to the end.  From every state that the 32
  workers can be in over the live source, however the answers came in so far, the stage can come to
  rest, it does so after at most one answer per height, and whenever it rests every worker has
  returned without an error, nothing was aborted, and the cursor is the ceiling.
\<close>

theorem served_scan_reaches_ceiling:
  assumes "pool_reaches job (liveFetchFilter pf net) lo n p" and "lo \<le> j_tip job + 1"
    and "\<forall>h \<in> {lo..j_tip job}. readable (liveFetchFilter pf net) h"
  shows "(\<exists>q. rtranclp (pool_step job (liveFetchFilter pf net)) p q \<and> (\<nexists>r. pool_step job (liveFetchFilter pf net) q r)) \<and>
    (\<forall>m q. n \<le> m \<and> pool_reaches job (liveFetchFilter pf net) lo m q \<longrightarrow> int m \<le> max 0 (j_tip job + 1 - lo)) \<and>
    (\<forall>q. rtranclp (pool_step job (liveFetchFilter pf net)) p q \<and> (\<nexists>r. pool_step job (liveFetchFilter pf net) q r) \<longrightarrow>
       all_returned q \<and> fst (scan_outcome job lo q) = j_tip job \<and> \<not> fst (snd (scan_outcome job lo q)))"
proof -
  let ?src = "liveFetchFilter pf net"
  have "all_returned q \<and> fst (scan_outcome job lo q) = j_tip job \<and> \<not> fst (snd (scan_outcome job lo q))"
    if q: "rtranclp (pool_step job ?src) p q" "\<nexists>r. pool_step job ?src q r" for q
  proof -
    obtain m where m: "pool_reaches job ?src lo m q" using reaches_trans [OF q(1) assms(1)] by blast
    have all: "all_returned q" by (rule at_rest [OF m live.wf q(2)])
    then show ?thesis using live.scan [OF m all] served_to_the_ceiling [OF assms(2,3)] by simp
  qed
  then show ?thesis using comes_to_rest [OF assms(1) live.wf] answers_bounded [OF _ live.wf] by blast
qed

theorem served_scan_reaches_ceiling_witness:
  "\<exists>q. rtranclp (pool_step (sample_job\<lparr>j_tip := 103\<rparr>) (liveFetchFilter sample_platform sample_net)) (start_pool (sample_job\<lparr>j_tip := 103\<rparr>) 103) q \<and>
     all_returned q \<and> fst (scan_outcome (sample_job\<lparr>j_tip := 103\<rparr>) 103 q) = 103"
proof -
  let ?job = "sample_job\<lparr>j_tip := 103\<rparr>"
  have "readable (liveFetchFilter sample_platform sample_net) 103"
    using sample_fetch by (auto simp: readable_def)
  then show ?thesis
    using served_scan_reaches_ceiling [OF pool_reaches.start, of 103 ?job sample_platform sample_net] by auto
qed

end
