(* ===== verification/Base58.thy ===== *)
theory Base58
  imports BlockParser
begin

text \<open>
  The base58 text of extended keys and legacy addresses, from \<open>src/stealth/lib/derive.ts\<close>: repeated
  division of the big-endian bytes by 58 one way, multiplication of little-endian digits the other,
  with leading zero bytes as leading ones, and the four bytes of double SHA-256 behind the payload.
\<close>

section \<open>The code\<close>

definition B58_ALPHABET :: string where
  "B58_ALPHABET = ''123456789ABCDEFGHJKLMNPQRSTUVWXYZabcdefghijkmnopqrstuvwxyz''"

text \<open>One pass of the division: the quotient digits and the remainder.\<close>

fun div_pass :: "nat \<Rightarrow> nat list \<Rightarrow> nat list \<times> nat" where
  "div_pass remainder [] = ([], remainder)"
| "div_pass remainder (b # ds) =
     (let acc = remainder * 256 + b; (qs, r) = div_pass (acc mod 58) ds
      in (acc div 58 # qs, r))"

fun be_value :: "nat list \<Rightarrow> nat" where
  "be_value [] = 0"
| "be_value (b # bs) = b * 256 ^ length bs + be_value bs"

lemma div_pass_length: "length (fst (div_pass r ds)) = length ds"
  by (induction ds arbitrary: r) (simp_all add: Let_def case_prod_beta)

lemma div_pass_value:
  "58 * be_value (fst (div_pass r ds)) + snd (div_pass r ds) = r * 256 ^ length ds + be_value ds"
proof (induction ds arbitrary: r)
  case (Cons b ds)
  have "58 * be_value (fst (div_pass r (b # ds))) + snd (div_pass r (b # ds)) =
      58 * ((r * 256 + b) div 58) * 256 ^ length ds + ((r * 256 + b) mod 58) * 256 ^ length ds + be_value ds"
    using Cons [of "(r * 256 + b) mod 58"]
    by (simp add: Let_def case_prod_beta div_pass_length algebra_simps)
  also have "\<dots> = (r * 256 + b) * 256 ^ length ds + be_value ds"
    by (metis add_mult_distrib mult_div_mod_eq)
  finally show ?case by (simp add: algebra_simps)
qed simp

lemma div_pass_remainder: "r < 58 \<Longrightarrow> snd (div_pass r ds) < 58"
  by (induction ds arbitrary: r) (simp_all add: Let_def case_prod_beta)

lemma be_value_stripped: "be_value (dropWhile ((=) 0) bs) = be_value bs"
  by (induction bs) auto

lemma strip_empty: "dropWhile ((=) 0) qs = [] \<longleftrightarrow> be_value qs = (0 :: nat)"
  by (induction qs) auto

lemma div_pass_less:
  assumes "be_value ds \<noteq> 0"
  shows "be_value (fst (div_pass 0 ds)) < be_value ds"
  using div_pass_value [of 0 ds] assms by simp

text \<open>The outer loop; it drops the zeros that appear in front.\<close>

function encode_loop :: "nat list \<Rightarrow> string \<Rightarrow> string" where
  "encode_loop ds out =
     (if ds = [] then out
      else (let (qs, r) = div_pass 0 ds
            in encode_loop (dropWhile ((=) 0) qs) (B58_ALPHABET ! r # out)))"
  by pat_completeness auto

termination
proof (relation "measure (\<lambda>(ds, out). be_value ds + (if ds = [] then 0 else 1))", goal_cases)
  case (2 ds out x qs r)
  then have q: "qs = fst (div_pass 0 ds)" by (metis fst_conv)
  show ?case
  proof (cases "be_value ds = 0")
    case True
    then have "be_value qs = 0" using div_pass_value [of 0 ds] q by simp
    then show ?thesis using 2(1) strip_empty [of qs] True by (simp add: be_value_stripped)
  next
    case False
    then show ?thesis using div_pass_less [OF False] 2(1) q by (simp add: be_value_stripped)
  qed
qed simp

declare encode_loop.simps [simp del]

definition base58Encode :: "bytes \<Rightarrow> string" where
  "base58Encode bs =
     (let ds = map unat bs; zeros = length (takeWhile ((=) 0) ds)
      in replicate zeros (CHR ''1'') @ encode_loop (drop zeros ds) [])"

text \<open>
  Decoding: each character multiplies the digits by 58 and adds its value; the carry that is left
  becomes new digits.
\<close>

fun push_carry :: "nat \<Rightarrow> nat list" where
  "push_carry carry = (if carry = 0 then [] else carry mod 256 # push_carry (carry div 256))"

declare push_carry.simps [simp del]

fun mul_pass :: "nat \<Rightarrow> nat list \<Rightarrow> nat list" where
  "mul_pass carry [] = push_carry carry"
| "mul_pass carry (d # digits) =
     (let c = carry + d * 58 in c mod 256 # mul_pass (c div 256) digits)"

definition index_of :: "char \<Rightarrow> string \<Rightarrow> nat option" where
  "index_of c s = (if c \<in> set s then Some (length (takeWhile ((\<noteq>) c) s)) else None)"

fun decode_loop :: "string \<Rightarrow> nat list \<Rightarrow> char + nat list" where
  "decode_loop [] digits = Inr digits"
| "decode_loop (c # cs) digits =
     (case index_of c B58_ALPHABET of
        None \<Rightarrow> Inl c
      | Some v \<Rightarrow> decode_loop cs (mul_pass v digits))"

definition base58Decode :: "string \<Rightarrow> char + bytes" where
  "base58Decode str =
     (let zeros = length (takeWhile ((=) (CHR ''1'')) str) in
      case decode_loop (drop zeros str) [] of
        Inl c \<Rightarrow> Inl c
      | Inr digits \<Rightarrow> Inr (replicate zeros 0 @ map of_nat (rev digits)))"

text \<open>\<open>base58checkEncode\<close> and \<open>base58checkDecode\<close>; \<open>sha\<close> is SHA-256.\<close>

definition check_bytes :: "(bytes \<Rightarrow> bytes) \<Rightarrow> bytes \<Rightarrow> bytes" where
  "check_bytes sha payload = take 4 (sha (sha payload))"

definition base58checkEncode :: "(bytes \<Rightarrow> bytes) \<Rightarrow> bytes \<Rightarrow> string" where
  "base58checkEncode sha payload = base58Encode (payload @ check_bytes sha payload)"

datatype base58_error = InvalidCharacter char | TooShort | ChecksumMismatch

definition base58checkDecode :: "(bytes \<Rightarrow> bytes) \<Rightarrow> string \<Rightarrow> base58_error + bytes" where
  "base58checkDecode sha str =
     (case base58Decode str of
        Inl c \<Rightarrow> Inl (InvalidCharacter c)
      | Inr decoded \<Rightarrow>
          if length decoded < 5 then Inl TooShort
          else (let n = length decoded - 4; payload = take n decoded in
                if drop n decoded = check_bytes sha payload then Inr payload else Inl ChecksumMismatch))"

section \<open>Decoding inverts encoding\<close>

fun le_number :: "nat list \<Rightarrow> nat" where
  "le_number [] = 0"
| "le_number (d # ds) = d + 256 * le_number ds"

definition canonical :: "nat list \<Rightarrow> bool" where
  "canonical ds \<longleftrightarrow> list_all (\<lambda>d. d < 256) ds \<and> (ds \<noteq> [] \<longrightarrow> last ds \<noteq> 0)"

lemma push_carry_number: "le_number (push_carry c) = c"
  by (induction c rule: push_carry.induct) (subst push_carry.simps, simp)

lemma mul_pass_number: "le_number (mul_pass c ds) = c + 58 * le_number ds"
proof (induction ds arbitrary: c)
  case (Cons d ds)
  have "c + d * 58 = (c + d * 58) mod 256 + 256 * ((c + d * 58) div 256)" by simp
  then show ?case using Cons by (simp add: Let_def algebra_simps)
qed (simp add: push_carry_number)

lemma push_carry_canonical: "canonical (push_carry c)"
proof (induction c rule: push_carry.induct)
  case (1 c)
  show ?case
  proof (cases "c = 0")
    case True
    then show ?thesis by (simp add: push_carry.simps canonical_def)
  next
    case False
    have "c mod 256 \<noteq> 0 \<or> push_carry (c div 256) \<noteq> []"
      using False by (subst push_carry.simps) auto
    then show ?thesis using 1 [OF False] False
      by (subst push_carry.simps) (auto simp: canonical_def)
  qed
qed

lemma canonical_Cons: "canonical (d # ds) \<longleftrightarrow> d < 256 \<and> canonical ds \<and> (ds = [] \<longrightarrow> d \<noteq> 0)"
  by (auto simp: canonical_def)

lemma canonical_zero: "canonical ds \<Longrightarrow> le_number ds = 0 \<longleftrightarrow> ds = []"
  by (induction ds) (auto simp: canonical_Cons)

lemma mul_pass_canonical: "canonical ds \<Longrightarrow> canonical (mul_pass c ds)"
proof (induction ds arbitrary: c)
  case (Cons d ds)
  let ?c = "c + d * 58"
  have "canonical (mul_pass (?c div 256) ds)" using Cons by (simp add: canonical_Cons)
  moreover have "?c mod 256 \<noteq> 0" if "mul_pass (?c div 256) ds = []"
  proof -
    have "?c div 256 + 58 * le_number ds = 0" using that mul_pass_number [of "?c div 256" ds] by simp
    then have "ds = []" "?c < 256" using Cons.prems canonical_zero [of ds] by (auto simp: canonical_Cons)
    moreover have "d \<noteq> 0" using Cons.prems \<open>ds = []\<close> by (simp add: canonical_Cons)
    ultimately show ?thesis by simp
  qed
  ultimately show ?case by (simp add: Let_def canonical_Cons)
qed (simp add: push_carry_canonical)

lemma canonical_unique:
  "canonical xs \<Longrightarrow> canonical ys \<Longrightarrow> le_number xs = le_number ys \<Longrightarrow> xs = ys"
proof (induction xs arbitrary: ys)
  case Nil
  then show ?case using canonical_zero [of ys] by simp
next
  case (Cons x xs)
  then obtain y ys' where ys: "ys = y # ys'"
    using canonical_zero [of "x # xs"] canonical_zero [of ys] by (cases ys) auto
  have small: "x < 256" "y < 256" using Cons.prems ys by (auto simp: canonical_Cons)
  have "x + 256 * le_number xs = y + 256 * le_number ys'" using Cons.prems(3) ys by simp
  then have "(x + 256 * le_number xs) mod 256 = (y + 256 * le_number ys') mod 256"
    "(x + 256 * le_number xs) div 256 = (y + 256 * le_number ys') div 256" by simp_all
  then have "x = y" "le_number xs = le_number ys'" using small by simp_all
  then show ?case using Cons ys by (auto simp: canonical_Cons)
qed

text \<open>The characters that the outer loop puts in front, as digits to base 58.\<close>

lemma alphabet_nth: "v < 58 \<Longrightarrow> index_of (B58_ALPHABET ! v) B58_ALPHABET = Some v"
proof -
  have "list_all (\<lambda>v. index_of (B58_ALPHABET ! v) B58_ALPHABET = Some v) [0..<58]" by code_simp
  then show "v < 58 \<Longrightarrow> index_of (B58_ALPHABET ! v) B58_ALPHABET = Some v" by (simp add: list_all_iff)
qed


lemma one_is_zero_digit: "v < 58 \<Longrightarrow> B58_ALPHABET ! v = CHR ''1'' \<longleftrightarrow> v = 0"
  using alphabet_nth [of v] alphabet_nth [of 0] by (auto simp: B58_ALPHABET_def)

definition base58_value :: "nat \<Rightarrow> nat list \<Rightarrow> nat" where
  "base58_value a vs = foldl (\<lambda>a v. a * 58 + v) a vs"

lemma encode_loop_digits:
  "\<exists>vs. encode_loop ds out = map ((!) B58_ALPHABET) vs @ out \<and> list_all (\<lambda>v. v < 58) vs \<and>
     base58_value 0 vs = be_value ds \<and> (ds = [] \<longrightarrow> vs = []) \<and> (be_value ds \<noteq> 0 \<longrightarrow> vs \<noteq> [] \<and> hd vs \<noteq> 0)"
proof (induction ds out rule: encode_loop.induct)
  case (1 ds out)
  show ?case
  proof (cases "ds = []")
    case True
    then show ?thesis by (simp add: encode_loop.simps base58_value_def)
  next
    case False
    obtain qs r where d: "div_pass 0 ds = (qs, r)" by fastforce
    then have v: "58 * be_value qs + r = be_value ds" "r < 58"
      using div_pass_value [of 0 ds] div_pass_remainder [of 0 ds] by simp_all
    obtain vs where vs: "encode_loop (dropWhile ((=) 0) qs) (B58_ALPHABET ! r # out) = map ((!) B58_ALPHABET) vs @ B58_ALPHABET ! r # out"
      "list_all (\<lambda>v. v < 58) vs" "base58_value 0 vs = be_value qs"
      "dropWhile ((=) 0) qs = [] \<longrightarrow> vs = []" "be_value qs \<noteq> 0 \<longrightarrow> vs \<noteq> [] \<and> hd vs \<noteq> 0"
      using 1 [OF False d [symmetric] refl] unfolding be_value_stripped by blast
    have "encode_loop ds out = map ((!) B58_ALPHABET) (vs @ [r]) @ out"
      using vs(1) False d by (subst encode_loop.simps) simp
    moreover have "base58_value 0 (vs @ [r]) = be_value ds" using vs(3) v(1) by (simp add: base58_value_def)
    moreover have "hd (vs @ [r]) \<noteq> 0" if "be_value ds \<noteq> 0"
    proof (cases "be_value qs = 0")
      case True
      then have "vs = []" using vs(4) strip_empty [of qs] by simp
      then show ?thesis using that v(1) True by simp
    qed (use vs(5) in simp)
    ultimately show ?thesis using vs(2) v(2) False by (intro exI [of _ "vs @ [r]"]) simp
  qed
qed

lemma decode_loop_digits:
  assumes "list_all (\<lambda>v. v < 58) vs" and "canonical digits"
  shows "\<exists>ds. decode_loop (map ((!) B58_ALPHABET) vs) digits = Inr ds \<and> canonical ds \<and>
    le_number ds = base58_value (le_number digits) vs"
  using assms
proof (induction vs arbitrary: digits)
  case (Cons v vs)
  have "canonical (mul_pass v digits)" "le_number (mul_pass v digits) = le_number digits * 58 + v"
    using mul_pass_canonical [OF Cons.prems(2)] mul_pass_number [of v digits] by simp_all
  then show ?case
    using Cons.IH [of "mul_pass v digits"] Cons.prems alphabet_nth [of v] by (simp add: base58_value_def)
qed (simp add: base58_value_def)

lemma be_value_append: "be_value (ds @ [d]) = 256 * be_value ds + d"
  by (induction ds) (simp_all add: algebra_simps)

lemma be_value_rev: "be_value (rev ds) = le_number ds"
  by (induction ds) (simp_all add: be_value_append)

lemma take_zeros: "takeWhile ((=) (0 :: nat)) ds = replicate (length (takeWhile ((=) 0) ds)) 0"
  by (induction ds) auto

lemma ones_counted:
  "s = [] \<or> hd s \<noteq> x \<Longrightarrow> takeWhile ((=) x) (replicate k x @ s) = replicate k x"
  by (induction k) (auto simp: takeWhile_eq_Nil_iff)

lemma base58_inverse: "base58Decode (base58Encode bs) = Inr bs"
proof -
  define ds where "ds = map unat bs"
  define k where "k = length (takeWhile ((=) 0) ds)"
  define rest where "rest = drop k ds"
  have rest: "rest = dropWhile ((=) 0) ds" by (simp add: rest_def k_def dropWhile_eq_drop)
  have split: "ds = replicate k 0 @ rest"
    using take_zeros [of ds] takeWhile_dropWhile_id [of "(=) 0" ds] by (simp add: k_def rest)
  have bytes: "list_all (\<lambda>d. d < 256) ds"
    using unsigned_less [where ?'b = 8] by (fastforce simp: ds_def list_all_iff)
  have head: "rest \<noteq> [] \<Longrightarrow> hd rest \<noteq> 0" using hd_dropWhile [of "(=) 0" ds] by (auto simp: rest)
  then have canon: "canonical (rev rest)"
    using bytes split by (auto simp: canonical_def last_rev)
  obtain vs where vs: "encode_loop rest [] = map ((!) B58_ALPHABET) vs" "list_all (\<lambda>v. v < 58) vs"
    "base58_value 0 vs = be_value rest" "rest = [] \<longrightarrow> vs = []" "be_value rest \<noteq> 0 \<longrightarrow> vs \<noteq> [] \<and> hd vs \<noteq> 0"
    using encode_loop_digits [of rest "[]"] by auto
  have "be_value rest \<noteq> 0" if "rest \<noteq> []"
    using canonical_zero [OF canon] be_value_rev [of "rev rest"] that by simp
  then have "vs = [] \<or> hd vs \<noteq> 0" using vs(4,5) by blast
  then have "map ((!) B58_ALPHABET) vs = [] \<or> hd (map ((!) B58_ALPHABET) vs) \<noteq> CHR ''1''"
    using vs(2) one_is_zero_digit by (cases vs) auto
  then have "takeWhile ((=) (CHR ''1'')) (base58Encode bs) = replicate k (CHR ''1'')"
    using ones_counted [OF \<open>map ((!) B58_ALPHABET) vs = [] \<or> hd (map ((!) B58_ALPHABET) vs) \<noteq> CHR ''1''\<close>] vs(1)
    by (simp add: base58Encode_def Let_def flip: ds_def k_def rest_def)
  then have zeros: "length (takeWhile ((=) (CHR ''1'')) (base58Encode bs)) = k" by simp
  have "drop k (base58Encode bs) = map ((!) B58_ALPHABET) vs"
    using vs(1) by (simp add: base58Encode_def Let_def flip: ds_def k_def rest_def)
  moreover obtain digits where "decode_loop (map ((!) B58_ALPHABET) vs) [] = Inr digits" "canonical digits"
    "le_number digits = be_value rest"
    using decode_loop_digits [OF vs(2), of "[]"] vs(3) by (auto simp: canonical_def)
  moreover have "digits = rev rest"
    using canonical_unique [OF \<open>canonical digits\<close> canon] be_value_rev [of "rev rest"] \<open>le_number digits = be_value rest\<close> by simp
  ultimately have "base58Decode (base58Encode bs) = Inr (replicate k 0 @ map of_nat rest)"
    by (simp add: base58Decode_def Let_def zeros)
  also have "replicate k 0 @ map of_nat rest = map (\<lambda>d. of_nat d :: byte) ds" by (simp add: split)
  also have "\<dots> = bs" by (simp add: ds_def o_def)
  finally show ?thesis .
qed

section \<open>Encoding inverts decoding\<close>

lemma index_of_nth: "index_of c s = Some v \<Longrightarrow> v < length s \<and> s ! v = c"
proof -
  assume "index_of c s = Some v"
  then have c: "c \<in> set s" "v = length (takeWhile ((\<noteq>) c) s)" by (auto simp: index_of_def split: if_splits)
  moreover have "length (takeWhile ((\<noteq>) c) s) < length s" using c(1) by (induction s) auto
  ultimately show ?thesis using nth_length_takeWhile [of "(\<noteq>) c" s] by simp
qed

lemma decode_loop_text:
  "decode_loop s digits = Inr ds \<Longrightarrow> \<exists>vs. s = map ((!) B58_ALPHABET) vs \<and> list_all (\<lambda>v. v < 58) vs"
proof (induction s arbitrary: digits)
  case (Cons c s)
  then obtain v where v: "index_of c B58_ALPHABET = Some v" "decode_loop s (mul_pass v digits) = Inr ds"
    by (auto split: option.splits)
  obtain vs where "s = map ((!) B58_ALPHABET) vs" "list_all (\<lambda>v. v < 58) vs" using Cons.IH [OF v(2)] by blast
  moreover have "v < 58" "B58_ALPHABET ! v = c" using index_of_nth [OF v(1)] by (simp_all add: B58_ALPHABET_def)
  ultimately show ?case by (intro exI [of _ "v # vs"]) simp
qed simp

lemma base58_value_snoc: "base58_value a (vs @ [v]) = base58_value a vs * 58 + v"
  by (simp add: base58_value_def)

lemma base58_value_ge: "a \<le> base58_value a vs"
proof (induction vs rule: rev_induct)
  case (snoc v vs)
  then show ?case by (simp add: base58_value_snoc)
qed (simp add: base58_value_def)

lemma base58_value_zero: "vs = [] \<or> hd vs \<noteq> 0 \<Longrightarrow> base58_value 0 vs = 0 \<Longrightarrow> vs = []"
proof (cases vs)
  case (Cons v ws)
  assume "vs = [] \<or> hd vs \<noteq> 0" "base58_value 0 vs = 0"
  then show ?thesis using base58_value_ge [of v ws] Cons by (simp add: base58_value_def)
qed

lemma base58_value_unique:
  assumes "list_all (\<lambda>v. v < 58) vs" "list_all (\<lambda>v. v < 58) ws" "vs = [] \<or> hd vs \<noteq> 0" "ws = [] \<or> hd ws \<noteq> 0"
    and "base58_value 0 vs = base58_value 0 ws"
  shows "vs = ws"
  using assms
proof (induction vs arbitrary: ws rule: rev_induct)
  case Nil
  then show ?case using base58_value_zero [of ws] by (simp add: base58_value_def)
next
  case (snoc v vs)
  have "ws \<noteq> []" using base58_value_zero [of "vs @ [v]"] snoc.prems(3,5) by (auto simp: base58_value_def)
  then obtain w us where ws: "ws = us @ [w]" by (cases ws rule: rev_cases) auto
  have eq: "base58_value 0 vs * 58 + v = base58_value 0 us * 58 + w" and small: "v < 58" "w < 58"
    using snoc.prems ws by (simp_all add: base58_value_snoc)
  have "(base58_value 0 vs * 58 + v) mod 58 = (base58_value 0 us * 58 + w) mod 58"
    "(base58_value 0 vs * 58 + v) div 58 = (base58_value 0 us * 58 + w) div 58" using eq by simp_all
  then have vw: "v = w" "base58_value 0 vs = base58_value 0 us" using small by simp_all
  moreover have "vs = us"
    by (rule snoc.IH) (use snoc.prems ws vw(2) in \<open>auto simp: hd_append split: if_splits\<close>)
  ultimately show ?case by (simp add: ws)
qed

lemma base58_text: "base58Decode s = Inr bs \<Longrightarrow> base58Encode bs = s"
proof -
  assume d: "base58Decode s = Inr bs"
  define k where "k = length (takeWhile ((=) (CHR ''1'')) s)"
  obtain digits where dig: "decode_loop (drop k s) [] = Inr digits" "bs = replicate k 0 @ map of_nat (rev digits)"
    using d by (auto simp: base58Decode_def Let_def k_def split: sum.splits)
  obtain vs where vs: "drop k s = map ((!) B58_ALPHABET) vs" "list_all (\<lambda>v. v < 58) vs"
    using decode_loop_text [OF dig(1)] by blast
  have c: "canonical digits" "le_number digits = base58_value 0 vs"
    using decode_loop_digits [OF vs(2), of "[]"] dig(1) vs(1) by (auto simp: canonical_def)
  have "drop k s = dropWhile ((=) (CHR ''1'')) s" by (simp add: k_def dropWhile_eq_drop)
  then have "drop k s = [] \<or> hd (drop k s) \<noteq> CHR ''1''" using hd_dropWhile [of "(=) (CHR ''1'')" s] by metis
  then have head: "vs = [] \<or> hd vs \<noteq> 0" using vs one_is_zero_digit by (cases vs) auto
  have "map unat (map of_nat (rev digits) :: bytes) = rev digits"
    using c(1) by (auto simp: canonical_def list_all_iff unsigned_of_nat take_bit_nat_eq_self intro!: map_idI)
  then have ds: "map unat bs = replicate k 0 @ rev digits" using dig(2) by simp
  have "rev digits = [] \<or> hd (rev digits) \<noteq> 0" using c(1) by (auto simp: canonical_def hd_rev)
  then have z: "takeWhile ((=) 0) (map unat bs) = replicate k 0" using ones_counted [of "rev digits" 0 k] ds by simp
  obtain ws where ws: "encode_loop (rev digits) [] = map ((!) B58_ALPHABET) ws" "list_all (\<lambda>v. v < 58) ws"
    "base58_value 0 ws = be_value (rev digits)" "rev digits = [] \<longrightarrow> ws = []" "be_value (rev digits) \<noteq> 0 \<longrightarrow> ws \<noteq> [] \<and> hd ws \<noteq> 0"
    using encode_loop_digits [of "rev digits" "[]"] by auto
  have "ws = [] \<or> hd ws \<noteq> 0" using ws(4,5) canonical_zero [OF c(1)] be_value_rev [of digits] by auto
  then have "ws = vs" using base58_value_unique [OF ws(2) vs(2) _ head] ws(3) c(2) by (simp add: be_value_rev)
  moreover have "take k s = replicate k (CHR ''1'')"
  proof -
    have "takeWhile ((=) x) s = replicate (length (takeWhile ((=) x) s)) x" for x by (induction s) auto
    then show ?thesis by (metis k_def takeWhile_eq_take)
  qed
  moreover have "drop k (map unat bs) = rev digits" by (simp add: ds)
  ultimately have "base58Encode bs = take k s @ map ((!) B58_ALPHABET) vs"
    using ws(1) by (simp add: base58Encode_def Let_def z)
  then show ?thesis using vs(1) append_take_drop_id [of k s] by simp
qed

lemma base58check_iff:
  assumes "\<And>x. 4 \<le> length (sha x)"
  shows "base58checkDecode sha text = Inr payload \<longleftrightarrow> payload \<noteq> [] \<and> base58checkEncode sha payload = text"
proof
  have four: "length (check_bytes sha p) = 4" for p using assms by (simp add: check_bytes_def)
  show "base58checkDecode sha text = Inr payload" if "payload \<noteq> [] \<and> base58checkEncode sha payload = text"
    using that four [of payload] by (auto simp: base58checkDecode_def base58checkEncode_def base58_inverse Let_def Suc_le_eq)
  assume "base58checkDecode sha text = Inr payload"
  then obtain decoded where d: "base58Decode text = Inr decoded" "5 \<le> length decoded"
      "payload = take (length decoded - 4) decoded" "drop (length decoded - 4) decoded = check_bytes sha payload"
    by (auto simp: base58checkDecode_def Let_def split: sum.splits if_splits)
  then have "payload @ check_bytes sha payload = decoded" by (metis append_take_drop_id)
  then show "payload \<noteq> [] \<and> base58checkEncode sha payload = text"
    using base58_text [OF d(1)] d(2,3) by (auto simp: base58checkEncode_def)
qed

text \<open>A text and bytes of the same value without leading zeros.\<close>

lemma base58_decodes_value:
  assumes "list_all (\<lambda>v. v < 58) vs" "vs \<noteq> []" "hd vs \<noteq> 0" and "bs \<noteq> []" "hd bs \<noteq> 0"
    and "be_value (map unat bs) = base58_value 0 vs"
  shows "base58Decode (map ((!) B58_ALPHABET) vs) = Inr bs"
proof -
  obtain digits where d: "decode_loop (map ((!) B58_ALPHABET) vs) [] = Inr digits" "canonical digits"
    "le_number digits = base58_value 0 vs"
    using decode_loop_digits [OF assms(1), of "[]"] by (auto simp: canonical_def)
  have "list_all (\<lambda>d. d < 256) (rev (map unat bs))"
    using unsigned_less [where ?'b = 8] by (fastforce simp: list_all_iff)
  moreover have "unat (hd bs) \<noteq> 0" using assms(5) by (simp add: unat_eq_0)
  ultimately have "canonical (rev (map unat bs))" using assms(4) by (simp add: canonical_def last_rev hd_map)
  then have "digits = rev (map unat bs)"
    using canonical_unique [OF d(2)] d(3) assms(6) be_value_rev [of "rev (map unat bs)"] by simp
  moreover have "hd (map ((!) B58_ALPHABET) vs) \<noteq> CHR ''1''"
    using assms(1-3) one_is_zero_digit by (cases vs) auto
  then have "takeWhile ((=) (CHR ''1'')) (map ((!) B58_ALPHABET) vs) = []"
    using assms(2) by (cases vs) auto
  ultimately show ?thesis using d(1) by (simp add: base58Decode_def o_def)
qed

text \<open>
  C15: base58check text and payload determine each other.  \<open>base58checkDecode\<close> accepts exactly the texts
  that \<open>base58checkEncode\<close> writes for a payload that is not empty, leading zeros included, and gives
  that payload back, for a hash of at least four bytes: no other text stands for the same key.
\<close>

theorem base58check_exact:
  assumes "\<And>x. 4 \<le> length (sha x)"
  shows "base58checkDecode sha text = Inr payload \<longleftrightarrow> payload \<noteq> [] \<and> base58checkEncode sha payload = text"
  by (rule base58check_iff [OF assms])

theorem base58check_exact_witness:
  "base58checkDecode (\<lambda>x. take 4 (x @ [1, 2, 3, 4])) (base58checkEncode (\<lambda>x. take 4 (x @ [1, 2, 3, 4])) [0, 0, 5]) = Inr [0, 0, 5]"
  by (subst base58check_exact) simp_all

end
