(* ===== verification/Descriptor.thy ===== *)
theory Descriptor
  imports RunSync
begin

text \<open>
  Output descriptors and extended keys, from \<open>src/stealth/lib/derive.ts\<close>: \<open>detectScriptType\<close>,
  \<open>parseDescriptor\<close> with its helpers, and \<open>resolveLeafDerivation\<close>.  Texts are lists of characters up
  to 255, so of the line terminators that the dot of a regular expression does not match, those
  beyond that range are missing, as they are in \<open>String.trim\<close>.
\<close>

section \<open>Types\<close>

datatype script_type = P2pkh | P2shP2wpkh | P2wpkh | P2tr
datatype wrapper = Wsh | ShWsh | Sh

record parsed_key =
  pk_xpub :: string
  pk_type :: script_type
  pk_path :: string
  pk_origin :: "string option"

text \<open>A multisig descriptor carries the wrapper, the threshold, whether it is sorted, and its keys.\<close>

datatype descriptor = Single parsed_key | Multisig wrapper nat bool "parsed_key list"

datatype descriptor_error =
  EmptyInput | UnsupportedShape | UnsupportedPrefix string | ExpectedWrapper string | ExpectedClosing string
| TooFewParts | InvalidThreshold string | ThresholdAbove int nat | UnclosedOrigin | NoExtendedKey string
| HardenedSuffix | BadChainStep nat | UnsupportedSuffix string

section \<open>Helpers\<close>

definition starts_with :: "string \<Rightarrow> string \<Rightarrow> bool" where
  "starts_with p s \<longleftrightarrow> take (length p) s = p"

definition is_alnum :: "char \<Rightarrow> bool" where
  "is_alnum c \<longleftrightarrow> (let n = of_char c :: nat in 48 \<le> n \<and> n \<le> 57 \<or> 65 \<le> n \<and> n \<le> 90 \<or> 97 \<le> n \<and> n \<le> 122)"

fun key_prefix :: "string \<Rightarrow> bool" where
  "key_prefix (a # b # c # d # s) \<longleftrightarrow> a \<in> set ''xyz'' \<and> [b, c, d] = ''pub''"
| "key_prefix _ \<longleftrightarrow> False"

text \<open>The test for a bare key, \<open>(x|y|z)pub\<close> and at least one letter or digit, nothing else.\<close>

definition bare_key :: "string \<Rightarrow> bool" where
  "bare_key s \<longleftrightarrow> key_prefix s \<and> drop 4 s \<noteq> [] \<and> list_all is_alnum (drop 4 s)"

text \<open>The match of a key at the start of an expression: the key and the rest of the line.\<close>

definition match_key :: "string \<Rightarrow> (string \<times> string) option" where
  "match_key s =
     (let k = takeWhile is_alnum (drop 4 s); rest = dropWhile is_alnum (drop 4 s) in
      if key_prefix s \<and> k \<noteq> [] \<and> CHR 0x0A \<notin> set rest \<and> CHR 0x0D \<notin> set rest
      then Some (take 4 s @ k, rest) else None)"

definition slip132 :: "string \<Rightarrow> script_type option" where
  "slip132 p = (if p = ''xpub'' then Some P2pkh else if p = ''ypub'' then Some P2shP2wpkh
     else if p = ''zpub'' then Some P2wpkh else None)"

definition detectScriptType :: "string \<Rightarrow> descriptor_error + script_type" where
  "detectScriptType extendedKey =
     (case slip132 (take 4 extendedKey) of
        None \<Rightarrow> Inl (UnsupportedPrefix (take 4 extendedKey))
      | Some t \<Rightarrow> Inr t)"

definition safeDetect :: "string \<Rightarrow> script_type" where
  "safeDetect xpub = (case detectScriptType xpub of Inr t \<Rightarrow> t | Inl _ \<Rightarrow> P2pkh)"

definition unwrap :: "string \<Rightarrow> string \<Rightarrow> descriptor_error + string" where
  "unwrap s name =
     (let prefix = name @ ''('' in
      if \<not> starts_with prefix s then Inl (ExpectedWrapper name)
      else if last s \<noteq> CHR '')'' then Inl (ExpectedClosing name)
      else Inr (drop (length prefix) (butlast s)))"

text \<open>\<open>Number.parseInt\<close> to base ten; digits beyond the range of a double give infinity, not an integer.\<close>

definition double_limit :: nat where "double_limit = 2 ^ 1024 - 2 ^ 970"

definition parse_int :: "string \<Rightarrow> int option" where
  "parse_int s =
     (let t = dropWhile is_space s;
          (neg, u) = (case t of c # u \<Rightarrow> if c = CHR ''-'' then (True, u) else if c = CHR ''+'' then (False, u) else (False, t)
                      | [] \<Rightarrow> (False, []));
          ds = takeWhile is_digit u; n = digits_value ds
      in if ds = [] \<or> double_limit \<le> n then None else Some (if neg then - int n else int n))"

text \<open>\<open>splitTopLevelCommas\<close>; \<open>cur\<close> is what was read since the last cut.\<close>

fun split_loop :: "int \<Rightarrow> int \<Rightarrow> string \<Rightarrow> string \<Rightarrow> string list" where
  "split_loop depth bracketDepth cur [] = [trim_text cur]"
| "split_loop depth bracketDepth cur (c # cs) =
     (if c = CHR ''('' then split_loop (depth + 1) bracketDepth (cur @ [c]) cs
      else if c = CHR '')'' then split_loop (depth - 1) bracketDepth (cur @ [c]) cs
      else if c = CHR ''<'' then split_loop depth (bracketDepth + 1) (cur @ [c]) cs
      else if c = CHR ''>'' then split_loop depth (bracketDepth - 1) (cur @ [c]) cs
      else if c = CHR '','' \<and> depth = 0 \<and> bracketDepth = 0 then trim_text cur # split_loop depth bracketDepth [] cs
      else split_loop depth bracketDepth (cur @ [c]) cs)"

definition splitTopLevelCommas :: "string \<Rightarrow> string list" where
  "splitTopLevelCommas s = split_loop 0 0 [] s"

section \<open>Parsing\<close>

definition split_origin :: "string \<Rightarrow> descriptor_error + string option \<times> string" where
  "split_origin s =
     (if \<not> starts_with ''['' s then Inr (None, s)
      else if CHR '']'' \<notin> set s then Inl UnclosedOrigin
      else Inr (Some (tl (takeWhile ((\<noteq>) (CHR '']'')) s)), tl (dropWhile ((\<noteq>) (CHR '']'')) s)))"

definition parseKeyExpr :: "string \<Rightarrow> descriptor_error + parsed_key" where
  "parseKeyExpr expr =
     (case split_origin (trim_text expr) of
        Inl e \<Rightarrow> Inl e
      | Inr (origin, s) \<Rightarrow>
          (case match_key s of
             None \<Rightarrow> Inl (NoExtendedKey expr)
           | Some (xpub, rest) \<Rightarrow>
               if CHR 0x27 \<in> set rest \<or> CHR ''h'' \<in> set rest then Inl HardenedSuffix
               else Inr \<lparr>pk_xpub = xpub, pk_type = safeDetect xpub, pk_path = rest, pk_origin = origin\<rparr>))"

fun parse_keys :: "string list \<Rightarrow> descriptor_error + parsed_key list" where
  "parse_keys [] = Inr []"
| "parse_keys (p # ps) =
     (case parseKeyExpr p of
        Inl e \<Rightarrow> Inl e
      | Inr k \<Rightarrow> (case parse_keys ps of Inl e \<Rightarrow> Inl e | Inr ks \<Rightarrow> Inr (k\<lparr>pk_type := safeDetect (pk_xpub k)\<rparr> # ks)))"

definition parseMultiExpr :: "wrapper \<Rightarrow> string \<Rightarrow> descriptor_error + descriptor" where
  "parseMultiExpr w body =
     (let sorted = starts_with ''sortedmulti('' body in
      case unwrap body (if sorted then ''sortedmulti'' else ''multi'') of
        Inl e \<Rightarrow> Inl e
      | Inr inner \<Rightarrow>
          (let parts = splitTopLevelCommas inner; keyParts = tl parts in
           if length parts < 2 then Inl TooFewParts
           else case parse_int (hd parts) of
                  None \<Rightarrow> Inl (InvalidThreshold (hd parts))
                | Some m \<Rightarrow>
                    if m < 1 then Inl (InvalidThreshold (hd parts))
                    else if int (length keyParts) < m then Inl (ThresholdAbove m (length keyParts))
                    else (case parse_keys keyParts of
                            Inl e \<Rightarrow> Inl e
                          | Inr ks \<Rightarrow> Inr (Multisig w (nat m) sorted ks))))"

definition single :: "script_type \<Rightarrow> descriptor_error + string \<Rightarrow> descriptor_error + descriptor" where
  "single t inner =
     (case inner of
        Inl e \<Rightarrow> Inl e
      | Inr s \<Rightarrow> (case parseKeyExpr s of Inl e \<Rightarrow> Inl e | Inr k \<Rightarrow> Inr (Single (k\<lparr>pk_type := t\<rparr>))))"

definition unwrap2 :: "string \<Rightarrow> string \<Rightarrow> string \<Rightarrow> descriptor_error + string" where
  "unwrap2 s outer_name name = (case unwrap s outer_name of Inl e \<Rightarrow> Inl e | Inr inner \<Rightarrow> unwrap inner name)"

definition multi :: "wrapper \<Rightarrow> descriptor_error + string \<Rightarrow> descriptor_error + descriptor" where
  "multi w inner = (case inner of Inl e \<Rightarrow> Inl e | Inr s \<Rightarrow> parseMultiExpr w s)"

definition is_multi :: "string \<Rightarrow> string \<Rightarrow> bool" where
  "is_multi p s \<longleftrightarrow> starts_with (p @ ''sortedmulti('') s \<or> starts_with (p @ ''multi('') s"

definition parse_body :: "string \<Rightarrow> descriptor_error + descriptor" where
  "parse_body s =
     (if bare_key s then
        (case detectScriptType s of
           Inl e \<Rightarrow> Inl e
         | Inr t \<Rightarrow> Inr (Single \<lparr>pk_xpub = s, pk_type = t, pk_path = [], pk_origin = None\<rparr>))
      else if starts_with ''pkh('' s then single P2pkh (unwrap s ''pkh'')
      else if starts_with ''wpkh('' s then single P2wpkh (unwrap s ''wpkh'')
      else if starts_with ''tr('' s then single P2tr (unwrap s ''tr'')
      else if starts_with ''sh(wpkh('' s then single P2shP2wpkh (unwrap2 s ''sh'' ''wpkh'')
      else if is_multi ''sh(wsh('' s then multi ShWsh (unwrap2 s ''sh'' ''wsh'')
      else if is_multi ''wsh('' s then multi Wsh (unwrap s ''wsh'')
      else if is_multi ''sh('' s then multi Sh (unwrap s ''sh'')
      else Inl UnsupportedShape)"

definition parseDescriptor :: "string \<Rightarrow> descriptor_error + descriptor" where
  "parseDescriptor input =
     (let s = trim_text input in
      if s = [] then Inl EmptyInput
      else parse_body (if CHR ''#'' \<in> set s then trim_text (takeWhile ((\<noteq>) (CHR ''#'')) s) else s))"

section \<open>The leaf a suffix selects\<close>

definition digits :: "string \<Rightarrow> bool" where
  "digits s \<longleftrightarrow> s \<noteq> [] \<and> list_all is_digit s"

definition chain_step :: "string \<Rightarrow> descriptor_error + nat" where
  "chain_step ds = (let n = digits_value ds in if n \<noteq> 0 \<and> n \<noteq> 1 then Inl (BadChainStep n) else Inr n)"

text \<open>The two forms \<open>/<a;b>/*\<close> and \<open>/a/*\<close>.\<close>

definition match_multipath :: "string \<Rightarrow> (string \<times> string) option" where
  "match_multipath s =
     (let a = takeWhile is_digit (drop 2 s); t = dropWhile is_digit (drop 2 s);
          b = takeWhile is_digit (drop 1 t); u = dropWhile is_digit (drop 1 t) in
      if starts_with ''/<'' s \<and> digits a \<and> starts_with '';'' t \<and> digits b \<and> u = ''>/*'' then Some (a, b) else None)"

definition match_chain :: "string \<Rightarrow> string option" where
  "match_chain s =
     (let a = takeWhile is_digit (drop 1 s) in
      if starts_with ''/'' s \<and> digits a \<and> dropWhile is_digit (drop 1 s) = ''/*'' then Some a else None)"

definition resolveLeafDerivation :: "string \<Rightarrow> nat \<Rightarrow> descriptor_error + nat" where
  "resolveLeafDerivation suffix chain =
     (let s = trim_text suffix in
      if s = [] \<or> s = ''/*'' then Inr chain
      else case match_multipath s of
             Some (a, b) \<Rightarrow> chain_step (if chain = 0 then a else b)
           | None \<Rightarrow> (case match_chain s of Some c \<Rightarrow> chain_step c | None \<Rightarrow> Inl (UnsupportedSuffix s)))"

section \<open>What a parsed descriptor is\<close>

definition watch_only_key :: "parsed_key \<Rightarrow> bool" where
  "watch_only_key k \<longleftrightarrow> bare_key (pk_xpub k) \<and> CHR 0x27 \<notin> set (pk_path k) \<and> CHR ''h'' \<notin> set (pk_path k)"

fun wf_descriptor :: "descriptor \<Rightarrow> bool" where
  "wf_descriptor (Single k) = watch_only_key k"
| "wf_descriptor (Multisig w m srt ks) =
     (1 \<le> m \<and> m \<le> length ks \<and> list_all (\<lambda>k. watch_only_key k \<and> pk_type k = safeDetect (pk_xpub k)) ks)"

lemma key_prefix_iff: "key_prefix s \<longleftrightarrow> (\<exists>a \<in> set ''xyz''. \<exists>t. s = a # ''pub'' @ t)"
  by (cases s rule: key_prefix.cases) auto

lemma match_key_bare: "match_key s = Some (k, rest) \<Longrightarrow> bare_key k"
proof -
  assume m: "match_key s = Some (k, rest)"
  then have "key_prefix s" by (simp add: match_key_def Let_def split: if_splits)
  then obtain a t where s: "a \<in> set ''xyz''" "s = a # ''pub'' @ t" unfolding key_prefix_iff by blast
  then have "k = a # ''pub'' @ takeWhile is_alnum t" "takeWhile is_alnum t \<noteq> []"
    using m by (auto simp: match_key_def Let_def numeral_eq_Suc split: if_splits)
  then show ?thesis
    using s(1) by (auto simp: bare_key_def list_all_iff numeral_eq_Suc dest: set_takeWhileD)
qed

lemma parseKeyExpr_key:
  assumes "parseKeyExpr e = Inr k"
  shows "watch_only_key k"
proof -
  obtain og s xpub rest where "match_key s = Some (xpub, rest)" "CHR 0x27 \<notin> set rest" "CHR ''h'' \<notin> set rest"
    "k = \<lparr>pk_xpub = xpub, pk_type = safeDetect xpub, pk_path = rest, pk_origin = og\<rparr>"
    using assms by (auto simp: parseKeyExpr_def split: sum.splits option.splits if_splits)
  then show ?thesis using match_key_bare by (simp add: watch_only_key_def)
qed

lemma watch_only_type [simp]: "watch_only_key (k\<lparr>pk_type := t\<rparr>) = watch_only_key k"
  by (simp add: watch_only_key_def)

lemma parse_keys_all:
  "parse_keys ps = Inr ks \<Longrightarrow> length ks = length ps \<and> list_all (\<lambda>k. watch_only_key k \<and> pk_type k = safeDetect (pk_xpub k)) ks"
  by (induction ps arbitrary: ks) (auto dest!: parseKeyExpr_key split: sum.splits)

lemma single_wf: "single t r = Inr d \<Longrightarrow> wf_descriptor d"
  by (auto simp: single_def dest!: parseKeyExpr_key split: sum.splits)

lemma multi_wf: "multi w r = Inr d \<Longrightarrow> wf_descriptor d"
  by (fastforce simp: multi_def parseMultiExpr_def Let_def dest!: parse_keys_all split: sum.splits option.splits if_splits)

lemma parse_body_wf: "parse_body s = Inr d \<Longrightarrow> wf_descriptor d"
  by (auto simp: parse_body_def watch_only_key_def dest: single_wf multi_wf split: sum.splits if_splits)

section \<open>Writing a descriptor\<close>

definition key_text :: "parsed_key \<Rightarrow> string" where
  "key_text k = (case pk_origin k of None \<Rightarrow> [] | Some og \<Rightarrow> ''['' @ og @ '']'') @ pk_xpub k @ pk_path k"

definition multi_text :: "nat \<Rightarrow> bool \<Rightarrow> parsed_key list \<Rightarrow> string" where
  "multi_text m srt ks = (if srt then ''sortedmulti('' else ''multi('') @ nat_text m @
     concat (map (\<lambda>k. '','' @ key_text k) ks) @ '')''"

fun descriptor_text :: "descriptor \<Rightarrow> string" where
  "descriptor_text (Single k) = (case pk_type k of
       P2pkh \<Rightarrow> ''pkh('' @ key_text k @ '')''
     | P2wpkh \<Rightarrow> ''wpkh('' @ key_text k @ '')''
     | P2tr \<Rightarrow> ''tr('' @ key_text k @ '')''
     | P2shP2wpkh \<Rightarrow> ''sh(wpkh('' @ key_text k @ ''))'')"
| "descriptor_text (Multisig w m srt ks) = (case w of
       Wsh \<Rightarrow> ''wsh('' @ multi_text m srt ks @ '')''
     | ShWsh \<Rightarrow> ''sh(wsh('' @ multi_text m srt ks @ ''))''
     | Sh \<Rightarrow> ''sh('' @ multi_text m srt ks @ '')'')"

text \<open>The suffixes that can be derived, and origins without the characters that structure a descriptor.\<close>

definition known_suffix :: "string \<Rightarrow> bool" where
  "known_suffix p \<longleftrightarrow> p = [] \<or> p = ''/*'' \<or> (\<exists>a. digits a \<and> p = ''/'' @ a @ ''/*'') \<or>
     (\<exists>a b. digits a \<and> digits b \<and> p = ''/<'' @ a @ '';'' @ b @ ''>/*'')"

definition plain_origin :: "string \<Rightarrow> bool" where
  "plain_origin og \<longleftrightarrow> list_all (\<lambda>c. c \<notin> set '']#(),<>'') og"

definition writable_key :: "parsed_key \<Rightarrow> bool" where
  "writable_key k \<longleftrightarrow> bare_key (pk_xpub k) \<and> known_suffix (pk_path k) \<and>
     (case pk_origin k of None \<Rightarrow> True | Some og \<Rightarrow> plain_origin og)"

fun writable :: "descriptor \<Rightarrow> bool" where
  "writable (Single k) = writable_key k"
| "writable (Multisig w m srt ks) =
     (1 \<le> m \<and> m \<le> length ks \<and> length ks < 2 ^ 53 \<and> list_all (\<lambda>k. writable_key k \<and> pk_type k = safeDetect (pk_xpub k)) ks)"

section \<open>Parsing inverts writing\<close>

lemma starts_with_append [simp]: "starts_with p (p @ s)"
  by (simp add: starts_with_def)

lemma trim_text_plain: "s = [] \<or> \<not> is_space (hd s) \<and> \<not> is_space (last s) \<Longrightarrow> trim_text s = s"
proof -
  assume a: "s = [] \<or> \<not> is_space (hd s) \<and> \<not> is_space (last s)"
  then have "dropWhile is_space s = s" "dropWhile is_space (rev s) = rev s"
    by (auto simp: dropWhile_eq_self_iff hd_rev)
  then show ?thesis by (simp add: trim_text_def)
qed

definition suffix_alphabet :: "char set" where
  "suffix_alphabet = set ''/*0123456789<>;''"

lemma digits_chars: "digits ds \<Longrightarrow> set ds \<subseteq> suffix_alphabet"
proof -
  assume "digits ds"
  then have "set ds \<subseteq> set ''0123456789''" unfolding digits_def list_all_iff is_digit_def by blast
  also have "\<dots> \<subseteq> suffix_alphabet" by (simp add: suffix_alphabet_def)
  finally show ?thesis .
qed

lemma suffix_alphabet_marks [simp]: "CHR ''/'' \<in> suffix_alphabet" "CHR ''*'' \<in> suffix_alphabet" "CHR ''<'' \<in> suffix_alphabet"
    "CHR ''>'' \<in> suffix_alphabet" "CHR '';'' \<in> suffix_alphabet"
  by (simp_all add: suffix_alphabet_def)

lemma suffix_chars: "known_suffix p \<Longrightarrow> set p \<subseteq> suffix_alphabet"
  unfolding known_suffix_def by (elim disjE exE conjE) (simp_all add: digits_chars)

lemma suffix_ends: "known_suffix p \<Longrightarrow> p \<noteq> [] \<Longrightarrow> hd p = CHR ''/'' \<and> last p = CHR ''*''"
  by (auto simp: known_suffix_def)

lemma bare_key_cases:
  assumes "bare_key k"
  obtains a t where "k = a # ''pub'' @ t" "a \<in> set ''xyz''" "t \<noteq> []" "list_all is_alnum t"
proof -
  obtain a t where "k = a # ''pub'' @ t" "a \<in> set ''xyz''"
    using assms unfolding bare_key_def key_prefix_iff by blast
  then show thesis using that assms by (auto simp: bare_key_def numeral_eq_Suc)
qed

lemma bare_key_alnum: "bare_key k \<Longrightarrow> c \<in> set k \<Longrightarrow> is_alnum c"
  by (erule bare_key_cases) (auto simp: list_all_iff is_alnum_def)

lemma match_key_text:
  assumes "bare_key k" and "known_suffix p"
  shows "match_key (k @ p) = Some (k, p)"
proof -
  obtain a t where k: "k = a # ''pub'' @ t" "a \<in> set ''xyz''" "t \<noteq> []" "list_all is_alnum t"
    by (rule bare_key_cases [OF assms(1)])
  have stop: "p = [] \<or> \<not> is_alnum (hd p)" using suffix_ends [OF assms(2)] by (auto simp: is_alnum_def)
  have "takeWhile is_alnum (t @ p) = t" "dropWhile is_alnum (t @ p) = p"
    using k(4) stop by (auto simp: list_all_iff takeWhile_append2 dropWhile_append2 takeWhile_eq_Nil_iff dropWhile_eq_self_iff)
  moreover have "CHR 0x0A \<notin> set p \<and> CHR 0x0D \<notin> set p" using suffix_chars [OF assms(2)] by (auto simp: suffix_alphabet_def)
  ultimately show ?thesis using k(1-3) by (auto simp: match_key_def Let_def numeral_eq_Suc)
qed

lemma alnum_plain: "is_alnum c \<Longrightarrow> \<not> is_space c \<and> c \<notin> set ''[]#(),<>''"
  by (auto simp: is_alnum_def is_space_def Let_def)

lemma bare_key_ends: "bare_key k \<Longrightarrow> k \<noteq> [] \<and> is_alnum (hd k) \<and> is_alnum (last k)"
  using bare_key_alnum by (metis bare_key_def hd_in_set key_prefix.simps(2) last_in_set)

lemma key_text_ends:
  assumes "writable_key k"
  shows "key_text k \<noteq> [] \<and> \<not> is_space (hd (key_text k)) \<and> \<not> is_space (last (key_text k))"
proof -
  note k = assms [unfolded writable_key_def]
  have x: "pk_xpub k \<noteq> []" "is_alnum (hd (pk_xpub k))" "is_alnum (last (pk_xpub k))" using bare_key_ends k by auto
  have "last (pk_xpub k @ pk_path k) \<in> {last (pk_xpub k), CHR ''*''}"
    using suffix_ends [of "pk_path k"] k by (cases "pk_path k = []") auto
  then have "\<not> is_space (last (pk_xpub k @ pk_path k))" using x(3) alnum_plain by (auto simp: is_space_def)
  then show ?thesis
    using x alnum_plain by (auto simp: key_text_def is_space_def split: option.split)
qed

lemma parseKeyExpr_text:
  assumes "writable_key k"
  shows "parseKeyExpr (key_text k) = Inr (k\<lparr>pk_type := safeDetect (pk_xpub k)\<rparr>)"
proof -
  note k = assms [unfolded writable_key_def]
  have trim: "trim_text (key_text k) = key_text k" using trim_text_plain key_text_ends [OF assms] by blast
  have "split_origin (key_text k) = Inr (pk_origin k, pk_xpub k @ pk_path k)"
  proof (cases "pk_origin k")
    case None
    have "is_alnum (hd (pk_xpub k))" "pk_xpub k \<noteq> []" using bare_key_ends k by auto
    then have "hd (pk_xpub k) \<noteq> CHR ''[''" by (auto simp: is_alnum_def)
    then show ?thesis using None \<open>pk_xpub k \<noteq> []\<close>
      by (cases "pk_xpub k") (auto simp: key_text_def split_origin_def starts_with_def)
  next
    case (Some og)
    then have "\<forall>c \<in> set og. c \<noteq> CHR '']''" using k by (auto simp: plain_origin_def list_all_iff)
    then have "takeWhile ((\<noteq>) (CHR '']'')) (og @ CHR '']'' # r) = og" "dropWhile ((\<noteq>) (CHR '']'')) (og @ CHR '']'' # r) = CHR '']'' # r" for r
      by (induction og) auto
    then show ?thesis using Some by (simp add: key_text_def split_origin_def starts_with_def)
  qed
  moreover have "CHR 0x27 \<notin> set (pk_path k)" "CHR ''h'' \<notin> set (pk_path k)"
    using suffix_chars [of "pk_path k"] k by (auto simp: suffix_alphabet_def)
  ultimately show ?thesis
    using match_key_text k by (simp add: parseKeyExpr_def trim)
qed

lemma split_plain:
  "list_all (\<lambda>c. c \<notin> set ''(),<>'') t \<Longrightarrow> split_loop d b cur (t @ r) = split_loop d b (cur @ t) r"
  by (induction t arbitrary: cur) auto

lemma split_brackets:
  "list_all (\<lambda>c. c \<notin> set ''(),<>'') t \<Longrightarrow> split_loop d b cur (''<'' @ t @ ''>'' @ r) = split_loop d b (cur @ ''<'' @ t @ ''>'') r"
  by (simp add: split_plain)

lemma digits_no_marks: "digits ds \<Longrightarrow> list_all (\<lambda>c. c \<notin> set ''(),<>'') ds"
proof -
  have "\<not> is_digit c" if "c \<in> set ''(),<>''" for c using that by (auto simp: is_digit_def)
  then show "digits ds \<Longrightarrow> list_all (\<lambda>c. c \<notin> set ''(),<>'') ds" by (auto simp only: digits_def list_all_iff)
qed

lemma split_suffix: "known_suffix p \<Longrightarrow> split_loop d b cur (p @ r) = split_loop d b (cur @ p) r"
  unfolding known_suffix_def
proof (elim disjE exE conjE)
  fix x assume "digits x" "p = ''/'' @ x @ ''/*''"
  then show ?thesis using split_plain [of p] digits_no_marks by simp
next
  fix x y assume xy: "digits x" "digits y" "p = ''/<'' @ x @ '';'' @ y @ ''>/*''"
  then have "list_all (\<lambda>c. c \<notin> set ''(),<>'') (x @ '';'' @ y)" using digits_no_marks by simp
  then show ?thesis using split_brackets [of "x @ '';'' @ y" d b "cur @ ''/''" "''/*'' @ r"] xy(3) by simp
qed simp_all

lemma split_key:
  assumes "writable_key k"
  shows "split_loop d b cur (key_text k @ r) = split_loop d b (cur @ key_text k) r"
proof -
  note k = assms [unfolded writable_key_def]
  have "list_all (\<lambda>c. c \<notin> set ''(),<>'') (pk_xpub k)"
    using bare_key_alnum k alnum_plain by (fastforce simp: list_all_iff)
  moreover have "list_all (\<lambda>c. c \<notin> set ''(),<>'') (''['' @ og @ '']'')" if "pk_origin k = Some og" for og
    using k that by (auto simp: plain_origin_def list_all_iff)
  ultimately have "list_all (\<lambda>c. c \<notin> set ''(),<>'') ((case pk_origin k of None \<Rightarrow> [] | Some og \<Rightarrow> ''['' @ og @ '']'') @ pk_xpub k)"
    by (auto split: option.split)
  from split_plain [OF this] show ?thesis using split_suffix k by (simp add: key_text_def)
qed

lemma split_keys:
  "list_all writable_key ks \<Longrightarrow>
     split_loop 0 0 cur (concat (map (\<lambda>k. '','' @ key_text k) ks)) = trim_text cur # map key_text ks"
proof (induction ks arbitrary: cur)
  case (Cons k ks)
  have "trim_text (key_text k) = key_text k" using Cons.prems trim_text_plain key_text_ends by simp
  then show ?case using Cons split_key [of k 0 0 "[]"] by simp
qed simp

lemma parse_keys_text:
  "list_all (\<lambda>k. writable_key k \<and> pk_type k = safeDetect (pk_xpub k)) ks \<Longrightarrow> parse_keys (map key_text ks) = Inr ks"
  by (induction ks) (simp_all add: parseKeyExpr_text)

lemma nat_text_ends: "nat_text n \<noteq> [] \<and> list_all is_digit (nat_text n)"
  using nat_text_digits by (subst nat_text.simps) simp

lemma digit_not_space: "is_digit c \<Longrightarrow> \<not> is_space c \<and> c \<noteq> CHR ''-'' \<and> c \<noteq> CHR ''+''"
  by (auto simp: is_digit_def is_space_def)

lemma parse_int_nat:
  assumes "n < 2 ^ 53"
  shows "parse_int (nat_text n) = Some (int n)"
proof -
  obtain c t where t: "nat_text n = c # t" using nat_text_ends by (meson neq_Nil_conv)
  have d: "\<forall>x \<in> set (c # t). is_digit x" using nat_text_ends [of n] by (simp add: t list_all_iff)
  then have all: "takeWhile is_digit t = t" by (simp add: takeWhile_eq_all_conv)
  have "digits_value (c # t) = n" using digits_value_nat_text [of n] t by simp
  moreover have "(2 :: nat) ^ 53 \<le> double_limit" by (simp add: double_limit_def)
  then have "\<not> double_limit \<le> n" using assms by linarith
  ultimately show ?thesis using d digit_not_space by (simp add: parse_int_def t Let_def all)
qed

lemma unwrap_text: "unwrap (name @ ''('' @ body @ '')'') name = Inr body"
proof -
  have "starts_with (name @ ''('') (name @ ''('' @ body @ '')'')" by (simp add: starts_with_def)
  then show ?thesis by (simp add: unwrap_def Let_def butlast_append)
qed

lemma parseMultiExpr_text:
  assumes "writable (Multisig w m srt ks)"
  shows "parseMultiExpr w (multi_text m srt ks) = Inr (Multisig w m srt ks)"
proof -
  let ?inner = "nat_text m @ concat (map (\<lambda>k. '','' @ key_text k) ks)"
  have w: "list_all writable_key ks" "1 \<le> m" "m \<le> length ks" "m < 2 ^ 53"
    using assms by (auto simp: list_all_iff)
  have num: "list_all (\<lambda>c. c \<notin> set ''(),<>'') (nat_text m)" using digits_no_marks nat_text_ends by (simp add: digits_def)
  have trim: "trim_text (nat_text m) = nat_text m"
    using trim_text_plain nat_text_ends [of m] digit_not_space by (metis hd_in_set last_in_set list_all_iff)
  have parts: "splitTopLevelCommas ?inner = nat_text m # map key_text ks"
    using split_plain [OF num, of 0 0 "[]"] split_keys [OF w(1)] trim by (simp add: splitTopLevelCommas_def)
  have srt: "starts_with ''sortedmulti('' (multi_text m srt ks) = srt"
    by (simp add: multi_text_def starts_with_def numeral_eq_Suc)
  have "unwrap (multi_text m srt ks) (if srt then ''sortedmulti'' else ''multi'') = Inr ?inner"
    using unwrap_text [of "if srt then ''sortedmulti'' else ''multi''" ?inner] by (cases srt) (simp_all add: multi_text_def)
  moreover have "ks \<noteq> []" using w(2,3) by auto
  ultimately show ?thesis
    using w assms parse_int_nat [OF w(4)] parse_keys_text by (simp add: parseMultiExpr_def srt parts [simplified] Let_def)
qed

lemma single_text: "writable_key k \<Longrightarrow> single t (Inr (key_text k)) = Inr (Single (k\<lparr>pk_type := t\<rparr>))"
  by (simp add: single_def parseKeyExpr_text)

lemma not_bare: "CHR ''('' \<in> set s \<Longrightarrow> \<not> bare_key s"
  using bare_key_alnum by (fastforce simp: is_alnum_def)

lemma parse_single_text: "writable_key k \<Longrightarrow> parse_body (descriptor_text (Single k)) = Inr (Single k)"
proof (cases "pk_type k")
  case P2shP2wpkh
  assume "writable_key k"
  moreover have "unwrap ''sh(wpkh('' x = unwrap ''sh(wpkh('' x" for x by simp
  moreover have "unwrap2 (''sh(wpkh('' @ key_text k @ ''))'') ''sh'' ''wpkh'' = Inr (key_text k)"
    using unwrap_text [of "''sh''" "''wpkh('' @ key_text k @ '')''"] unwrap_text [of "''wpkh''" "key_text k"] by (simp add: unwrap2_def)
  ultimately show ?thesis
    using P2shP2wpkh single_text [of k P2shP2wpkh] not_bare [of "descriptor_text (Single k)"]
    by (simp add: parse_body_def starts_with_def numeral_eq_Suc)
qed (use single_text [of k "pk_type k"] not_bare [of "descriptor_text (Single k)"]
    unwrap_text [of "''pkh''" "key_text k"] unwrap_text [of "''wpkh''" "key_text k"] unwrap_text [of "''tr''" "key_text k"] in
  \<open>simp_all add: parse_body_def starts_with_def numeral_eq_Suc\<close>)

lemma is_multi_text: "is_multi p (p @ multi_text m srt ks @ r)"
  by (auto simp: is_multi_def starts_with_def multi_text_def)

lemma parse_multisig_text:
  assumes "writable (Multisig w m srt ks)"
  shows "parse_body (descriptor_text (Multisig w m srt ks)) = Inr (Multisig w m srt ks)"
proof -
  let ?t = "multi_text m srt ks"
  note p = parseMultiExpr_text [OF assms]
  have nb: "\<not> bare_key (descriptor_text (Multisig w m srt ks))" by (rule not_bare) (simp split: wrapper.split)
  show ?thesis
  proof (cases w)
    case Wsh
    have "\<not> starts_with ''wpkh('' (''wsh('' @ ?t @ '')'')" by (simp add: starts_with_def numeral_eq_Suc)
    then show ?thesis
      using p nb Wsh unwrap_text [of "''wsh''" ?t] is_multi_text [of "''wsh(''" m srt ks "'')''"]
      by (simp add: parse_body_def multi_def) (simp add: starts_with_def is_multi_def numeral_eq_Suc)
  next
    case ShWsh
    have "unwrap2 (''sh(wsh('' @ ?t @ ''))'') ''sh'' ''wsh'' = Inr ?t"
      using unwrap_text [of "''sh''" "''wsh('' @ ?t @ '')''"] unwrap_text [of "''wsh''" ?t] by (simp add: unwrap2_def)
    then show ?thesis
      using p nb ShWsh is_multi_text [of "''sh(wsh(''" m srt ks "''))''"]
      by (simp add: parse_body_def multi_def) (simp add: starts_with_def is_multi_def numeral_eq_Suc)
  next
    case Sh
    have "\<not> is_multi ''sh(wsh('' (''sh('' @ ?t @ '')'')" "\<not> is_multi ''wsh('' (''sh('' @ ?t @ '')'')"
      "\<not> starts_with ''sh(wpkh('' (''sh('' @ ?t @ '')'')"
      by (simp_all add: is_multi_def starts_with_def multi_text_def numeral_eq_Suc)
    then show ?thesis
      using p nb Sh unwrap_text [of "''sh''" ?t] is_multi_text [of "''sh(''" m srt ks "'')''"]
      by (simp add: parse_body_def multi_def) (simp add: starts_with_def numeral_eq_Suc)
  qed
qed

lemma key_text_no_hash: "writable_key k \<Longrightarrow> CHR ''#'' \<notin> set (key_text k)"
proof -
  assume "writable_key k"
  then have k: "bare_key (pk_xpub k)" "known_suffix (pk_path k)" "\<forall>og. pk_origin k = Some og \<longrightarrow> plain_origin og"
    by (auto simp: writable_key_def split: option.splits)
  have "CHR ''#'' \<notin> set (pk_xpub k)" using bare_key_alnum [OF k(1)] alnum_plain by fastforce
  moreover have "CHR ''#'' \<notin> set (pk_path k)" using suffix_chars [OF k(2)] by (auto simp: suffix_alphabet_def)
  moreover have "CHR ''#'' \<notin> set og" if "pk_origin k = Some og" for og using k(3) that by (auto simp: plain_origin_def list_all_iff)
  ultimately show ?thesis by (auto simp: key_text_def split: option.split)
qed

lemma descriptor_text_ends:
  "descriptor_text d \<noteq> [] \<and> hd (descriptor_text d) \<in> set ''pwts'' \<and> last (descriptor_text d) = CHR '')''"
  by (cases d) (auto simp: multi_text_def split: script_type.split wrapper.split)

lemma descriptor_text_no_hash: "writable d \<Longrightarrow> CHR ''#'' \<notin> set (descriptor_text d)"
proof (cases d)
  case (Single k)
  then show "writable d \<Longrightarrow> ?thesis" using key_text_no_hash [of k] by (simp split: script_type.split)
next
  case (Multisig w m srt ks)
  have "\<not> is_digit (CHR ''#'')" by (simp add: is_digit_def)
  then have "CHR ''#'' \<notin> set (nat_text m)" using nat_text_ends [of m] by (auto simp: list_all_iff)
  then show "writable d \<Longrightarrow> ?thesis"
    using key_text_no_hash Multisig by (auto simp: multi_text_def list_all_iff split: wrapper.split)
qed

lemma parse_body_text: "writable d \<Longrightarrow> parse_body (descriptor_text d) = Inr d"
proof (cases d)
  case (Single k)
  then show "writable d \<Longrightarrow> ?thesis" using parse_single_text [of k] by simp
next
  case (Multisig w m srt ks)
  then show "writable d \<Longrightarrow> ?thesis" using parse_multisig_text [of w m srt ks] by (simp del: descriptor_text.simps)
qed

lemma trim_until_hash:
  assumes "t \<noteq> []" and "\<not> is_space (hd t)" and "CHR ''#'' \<notin> set t"
  shows "\<exists>r. trim_text (t @ CHR ''#'' # cs) = t @ CHR ''#'' # r"
proof -
  have "\<not> is_space (CHR ''#'')" by (simp add: is_space_def)
  then have "dropWhile is_space (rev cs @ CHR ''#'' # rev t) = dropWhile is_space (rev cs) @ CHR ''#'' # rev t"
    by (induction "rev cs" arbitrary: cs) (auto simp: dropWhile_append)
  moreover have "dropWhile is_space (t @ CHR ''#'' # cs) = t @ CHR ''#'' # cs" using assms by (cases t) auto
  ultimately show ?thesis by (simp add: trim_text_def)
qed

lemma descriptor_parses:
  assumes "writable d" and "tail = [] \<or> hd tail = CHR ''#''"
  shows "parseDescriptor (descriptor_text d @ tail) = Inr d"
proof -
  let ?t = "descriptor_text d"
  have "\<not> is_space c" if "c \<in> set ''pwts)''" for c using that by (auto simp: is_space_def)
  then have e: "?t \<noteq> []" "\<not> is_space (hd ?t)" "\<not> is_space (last ?t)" using descriptor_text_ends [of d] by auto
  note h = descriptor_text_no_hash [OF assms(1)] and p = parse_body_text [OF assms(1)]
  have trim: "trim_text ?t = ?t" using trim_text_plain e by blast
  show ?thesis
  proof (cases tail)
    case Nil
    then show ?thesis using e(1) h p trim by (simp add: parseDescriptor_def)
  next
    case (Cons c cs)
    obtain r where r: "trim_text (?t @ tail) = ?t @ CHR ''#'' # r"
      using trim_until_hash [OF e(1,2) h] Cons assms(2) by auto
    have "takeWhile ((\<noteq>) (CHR ''#'')) (?t @ CHR ''#'' # r) = ?t" using h by (subst takeWhile_append2) auto
    then show ?thesis using p trim by (simp add: parseDescriptor_def r Let_def del: descriptor_text.simps)
  qed
qed

definition sample_xpub :: string where "sample_xpub = ''xpub6CUGRUo''"

definition sample_multisig :: descriptor where
  "sample_multisig = Multisig Wsh 2 True
     [\<lparr>pk_xpub = sample_xpub, pk_type = P2pkh, pk_path = ''/<0;1>/*'', pk_origin = Some ''d34db33f/48h/0h''\<rparr>,
      \<lparr>pk_xpub = ''zpubAbc9'', pk_type = P2wpkh, pk_path = [], pk_origin = None\<rparr>]"

definition sample_descriptor :: string where
  "sample_descriptor = ''wsh(sortedmulti(2,[d34db33f/48h/0h]xpub6CUGRUo/<0;1>/*,zpubAbc9))''"

lemma sample_writable: "writable sample_multisig"
proof -
  have suffix: "known_suffix ''/<0;1>/*''"
    unfolding known_suffix_def
    by (intro disjI2 exI [of _ "''0''"] exI [of _ "''1''"]) (simp add: digits_def is_digit_def)
  have "bare_key ''xpub6CUGRUo'' \<and> bare_key ''zpubAbc9''" by code_simp
  moreover have "plain_origin ''d34db33f/48h/0h''" by code_simp
  moreover have "known_suffix []" by (simp add: known_suffix_def)
  moreover have "safeDetect ''xpub6CUGRUo'' = P2pkh \<and> safeDetect ''zpubAbc9'' = P2wpkh" by code_simp
  ultimately show ?thesis
    by (simp add: sample_multisig_def sample_xpub_def writable_key_def suffix)
qed

lemma sample_text: "descriptor_text sample_multisig = sample_descriptor"
  by (simp add: sample_multisig_def sample_xpub_def sample_descriptor_def multi_text_def key_text_def nat_text.simps)

text \<open>
  C14: a descriptor that is written out parses to itself.  Every single-key descriptor of the four
  script types and every multisig descriptor with a threshold up to its number of keys, in the three
  wrappers, sorted or not, with origins and with the suffixes that can be derived, is read back
  exactly, with or without a checksum behind it.
\<close>

theorem descriptor_roundtrip:
  assumes "writable d" and "tail = [] \<or> hd tail = CHR ''#''"
  shows "parseDescriptor (descriptor_text d @ tail) = Inr d"
  by (rule descriptor_parses [OF assms])

theorem descriptor_roundtrip_witness: "parseDescriptor (sample_descriptor @ ''#abc'') = Inr sample_multisig"
  using descriptor_roundtrip [OF sample_writable, of "''#abc''"] by (simp add: sample_text)

text \<open>
  Whatever text is pasted, a descriptor that the parser accepts is watch-only and derivable in
  shape: each of its keys is a public extended key with a known prefix and without hardened steps
  behind it, and a multisig has a threshold between one and its number of keys.
\<close>

theorem parsed_descriptor_is_watch_only:
  assumes "parseDescriptor input = Inr d"
  shows "wf_descriptor d"
  using assms by (auto simp: parseDescriptor_def Let_def dest: parse_body_wf split: if_splits)

theorem parsed_descriptor_is_watch_only_witness:
  "parseDescriptor sample_descriptor = Inr sample_multisig \<and> wf_descriptor sample_multisig"
proof -
  have p: "parseDescriptor sample_descriptor = Inr sample_multisig"
    using descriptor_parses [OF sample_writable, of "[]"] by (simp add: sample_text)
  from parsed_descriptor_is_watch_only [OF p] p show ?thesis by simp
qed

end
