(* ===== verification/Derive.thy ===== *)
theory Derive
  imports Base58 Descriptor "HOL-Library.List_Lexorder"
begin

unbundle bit_operations_syntax

text \<open>
  Keys, scripts and addresses, from \<open>src/stealth/lib/derive.ts\<close>: the derivation of a leaf below an
  extended key, the script that pays to it, its address in base58check or Bech32, multisig redeem
  scripts, and the gap-limit walk.  The hash functions and the curve come from \<open>@noble\<close> and are
  parameters: \<open>cr_tweak pub t\<close> is the compressed sum of the point \<open>pub\<close> and \<open>t\<close> times the
  generator, or nothing when the library throws.
\<close>

section \<open>Deriving a leaf\<close>

record crypto =
  cr_sha256 :: "bytes \<Rightarrow> bytes"
  cr_ripemd160 :: "bytes \<Rightarrow> bytes"
  cr_hmac_sha512 :: "bytes \<Rightarrow> bytes \<Rightarrow> bytes"
  cr_tweak :: "bytes \<Rightarrow> nat \<Rightarrow> bytes option"
  cr_encode :: "string \<Rightarrow> bytes"

datatype derive_error =
  BadPrefix string | BadText base58_error | WrongLength nat | NotPublicKey | IndexOutOfRange int
| AboveOrder | CurveError | NotMultisig | BadSuffix descriptor_error | ThresholdRange nat | KeyCountRange nat
| KeyLength nat | BadBits | GapTooSmall int

definition SECP256K1_N :: nat where
  "SECP256K1_N = 0xfffffffffffffffffffffffffffffffebaaedce6af48a03bbfd25e8cd0364141"

record extended_pub =
  publicKey :: bytes
  chainCode :: bytes

definition bytesToBigInt :: "bytes \<Rightarrow> nat" where
  "bytesToBigInt bs = foldl (\<lambda>n b. n * 256 + unat b) 0 bs"

definition decodeExtendedKey :: "crypto \<Rightarrow> string \<Rightarrow> derive_error + extended_pub" where
  "decodeExtendedKey c extendedKey =
     (if slip132 (take 4 extendedKey) = None then Inl (BadPrefix (take 4 extendedKey))
      else case base58checkDecode (cr_sha256 c) extendedKey of
             Inl e \<Rightarrow> Inl (BadText e)
           | Inr decoded \<Rightarrow>
               if length decoded \<noteq> 78 then Inl (WrongLength (length decoded))
               else if decoded ! 45 \<noteq> 0x02 \<and> decoded ! 45 \<noteq> 0x03 then Inl NotPublicKey
               else Inr \<lparr>publicKey = take 33 (drop 45 decoded), chainCode = take 32 (drop 13 decoded)\<rparr>)"

definition ckdPub :: "crypto \<Rightarrow> extended_pub \<Rightarrow> nat \<Rightarrow> derive_error + extended_pub" where
  "ckdPub c parent index =
     (let data = publicKey parent @ map of_nat [index div 2 ^ 24 mod 256, index div 2 ^ 16 mod 256, index div 2 ^ 8 mod 256, index mod 256];
          I = cr_hmac_sha512 c (chainCode parent) data; il = bytesToBigInt (take 32 I) in
      if SECP256K1_N \<le> il then Inl AboveOrder
      else case cr_tweak c (publicKey parent) il of
             None \<Rightarrow> Inl CurveError
           | Some p \<Rightarrow> Inr \<lparr>publicKey = p, chainCode = take 32 (drop 32 I)\<rparr>)"

definition deriveChildPub :: "crypto \<Rightarrow> string \<Rightarrow> nat \<Rightarrow> int \<Rightarrow> derive_error + bytes" where
  "deriveChildPub c extendedKey chain index =
     (if index < 0 \<or> 0x80000000 \<le> index then Inl (IndexOutOfRange index)
      else case decodeExtendedKey c extendedKey of
             Inl e \<Rightarrow> Inl e
           | Inr master \<Rightarrow>
               (case ckdPub c master chain of
                  Inl e \<Rightarrow> Inl e
                | Inr node \<Rightarrow> map_sum id publicKey (ckdPub c node (nat index))))"

section \<open>Scripts and addresses\<close>

definition hash160 :: "crypto \<Rightarrow> bytes \<Rightarrow> bytes" where
  "hash160 c x = cr_ripemd160 c (cr_sha256 c x)"

definition taggedHash :: "crypto \<Rightarrow> string \<Rightarrow> bytes \<Rightarrow> bytes" where
  "taggedHash c tag msg = (let t = cr_sha256 c (cr_encode c tag) in cr_sha256 c (t @ t @ msg))"

definition taprootXOnly :: "crypto \<Rightarrow> bytes \<Rightarrow> derive_error + bytes" where
  "taprootXOnly c pubkey =
     (let xOnly = take 32 (drop 1 pubkey); t = bytesToBigInt (taggedHash c ''TapTweak'' xOnly) in
      if SECP256K1_N \<le> t then Inl AboveOrder
      else case cr_tweak c (0x02 # xOnly) t of None \<Rightarrow> Inl CurveError | Some p \<Rightarrow> Inr (take 32 (drop 1 p)))"

definition p2sh_script :: "bytes \<Rightarrow> bytes" where
  "p2sh_script h = [0xa9, 0x14] @ h @ [0x87]"

definition scriptPubkey :: "crypto \<Rightarrow> bytes \<Rightarrow> script_type \<Rightarrow> derive_error + bytes" where
  "scriptPubkey c pubkey t =
     (let h160 = hash160 c pubkey in
      case t of
        P2pkh \<Rightarrow> Inr ([0x76, 0xa9, 0x14] @ h160 @ [0x88, 0xac])
      | P2wpkh \<Rightarrow> Inr ([0x00, 0x14] @ h160)
      | P2shP2wpkh \<Rightarrow> Inr (p2sh_script (hash160 c ([0x00, 0x14] @ h160)))
      | P2tr \<Rightarrow> map_sum id (\<lambda>x. [0x51, 0x20] @ x) (taprootXOnly c pubkey))"

text \<open>
  Bech32 once more, written apart from the one of \<open>sync.ts\<close>: the generators by their index, an
  unsigned shift in the checksum, and a check of the input and of the padding in \<open>convertBits\<close>.
\<close>

definition polymod :: "32 word list \<Rightarrow> 32 word" where
  "polymod values = foldl (\<lambda>chk v. let top = drop_bit 25 chk in
     foldl (\<lambda>chk i. if bit top i then chk XOR ([0x3b6a57b2, 0x26508e6d, 0x1ea119fa, 0x3d4233dd, 0x2a1462b3] ! i) else chk)
       (push_bit 5 (chk AND 0x1ffffff) XOR v) [0..<5]) 1 values"

definition hrpExpand :: "string \<Rightarrow> 32 word list" where
  "hrpExpand hrp = map (\<lambda>c. drop_bit 5 (of_nat (of_char c))) hrp @ [0] @ map (\<lambda>c. of_nat (of_char c) AND 31) hrp"

definition createChecksum :: "string \<Rightarrow> 32 word list \<Rightarrow> 32 word \<Rightarrow> 32 word list" where
  "createChecksum hrp data constant =
     (let m = polymod (hrpExpand hrp @ data @ [0, 0, 0, 0, 0, 0]) XOR constant
      in map (\<lambda>i. drop_bit (5 * (5 - i)) m AND 31) [0..<6])"

fun checked_loop :: "nat \<Rightarrow> nat \<Rightarrow> bytes \<Rightarrow> 32 word \<Rightarrow> nat \<Rightarrow> (32 word list \<times> 32 word \<times> nat) option" where
  "checked_loop frm to [] acc k = Some ([], acc, k)"
| "checked_loop frm to (v # vs) acc k =
     (if drop_bit frm v \<noteq> 0 then None
      else (let acc' = push_bit frm acc OR ucast v; (k', out) = push_groups acc' to (k + frm)
            in map_option (\<lambda>(out', r). (out @ out', r)) (checked_loop frm to vs acc' k')))"

definition checkedConvertBits :: "bytes \<Rightarrow> nat \<Rightarrow> nat \<Rightarrow> bool \<Rightarrow> 32 word list option" where
  "checkedConvertBits input frm to pad =
     (case checked_loop frm to input 0 0 of
        None \<Rightarrow> None
      | Some (out, acc, k) \<Rightarrow>
          (let group = push_bit (to - k) acc AND (push_bit to 1 - 1) in
           if pad then Some (if 0 < k then out @ [group] else out)
           else if frm \<le> k \<or> group \<noteq> 0 then None else Some out))"

definition segwitEncode :: "string \<Rightarrow> nat \<Rightarrow> bytes \<Rightarrow> derive_error + string" where
  "segwitEncode hrp witnessVersion program =
     (case checkedConvertBits program 8 5 True of
        None \<Rightarrow> Inl BadBits
      | Some programBits \<Rightarrow>
          (let constant = (if witnessVersion = 0 then 1 else 0x2bc830a3); data = of_nat witnessVersion # programBits;
               combined = data @ createChecksum hrp data constant
           in Inr (hrp @ ''1'' @ map (\<lambda>v. ''qpzry9x8gf2tvdw0s3jn54khce6mua7l'' ! unat v) combined)))"

definition encodeAddress :: "crypto \<Rightarrow> bytes \<Rightarrow> script_type \<Rightarrow> derive_error + string" where
  "encodeAddress c pubkey t =
     (case t of
        P2pkh \<Rightarrow> Inr (base58checkEncode (cr_sha256 c) (0x00 # hash160 c pubkey))
      | P2shP2wpkh \<Rightarrow> Inr (base58checkEncode (cr_sha256 c) (0x05 # hash160 c ([0x00, 0x14] @ hash160 c pubkey)))
      | P2wpkh \<Rightarrow> segwitEncode ''bc'' 0 (hash160 c pubkey)
      | P2tr \<Rightarrow> (case taprootXOnly c pubkey of Inl e \<Rightarrow> Inl e | Inr x \<Rightarrow> segwitEncode ''bc'' 1 x))"

definition deriveAddress :: "crypto \<Rightarrow> string \<Rightarrow> nat \<Rightarrow> int \<Rightarrow> script_type \<Rightarrow> derive_error + string" where
  "deriveAddress c extendedKey chain index t =
     (case deriveChildPub c extendedKey chain index of Inl e \<Rightarrow> Inl e | Inr p \<Rightarrow> encodeAddress c p t)"

definition deriveScriptPubkeyBytes :: "crypto \<Rightarrow> string \<Rightarrow> nat \<Rightarrow> int \<Rightarrow> script_type \<Rightarrow> derive_error + bytes" where
  "deriveScriptPubkeyBytes c extendedKey chain index t =
     (case deriveChildPub c extendedKey chain index of Inl e \<Rightarrow> Inl e | Inr p \<Rightarrow> scriptPubkey c p t)"

section \<open>Multisig\<close>

text \<open>The comparison of two keys, and a stable sort by it.\<close>

fun compare_keys :: "bytes \<Rightarrow> bytes \<Rightarrow> int" where
  "compare_keys (a # as) (b # bs) = (if a \<noteq> b then int (unat a) - int (unat b) else compare_keys as bs)"
| "compare_keys as bs = int (length as) - int (length bs)"

definition sortPubkeysLexicographic :: "bytes list \<Rightarrow> bytes list" where
  "sortPubkeysLexicographic pubs = foldr (\<lambda>x ys. takeWhile (\<lambda>y. compare_keys y x < 0) ys @
     x # dropWhile (\<lambda>y. compare_keys y x < 0) ys) pubs []"

fun push_keys :: "bytes list \<Rightarrow> derive_error + bytes" where
  "push_keys [] = Inr []"
| "push_keys (pk # pks) =
     (if length pk \<noteq> 33 then Inl (KeyLength (length pk)) else map_sum id (\<lambda>r. of_nat (length pk) # pk @ r) (push_keys pks))"

definition buildMultiRedeemScript :: "nat \<Rightarrow> bytes list \<Rightarrow> derive_error + bytes" where
  "buildMultiRedeemScript m pubkeys =
     (let n = length pubkeys in
      if m < 1 \<or> 16 < m then Inl (ThresholdRange m)
      else if n < 1 \<or> 16 < n then Inl (KeyCountRange n)
      else map_sum id (\<lambda>ks. of_nat (0x50 + m) # ks @ [of_nat (0x50 + n), 0xae]) (push_keys pubkeys))"

fun child_keys :: "crypto \<Rightarrow> parsed_key list \<Rightarrow> nat \<Rightarrow> int \<Rightarrow> derive_error + bytes list" where
  "child_keys c [] chain index = Inr []"
| "child_keys c (k # ks) chain index =
     (case resolveLeafDerivation (pk_path k) chain of
        Inl e \<Rightarrow> Inl (BadSuffix e)
      | Inr ch \<Rightarrow>
          (case deriveChildPub c (pk_xpub k) ch index of
             Inl e \<Rightarrow> Inl e
           | Inr p \<Rightarrow> map_sum id (\<lambda>ps. p # ps) (child_keys c ks chain index)))"

fun redeem_script :: "crypto \<Rightarrow> descriptor \<Rightarrow> nat \<Rightarrow> int \<Rightarrow> derive_error + bytes" where
  "redeem_script c (Single k) chain index = Inl NotMultisig"
| "redeem_script c (Multisig w m srt ks) chain index =
     (case child_keys c ks chain index of
        Inl e \<Rightarrow> Inl e
      | Inr pubs \<Rightarrow> buildMultiRedeemScript m (if srt then sortPubkeysLexicographic pubs else pubs))"

fun wrapper_of :: "descriptor \<Rightarrow> wrapper" where
  "wrapper_of (Multisig w m srt ks) = w"
| "wrapper_of (Single k) = Wsh"

definition deriveMultisigScriptPubkeyBytes :: "crypto \<Rightarrow> descriptor \<Rightarrow> nat \<Rightarrow> int \<Rightarrow> derive_error + bytes" where
  "deriveMultisigScriptPubkeyBytes c desc chain index =
     map_sum id (\<lambda>redeem. case wrapper_of desc of
         Wsh \<Rightarrow> [0x00, 0x20] @ cr_sha256 c redeem
       | ShWsh \<Rightarrow> p2sh_script (hash160 c ([0x00, 0x20] @ cr_sha256 c redeem))
       | Sh \<Rightarrow> p2sh_script (hash160 c redeem))
       (redeem_script c desc chain index)"

definition deriveMultisigAddress :: "crypto \<Rightarrow> descriptor \<Rightarrow> nat \<Rightarrow> int \<Rightarrow> derive_error + string" where
  "deriveMultisigAddress c desc chain index =
     (case redeem_script c desc chain index of
        Inl e \<Rightarrow> Inl e
      | Inr redeem \<Rightarrow>
          (case wrapper_of desc of
             Wsh \<Rightarrow> segwitEncode ''bc'' 0 (cr_sha256 c redeem)
           | ShWsh \<Rightarrow> Inr (base58checkEncode (cr_sha256 c) (0x05 # hash160 c ([0x00, 0x20] @ cr_sha256 c redeem)))
           | Sh \<Rightarrow> Inr (base58checkEncode (cr_sha256 c) (0x05 # hash160 c redeem))))"

section \<open>Walking a chain\<close>

text \<open>A wallet as the sealed envelope has it: one key with its script type, or a multisig descriptor.\<close>

datatype wallet_source = Xpub string script_type | Descriptor descriptor

definition derive_leaf :: "crypto \<Rightarrow> wallet_source \<Rightarrow> nat \<Rightarrow> int \<Rightarrow> derive_error + bytes \<times> string" where
  "derive_leaf c src chain i =
     (let (s, a) = (case src of
            Xpub key t \<Rightarrow> (deriveScriptPubkeyBytes c key chain i t, deriveAddress c key chain i t)
          | Descriptor d \<Rightarrow> (deriveMultisigScriptPubkeyBytes c d chain i, deriveMultisigAddress c d chain i))
      in case s of Inl e \<Rightarrow> Inl e | Inr script \<Rightarrow> (case a of Inl e \<Rightarrow> Inl e | Inr address \<Rightarrow> Inr (script, address)))"

definition MAX_INDEX :: nat where "MAX_INDEX = 10000"

function walk_leaves :: "(nat \<Rightarrow> derive_error + bytes \<times> string) \<Rightarrow> (string \<Rightarrow> bool) \<Rightarrow> int \<Rightarrow> nat \<Rightarrow> int \<Rightarrow>
    (bytes \<times> string) list \<Rightarrow> derive_error + (bytes \<times> string) list" where
  "walk_leaves leaf hasActivity gapLimit i lastUsedIdx acc =
     (if int i - lastUsedIdx \<le> gapLimit \<and> i < MAX_INDEX
      then case leaf i of
             Inl e \<Rightarrow> Inl e
           | Inr x \<Rightarrow> walk_leaves leaf hasActivity gapLimit (Suc i)
               (if hasActivity (snd x) then int i else lastUsedIdx) (acc @ [x])
      else Inr acc)"
  by pat_completeness auto

termination
  by (relation "measure (\<lambda>(leaf, act, gap, i, used, acc). MAX_INDEX - i)") auto

declare walk_leaves.simps [simp del]

definition gapLimitWalk ::
    "crypto \<Rightarrow> wallet_source \<Rightarrow> nat \<Rightarrow> int \<Rightarrow> (string \<Rightarrow> bool) \<Rightarrow> derive_error + (bytes \<times> string) list" where
  "gapLimitWalk c src chain gapLimit hasActivity =
     (if gapLimit < 1 then Inl (GapTooSmall gapLimit)
      else walk_leaves (\<lambda>i. derive_leaf c src chain (int i)) hasActivity gapLimit 0 (- 1) [])"

section \<open>One Bech32\<close>

lemma polymod_same: "polymod = bech32Polymod"
proof -
  have five: "[0..<5] = [0, Suc 0, Suc (Suc 0), Suc (Suc (Suc 0)), Suc (Suc (Suc (Suc 0)))]"
    by (simp add: upt_rec eval_nat_numeral)
  have "foldl (\<lambda>chk i. if bit top i then chk XOR ([0x3b6a57b2, 0x26508e6d, 0x1ea119fa, 0x3d4233dd, 0x2a1462b3] ! i) else chk) x [0..<5] =
      xor_generators top 0 GEN x" for top x :: "32 word"
    unfolding five GEN_def by simp
  then show ?thesis by (simp add: polymod_def bech32Polymod_def fun_eq_iff polymod_step_def [abs_def] Let_def)
qed

lemma shift_same:
  assumes "k \<le> 25"
  shows "signed_drop_bit k w AND 31 = drop_bit k w AND (31 :: 32 word)"
proof (rule bit_word_eqI)
  fix n assume "n < LENGTH(32)"
  have m: "(31 :: 32 word) = mask 5" by (simp add: mask_eq_exp_minus_1)
  show "bit (signed_drop_bit k w AND 31) n = bit (drop_bit k w AND 31) n"
    unfolding m using assms by (auto simp: bit_signed_drop_bit_iff bit_and_iff bit_mask_iff bit_drop_bit_eq)
qed

lemma checksum_same: "createChecksum ''bc'' data constant = bech32Checksum ''bc'' data constant"
proof -
  have "hrpExpand ''bc'' = hrp_values ''bc''" by code_simp
  moreover have groups: "map (\<lambda>i. drop_bit (5 * (5 - i)) w AND 31) [0..<6] = map (\<lambda>i. signed_drop_bit (5 * (5 - i)) w AND 31) [0..<6]"
    for w :: "32 word"
    by (rule map_cong) (simp_all add: shift_same)
  ultimately show ?thesis by (simp only: createChecksum_def bech32Checksum_def polymod_same Let_def)
qed

lemma checked_loop_same: "checked_loop 8 to bs acc k = Some (convert_loop 8 to bs acc k)"
proof (induction bs arbitrary: acc k)
  case (Cons b bs)
  have "drop_bit 8 b = 0" by (rule bit_word_eqI) (simp add: bit_simps)
  then show ?case using Cons by (simp add: Let_def split: prod.split)
qed simp

lemma segwit_same: "segwitEncode ''bc'' v program = Inr (encodeBech32 ''bc'' v program)"
proof -
  have "checkedConvertBits program 8 5 True = Some (convertBits program 8 5 True)"
    by (simp add: checkedConvertBits_def convertBits_def checked_loop_same Let_def split: prod.split)
  then show ?thesis
    by (simp add: segwitEncode_def encodeBech32_def checksum_same address_data_def checksum_const_def ALPHABET_def Let_def)
qed

section \<open>An address names its script\<close>

text \<open>The lengths that the documentation of the hash functions and of the curve gives.\<close>

definition crypto_lengths :: "crypto \<Rightarrow> bool" where
  "crypto_lengths c \<longleftrightarrow> (\<forall>x. length (cr_sha256 c x) = 32 \<and> length (cr_ripemd160 c x) = 20) \<and>
     (\<forall>p t q. cr_tweak c p t = Some q \<longrightarrow> length q = 33)"

text \<open>What an address says: the script that it decodes to.\<close>

inductive pays_to :: "crypto \<Rightarrow> string \<Rightarrow> bytes \<Rightarrow> bool" for c where
  key_hash: "base58checkDecode (cr_sha256 c) address = Inr (0x00 # h) \<Longrightarrow> length h = 20 \<Longrightarrow>
    pays_to c address ([0x76, 0xa9, 0x14] @ h @ [0x88, 0xac])"
| script_hash: "base58checkDecode (cr_sha256 c) address = Inr (0x05 # h) \<Longrightarrow> length h = 20 \<Longrightarrow>
    pays_to c address ([0xa9, 0x14] @ h @ [0x87])"
| witness: "length program = 20 \<and> v = 0 \<or> length program = 32 \<and> (v = 0 \<or> v = 1) \<Longrightarrow>
    pays_to c (encodeBech32 ''bc'' v program) ((if v = 0 then 0x00 else 0x51) # of_nat (length program) # program)"

lemma pays_p2wpkh: "length h = 20 \<Longrightarrow> pays_to c (encodeBech32 ''bc'' 0 h) ([0x00, 0x14] @ h)"
  using witness [of h 0 c] by simp

lemma pays_p2wsh: "length h = 32 \<Longrightarrow> pays_to c (encodeBech32 ''bc'' 0 h) ([0x00, 0x20] @ h)"
  using witness [of h 0 c] by simp

lemma pays_p2tr: "length h = 32 \<Longrightarrow> pays_to c (encodeBech32 ''bc'' 1 h) ([0x51, 0x20] @ h)"
  using witness [of h 1 c] by simp

lemma base58check_decodes:
  "crypto_lengths c \<Longrightarrow> p \<noteq> [] \<Longrightarrow> base58checkDecode (cr_sha256 c) (base58checkEncode (cr_sha256 c) p) = Inr p"
  by (subst base58check_iff) (simp_all add: crypto_lengths_def)

lemma taproot_length: "crypto_lengths c \<Longrightarrow> taprootXOnly c p = Inr x \<Longrightarrow> length x = 32"
  by (auto simp: taprootXOnly_def crypto_lengths_def Let_def split: if_splits option.splits)

lemma hash160_length: "crypto_lengths c \<Longrightarrow> length (hash160 c x) = 20"
  by (simp add: crypto_lengths_def hash160_def)

lemma leaf_pays:
  assumes "crypto_lengths c" and "derive_leaf c src chain i = Inr (script, address)"
  shows "pays_to c address script"
proof (cases src)
  case (Xpub key t)
  obtain p where p: "deriveChildPub c key chain i = Inr p" "scriptPubkey c p t = Inr script" "encodeAddress c p t = Inr address"
    using assms(2) Xpub
    by (auto simp: derive_leaf_def deriveScriptPubkeyBytes_def deriveAddress_def split: sum.splits)
  then show ?thesis
    using pays_p2wpkh pays_p2tr key_hash script_hash base58check_decodes [OF assms(1)] taproot_length [OF assms(1)] hash160_length [OF assms(1)]
    by (cases t) (auto simp: scriptPubkey_def encodeAddress_def segwit_same p2sh_script_def Let_def split: sum.splits)
next
  case (Descriptor d)
  obtain r where r: "redeem_script c d chain i = Inr r" "deriveMultisigScriptPubkeyBytes c d chain i = Inr script"
    "deriveMultisigAddress c d chain i = Inr address"
    using assms(2) Descriptor by (auto simp: derive_leaf_def deriveMultisigAddress_def split: sum.splits)
  moreover have "length (cr_sha256 c r) = 32" using assms(1) by (simp add: crypto_lengths_def)
  ultimately show ?thesis
    using pays_p2wsh script_hash base58check_decodes [OF assms(1)] hash160_length [OF assms(1)]
    by (auto simp: deriveMultisigScriptPubkeyBytes_def deriveMultisigAddress_def segwit_same p2sh_script_def split: wrapper.splits)
qed

lemma label_of_paid:
  assumes "pays_to c address script"
  shows "scriptToAddressBestEffort script = (if hd script \<in> {0x00, 0x51} then address else [])"
  using assms by cases (auto simp: scriptToAddressBestEffort_def)

section \<open>Sorted multisig\<close>

lemma compare_less: "compare_keys x y < 0 \<longleftrightarrow> x < y"
proof (induction x y rule: compare_keys.induct, goal_cases)
  case (1 a as b bs)
  have "int (unat a) - int (unat b) < 0 \<longleftrightarrow> a < b" by (simp add: word_less_nat_alt del: of_nat_unat)
  then show ?case using 1 by (auto simp del: of_nat_unat)
next
  case (2 bs)
  then show ?case by (cases bs) auto
qed auto

lemma sort_keys: "sortPubkeysLexicographic pubs = sort pubs"
proof -
  have "takeWhile (\<lambda>y. y < x) ys @ x # dropWhile (\<lambda>y. y < x) ys = insort x ys" for x :: bytes and ys
    by (induction ys) auto
  then have "sortPubkeysLexicographic pubs = foldr insort pubs []"
    by (simp add: sortPubkeysLexicographic_def compare_less)
  then show ?thesis by (simp add: sort_key_def)
qed

definition leaf_key :: "crypto \<Rightarrow> nat \<Rightarrow> int \<Rightarrow> parsed_key \<Rightarrow> derive_error + bytes" where
  "leaf_key c chain i k = (case resolveLeafDerivation (pk_path k) chain of
     Inl e \<Rightarrow> Inl (BadSuffix e) | Inr ch \<Rightarrow> deriveChildPub c (pk_xpub k) ch i)"

lemma child_keys_map:
  "child_keys c ks chain i = Inr pubs \<longleftrightarrow>
     (\<forall>k \<in> set ks. \<exists>p. leaf_key c chain i k = Inr p) \<and> pubs = map (projr \<circ> leaf_key c chain i) ks"
proof (induction ks arbitrary: pubs)
  case (Cons k ks)
  have "child_keys c (k # ks) chain i = (case leaf_key c chain i k of Inl e \<Rightarrow> Inl e
      | Inr p \<Rightarrow> map_sum id (\<lambda>ps. p # ps) (child_keys c ks chain i))"
    by (simp add: leaf_key_def split: sum.split)
  then show ?case using Cons by (cases "leaf_key c chain i k"; cases "child_keys c ks chain i") auto
qed auto

lemma redeem_sorted_perm:
  assumes "mset ks = mset ks'" and "redeem_script c (Multisig w m True ks) chain i = Inr r"
  shows "redeem_script c (Multisig w m True ks') chain i = Inr r"
proof -
  obtain pubs where p: "child_keys c ks chain i = Inr pubs" "buildMultiRedeemScript m (sort pubs) = Inr r"
    using assms(2) by (auto simp: sort_keys split: sum.splits)
  let ?pubs = "map (projr \<circ> leaf_key c chain i) ks'"
  have "child_keys c ks' chain i = Inr ?pubs"
    using p(1) mset_eq_setD [OF assms(1)] by (simp add: child_keys_map)
  moreover have "mset ?pubs = mset pubs" using p(1) assms(1) by (simp add: child_keys_map)
  then have "sort ?pubs = sort pubs" by (metis mset_sort properties_for_sort sorted_sort)
  ultimately show ?thesis using p(2) by (simp add: sort_keys)
qed

section \<open>The gap-limit walk\<close>

definition quiet :: "(nat \<Rightarrow> bool) \<Rightarrow> nat \<Rightarrow> nat \<Rightarrow> bool" where
  "quiet used g k \<longleftrightarrow> g \<le> k \<and> (\<forall>j \<in> {k - g..<k}. \<not> used j)"

lemma quiet_last:
  assumes "\<forall>j < k. used j \<longrightarrow> int j \<le> l" and "l = - 1 \<or> 0 \<le> l \<and> nat l < k \<and> used (nat l)" and "1 \<le> g"
  shows "quiet used g k \<longleftrightarrow> int g < int k - l"
proof
  assume q: "quiet used g k"
  show "int g < int k - l"
  proof (cases "l = - 1")
    case False
    then have "nat l \<notin> {k - g..<k}" using assms(2) q by (auto simp: quiet_def)
    then show ?thesis using False assms(2) q by (auto simp: quiet_def)
  qed (use q in \<open>simp add: quiet_def\<close>)
next
  assume d: "int g < int k - l"
  then have "g \<le> k" using assms(2) by auto
  moreover have "\<not> used j" if "j \<in> {k - g..<k}" for j using that assms(1) d \<open>g \<le> k\<close> by force
  ultimately show "quiet used g k" by (simp add: quiet_def)
qed

definition used_leaf :: "(string \<Rightarrow> bool) \<Rightarrow> (nat \<Rightarrow> derive_error + bytes \<times> string) \<Rightarrow> nat \<Rightarrow> bool" where
  "used_leaf act leaf j = act (snd (projr (leaf j)))"

lemma walk_leaves_spec:
  assumes "\<forall>j < MAX_INDEX. \<exists>x. leaf j = Inr x" and "1 \<le> g" and "i \<le> MAX_INDEX"
    and "\<forall>j < i. used_leaf act leaf j \<longrightarrow> int j \<le> l" and "l = - 1 \<or> 0 \<le> l \<and> nat l < i \<and> used_leaf act leaf (nat l)"
    and "\<forall>k < i. \<not> quiet (used_leaf act leaf) g k" and "acc = map (projr \<circ> leaf) [0..<i]"
  shows "\<exists>n. walk_leaves leaf act (int g) i l acc = Inr (map (projr \<circ> leaf) [0..<n]) \<and> n \<le> MAX_INDEX \<and>
    (n < MAX_INDEX \<longrightarrow> quiet (used_leaf act leaf) g n) \<and> (\<forall>k < n. \<not> quiet (used_leaf act leaf) g k)"
  using assms
proof (induction leaf act "int g" i l acc rule: walk_leaves.induct)
  case (1 leaf act i l acc)
  let ?u = "used_leaf act leaf"
  show ?case
  proof (cases "int i - l \<le> int g \<and> i < MAX_INDEX")
    case False
    have "quiet ?u g i" if "i < MAX_INDEX"
      using that False quiet_last [OF 1(5,6,3)] by simp
    then show ?thesis using False 1(4,7,8) by (auto simp: walk_leaves.simps intro: exI [of _ i])
  next
    case True
    then obtain x where x: "leaf i = Inr x" using 1(2) by blast
    let ?l = "if act (snd x) then int i else l"
    have "\<forall>j < Suc i. ?u j \<longrightarrow> int j \<le> ?l" using 1(5) x by (auto simp: less_Suc_eq used_leaf_def)
    moreover have "?l = - 1 \<or> 0 \<le> ?l \<and> nat ?l < Suc i \<and> ?u (nat ?l)" using 1(6) x by (auto simp: used_leaf_def split: if_splits)
    moreover have "\<not> quiet ?u g i" using True quiet_last [OF 1(5,6,3)] by simp
    then have "\<forall>k < Suc i. \<not> quiet ?u g k" using 1(7) by (simp add: less_Suc_eq)
    moreover have "acc @ [x] = map (projr \<circ> leaf) [0..<Suc i]" using 1(8) x by simp
    ultimately show ?thesis
      using 1(1) [OF True x] 1(2,3) True x by (subst walk_leaves.simps) (simp add: Suc_le_eq)
  qed
qed

section \<open>A small instance\<close>

definition sample_digest :: "bytes \<Rightarrow> bytes" where "sample_digest x = replicate 32 1"

definition sample_crypto :: crypto where
  "sample_crypto = \<lparr>cr_sha256 = sample_digest, cr_ripemd160 = (\<lambda>x. replicate 20 (last x)),
     cr_hmac_sha512 = (\<lambda>k d. replicate 31 0 @ [last d] @ replicate 32 0),
     cr_tweak = (\<lambda>p t. if length p = 33 then Some (hd p # map (\<lambda>b. b + of_nat t) (tl p)) else None),
     cr_encode = (\<lambda>_. [])\<rparr>"

definition sample_key_bytes :: bytes where
  "sample_key_bytes = [0x04, 0x88, 0xb2, 0x1e] @ replicate 41 0 @ [0x02] @ replicate 32 7"

definition sample_key_text :: string where
  "sample_key_text = ''xpub661MyMwAqRbcEYS8w7XLSVeEsBXy79zSzH1J8vCdxAZningWLdN3zgtU6Q8Q2ys63LXnUntTL9Haik6kgwyn6HGsbyKedcPe2JoejYJYYFr''"

lemma sample_lengths: "crypto_lengths sample_crypto"
  by (simp add: crypto_lengths_def sample_crypto_def sample_digest_def)

lemma sample_key_bytes_all: "sample_key_bytes = [0x04, 0x88, 0xb2, 0x1e, 0, 0, 0, 0, 0, 0, 0, 0, 0, 0, 0, 0, 0, 0, 0, 0, 0, 0, 0, 0, 0, 0, 0, 0, 0, 0, 0, 0, 0, 0, 0, 0, 0, 0, 0, 0, 0, 0, 0, 0, 0, 0x02, 7, 7, 7, 7, 7, 7, 7, 7, 7, 7, 7, 7, 7, 7, 7, 7, 7, 7, 7, 7, 7, 7, 7, 7, 7, 7, 7, 7, 7, 7, 7, 7]"
  by code_simp

lemma sample_key_decodes: "base58checkDecode sample_digest sample_key_text = Inr sample_key_bytes"
proof -
  let ?vs = "[55, 47, 52, 34, 5, 5, 0, 20, 56, 20, 54, 9, 48, 24, 34, 35, 13, 31, 25, 7, 54, 6, 30, 19, 25, 28, 37, 13, 50, 10, 30, 56, 6, 8, 57, 25, 57, 16, 0, 17, 7, 53, 11, 36, 55, 9, 32, 45, 41, 45, 39, 29, 19, 36, 21, 2, 57, 39, 51, 27, 5, 23, 7, 23, 1, 56, 50, 5, 2, 19, 30, 45, 27, 45, 51, 26, 19, 8, 16, 33, 41, 43, 5, 43, 39, 54, 56, 45, 5, 16, 15, 50, 34, 56, 18, 37, 36, 35, 22, 37, 1, 17, 46, 37, 42, 31, 17, 31, 31, 14, 49] :: nat list"
  let ?bs = "sample_key_bytes @ [1, 1, 1, 1]"
  have "map ((!) B58_ALPHABET) ?vs = sample_key_text"
    by (simp add: B58_ALPHABET_def sample_key_text_def)
  moreover have "base58Decode (map ((!) B58_ALPHABET) ?vs) = Inr ?bs"
  proof (rule base58_decodes_value)
    show "be_value (map unat ?bs) = base58_value 0 ?vs"
      by (simp add: sample_key_bytes_all base58_value_def)
  qed (simp_all add: sample_key_bytes_all)
  ultimately have "base58Decode sample_key_text = Inr ?bs" by simp
  then show ?thesis
    by (simp add: base58checkDecode_def Let_def check_bytes_def sample_digest_def sample_key_bytes_all) (simp add: numeral_eq_Suc)
qed

lemma sample_key_decoded:
  "decodeExtendedKey sample_crypto sample_key_text =
     Inr \<lparr>publicKey = 0x02 # replicate 32 7, chainCode = replicate 32 0\<rparr>"
proof -
  have "slip132 (take 4 sample_key_text) \<noteq> None" by (simp add: sample_key_text_def slip132_def)
  moreover have "length sample_key_bytes = 78" "sample_key_bytes ! 45 = 0x02"
      "take 33 (drop 45 sample_key_bytes) = 0x02 # replicate 32 7" "take 32 (drop 13 sample_key_bytes) = replicate 32 0"
    by (simp_all add: sample_key_bytes_def nth_append)
  moreover have "cr_sha256 sample_crypto = sample_digest" by (simp add: sample_crypto_def)
  ultimately show ?thesis by (simp add: decodeExtendedKey_def sample_key_decodes)
qed

lemma sample_number: "bytesToBigInt (replicate 31 0 @ [b]) = unat b"
proof -
  have "foldl (\<lambda>n b. n * 256 + unat b) 0 (replicate k (0 :: byte)) = 0" for k by (induction k) simp_all
  then show ?thesis by (simp add: bytesToBigInt_def)
qed

lemma sample_ckd:
  "length (publicKey k) = 33 \<Longrightarrow> ckdPub sample_crypto k i =
     Inr \<lparr>publicKey = hd (publicKey k) # map (\<lambda>b. b + of_nat (i mod 256)) (tl (publicKey k)), chainCode = replicate 32 0\<rparr>"
  using mod_less_divisor [of 256 i]
  by (simp add: ckdPub_def sample_crypto_def sample_number SECP256K1_N_def unat_of_nat Let_def del: mod_less_divisor)

lemma sample_child:
  "0 \<le> i \<Longrightarrow> i < 0x80000000 \<Longrightarrow>
     deriveChildPub sample_crypto sample_key_text ch i = Inr (0x02 # replicate 32 (7 + of_nat (ch mod 256) + of_nat (nat i mod 256)))"
  by (simp add: deriveChildPub_def sample_key_decoded sample_ckd)

lemma sample_leaf:
  "0 \<le> i \<Longrightarrow> i < 0x80000000 \<Longrightarrow> derive_leaf sample_crypto (Xpub sample_key_text P2wpkh) ch i =
     Inr ([0x00, 0x14] @ replicate 20 1, encodeBech32 ''bc'' 0 (replicate 20 1))"
proof -
  have "hash160 sample_crypto x = replicate 20 1" for x
    by (simp add: hash160_def sample_crypto_def sample_digest_def)
  then show "0 \<le> i \<Longrightarrow> i < 0x80000000 \<Longrightarrow> ?thesis"
    by (simp add: derive_leaf_def deriveScriptPubkeyBytes_def deriveAddress_def sample_child scriptPubkey_def
        encodeAddress_def segwit_same Let_def)
qed

section \<open>Properties\<close>

text \<open>
  C10: the script that the scan looks for and the address that the user sees belong together.  When a
  leaf derives, its address names exactly its script: a base58check address by its version byte and
  hash, a Bech32 address by its version and witness program; and the address that \<open>sync.ts\<close>
  shows for a stored script, computed by a second Bech32 encoder, is that same address for every
  script of a witness program and empty for the others.  The hashes and the curve have the lengths
  their documentation gives.
\<close>

theorem address_names_script:
  assumes "crypto_lengths c" and "derive_leaf c src chain i = Inr (script, address)"
  shows "pays_to c address script \<and>
    scriptToAddressBestEffort script = (if hd script \<in> {0x00, 0x51} then address else [])"
  using leaf_pays [OF assms] label_of_paid by blast

theorem address_names_script_witness:
  "scriptToAddressBestEffort ([0x00, 0x14] @ replicate 20 1) = encodeBech32 ''bc'' 0 (replicate 20 1)"
  using address_names_script [OF sample_lengths sample_leaf [of 5 0]] by simp

text \<open>
  The order of the keys of a \<open>sortedmulti\<close> descriptor does not matter.  Two descriptors with the
  same keys in another order, with one wrapper and one threshold, give the same script and the same
  address at every leaf: \<open>sortPubkeysLexicographic\<close> sorts the derived keys, not the extended ones.
\<close>

theorem sortedmulti_ignores_order:
  assumes "mset ks = mset ks'"
    and "derive_leaf c (Descriptor (Multisig w m True ks)) chain i = Inr x"
  shows "derive_leaf c (Descriptor (Multisig w m True ks')) chain i = Inr x"
proof -
  obtain r where r: "redeem_script c (Multisig w m True ks) chain i = Inr r"
    using assms(2)
    by (cases "redeem_script c (Multisig w m True ks) chain i")
      (simp_all add: derive_leaf_def deriveMultisigScriptPubkeyBytes_def del: redeem_script.simps)
  then show ?thesis
    using assms(2) redeem_sorted_perm [OF assms(1) r]
    by (simp add: derive_leaf_def deriveMultisigScriptPubkeyBytes_def deriveMultisigAddress_def del: redeem_script.simps)
qed

lemma sample_path: "resolveLeafDerivation ''/0/*'' ch = Inr 0" "resolveLeafDerivation ''/1/*'' ch = Inr 1"
proof -
  have "trim_text ''/0/*'' = ''/0/*''" "match_multipath ''/0/*'' = None" "match_chain ''/0/*'' = Some ''0''" "chain_step ''0'' = Inr 0"
    "trim_text ''/1/*'' = ''/1/*''" "match_multipath ''/1/*'' = None" "match_chain ''/1/*'' = Some ''1''" "chain_step ''1'' = Inr 1"
    by code_simp+
  then show "resolveLeafDerivation ''/0/*'' ch = Inr 0" "resolveLeafDerivation ''/1/*'' ch = Inr 1"
    by (simp_all add: resolveLeafDerivation_def)
qed

definition sample_cosigner :: "string \<Rightarrow> parsed_key" where
  "sample_cosigner suffix = \<lparr>pk_xpub = sample_key_text, pk_type = P2pkh, pk_path = suffix, pk_origin = None\<rparr>"

theorem sortedmulti_ignores_order_witness:
  "\<exists>x. derive_leaf sample_crypto (Descriptor (Multisig Wsh 1 True [sample_cosigner ''/0/*'', sample_cosigner ''/1/*''])) 0 3 = Inr x \<and>
     derive_leaf sample_crypto (Descriptor (Multisig Wsh 1 True [sample_cosigner ''/1/*'', sample_cosigner ''/0/*''])) 0 3 = Inr x"
proof -
  have "\<exists>x. derive_leaf sample_crypto (Descriptor (Multisig Wsh 1 True [sample_cosigner ''/0/*'', sample_cosigner ''/1/*''])) 0 3 = Inr x"
    by (simp add: derive_leaf_def deriveMultisigScriptPubkeyBytes_def deriveMultisigAddress_def sample_cosigner_def
        sample_path sample_child sort_keys buildMultiRedeemScript_def segwit_same)
  then show ?thesis
    using sortedmulti_ignores_order [of "[sample_cosigner ''/0/*'', sample_cosigner ''/1/*'']" "[sample_cosigner ''/1/*'', sample_cosigner ''/0/*'']"]
    by fastforce
qed

text \<open>
  C27: the gap-limit walk ends and stops where the gap limit says.  When every leaf derives, it returns
  the leaves from index zero in order, up to the first index before which the last \<open>gapLimit\<close>
  addresses are all unused, or up to the cap of 10,000: never earlier, never later.
\<close>

theorem gap_walk_stops_at_gap:
  assumes "\<forall>j < MAX_INDEX. \<exists>x. derive_leaf c src chain (int j) = Inr x" and "1 \<le> g"
  shows "\<exists>n \<le> MAX_INDEX.
    gapLimitWalk c src chain (int g) act = Inr (map (\<lambda>j. projr (derive_leaf c src chain (int j))) [0..<n]) \<and>
    (n < MAX_INDEX \<longrightarrow> quiet (\<lambda>j. act (snd (projr (derive_leaf c src chain (int j))))) g n) \<and>
    (\<forall>k < n. \<not> quiet (\<lambda>j. act (snd (projr (derive_leaf c src chain (int j))))) g k)"
proof -
  let ?leaf = "\<lambda>j. derive_leaf c src chain (int j)"
  have u: "used_leaf act ?leaf = (\<lambda>j. act (snd (projr (?leaf j))))" by (simp add: used_leaf_def fun_eq_iff)
  show ?thesis
    using walk_leaves_spec [of ?leaf g 0 act "- 1" "[]"] assms
    by (simp add: gapLimitWalk_def u o_def) blast
qed

lemma quiet_never: "quiet (\<lambda>_. False) g k \<longleftrightarrow> g \<le> k"
  by (simp add: quiet_def)

theorem gap_walk_stops_at_gap_witness:
  "gapLimitWalk sample_crypto (Xpub sample_key_text P2wpkh) 0 20 (\<lambda>_. False) =
     Inr (replicate 20 ([0x00, 0x14] @ replicate 20 1, encodeBech32 ''bc'' 0 (replicate 20 1)))"
proof -
  let ?src = "Xpub sample_key_text P2wpkh"
  let ?x = "([0x00, 0x14] @ replicate 20 1, encodeBech32 ''bc'' 0 (replicate 20 1))"
  have leaf: "derive_leaf sample_crypto ?src 0 (int j) = Inr ?x" if "j < MAX_INDEX" for j
    using that by (intro sample_leaf) (simp_all add: MAX_INDEX_def)
  obtain n where n: "n \<le> MAX_INDEX"
      "gapLimitWalk sample_crypto ?src 0 (int 20) (\<lambda>_. False) = Inr (map (\<lambda>j. projr (derive_leaf sample_crypto ?src 0 (int j))) [0..<n])"
      "n < MAX_INDEX \<longrightarrow> 20 \<le> n" "\<forall>k < n. \<not> 20 \<le> k"
    using gap_walk_stops_at_gap [of sample_crypto ?src 0 20 "\<lambda>_. False"] leaf
    unfolding quiet_never by auto
  have "n = 20" using n(3,4) n(1) by (cases "n < 20"; cases "20 < n") (auto simp: MAX_INDEX_def)
  moreover have "map (\<lambda>j. projr (derive_leaf sample_crypto ?src 0 (int j))) [0..<20] = map (\<lambda>_. ?x) [0..<20]"
    by (rule map_cong) (use leaf in \<open>simp_all add: MAX_INDEX_def\<close>)
  ultimately show ?thesis using n(2) by (simp add: map_replicate_const)
qed

end
