(* ===== verification/AddRoute.thy ===== *)
theory AddRoute
  imports RouteFacts ConnectionCreate Derive
begin

text \<open>
  The add route of the widget, \<open>src/stealth/widget/routes/add.tsx\<close>: the form with its choice of the
  script type and the confirmation of the first three addresses, and the submission, from the checks
  of the fields to the sealed envelope, the request to \<open>or-stealth-connection-create\<close> and the
  message to the app.  The clock is a parameter (\<open>ad_today\<close>); texts of messages are shortened, and
  what is only rendered is left out.
\<close>

section \<open>The form\<close>

definition all_alnum :: "string \<Rightarrow> bool" where
  "all_alnum s \<longleftrightarrow> s \<noteq> [] \<and> list_all is_alnum s"

definition pickerStateForInput :: "string \<Rightarrow> bool \<times> script_type" where
  "pickerStateForInput raw =
     (let s = trim_text raw in
      if (starts_with ''xpub'' s \<or> starts_with ''tpub'' s) \<and> all_alnum (drop 4 s) then (True, P2wpkh) else (False, P2pkh))"

datatype confirmation = Unasked | Matches | Differs

record add_form =
  af_input :: string
  af_label :: string
  af_birthday :: string
  af_gap :: jsnum
  af_choice :: script_type
  af_touched :: bool
  af_confirm :: confirmation
  af_override :: bool

definition first_form :: "string \<Rightarrow> jsnum \<Rightarrow> add_form" where
  "first_form birthday gap = \<lparr>af_input = [], af_label = [], af_birthday = birthday, af_gap = gap, af_choice = P2wpkh,
     af_touched = False, af_confirm = Unasked, af_override = False\<rparr>"

definition effectiveScriptType :: "add_form \<Rightarrow> script_type" where
  "effectiveScriptType f =
     (let picker = pickerStateForInput (af_input f) in
      if fst picker then (if af_touched f then af_choice f else snd picker) else af_choice f)"

definition parsedForPreview :: "add_form \<Rightarrow> descriptor option" where
  "parsedForPreview f =
     (let t = trim_text (af_input f) in
      if length t < 4 then None else (case parseDescriptor t of Inl _ \<Rightarrow> None | Inr d \<Rightarrow> Some d))"

definition lower_hex8 :: "string \<Rightarrow> bool" where
  "lower_hex8 s \<longleftrightarrow> length s = 8 \<and> list_all is_lower_hex s"

definition masterFingerprint :: "add_form \<Rightarrow> string option" where
  "masterFingerprint f =
     (case parsedForPreview f of
        None \<Rightarrow> None
      | Some d \<Rightarrow>
          (case (case d of Single k \<Rightarrow> pk_origin k | Multisig _ _ _ ks \<Rightarrow> (case ks of [] \<Rightarrow> None | k # _ \<Rightarrow> pk_origin k)) of
             None \<Rightarrow> None
           | Some origin \<Rightarrow>
               (let xfp = map lower_char (takeWhile (\<lambda>c. c \<noteq> CHR ''/'') origin)
                in if lower_hex8 xfp then Some xfp else None)))"

text \<open>The addresses of three leaves of the receive chain, unless one does not derive.\<close>

definition first_addresses :: "crypto \<Rightarrow> string \<Rightarrow> script_type \<Rightarrow> string list option" where
  "first_addresses c xpub t =
     (case (deriveAddress c xpub 0 0 t, deriveAddress c xpub 0 1 t, deriveAddress c xpub 0 2 t) of
        (Inr a, Inr b, Inr d) \<Rightarrow> Some [a, b, d]
      | _ \<Rightarrow> None)"

definition previewAddresses :: "crypto \<Rightarrow> add_form \<Rightarrow> string list option" where
  "previewAddresses c f =
     (case parsedForPreview f of
        Some (Single k) \<Rightarrow> first_addresses c (pk_xpub k)
          (if fst (pickerStateForInput (af_input f)) then effectiveScriptType f else pk_type k)
      | _ \<Rightarrow> None)"

text \<open>
  What the user does.  \<open>PickDate\<close> covers the date field and the presets of the scan window; a button
  or a field that is not shown cannot be used.
\<close>

datatype form_event =
  TypeInput string | TypeLabel string | PickDate string | TypeGap jsnum | PickType script_type
| SayYes | SayNo | SubmitAnyway

definition form_update :: "crypto \<Rightarrow> form_event \<Rightarrow> add_form \<Rightarrow> add_form" where
  "form_update c e f =
     (let shown = previewAddresses c f \<noteq> None in
      case e of
        TypeInput s \<Rightarrow> f\<lparr>af_input := s\<rparr>
      | TypeLabel s \<Rightarrow> f\<lparr>af_label := s\<rparr>
      | PickDate s \<Rightarrow> f\<lparr>af_birthday := s\<rparr>
      | TypeGap n \<Rightarrow> f\<lparr>af_gap := n\<rparr>
      | PickType t \<Rightarrow> if fst (pickerStateForInput (af_input f)) then f\<lparr>af_choice := t, af_touched := True\<rparr> else f
      | SayYes \<Rightarrow> if shown then f\<lparr>af_confirm := Matches, af_override := False\<rparr> else f
      | SayNo \<Rightarrow> if shown then f\<lparr>af_confirm := Differs, af_override := False\<rparr> else f
      | SubmitAnyway \<Rightarrow> if shown \<and> af_confirm f = Differs then f\<lparr>af_override := True\<rparr> else f)"

text \<open>The effect that takes the confirmation back, with what it depends on.\<close>

definition watched :: "add_form \<Rightarrow> string \<times> script_type \<times> bool" where
  "watched f = (af_input f, effectiveScriptType f, fst (pickerStateForInput (af_input f)))"

definition form_step :: "crypto \<Rightarrow> add_form \<Rightarrow> form_event \<Rightarrow> add_form" where
  "form_step c f e =
     (let g = form_update c e f in
      if watched g \<noteq> watched f then g\<lparr>af_confirm := Unasked, af_override := False\<rparr> else g)"

definition submit_enabled :: "crypto \<Rightarrow> add_form \<Rightarrow> bool" where
  "submit_enabled c f \<longleftrightarrow> \<not> (previewAddresses c f \<noteq> None \<and> af_confirm f \<noteq> Matches \<and> \<not> af_override f)"

section \<open>The submission\<close>

text \<open>\<open>a > b\<close> on texts.\<close>

fun text_after :: "string \<Rightarrow> string \<Rightarrow> bool" where
  "text_after (a # as) (b # bs) = (if a = b then text_after as bs else (of_char b :: nat) < of_char a)"
| "text_after as bs = (as \<noteq> [] \<and> bs = [])"

text \<open>The checks of the fields; \<open>live\<close> is the value that the DOM has of the date field, if there is one.\<close>

definition check_form :: "string \<Rightarrow> string option \<Rightarrow> add_form \<Rightarrow> string + string \<times> string \<times> string" where
  "check_form today live f =
     (let trimmed = trim_text (af_input f); cleanLabel = trim_text (af_label f);
          effectiveBirthday = (case live of Some v \<Rightarrow> if v \<noteq> [] \<and> is_iso_date v then v else af_birthday f | None \<Rightarrow> af_birthday f)
      in if length trimmed < 4 then Inl ''Paste an xpub, ypub, zpub, or output descriptor first.''
      else if cleanLabel = [] then Inl ''Give this wallet a label so you can recognize it later.''
      else if 80 < length cleanLabel then Inl ''Label is too long. Please keep it under 80 characters.''
      else if \<not> is_iso_date effectiveBirthday then Inl ''Wallet birthday must be a date (YYYY-MM-DD).''
      else if text_after effectiveBirthday today then Inl ''Wallet birthday cannot be in the future.''
      else if \<not> is_integer (af_gap f) \<or> js_lt (af_gap f) (Fin 1) \<or> js_lt (Fin 1000) (af_gap f)
      then Inl ''Gap limit must be a whole number between 1 and 1000.''
      else Inr (trimmed, cleanLabel, effectiveBirthday))"

text \<open>The payload of the envelope: key, or descriptor as it was typed; label, birthday, gap limit.\<close>

datatype payload =
  XpubStealth string string string jsnum script_type
| DescriptorStealth string string string jsnum

definition type_text :: "script_type \<Rightarrow> string" where
  "type_text t = (case t of P2pkh \<Rightarrow> ''p2pkh'' | P2shP2wpkh \<Rightarrow> ''p2sh-p2wpkh'' | P2wpkh \<Rightarrow> ''p2wpkh'' | P2tr \<Rightarrow> ''p2tr'')"

definition shapeForCompletion :: "descriptor \<Rightarrow> string \<times> string" where
  "shapeForCompletion parsed =
     (case parsed of
        Multisig _ _ _ _ \<Rightarrow> (''descriptor_stealth'', ''multisig-descriptor'')
      | Single k \<Rightarrow> (''xpub_stealth'', type_text (pk_type k)))"

definition with_choice :: "add_form \<Rightarrow> string \<Rightarrow> descriptor \<Rightarrow> descriptor" where
  "with_choice f trimmed parsed =
     (case parsed of
        Single k \<Rightarrow> if fst (pickerStateForInput trimmed) then Single (k\<lparr>pk_type := effectiveScriptType f\<rparr>) else parsed
      | _ \<Rightarrow> parsed)"

definition payload_of :: "add_form \<Rightarrow> string \<Rightarrow> string \<Rightarrow> string \<Rightarrow> descriptor \<Rightarrow> payload" where
  "payload_of f trimmed label birthday parsed =
     (case parsed of
        Single k \<Rightarrow> XpubStealth (pk_xpub k) label birthday (af_gap f) (pk_type k)
      | Multisig _ _ _ _ \<Rightarrow> DescriptorStealth trimmed label birthday (af_gap f))"

definition create_body :: "stealth_init \<Rightarrow> string \<Rightarrow> sealed_env \<Rightarrow> string \<Rightarrow> json" where
  "create_body i kind sealed blind = js_object [(''app_user_id'', Some (JStr (in_user i))), (''app_slug'', Some (JStr (in_slug i))),
     (''widget_token'', text_opt (in_token i)), (''connection_kind'', Some (JStr kind)),
     (''sealed_envelope'', Some (envelope_json sealed)), (''blind_index'', Some (JStr blind)),
     (''wallet_birthday_plaintext'', Some JNull)]"

record add_msg =
  am_connection :: json
  am_birthday :: string
  am_label :: string
  am_type :: string

text \<open>A request or an error message, or the message that ends a successful session.\<close>

datatype add_effect = Sent effect | AddComplete add_msg
datatype add_end = Problem string | Added bool

record add_env =
  ad_route :: route_env
  ad_payload :: "payload codec"
  ad_iv :: bytes
  ad_today :: string
  ad_why :: "seal_error \<Rightarrow> string"
  ad_parse_why :: "descriptor_error \<Rightarrow> string"

definition post_error :: "route_env \<Rightarrow> string \<Rightarrow> string \<Rightarrow> bool \<Rightarrow> add_effect list" where
  "post_error ev code m retryable = (if rv_parent ev then [Sent (Erred code m retryable)] else [])"

definition failed :: "route_env \<Rightarrow> string \<Rightarrow> string \<Rightarrow> bool \<Rightarrow> add_effect list \<times> add_end" where
  "failed ev code m retryable = (post_error ev code m retryable, Problem m)"

definition ask_create :: "route_env \<Rightarrow> stealth_init \<Rightarrow> json \<Rightarrow> (jsnum \<times> string) route" where
  "ask_create ev i body =
     (let fn = ''or-stealth-connection-create'' in
      if through_parent ev i
      then bindr (proxied ev i fn body 120000) (\<lambda>r. ret (pr_status r, pr_text r))
      else bindr (fetched ev i (in_proxy i) fn body) (\<lambda>(s, m). ret (jsint s, m)))"

definition finish :: "route_env \<Rightarrow> string \<Rightarrow> string \<Rightarrow> string \<Rightarrow> jsnum \<times> string \<Rightarrow> add_effect list \<times> add_end" where
  "finish ev birthday label t answer =
     (let (status, m) = answer in
      if \<not> status_ok status then failed ev ''INTERNAL'' ''Edge function returned an error'' True
      else case (if m = [] then Some (JObj []) else rv_parse ev m) of
             None \<Rightarrow> failed ev ''NETWORK'' ''SyntaxError'' True
           | Some d \<Rightarrow>
               if d = JNull then failed ev ''NETWORK'' ''TypeError'' True
               else if \<not> truthy (field d ''connection_id'')
               then failed ev ''INTERNAL'' ''Edge function did not return a connection_id.'' False
               else (if rv_parent ev
                     then [AddComplete \<lparr>am_connection = the (field d ''connection_id''), am_birthday = birthday, am_label = label, am_type = t\<rparr>]
                     else [], Added (field d ''already_existed'' = Some (JBool True))))"

definition stop_text :: "stop \<Rightarrow> string" where
  "stop_text s = (case s of Threw (Failure m) \<Rightarrow> m | _ \<Rightarrow> [])"

definition send_wallet :: "add_env \<Rightarrow> stealth_init \<Rightarrow> string \<Rightarrow> string \<Rightarrow> string \<Rightarrow> string \<times> string \<Rightarrow> payload \<Rightarrow> add_effect list \<times> add_end" where
  "send_wallet ad i trimmed birthday label shape p =
     (let ev = ad_route ad in
      case sealEnvelope (rv_web ev) (ad_payload ad) (ad_iv ad) p (in_key i) of
        Inl e \<Rightarrow> failed ev ''NETWORK'' (ad_why ad e) True
      | Inr sealed \<Rightarrow>
          (case computeConnectionBlindIndex (rv_web ev) (Some (JStr trimmed)) (in_key i) of
             Inl e \<Rightarrow> failed ev ''NETWORK'' (ad_why ad e) True
           | Inr blind \<Rightarrow>
               (let (es, r) = ask_create ev i (create_body i (fst shape) sealed blind);
                    (es', x) = (case r of
                       Inl s \<Rightarrow> failed ev ''NETWORK'' (stop_text s) True
                     | Inr answer \<Rightarrow> finish ev birthday label (snd shape) answer)
                in (map Sent es @ es', x))))"

definition onSubmit :: "add_env \<Rightarrow> stealth_init \<Rightarrow> string option \<Rightarrow> add_form \<Rightarrow> add_effect list \<times> add_end" where
  "onSubmit ad i live f =
     (case check_form (ad_today ad) live f of
        Inl m \<Rightarrow> ([], Problem m)
      | Inr (trimmed, label, birthday) \<Rightarrow>
          (case parseDescriptor trimmed of
             Inl e \<Rightarrow> (post_error (ad_route ad) ''INVALID_XPUB'' (ad_parse_why ad e) False,
                       Problem (''Could not parse: '' @ ad_parse_why ad e))
           | Inr d \<Rightarrow>
               (let parsed = with_choice f trimmed d
                in send_wallet ad i trimmed birthday label (shapeForCompletion parsed) (payload_of f trimmed label birthday parsed))))"

section \<open>The confirmation\<close>

lemma dropWhile_last: "\<not> P (last s) \<Longrightarrow> s \<noteq> [] \<Longrightarrow> dropWhile P s \<noteq> [] \<and> last (dropWhile P s) = last s"
  by (metis dropWhile_eq_Nil_conv last_appendR last_in_set takeWhile_dropWhile_id)

lemma trim_text_ends: "trim_text s = [] \<or> \<not> is_space (hd (trim_text s)) \<and> \<not> is_space (last (trim_text s))"
proof (cases "trim_text s = []")
  case False
  let ?u = "dropWhile is_space s"
  have u: "?u \<noteq> []" using False by (metis trim_text_def dropWhile.simps(1) rev.simps(1))
  then have "\<not> is_space (last (rev ?u))" using hd_dropWhile [OF u] by (simp add: last_rev)
  then have "last (dropWhile is_space (rev ?u)) = last (rev ?u)" using dropWhile_last [of is_space "rev ?u"] u by simp
  moreover have "\<not> is_space (hd (dropWhile is_space (rev ?u)))"
    using hd_dropWhile False by (metis trim_text_def rev_is_Nil_conv)
  ultimately show ?thesis
    using False hd_dropWhile [OF u] by (simp add: trim_text_def hd_rev last_rev)
qed simp

lemma trim_text_twice [simp]: "trim_text (trim_text s) = trim_text s"
  using trim_text_plain trim_text_ends by blast

lemma picker_trimmed: "pickerStateForInput (trim_text s) = pickerStateForInput s"
  by (simp add: pickerStateForInput_def)

lemma preview_watched: "watched f = watched g \<Longrightarrow> previewAddresses c f = previewAddresses c g"
proof -
  assume "watched f = watched g"
  then have w: "af_input f = af_input g" "effectiveScriptType f = effectiveScriptType g" by (simp_all add: watched_def)
  show ?thesis unfolding previewAddresses_def parsedForPreview_def w by (rule refl)
qed

lemma step_confirmed:
  "af_confirm (form_step c g e) = Matches \<Longrightarrow> form_step c g e = form_update c e g \<and> watched (form_step c g e) = watched g"
  by (cases "watched (form_update c e g) = watched g") (simp_all add: form_step_def)

lemma update_confirmed: "e \<noteq> SayYes \<Longrightarrow> af_confirm (form_update c e g) = Matches \<Longrightarrow> af_confirm g = Matches"
  by (cases e) (auto simp: form_update_def Let_def split: if_splits)

text \<open>A confirmation that stands was given for the addresses that stand.\<close>

lemma confirmation_given:
  assumes "af_confirm f = Unasked" and "af_confirm (foldl (form_step c) f es) = Matches"
  shows "\<exists>es1 es2. es = es1 @ SayYes # es2 \<and> watched (foldl (form_step c) f es1) = watched (foldl (form_step c) f es)"
  using assms(2)
proof (induction es rule: rev_induct)
  case (snoc e es)
  let ?g = "foldl (form_step c) f es"
  have step: "form_step c ?g e = form_update c e ?g" and same: "watched (form_step c ?g e) = watched ?g"
    using step_confirmed snoc.prems by simp_all
  show ?case
  proof (cases "e = SayYes")
    case False
    then have "af_confirm ?g = Matches" using update_confirmed snoc.prems step by simp
    then obtain es1 es2 where "es = es1 @ SayYes # es2" "watched (foldl (form_step c) f es1) = watched ?g"
      using snoc.IH by blast
    then show ?thesis using same by (intro exI [of _ es1] exI [of _ "es2 @ [e]"]) simp
  qed (use same in auto)
qed (use assms(1) in simp)

text \<open>The three addresses and the leaves of the payload that is stored.\<close>

fun wallet_of :: "payload \<Rightarrow> wallet_source option" where
  "wallet_of (XpubStealth x label birthday gap t) = Some (Xpub x t)"
| "wallet_of (DescriptorStealth d label birthday gap) = (case parseDescriptor d of
     Inr (Multisig w m srt ks) \<Rightarrow> Some (Descriptor (Multisig w m srt ks)) | _ \<Rightarrow> None)"

lemma address_has_script:
  assumes "deriveAddress c x chain i t = Inr a"
  shows "\<exists>s. derive_leaf c (Xpub x t) chain i = Inr (s, a)"
proof -
  obtain p where p: "deriveChildPub c x chain i = Inr p" "encodeAddress c p t = Inr a"
    using assms by (auto simp: deriveAddress_def split: sum.splits)
  then have "\<exists>s. scriptPubkey c p t = Inr s"
    by (cases t) (auto simp: scriptPubkey_def encodeAddress_def split: sum.splits)
  then show ?thesis using assms p by (auto simp: derive_leaf_def deriveScriptPubkeyBytes_def)
qed

lemma first_addresses_leaves:
  assumes "first_addresses c x t = Some as"
  shows "length as = 3 \<and> list_all (\<lambda>j. \<exists>s. derive_leaf c (Xpub x t) 0 (int j) = Inr (s, as ! j)) [0, 1, 2]"
proof -
  obtain a0 a1 a2 where a: "as = [a0, a1, a2]" "deriveAddress c x 0 0 t = Inr a0" "deriveAddress c x 0 1 t = Inr a1"
      "deriveAddress c x 0 2 t = Inr a2"
    using assms by (auto simp: first_addresses_def split: sum.splits)
  then show ?thesis using a(2-4) [THEN address_has_script] by simp
qed

lemma preview_payload:
  assumes "previewAddresses c f = Some as" and "parseDescriptor (trim_text (af_input f)) = Inr d"
  obtains x t where "payload_of f trimmed label birthday (with_choice f (trim_text (af_input f)) d) = XpubStealth x label birthday (af_gap f) t"
    "first_addresses c x t = Some as"
proof -
  obtain k where "d = Single k" "first_addresses c (pk_xpub k)
      (if fst (pickerStateForInput (af_input f)) then effectiveScriptType f else pk_type k) = Some as"
    using assms by (auto simp: previewAddresses_def parsedForPreview_def Let_def split: if_splits sum.splits descriptor.splits option.splits)
  then show thesis using that by (auto simp: with_choice_def picker_trimmed payload_of_def split: if_splits)
qed

section \<open>The request\<close>

lemma no_request: "Sent e \<in> set (fst (failed ev code m r)) \<Longrightarrow> fn_of e = None"
  "Sent e \<in> set (post_error ev code m r) \<Longrightarrow> fn_of e = None"
  "Sent e \<in> set (fst (finish ev birthday label t answer)) \<Longrightarrow> fn_of e = None"
  by (auto simp: failed_def post_error_def finish_def Let_def split: if_splits prod.splits option.splits)

lemma ask_create_effects: "e \<in> set (fst (ask_create ev i body)) \<Longrightarrow> fn_of e = Some (''or-stealth-connection-create'', body)"
  by (auto simp: ask_create_def proxied_def fetched_def fst_bindr throw_def ret_def Let_def split: if_splits sum.splits prod.splits)

lemma send_wallet_request:
  assumes "Sent e \<in> set (fst (send_wallet ad i t birthday label shape p))" and "fn_of e \<noteq> None"
  shows "\<exists>sealed blind. sealEnvelope (rv_web (ad_route ad)) (ad_payload ad) (ad_iv ad) p (in_key i) = Inr sealed \<and>
    computeConnectionBlindIndex (rv_web (ad_route ad)) (Some (JStr t)) (in_key i) = Inr blind \<and>
    e \<in> set (fst (ask_create (ad_route ad) i (create_body i (fst shape) sealed blind)))"
proof (cases "sealEnvelope (rv_web (ad_route ad)) (ad_payload ad) (ad_iv ad) p (in_key i)")
  case (Inl e')
  then show ?thesis using assms no_request(1) by (auto simp: send_wallet_def)
next
  case s: (Inr sealed)
  show ?thesis
  proof (cases "computeConnectionBlindIndex (rv_web (ad_route ad)) (Some (JStr t)) (in_key i)")
    case (Inl e')
    then show ?thesis using assms no_request(1) s by (auto simp: send_wallet_def)
  next
    case b: (Inr blind)
    obtain es r where "ask_create (ad_route ad) i (create_body i (fst shape) sealed blind) = (es, r)" by fastforce
    then show ?thesis
      using assms no_request(1,3) s b by (cases r) (auto simp: send_wallet_def Let_def case_prod_beta)
  qed
qed

lemma request_sent:
  assumes "Sent e \<in> set (fst (onSubmit ad i live f))" and "fn_of e = Some (fn, body)"
  obtains label birthday d p sealed blind where "check_form (ad_today ad) live f = Inr (trim_text (af_input f), label, birthday)"
    "parseDescriptor (trim_text (af_input f)) = Inr d"
    "p = payload_of f (trim_text (af_input f)) label birthday (with_choice f (trim_text (af_input f)) d)"
    "sealEnvelope (rv_web (ad_route ad)) (ad_payload ad) (ad_iv ad) p (in_key i) = Inr sealed"
    "computeConnectionBlindIndex (rv_web (ad_route ad)) (Some (JStr (trim_text (af_input f)))) (in_key i) = Inr blind"
    "fn = ''or-stealth-connection-create''"
    "body = create_body i (fst (shapeForCompletion (with_choice f (trim_text (af_input f)) d))) sealed blind"
proof -
  let ?t = "trim_text (af_input f)"
  obtain label birthday where c: "check_form (ad_today ad) live f = Inr (?t, label, birthday)"
    using assms(1) by (auto simp: onSubmit_def check_form_def Let_def split: sum.splits if_splits)
  obtain d where d: "parseDescriptor ?t = Inr d"
    using assms no_request(2) by (cases "parseDescriptor ?t") (auto simp: onSubmit_def c)
  let ?p = "payload_of f ?t label birthday (with_choice f ?t d)" and ?s = "shapeForCompletion (with_choice f ?t d)"
  have sent: "Sent e \<in> set (fst (send_wallet ad i ?t birthday label ?s ?p))"
    using assms(1) by (simp add: onSubmit_def c d Let_def)
  obtain sealed blind where s: "sealEnvelope (rv_web (ad_route ad)) (ad_payload ad) (ad_iv ad) ?p (in_key i) = Inr sealed"
      "computeConnectionBlindIndex (rv_web (ad_route ad)) (Some (JStr ?t)) (in_key i) = Inr blind"
      "e \<in> set (fst (ask_create (ad_route ad) i (create_body i (fst ?s) sealed blind)))"
    using send_wallet_request [OF sent] assms(2) by auto
  from ask_create_effects [OF s(3)] show thesis using that [OF c d refl s(1,2)] assms(2) by simp
qed

section \<open>A sample session\<close>

instance script_type :: countable
  by countable_datatype

instance payload :: countable
  by countable_datatype

definition payload_codec :: "payload codec" where
  "payload_codec = \<lparr>stringify = (\<lambda>x. nat_text (to_nat x)), parse = (\<lambda>s. Some (from_nat (digits_value s)))\<rparr>"

lemma payload_codec_law: "parse payload_codec (stringify payload_codec x) = Some x"
  by (simp add: payload_codec_def digits_value_nat_text del: digits_value.simps)

text \<open>An app embeds the widget without a proxy; the create endpoint answers with a connection.\<close>

definition sample_add :: add_env where
  "sample_add = \<lparr>ad_route = (sample_route undefined)\<lparr>rv_parent := True, rv_fetch := \<lambda>_ _ _. Inr (200, ''d''),
       rv_parse := \<lambda>_. Some (JObj [(''connection_id'', JStr C1), (''already_existed'', JBool False)])\<rparr>,
     ad_payload = payload_codec, ad_iv = replicate 12 2, ad_today = ''2026-01-01'', ad_why = (\<lambda>_. []), ad_parse_why = (\<lambda>_. [])\<rparr>"

definition sample_events :: "form_event list" where
  "sample_events = [TypeInput sample_key_text, TypeLabel ''cold'', SayYes]"

definition sample_form :: add_form where
  "sample_form = \<lparr>af_input = sample_key_text, af_label = ''cold'', af_birthday = ''2025-01-01'', af_gap = Fin 250, af_choice = P2wpkh,
     af_touched = False, af_confirm = Matches, af_override = False\<rparr>"

lemma sample_trim: "trim_text sample_key_text = sample_key_text"
  by (rule trim_text_plain) (simp add: sample_key_text_def is_space_def)

lemma sample_picker: "pickerStateForInput sample_key_text = (True, P2wpkh)"
proof -
  have "starts_with ''xpub'' sample_key_text" "all_alnum (drop 4 sample_key_text)"
    by (simp_all add: sample_key_text_def starts_with_def all_alnum_def is_alnum_def)
  then show ?thesis by (simp add: pickerStateForInput_def sample_trim)
qed

lemma sample_parsed: "parseDescriptor sample_key_text =
    Inr (Single \<lparr>pk_xpub = sample_key_text, pk_type = P2pkh, pk_path = [], pk_origin = None\<rparr>)"
proof -
  have "bare_key sample_key_text" "CHR ''#'' \<notin> set sample_key_text" "sample_key_text \<noteq> []" "detectScriptType sample_key_text = Inr P2pkh"
    by (simp_all add: sample_key_text_def bare_key_def is_alnum_def detectScriptType_def slip132_def)
  then show ?thesis by (simp add: parseDescriptor_def parse_body_def sample_trim)
qed

lemma sample_address:
  "0 \<le> n \<Longrightarrow> n < 0x80000000 \<Longrightarrow> deriveAddress sample_crypto sample_key_text ch n P2wpkh = Inr (encodeBech32 ''bc'' 0 (replicate 20 1))"
  using sample_leaf [of n ch] by (simp add: derive_leaf_def split: sum.splits)

lemma sample_preview:
  assumes "af_input f = sample_key_text" and "\<not> af_touched f"
  shows "previewAddresses sample_crypto f = Some (replicate 3 (encodeBech32 ''bc'' 0 (replicate 20 1)))"
proof -
  have "4 \<le> length sample_key_text" by (simp add: sample_key_text_def)
  then have "parsedForPreview f = Some (Single \<lparr>pk_xpub = sample_key_text, pk_type = P2pkh, pk_path = [], pk_origin = None\<rparr>)"
    by (simp add: parsedForPreview_def assms sample_trim sample_parsed)
  then show ?thesis
    by (simp add: previewAddresses_def assms sample_picker effectiveScriptType_def first_addresses_def sample_address numeral_3_eq_3)
qed

lemma sample_events_run: "foldl (form_step sample_crypto) (first_form ''2025-01-01'' (Fin 250)) sample_events = sample_form"
proof -
  let ?f = "(first_form ''2025-01-01'' (Fin 250))\<lparr>af_input := sample_key_text\<rparr>"
  have 1: "form_step sample_crypto (first_form ''2025-01-01'' (Fin 250)) (TypeInput sample_key_text) = ?f"
    by (simp add: form_step_def form_update_def first_form_def Let_def)
  have 2: "form_step sample_crypto ?f (TypeLabel ''cold'') = ?f\<lparr>af_label := ''cold''\<rparr>"
    by (simp add: form_step_def form_update_def watched_def effectiveScriptType_def first_form_def Let_def)
  have "previewAddresses sample_crypto (?f\<lparr>af_label := ''cold''\<rparr>) \<noteq> None"
    by (subst sample_preview) (simp_all add: first_form_def)
  then have 3: "form_step sample_crypto (?f\<lparr>af_label := ''cold''\<rparr>) SayYes = sample_form"
    by (simp add: form_step_def form_update_def watched_def effectiveScriptType_def first_form_def sample_form_def Let_def)
  show ?thesis by (simp add: sample_events_def 1 2 3)
qed

lemma sample_check: "check_form ''2026-01-01'' None sample_form = Inr (sample_key_text, ''cold'', ''2025-01-01'')"
proof -
  have "is_iso_date ''2025-01-01''" "\<not> text_after ''2025-01-01'' ''2026-01-01''" "trim_text ''cold'' = ''cold''"
    by code_simp+
  moreover have "4 \<le> length sample_key_text" by (simp add: sample_key_text_def)
  moreover have "is_integer (Fin 250)" by (simp add: rat_integral_def)
  ultimately show ?thesis by (simp add: check_form_def sample_form_def sample_trim Let_def)
qed

lemma sample_submit:
  obtains sealed blind m where "onSubmit sample_add sample_in None sample_form =
    ([Sent (Fetched ''or-stealth-connection-create'' ''u/or-stealth-connection-create'' None
        (create_body sample_in ''xpub_stealth'' sealed blind)), AddComplete m], Added False)"
proof -
  have direct: "through_parent (ad_route sample_add) sample_in = False"
    by (simp add: through_parent_def sample_in_def present_def)
  have "fetched (ad_route sample_add) sample_in None ''or-stealth-connection-create'' b =
      ([Fetched ''or-stealth-connection-create'' ''u/or-stealth-connection-create'' None b], Inr (200, ''d''))" for b
    by (simp add: fetched_def sample_add_def sample_route_def sample_url sample_in_def bearer_def present_def lift_err_def)
  then have ask: "ask_create (ad_route sample_add) sample_in b =
      ([Fetched ''or-stealth-connection-create'' ''u/or-stealth-connection-create'' None b], Inr (Fin 200, ''d''))" for b
    using direct by (simp add: ask_create_def sample_in_def bindr_def ret_def)
  have key: "in_key sample_in = sample_key" "rv_web (ad_route sample_add) = sample_web"
    by (simp_all add: sample_in_def sample_add_def sample_route_def)
  obtain sealed where s: "sealEnvelope sample_web (ad_payload sample_add) (ad_iv sample_add) p sample_key = Inr (sealed p)" for p
    by (simp add: sealEnvelope_def decode_sample_key)
  have "sample_key_text \<noteq> []" by (simp add: sample_key_text_def)
  then obtain blind where b: "computeConnectionBlindIndex sample_web (Some (JStr sample_key_text)) sample_key = Inr blind"
    by (simp add: computeConnectionBlindIndex_def importHmacKeyFromMaster_def decode_sample_key requireConnectionInput_def)
  have today: "ad_today sample_add = ''2026-01-01''" by (simp add: sample_add_def)
  let ?k = "\<lparr>pk_xpub = sample_key_text, pk_type = effectiveScriptType sample_form, pk_path = [], pk_origin = None\<rparr>"
  obtain m where m: "finish (ad_route sample_add) ''2025-01-01'' ''cold'' (type_text (effectiveScriptType sample_form)) (Fin 200, ''d'') =
      ([AddComplete m], Added False)"
    by (simp add: finish_def sample_status sample_add_def C1_def)
  have "onSubmit sample_add sample_in None sample_form =
    ([Sent (Fetched ''or-stealth-connection-create'' ''u/or-stealth-connection-create'' None
        (create_body sample_in ''xpub_stealth'' (sealed (payload_of sample_form sample_key_text ''cold'' ''2025-01-01'' (Single ?k))) blind)),
      AddComplete m], Added False)"
    unfolding onSubmit_def today sample_check
    by (simp add: sample_parsed with_choice_def sample_picker shapeForCompletion_def send_wallet_def key s b ask m Let_def)
  then show thesis by (rule that)
qed

section \<open>Properties\<close>

lemma create_body_fields [simp]:
  "field (create_body i kind sealed blind) ''app_user_id'' = Some (JStr (in_user i))"
  "field (create_body i kind sealed blind) ''app_slug'' = Some (JStr (in_slug i))"
  "field (create_body i kind sealed blind) ''connection_kind'' = Some (JStr kind)"
  "field (create_body i kind sealed blind) ''sealed_envelope'' = Some (envelope_json sealed)"
  "field (create_body i kind sealed blind) ''blind_index'' = Some (JStr blind)"
  "field (create_body i kind sealed blind) ''wallet_birthday_plaintext'' = Some JNull"
  by (cases "in_token i"; simp add: create_body_def js_object_def List.map_filter_def text_opt_def)+

text \<open>
  C4: what the user confirmed is what is sealed.  When the form was reached by any sequence of its
  events, shows addresses and may be submitted without the override, then the user has pressed the
  confirmation at a moment when exactly the addresses were shown that the wallet in the envelope of
  the request has as its first three leaves of the receive chain; the envelope opens to that wallet
  under the session's key.  Neither a later paste nor a later choice of the script type gets past it.
\<close>

theorem confirmed_wallet_is_sealed:
  assumes "web_laws (rv_web (ad_route ad))" and "\<forall>p. parse (ad_payload ad) (stringify (ad_payload ad) p) = Some p"
    and "f = foldl (form_step c) (first_form day gap) es" and "previewAddresses c f \<noteq> None"
    and "submit_enabled c f" and "\<not> af_override f"
    and "Sent e \<in> set (fst (onSubmit ad i live f))" and "fn_of e = Some (fn, body)"
  shows "\<exists>es1 es2 as x t label birthday sealed. es = es1 @ SayYes # es2 \<and>
    previewAddresses c (foldl (form_step c) (first_form day gap) es1) = Some as \<and> length as = 3 \<and>
    list_all (\<lambda>j. \<exists>s. derive_leaf c (Xpub x t) 0 (int j) = Inr (s, as ! j)) [0, 1, 2] \<and>
    field body ''sealed_envelope'' = Some (envelope_json sealed) \<and>
    unsealEnvelope (rv_web (ad_route ad)) (ad_payload ad) sealed (in_key i) = Inr (XpubStealth x label birthday (af_gap f) t)"
proof -
  obtain as where as: "previewAddresses c f = Some as" using assms(4) by blast
  have "af_confirm f = Matches" using assms(4-6) by (simp add: submit_enabled_def)
  then obtain es1 es2 where es: "es = es1 @ SayYes # es2" "watched (foldl (form_step c) (first_form day gap) es1) = watched f"
    using confirmation_given [of "first_form day gap" c es] assms(3) by (auto simp: first_form_def)
  obtain label birthday d p sealed blind where r: "parseDescriptor (trim_text (af_input f)) = Inr d"
      "p = payload_of f (trim_text (af_input f)) label birthday (with_choice f (trim_text (af_input f)) d)"
      "sealEnvelope (rv_web (ad_route ad)) (ad_payload ad) (ad_iv ad) p (in_key i) = Inr sealed"
      "body = create_body i (fst (shapeForCompletion (with_choice f (trim_text (af_input f)) d))) sealed blind"
    using request_sent [OF assms(7,8)] by metis
  obtain x t where x: "p = XpubStealth x label birthday (af_gap f) t" "first_addresses c x t = Some as"
    using preview_payload [OF as r(1)] r(2) by metis
  have "unsealEnvelope (rv_web (ad_route ad)) (ad_payload ad) sealed (in_key i) = Inr p"
    by (rule seal_unseal [OF assms(1) _ r(3)]) (use assms(2) in blast)
  moreover have "field body ''sealed_envelope'' = Some (envelope_json sealed)" unfolding r(4) by simp
  moreover have "previewAddresses c (foldl (form_step c) (first_form day gap) es1) = Some as" using as preview_watched [OF es(2)] by simp
  ultimately show ?thesis using es(1) x(1) first_addresses_leaves [OF x(2)] by blast
qed

theorem confirmed_wallet_is_sealed_witness:
  "\<exists>body sealed x t label birthday. Sent (Fetched ''or-stealth-connection-create'' ''u/or-stealth-connection-create'' None body) \<in>
       set (fst (onSubmit sample_add sample_in None sample_form)) \<and>
     field body ''sealed_envelope'' = Some (envelope_json sealed) \<and>
     unsealEnvelope sample_web payload_codec sealed sample_key = Inr (XpubStealth x label birthday (Fin 250) t)"
proof -
  obtain sealed blind m where o1: "onSubmit sample_add sample_in None sample_form =
    ([Sent (Fetched ''or-stealth-connection-create'' ''u/or-stealth-connection-create'' None
        (create_body sample_in ''xpub_stealth'' sealed blind)), AddComplete m], Added False)"
    by (rule sample_submit)
  let ?e = "Fetched ''or-stealth-connection-create'' ''u/or-stealth-connection-create'' None (create_body sample_in ''xpub_stealth'' sealed blind)"
  have w: "rv_web (ad_route sample_add) = sample_web" "ad_payload sample_add = payload_codec" "in_key sample_in = sample_key"
    "af_gap sample_form = Fin 250" "\<not> af_override sample_form" "af_confirm sample_form = Matches"
    by (simp_all add: sample_add_def sample_route_def sample_in_def sample_form_def)
  have p: "previewAddresses sample_crypto sample_form \<noteq> None"
    by (subst sample_preview) (simp_all add: sample_form_def)
  have "\<exists>es1 es2 as x t label birthday sealed'. sample_events = es1 @ SayYes # es2 \<and>
    previewAddresses sample_crypto (foldl (form_step sample_crypto) (first_form ''2025-01-01'' (Fin 250)) es1) = Some as \<and> length as = 3 \<and>
    list_all (\<lambda>j. \<exists>s. derive_leaf sample_crypto (Xpub x t) 0 (int j) = Inr (s, as ! j)) [0, 1, 2] \<and>
    field (create_body sample_in ''xpub_stealth'' sealed blind) ''sealed_envelope'' = Some (envelope_json sealed') \<and>
    unsealEnvelope (rv_web (ad_route sample_add)) (ad_payload sample_add) sealed' (in_key sample_in) =
      Inr (XpubStealth x label birthday (af_gap sample_form) t)"
    by (rule confirmed_wallet_is_sealed [of sample_add sample_form sample_crypto "''2025-01-01''" "Fin 250" sample_events ?e sample_in None])
      (use w p in \<open>simp_all add: sample_web_laws payload_codec_law sample_events_run submit_enabled_def o1\<close>)
  then obtain sealed' x t label birthday where
    "field (create_body sample_in ''xpub_stealth'' sealed blind) ''sealed_envelope'' = Some (envelope_json sealed')"
    "unsealEnvelope sample_web payload_codec sealed' sample_key = Inr (XpubStealth x label birthday (Fin 250) t)"
    unfolding w by blast
  moreover have "Sent ?e \<in> set (fst (onSubmit sample_add sample_in None sample_form))" unfolding o1 by simp
  ultimately show ?thesis by blast
qed

lemma kind_known: "fst (shapeForCompletion d) \<in> {''xpub_stealth'', ''descriptor_stealth''}"
  by (cases d) (simp_all add: shapeForCompletion_def)

lemma sealed_shape: "sealEnvelope w c iv p k = Inr sealed \<Longrightarrow> isSealedEnvelope (envelope_json sealed)"
  by (auto simp: sealEnvelope_def isSealedEnvelope_def envelope_json_def split: sum.splits)

lemma blind_nonempty: "web_laws w \<Longrightarrow> computeConnectionBlindIndex w t k = Inr blind \<Longrightarrow> blind \<noteq> []"
  using index_hex64 [of w] by (auto simp: computeConnectionBlindIndex_def is_hex64_def split: sum.splits) (metis list.size(3) zero_neq_numeral)



lemma ask_create_one:
  "snd (ask_create ev i body) = Inr x \<Longrightarrow> \<exists>e. fst (ask_create ev i body) = [e] \<and> fn_of e = Some (''or-stealth-connection-create'', body)"
  by (auto simp: ask_create_def proxied_def fetched_def fst_bindr snd_bindr throw_def ret_def Let_def
      split: if_splits sum.splits prod.splits)

lemma finish_complete:
  assumes "AddComplete m \<in> set (fst (finish ev birthday label t (status, reply)))"
  shows "\<exists>d. status_ok status \<and> rv_parse ev reply = Some d \<and> field d ''connection_id'' = Some (am_connection m) \<and>
    truthy (Some (am_connection m)) \<and> am_label m = label \<and> am_birthday m = birthday \<and>
    finish ev birthday label t (status, reply) = ([AddComplete m], Added (field d ''already_existed'' = Some (JBool True)))"
  using assms
  by (auto simp: finish_def failed_def post_error_def Let_def split: if_splits option.splits)
    (metis option.collapse truthy.simps(1))+

lemma failed_complete [simp]: "AddComplete m \<notin> set (fst (failed ev code t r))" "AddComplete m \<notin> set (post_error ev code t r)"
  by (auto simp: failed_def post_error_def)

lemma send_wallet_complete:
  assumes "AddComplete m \<in> set (fst (send_wallet ad i t birthday label shape p))"
  shows "\<exists>e body status reply d. send_wallet ad i t birthday label shape p =
      ([Sent e, AddComplete m], Added (field d ''already_existed'' = Some (JBool True))) \<and>
    fn_of e = Some (''or-stealth-connection-create'', body) \<and>
    snd (ask_create (ad_route ad) i body) = Inr (status, reply) \<and> status_ok status \<and>
    rv_parse (ad_route ad) reply = Some d \<and> field d ''connection_id'' = Some (am_connection m) \<and> truthy (Some (am_connection m)) \<and>
    am_label m = label \<and> am_birthday m = birthday"
proof -
  obtain sealed where s: "sealEnvelope (rv_web (ad_route ad)) (ad_payload ad) (ad_iv ad) p (in_key i) = Inr sealed"
    using assms by (cases "sealEnvelope (rv_web (ad_route ad)) (ad_payload ad) (ad_iv ad) p (in_key i)") (simp_all add: send_wallet_def)
  obtain blind where b: "computeConnectionBlindIndex (rv_web (ad_route ad)) (Some (JStr t)) (in_key i) = Inr blind"
    using assms by (cases "computeConnectionBlindIndex (rv_web (ad_route ad)) (Some (JStr t)) (in_key i)") (simp_all add: send_wallet_def s)
  let ?body = "create_body i (fst shape) sealed blind"
  let ?ask = "ask_create (ad_route ad) i ?body"
  obtain status reply where a: "snd ?ask = Inr (status, reply)"
    using assms by (cases "snd ?ask") (auto simp: send_wallet_def s b Let_def case_prod_beta)
  let ?fin = "finish (ad_route ad) birthday label (snd shape) (status, reply)"
  have send: "send_wallet ad i t birthday label shape p = (map Sent (fst ?ask) @ fst ?fin, snd ?fin)"
    by (simp add: send_wallet_def s b a Let_def case_prod_beta)
  then have "AddComplete m \<in> set (fst ?fin)" using assms by auto
  from finish_complete [OF this] ask_create_one [OF a] a show ?thesis unfolding send by fastforce
qed

lemma completion_stored:
  assumes "AddComplete m \<in> set (fst (onSubmit ad i live f))"
  shows "\<exists>e body status reply d. fst (onSubmit ad i live f) = [Sent e, AddComplete m] \<and>
    fn_of e = Some (''or-stealth-connection-create'', body) \<and>
    snd (ask_create (ad_route ad) i body) = Inr (status, reply) \<and> status_ok status \<and>
    rv_parse (ad_route ad) reply = Some d \<and> field d ''connection_id'' = Some (am_connection m) \<and> truthy (Some (am_connection m)) \<and>
    check_form (ad_today ad) live f = Inr (trim_text (af_input f), am_label m, am_birthday m) \<and>
    snd (onSubmit ad i live f) = Added (field d ''already_existed'' = Some (JBool True))"
proof -
  let ?t = "trim_text (af_input f)"
  obtain label birthday where c: "check_form (ad_today ad) live f = Inr (?t, label, birthday)"
    using assms by (auto simp: onSubmit_def check_form_def Let_def split: sum.splits if_splits)
  obtain d where d: "parseDescriptor ?t = Inr d"
    using assms by (cases "parseDescriptor ?t") (auto simp: onSubmit_def c)
  let ?p = "payload_of f ?t label birthday (with_choice f ?t d)" and ?s = "shapeForCompletion (with_choice f ?t d)"
  have sub: "onSubmit ad i live f = send_wallet ad i ?t birthday label ?s ?p" by (simp add: onSubmit_def c d Let_def)
  from send_wallet_complete [OF assms [unfolded sub]] show ?thesis unfolding sub c by fastforce
qed

lemma suffix_lost:
  assumes "writable_key k" and "af_input f = descriptor_text (Single k)"
    and "check_form today live f = Inr (trimmed, label, birthday)"
  shows "parseDescriptor trimmed = Inr (Single k) \<and>
    payload_of f trimmed label birthday (with_choice f trimmed (Single k)) = XpubStealth (pk_xpub k) label birthday (af_gap f) (pk_type k)"
proof -
  let ?s = "descriptor_text (Single k)"
  have "\<not> is_space (hd ?s)" "\<not> is_space (last ?s)"
    using descriptor_text_ends [of "Single k"] by (auto simp: is_space_def simp del: descriptor_text.simps)
  then have trim: "trim_text ?s = ?s" by (intro trim_text_plain) simp
  then have t: "trimmed = ?s"
    using assms(2,3) by (auto simp: check_form_def Let_def simp del: descriptor_text.simps split: if_splits)
  have "\<not> starts_with ''xpub'' ?s" "\<not> starts_with ''tpub'' ?s"
    by (simp_all add: starts_with_def split: script_type.split)
  then have "\<not> fst (pickerStateForInput ?s)" using trim by (simp add: pickerStateForInput_def del: descriptor_text.simps)
  moreover have "parseDescriptor ?s = Inr (Single k)"
    using descriptor_parses [of "Single k" "[]"] assms(1) by (simp del: descriptor_text.simps)
  ultimately show ?thesis by (simp add: t payload_of_def with_choice_def del: descriptor_text.simps)
qed

text \<open>
  C25: the app is told that a wallet was added only when the server stored it.  A completion message is
  preceded by exactly one request, a creation whose answer had a success status and a connection
  identifier; the message carries that identifier and the label and birthday that passed the checks
  of the form, and no error message goes with it.
\<close>

theorem wallet_added_only_if_stored:
  assumes "AddComplete m \<in> set (fst (onSubmit ad i live f))"
  shows "\<exists>e body status reply d. fst (onSubmit ad i live f) = [Sent e, AddComplete m] \<and>
    fn_of e = Some (''or-stealth-connection-create'', body) \<and>
    snd (ask_create (ad_route ad) i body) = Inr (status, reply) \<and> status_ok status \<and>
    rv_parse (ad_route ad) reply = Some d \<and> field d ''connection_id'' = Some (am_connection m) \<and> truthy (Some (am_connection m)) \<and>
    check_form (ad_today ad) live f = Inr (trim_text (af_input f), am_label m, am_birthday m) \<and>
    snd (onSubmit ad i live f) = Added (field d ''already_existed'' = Some (JBool True))"
  by (rule completion_stored [OF assms])

theorem wallet_added_only_if_stored_witness:
  "\<exists>m e reply d status. fst (onSubmit sample_add sample_in None sample_form) = [Sent e, AddComplete m] \<and>
     am_label m = ''cold'' \<and> am_birthday m = ''2025-01-01'' \<and> status_ok status \<and>
     rv_parse (ad_route sample_add) reply = Some d \<and> field d ''connection_id'' = Some (am_connection m)"
proof -
  obtain sealed blind m where o1: "onSubmit sample_add sample_in None sample_form =
    ([Sent (Fetched ''or-stealth-connection-create'' ''u/or-stealth-connection-create'' None
        (create_body sample_in ''xpub_stealth'' sealed blind)), AddComplete m], Added False)"
    by (rule sample_submit)
  have "ad_today sample_add = ''2026-01-01''" by (simp add: sample_add_def)
  then show ?thesis using wallet_added_only_if_stored [of m sample_add sample_in None sample_form] sample_check by (auto simp: o1)
qed

text \<open>
  The derivation suffix of a single-key descriptor is read and then lost.  Whatever suffix and
  origin the key carries, the payload is that of the bare key with the script type of the descriptor,
  so the wallet that is scanned is the one at chains 0 and 1 right below the key, also for a suffix
  that a multisig key is refused for.
\<close>

theorem single_key_suffix_ignored:
  assumes "writable_key k" and "af_input f = descriptor_text (Single k)"
    and "check_form today live f = Inr (trimmed, label, birthday)"
  shows "parseDescriptor trimmed = Inr (Single k) \<and>
    payload_of f trimmed label birthday (with_choice f trimmed (Single k)) = XpubStealth (pk_xpub k) label birthday (af_gap f) (pk_type k)"
  by (rule suffix_lost [OF assms])

definition stray_key :: parsed_key where
  "stray_key = \<lparr>pk_xpub = ''zpubAbc9'', pk_type = P2wpkh, pk_path = ''/5/*'', pk_origin = None\<rparr>"

theorem single_key_suffix_ignored_witness:
  "parseDescriptor ''wpkh(zpubAbc9/5/*)'' = Inr (Single stray_key) \<and>
   payload_of (sample_form\<lparr>af_input := ''wpkh(zpubAbc9/5/*)''\<rparr>) ''wpkh(zpubAbc9/5/*)'' ''cold'' ''2025-01-01''
     (with_choice (sample_form\<lparr>af_input := ''wpkh(zpubAbc9/5/*)''\<rparr>) ''wpkh(zpubAbc9/5/*)'' (Single stray_key)) =
     XpubStealth ''zpubAbc9'' ''cold'' ''2025-01-01'' (Fin 250) P2wpkh \<and>
   resolveLeafDerivation (pk_path stray_key) 0 = Inl (BadChainStep 5)"
proof -
  let ?s = "''wpkh(zpubAbc9/5/*)''"
  let ?f = "sample_form\<lparr>af_input := ?s\<rparr>"
  have "known_suffix ''/5/*''"
    unfolding known_suffix_def by (intro disjI2 disjI1 exI [of _ "''5''"]) (simp add: digits_def is_digit_def)
  moreover have "bare_key ''zpubAbc9''" by code_simp
  ultimately have k: "writable_key stray_key" by (simp add: stray_key_def writable_key_def)
  have text_of: "descriptor_text (Single stray_key) = ?s" by (simp add: stray_key_def key_text_def)
  have "trim_text ?s = ?s" "is_iso_date ''2025-01-01''" "\<not> text_after ''2025-01-01'' ''2026-01-01''" "trim_text ''cold'' = ''cold''"
    by code_simp+
  moreover have "is_integer (Fin 250)" by (simp add: rat_integral_def)
  ultimately have c: "check_form ''2026-01-01'' None ?f = Inr (?s, ''cold'', ''2025-01-01'')"
    by (simp add: check_form_def sample_form_def Let_def)
  have "trim_text ''/5/*'' = ''/5/*''" "match_multipath ''/5/*'' = None" "match_chain ''/5/*'' = Some ''5''"
    by code_simp+
  moreover have "chain_step ''5'' = Inl (BadChainStep 5)" by (simp add: chain_step_def)
  ultimately have "resolveLeafDerivation ''/5/*'' 0 = Inl (BadChainStep 5)"
    by (simp add: resolveLeafDerivation_def)
  moreover have "pk_xpub stray_key = ''zpubAbc9''" "pk_type stray_key = P2wpkh" "pk_path stray_key = ''/5/*''" "af_gap ?f = Fin 250"
    by (simp_all add: stray_key_def sample_form_def)
  moreover have "af_input ?f = descriptor_text (Single stray_key)" unfolding text_of by simp
  ultimately show ?thesis using single_key_suffix_ignored [OF k _ c] by simp
qed

end
