(* ===== verification/Webhooks.thy ===== *)
theory Webhooks
  imports Descriptor PlatformAuth RunLedger
begin

unbundle bit_operations_syntax

text \<open>
  Outbound webhooks, both ends: the payloads of \<open>_shared/webhook-events.ts\<close>, how
  \<open>or-webhook-dispatch/index.ts\<close> signs one, and how the package \<open>packages/webhooks\<close> verifies it at the
  receiver.  HMAC and the text codec are the \<open>web\<close> of \<open>Seal\<close>, JSON text is a \<open>codec\<close>; the text of a
  number beyond \<open>2 ^ 53\<close> is a parameter.
\<close>

section \<open>Payloads\<close>

record sync_completed =
  sc_subaccount :: string
  sc_connection :: string
  sc_count :: jsnum
  sc_provider :: string
  sc_ts :: string

definition completed_data :: "sync_completed \<Rightarrow> (string \<times> json) list" where
  "completed_data i = [(''subaccount_id'', JStr (sc_subaccount i)), (''connection_id'', JStr (sc_connection i)),
     (''synced_count'', JNum (sc_count i)), (''provider'', JStr (sc_provider i)), (''ts'', JStr (sc_ts i))]"

definition buildSyncCompletedPayload :: "sync_completed \<Rightarrow> json" where
  "buildSyncCompletedPayload i =
     JObj ((''event'', JStr ''sync.completed'') # completed_data i @
       [(''type'', JStr ''sync.completed''), (''data'', JObj (completed_data i))])"

datatype reason_code = USER_ACTION_REQUIRED | INSTITUTION_ERROR | PROVIDER_ERROR | SERVICE_ERROR | UNKNOWN

definition reason_text :: "reason_code \<Rightarrow> string" where
  "reason_text r = (case r of
     USER_ACTION_REQUIRED \<Rightarrow> ''USER_ACTION_REQUIRED'' | INSTITUTION_ERROR \<Rightarrow> ''INSTITUTION_ERROR''
   | PROVIDER_ERROR \<Rightarrow> ''PROVIDER_ERROR'' | SERVICE_ERROR \<Rightarrow> ''SERVICE_ERROR'' | UNKNOWN \<Rightarrow> ''UNKNOWN'')"

definition connectionErroredReason :: "string \<Rightarrow> reason_code \<times> bool" where
  "connectionErroredReason eventType =
     (if eventType = ''connection.synced.errored.repairable'' then (USER_ACTION_REQUIRED, True)
      else if eventType = ''connection.synced.errored.institution'' then (INSTITUTION_ERROR, False)
      else if eventType = ''connection.synced.errored.provider'' then (PROVIDER_ERROR, False)
      else if eventType = ''connection.synced.errored.service'' then (SERVICE_ERROR, False)
      else (UNKNOWN, False))"

record connection_errored =
  ce_subaccount :: string
  ce_connection :: string
  ce_reason :: reason_code
  ce_repairable :: bool

definition errored_data :: "connection_errored \<Rightarrow> (string \<times> json) list" where
  "errored_data i = [(''subaccount_id'', JStr (ce_subaccount i)), (''connection_id'', JStr (ce_connection i)),
     (''reason_code'', JStr (reason_text (ce_reason i))), (''repairable'', JBool (ce_repairable i))]"

definition buildConnectionErroredPayload :: "connection_errored \<Rightarrow> json" where
  "buildConnectionErroredPayload i = JObj [(''type'', JStr ''connection.errored''), (''data'', JObj (errored_data i))]"

section \<open>Signing\<close>

record wh_platform =
  wp_web :: web
  wp_json :: "json codec"
  wp_number :: "nat \<Rightarrow> string"

text \<open>A positive whole number in a template string.\<close>

definition number_text :: "wh_platform \<Rightarrow> nat \<Rightarrow> string" where
  "number_text p n = (if n < 2 ^ 53 then nat_text n else wp_number p n)"

definition computeSignature :: "web \<Rightarrow> string \<Rightarrow> string \<Rightarrow> string" where
  "computeSignature w secret body = concat (map byte_hex (w_hmac w (w_encode w secret) (w_encode w body)))"

definition delivery_headers :: "wh_platform \<Rightarrow> string \<Rightarrow> string \<Rightarrow> nat \<Rightarrow> string \<Rightarrow> (string \<times> string) list" where
  "delivery_headers p secret bodyStr tsSeconds event_id =
     (let signatureV1 = computeSignature (wp_web p) secret bodyStr;
          signatureV2Hex = computeSignature (wp_web p) secret (number_text p tsSeconds @ ''.'' @ bodyStr)
      in [(''Content-Type'', ''application/json''), (''X-OR-Signature'', signatureV1),
          (''X-OR-Signature-V2'', ''t='' @ number_text p tsSeconds @ '',v1='' @ signatureV2Hex), (''X-OR-Event-Id'', event_id)])"

section \<open>Verifying\<close>

text \<open>\<open>verify.ts\<close>: the loop that builds the hexadecimal text, and the comparison in constant time.\<close>

definition bytesToHex_loop :: "bytes \<Rightarrow> string" where
  "bytesToHex_loop bs = foldl (\<lambda>out b. out @ byte_hex b) [] bs"

definition computeHmacSha256Hex :: "web \<Rightarrow> string \<Rightarrow> string \<Rightarrow> string" where
  "computeHmacSha256Hex w secret body = bytesToHex_loop (w_hmac w (w_encode w secret) (w_encode w body))"

definition timingSafeEqualHex :: "string \<Rightarrow> string \<Rightarrow> bool" where
  "timingSafeEqualHex a b \<longleftrightarrow> length a = length b \<and>
     foldl (\<lambda>diff (x, y). diff OR (of_nat (of_char x) XOR of_nat (of_char y))) (0 :: 32 word) (zip a b) = 0"

text \<open>A header is missing (or \<open>null\<close>), a text, or a list of texts.\<close>

datatype header_value = Missing | Text string | Texts "string list"

fun readHeader :: "(string \<times> header_value) list \<Rightarrow> string \<Rightarrow> string option" where
  "readHeader [] name = None"
| "readHeader ((key, v) # hs) name =
     (if map lower_char key = map lower_char name
      then case v of Missing \<Rightarrow> None | Text s \<Rightarrow> Some s | Texts ss \<Rightarrow> (case ss of [] \<Rightarrow> None | s # _ \<Rightarrow> Some s)
      else readHeader hs name)"

fun split_on :: "char \<Rightarrow> string \<Rightarrow> string list" where
  "split_on c [] = [[]]"
| "split_on c (x # s) = (if x = c then [] # split_on c s else (case split_on c s of [] \<Rightarrow> [[x]] | p # ps \<Rightarrow> (x # p) # ps))"

fun v2_parts :: "string list \<Rightarrow> nat option \<times> string list \<Rightarrow> (nat option \<times> string list) option" where
  "v2_parts [] acc = Some acc"
| "v2_parts (part # parts) (stamp, signatures) =
     (if CHR ''='' \<notin> set part then None
      else let k = takeWhile ((\<noteq>) (CHR ''='')) part; v = tl (dropWhile ((\<noteq>) (CHR ''='')) part) in
        if k = ''t'' then (case parse_int v of
            None \<Rightarrow> None
          | Some n \<Rightarrow> if n \<le> 0 \<or> 2 ^ 1024 - 2 ^ 970 \<le> n then None else v2_parts parts (Some (round53 (nat n)), signatures))
        else if k = ''v1'' then v2_parts parts (stamp, signatures @ [v])
        else v2_parts parts (stamp, signatures))"

definition parseV2Header :: "string \<Rightarrow> (nat \<times> string list) option" where
  "parseV2Header header =
     (case v2_parts (map trim_text (split_on (CHR '','') header)) (None, []) of
        Some (Some stamp, signatures) \<Rightarrow> Some (stamp, signatures)
      | _ \<Rightarrow> None)"

datatype webhook_error =
  BodyNotText | NoSecret | NoSignatureHeader | NoEventId | V1Mismatch | V2Malformed | V2NoSignature | V2Mismatch
| OutsideTolerance int | NotJson | NotAnObject | UnsupportedType | NoData

record wh_event =
  ev_id :: string
  ev_type :: string
  ev_data :: json

record construct_options =
  op_body :: "string option"
  op_headers :: "(string \<times> header_value) list"
  op_secret :: "string option"
  op_tolerance :: "jsnum option"
  op_now :: int

definition DEFAULT_TOLERANCE_SECONDS :: jsnum where "DEFAULT_TOLERANCE_SECONDS = Fin 300"

definition verifyV1 :: "wh_platform \<Rightarrow> string \<Rightarrow> string \<Rightarrow> string \<Rightarrow> webhook_error + unit" where
  "verifyV1 p rawBody secret sigHeader =
     (if timingSafeEqualHex (computeHmacSha256Hex (wp_web p) secret rawBody) (trim_text sigHeader) then Inr () else Inl V1Mismatch)"

definition verifyV2 :: "wh_platform \<Rightarrow> string \<Rightarrow> string \<Rightarrow> string \<Rightarrow> jsnum \<Rightarrow> int \<Rightarrow> webhook_error + unit" where
  "verifyV2 p rawBody secret sigHeader tolerance now =
     (case parseV2Header sigHeader of
        None \<Rightarrow> Inl V2Malformed
      | Some (stamp, signatures) \<Rightarrow>
          if signatures = [] then Inl V2NoSignature
          else (let expected = computeHmacSha256Hex (wp_web p) secret (number_text p stamp @ ''.'' @ rawBody);
                    skew = \<bar>now - int stamp\<bar> in
            if \<not> list_ex (timingSafeEqualHex expected) signatures then Inl V2Mismatch
            else if js_lt tolerance (jsint skew) then Inl (OutsideTolerance skew)
            else Inr ()))"

definition is_object :: "json \<Rightarrow> bool" where
  "is_object x \<longleftrightarrow> (case x of JArr _ \<Rightarrow> True | JObj _ \<Rightarrow> True | _ \<Rightarrow> False)"

definition EVENT_TYPES :: "string list" where
  "EVENT_TYPES = [''sync.completed'', ''connection.errored'']"

definition parseEvent :: "wh_platform \<Rightarrow> string \<Rightarrow> string \<Rightarrow> webhook_error + wh_event" where
  "parseEvent p rawBody eventId =
     (case parse (wp_json p) rawBody of
        None \<Rightarrow> Inl NotJson
      | Some parsed \<Rightarrow>
          if \<not> is_object parsed then Inl NotAnObject
          else (case field parsed ''type'' of
                  Some (JStr type_name) \<Rightarrow>
                    if type_name \<notin> set EVENT_TYPES then Inl UnsupportedType
                    else (case field parsed ''data'' of
                            None \<Rightarrow> Inl NoData
                          | Some d \<Rightarrow> if is_object d then Inr \<lparr>ev_id = eventId, ev_type = type_name, ev_data = d\<rparr> else Inl NoData)
                | _ \<Rightarrow> Inl UnsupportedType))"

definition constructEvent :: "wh_platform \<Rightarrow> construct_options \<Rightarrow> webhook_error + wh_event" where
  "constructEvent p o1 =
     (let tolerance = (case op_tolerance o1 of Some t \<Rightarrow> t | None \<Rightarrow> DEFAULT_TOLERANCE_SECONDS);
          sigV2 = readHeader (op_headers o1) ''x-or-signature-v2''; sigV1 = readHeader (op_headers o1) ''x-or-signature'';
          eventId = readHeader (op_headers o1) ''x-or-event-id''
      in case op_body o1 of
           None \<Rightarrow> Inl BodyNotText
         | Some rawBody \<Rightarrow>
             if \<not> present (op_secret o1) then Inl NoSecret
             else if \<not> present sigV2 \<and> \<not> present sigV1 then Inl NoSignatureHeader
             else if \<not> present eventId then Inl NoEventId
             else case (if present sigV2 then verifyV2 p rawBody (the (op_secret o1)) (the sigV2) tolerance (op_now o1)
                        else verifyV1 p rawBody (the (op_secret o1)) (the sigV1)) of
                    Inl e \<Rightarrow> Inl e
                  | Inr _ \<Rightarrow> parseEvent p rawBody (the eventId))"

section \<open>The two ends agree\<close>

lemma bytesToHex_loop_concat: "bytesToHex_loop bs = concat (map byte_hex bs)"
  unfolding bytesToHex_loop_def by (induction bs rule: rev_induct) simp_all

lemma hmac_same: "computeHmacSha256Hex = computeSignature"
  by (simp add: computeHmacSha256Hex_def computeSignature_def bytesToHex_loop_concat fun_eq_iff)

lemma char_word: "of_nat (of_char x) = (of_nat (of_char y) :: 32 word) \<longleftrightarrow> x = y"
proof
  assume "of_nat (of_char x) = (of_nat (of_char y) :: 32 word)"
  moreover have "unat (of_nat (of_char c) :: 32 word) = of_char c" for c
    by (subst unat_of_nat) (simp add: less_trans [OF nat_of_char_less_256])
  ultimately have "(of_char x :: nat) = of_char y" by metis
  then show "x = y" by simp
qed simp

lemma xor_zero: "(a XOR b :: 32 word) = 0 \<longleftrightarrow> a = b"
proof
  assume "a XOR b = 0"
  then have "a XOR (a XOR b) = a" by simp
  moreover have "a XOR (a XOR b) = b" by (simp only: xor.assoc [symmetric] xor_self_eq xor.left_neutral)
  ultimately show "a = b" by simp
qed simp

lemma timing_safe_iff: "timingSafeEqualHex a b \<longleftrightarrow> a = b"
proof -
  have fold: "foldl (\<lambda>diff (x, y). diff OR (of_nat (of_char x) XOR of_nat (of_char y))) d ps = 0 \<longleftrightarrow>
      d = (0 :: 32 word) \<and> list_all (\<lambda>(x, y). x = y) ps" for d and ps :: "(char \<times> char) list"
  proof (induction ps arbitrary: d)
    case (Cons xy ps)
    obtain x y where xy: "xy = (x, y)" by fastforce
    have "(of_nat (of_char x) XOR of_nat (of_char y) :: 32 word) = 0 \<longleftrightarrow> x = y"
      unfolding char_word [symmetric] by (rule xor_zero)
    then have "d OR (of_nat (of_char x) XOR of_nat (of_char y)) = 0 \<longleftrightarrow> d = 0 \<and> x = y" by (simp add: or_eq_0_iff)
    then show ?case using Cons by (simp add: xy)
  qed simp
  have "length a = length b \<Longrightarrow> list_all (\<lambda>(x, y). x = y) (zip a b) \<longleftrightarrow> a = b"
    by (induction a b rule: list_induct2) auto
  then show ?thesis unfolding timingSafeEqualHex_def fold by auto
qed

lemma signature_hex: "list_all is_lower_hex (computeSignature w secret m)"
  using hexEncode_hex [of "w_hmac w (w_encode w secret) (w_encode w m)"] by (simp add: computeSignature_def hexEncode_def)

lemma split_on_plain: "c \<notin> set s \<Longrightarrow> split_on c s = [s]"
  by (induction s) auto

lemma split_on_first: "c \<notin> set s \<Longrightarrow> split_on c (s @ c # r) = s # split_on c r"
  by (induction s) auto

lemma hex_plain: "is_lower_hex c \<Longrightarrow> \<not> is_space c \<and> c \<noteq> CHR '','' \<and> c \<noteq> CHR ''=''"
  by (auto simp: is_lower_hex_def is_space_def)

text \<open>The header that the dispatcher writes is read back.\<close>

lemma parse_written_header:
  assumes "0 < t" and "t < 2 ^ 53"
  shows "parseV2Header (''t='' @ number_text p t @ '',v1='' @ computeSignature w secret m) = Some (t, [computeSignature w secret m])"
proof -
  let ?d = "nat_text t" and ?s = "computeSignature w secret m"
  have d: "?d \<noteq> []" "c \<in> set ?d \<Longrightarrow> is_digit c" for c
    using nat_text_ends [of t] by (auto simp: list_all_iff)
  have s: "c \<in> set ?s \<Longrightarrow> is_lower_hex c" for c using signature_hex [of w secret m] by (auto simp: list_all_iff)
  have plain: "is_digit c \<Longrightarrow> c \<noteq> CHR '','' \<and> c \<noteq> CHR ''='' \<and> \<not> is_space c" for c
    by (auto simp: is_digit_def is_space_def)
  have "CHR '','' \<notin> set (''t='' @ ?d)" using d(2) plain by auto
  moreover have "CHR '','' \<notin> set (''v1='' @ ?s)" using s hex_plain by auto
  ultimately have split: "split_on (CHR '','') (''t='' @ ?d @ '',v1='' @ ?s) = [''t='' @ ?d, ''v1='' @ ?s]"
    using split_on_first [of "CHR '',''" "''t='' @ ?d" "''v1='' @ ?s"] split_on_plain [of "CHR '',''" "''v1='' @ ?s"] by simp
  have t: "trim_text (''t='' @ ?d) = ''t='' @ ?d"
    using d plain by (intro trim_text_plain) (simp add: is_space_def)
  have v: "trim_text (''v1='' @ ?s) = ''v1='' @ ?s"
  proof (rule trim_text_plain)
    have "\<not> is_space (last (''v1='' @ ?s))" using s hex_plain by (cases "?s = []") (simp_all add: is_space_def)
    then show "''v1='' @ ?s = [] \<or> \<not> is_space (hd (''v1='' @ ?s)) \<and> \<not> is_space (last (''v1='' @ ?s))" by (simp add: is_space_def)
  qed
  have "parse_int ?d = Some (int t)" using parse_int_nat [of t] assms(2) by simp
  then show ?thesis
    using assms unfolding number_text_def parseV2Header_def
    by (simp only: if_True split list.map t v) (simp add: round53_exact)
qed

section \<open>Deliveries\<close>

inductive announces :: "json \<Rightarrow> string \<Rightarrow> json \<Rightarrow> bool" where
  completed: "announces (buildSyncCompletedPayload i) ''sync.completed'' (JObj (completed_data i))"
| errored: "announces (buildConnectionErroredPayload j) ''connection.errored'' (JObj (errored_data j))"

lemma announced_event:
  assumes "announces x type_name d" and "parse (wp_json p) b = Some x"
  shows "parseEvent p b eid = Inr \<lparr>ev_id = eid, ev_type = type_name, ev_data = d\<rparr>"
  using assms
  by cases (auto simp: parseEvent_def buildSyncCompletedPayload_def buildConnectionErroredPayload_def completed_data_def
      is_object_def EVENT_TYPES_def)

text \<open>The headers as they arrive: in any letter case.\<close>

definition arrived :: "(string \<Rightarrow> string) \<Rightarrow> (string \<times> string) list \<Rightarrow> (string \<times> header_value) list" where
  "arrived recase hs = map (\<lambda>(k, v). (recase k, Text v)) hs"

lemma readHeader_arrived:
  assumes "\<forall>k. map lower_char (recase k) = map lower_char k"
  shows "readHeader (arrived recase ((k, v) # hs)) n =
    (if map lower_char k = map lower_char n then Some v else readHeader (arrived recase hs) n)"
  using assms by (simp add: arrived_def)

lemma header_names:
  "(map lower_char ''Content-Type'' = map lower_char ''x-or-signature-v2'') = False"
  "(map lower_char ''Content-Type'' = map lower_char ''x-or-signature'') = False"
  "(map lower_char ''Content-Type'' = map lower_char ''x-or-event-id'') = False"
  "(map lower_char ''X-OR-Signature'' = map lower_char ''x-or-signature-v2'') = False"
  "(map lower_char ''X-OR-Signature'' = map lower_char ''x-or-signature'') = True"
  "(map lower_char ''X-OR-Signature'' = map lower_char ''x-or-event-id'') = False"
  "(map lower_char ''X-OR-Signature-V2'' = map lower_char ''x-or-signature-v2'') = True"
  "(map lower_char ''X-OR-Signature-V2'' = map lower_char ''x-or-event-id'') = False"
  "(map lower_char ''X-OR-Event-Id'' = map lower_char ''x-or-signature-v2'') = False"
  "(map lower_char ''X-OR-Event-Id'' = map lower_char ''x-or-event-id'') = True"
  by code_simp+

lemma read_arrived:
  assumes "\<forall>k. map lower_char (recase k) = map lower_char k"
  shows "readHeader (arrived recase (delivery_headers p secret b ts eid)) ''x-or-signature-v2'' =
      Some (''t='' @ number_text p ts @ '',v1='' @ computeSignature (wp_web p) secret (number_text p ts @ ''.'' @ b))"
    "readHeader (arrived recase (delivery_headers p secret b ts eid)) ''x-or-signature'' = Some (computeSignature (wp_web p) secret b)"
    "readHeader (arrived recase (delivery_headers p secret b ts eid)) ''x-or-event-id'' = Some eid"
  unfolding delivery_headers_def Let_def
  by (simp_all only: readHeader_arrived [OF assms] header_names if_True if_False)

lemma present_Some [simp]: "present (Some s) \<longleftrightarrow> s \<noteq> []"
  by (simp add: present_def)

lemma present_None [simp]: "\<not> present None"
  by (simp add: present_def)

lemma delivery_accepted:
  assumes "announces x type_name d" and "parse (wp_json p) (stringify (wp_json p) x) = Some x"
    and "\<forall>k. map lower_char (recase k) = map lower_char k"
    and "secret \<noteq> []" and "eid \<noteq> []" and "0 < ts" and "ts < 2 ^ 53" and "\<bar>now - int ts\<bar> \<le> 300"
  shows "constructEvent p \<lparr>op_body = Some (stringify (wp_json p) x),
      op_headers = arrived recase (delivery_headers p secret (stringify (wp_json p) x) ts eid),
      op_secret = Some secret, op_tolerance = None, op_now = now\<rparr> = Inr \<lparr>ev_id = eid, ev_type = type_name, ev_data = d\<rparr>"
proof -
  let ?b = "stringify (wp_json p) x"
  let ?sig = "computeSignature (wp_web p) secret (number_text p ts @ ''.'' @ ?b)"
  have le: "\<not> js_lt (Fin 300) (jsint \<bar>now - int ts\<bar>)"
    using assms(8) by (simp add: not_less)
  have "verifyV2 p ?b secret (''t='' @ number_text p ts @ '',v1='' @ ?sig) (Fin 300) now = Inr ()"
    using parse_written_header [OF assms(6,7), of p "wp_web p" secret "number_text p ts @ ''.'' @ ?b"] le
    by (simp add: verifyV2_def hmac_same timing_safe_iff Let_def)
  then show ?thesis
    using assms(4,5) announced_event [OF assms(1,2)]
    by (simp add: constructEvent_def read_arrived [OF assms(3)] DEFAULT_TOLERANCE_SECONDS_def Let_def)
qed

section \<open>Nothing but deliveries\<close>

text \<open>What the language gives of number and JSON texts.\<close>

definition number_law :: "wh_platform \<Rightarrow> bool" where
  "number_law p \<longleftrightarrow> (\<forall>n \<ge> 2 ^ 53. wp_number p n \<noteq> [] \<and> is_digit (hd (wp_number p n)) \<and>
     set (wp_number p n) \<subseteq> set ''0123456789.e+'' \<and> (\<forall>t < 2 ^ 53. wp_number p n \<noteq> nat_text t))"

definition json_law :: "json codec \<Rightarrow> bool" where
  "json_law c \<longleftrightarrow> (\<forall>kvs. parse c (stringify c (JObj kvs)) = Some (JObj kvs) \<and> (\<exists>r. stringify c (JObj kvs) = CHR ''{'' # r)) \<and>
     (\<forall>t r. parse c (nat_text t @ ''.'' @ CHR ''{'' # r) = None)"

text \<open>
  The signatures that a request presents, the texts whose code the receiver may compare with them, and
  what a forger cannot do: present the code of one of these texts when the dispatcher did not sign it.
  \<open>sent\<close> has the payloads it signed with the times it did.
\<close>

definition presented :: "(string \<times> header_value) list \<Rightarrow> string set" where
  "presented hs =
     (case readHeader hs ''x-or-signature-v2'' of None \<Rightarrow> {} | Some h \<Rightarrow> (case parseV2Header h of None \<Rightarrow> {} | Some (_, sigs) \<Rightarrow> set sigs)) \<union>
     (case readHeader hs ''x-or-signature'' of None \<Rightarrow> {} | Some h \<Rightarrow> {trim_text h})"

definition checked :: "wh_platform \<Rightarrow> string \<Rightarrow> (string \<times> header_value) list \<Rightarrow> string set" where
  "checked p raw hs = insert raw {number_text p t @ ''.'' @ raw |t sigs h.
     readHeader hs ''x-or-signature-v2'' = Some h \<and> parseV2Header h = Some (t, sigs)}"

definition unforged :: "wh_platform \<Rightarrow> string \<Rightarrow> (json \<times> nat) set \<Rightarrow> string \<Rightarrow> (string \<times> header_value) list \<Rightarrow> bool" where
  "unforged p secret sent raw hs \<longleftrightarrow> (\<forall>m \<in> checked p raw hs. computeSignature (wp_web p) secret m \<in> presented hs \<longrightarrow>
     (\<exists>(x, t) \<in> sent. m = stringify (wp_json p) x \<or> m = number_text p t @ ''.'' @ stringify (wp_json p) x))"

definition dispatched :: "(json \<times> nat) set \<Rightarrow> bool" where
  "dispatched sent \<longleftrightarrow> (\<forall>(x, t) \<in> sent. (\<exists>kvs. x = JObj kvs) \<and> 0 < t \<and> t < 2 ^ 53)"

lemma number_text_digits:
  assumes "number_law p"
  shows "number_text p n \<noteq> [] \<and> is_digit (hd (number_text p n)) \<and> set (number_text p n) \<subseteq> set ''0123456789.e+''"
proof (cases "n < 2 ^ 53")
  case True
  have d: "nat_text n \<noteq> []" "\<forall>c \<in> set (nat_text n). is_digit c" using nat_text_ends [of n] by (simp_all add: list_all_iff)
  have "set ''0123456789'' \<subseteq> set ''0123456789.e+''" by code_simp
  then have "set (nat_text n) \<subseteq> set ''0123456789.e+''" using d(2) unfolding is_digit_def by (meson subsetD subsetI)
  then show ?thesis using d hd_in_set [OF d(1)] True unfolding number_text_def by simp
next
  case False
  then show ?thesis using assms by (simp add: number_text_def number_law_def)
qed

lemma signed_text_split:
  assumes "nat_text t @ ''.'' @ b = u @ ''.'' @ raw" and "b = CHR ''{'' # r" and "set u \<subseteq> set ''0123456789.e+''"
  shows "u = nat_text t \<and> raw = b"
proof -
  have dot: "CHR ''.'' \<notin> set (nat_text t)"
  proof
    assume "CHR ''.'' \<in> set (nat_text t)"
    then have "is_digit (CHR ''.'')" using nat_text_ends [of t] by (auto simp: list_all_iff)
    then show False by (simp add: is_digit_def)
  qed
  obtain us where "nat_text t = u @ us \<and> us @ ''.'' @ b = ''.'' @ raw \<or> nat_text t @ us = u \<and> ''.'' @ b = us @ ''.'' @ raw"
    using assms(1) unfolding append_eq_append_conv2 by blast
  then show ?thesis
  proof
    assume a: "nat_text t = u @ us \<and> us @ ''.'' @ b = ''.'' @ raw"
    then show ?thesis using dot by (cases us) auto
  next
    assume a: "nat_text t @ us = u \<and> ''.'' @ b = us @ ''.'' @ raw"
    show ?thesis
    proof (cases us)
      case (Cons c us')
      then have "b = us' @ ''.'' @ raw" using a by simp
      then have "CHR ''{'' \<in> set us'" using assms(2) by (cases us') auto
      then have "CHR ''{'' \<in> set u" using a Cons by auto
      then show ?thesis using assms(3) by auto
    qed (use a in auto)
  qed
qed

lemma parsed_event:
  assumes "parseEvent p b eid = Inr ev" and "parse (wp_json p) b = Some x"
  shows "field x ''type'' = Some (JStr (ev_type ev)) \<and> field x ''data'' = Some (ev_data ev) \<and> ev_id ev = eid"
  using assms by (auto simp: parseEvent_def split: if_splits option.splits json.splits)

lemma verified_v2:
  assumes "verifyV2 p raw secret h tol now = Inr ()"
  obtains stamp sigs where "parseV2Header h = Some (stamp, sigs)"
    "computeSignature (wp_web p) secret (number_text p stamp @ ''.'' @ raw) \<in> set sigs" "\<not> js_lt tol (jsint \<bar>now - int stamp\<bar>)"
  using assms
  by (auto simp: verifyV2_def hmac_same timing_safe_iff [abs_def] list_ex_iff Let_def split: option.splits if_splits prod.splits)

lemma v2_is_dispatched:
  assumes "number_law p" and "json_law (wp_json p)" and "dispatched sent" and "unforged p secret sent raw hs"
    and "readHeader hs ''x-or-signature-v2'' = Some h" and "verifyV2 p raw secret h tol now = Inr ()"
  shows "\<exists>(x, t) \<in> sent. raw = stringify (wp_json p) x \<and> \<not> js_lt tol (jsint \<bar>now - int t\<bar>)"
proof -
  obtain stamp sigs where v: "parseV2Header h = Some (stamp, sigs)"
      "computeSignature (wp_web p) secret (number_text p stamp @ ''.'' @ raw) \<in> set sigs" "\<not> js_lt tol (jsint \<bar>now - int stamp\<bar>)"
    by (rule verified_v2 [OF assms(6)])
  then have "computeSignature (wp_web p) secret (number_text p stamp @ ''.'' @ raw) \<in> presented hs"
    using assms(5) by (simp add: presented_def)
  then obtain x t where x: "(x, t) \<in> sent" "number_text p stamp @ ''.'' @ raw = stringify (wp_json p) x \<or>
      number_text p stamp @ ''.'' @ raw = number_text p t @ ''.'' @ stringify (wp_json p) x"
    using assms(4,5) v(1) unfolding unforged_def checked_def by blast
  obtain r where r: "stringify (wp_json p) x = CHR ''{'' # r" and t: "t < 2 ^ 53"
    using assms(2,3) x(1) by (fastforce simp: json_law_def dispatched_def)
  note n = number_text_digits [OF assms(1), of stamp]
  have "number_text p stamp @ ''.'' @ raw \<noteq> stringify (wp_json p) x"
  proof
    assume "number_text p stamp @ ''.'' @ raw = stringify (wp_json p) x"
    then have "hd (number_text p stamp) = CHR ''{''" using n r by (metis hd_append2 list.sel(1))
    then show False using n by (simp add: is_digit_def)
  qed
  then have "nat_text t @ ''.'' @ stringify (wp_json p) x = number_text p stamp @ ''.'' @ raw"
    using x(2) t by (simp add: number_text_def)
  from signed_text_split [OF this r] n have s: "number_text p stamp = nat_text t" "raw = stringify (wp_json p) x" by simp_all
  then have "stamp < 2 ^ 53" using assms(1) t by (force simp: number_text_def number_law_def split: if_splits)
  then have "stamp = t" using s(1) by (simp add: number_text_def nat_text_inject)
  then show ?thesis using x(1) s(2) v(3) by blast
qed

lemma v1_is_dispatched:
  assumes "json_law (wp_json p)" and "dispatched sent" and "unforged p secret sent raw hs"
    and "readHeader hs ''x-or-signature'' = Some h" and "verifyV1 p raw secret h = Inr ()" and "parse (wp_json p) raw \<noteq> None"
  shows "\<exists>(x, t) \<in> sent. raw = stringify (wp_json p) x"
proof -
  have "computeSignature (wp_web p) secret raw \<in> presented hs"
    using assms(4,5) by (auto simp: presented_def verifyV1_def hmac_same timing_safe_iff split: if_splits)
  then obtain x t where x: "(x, t) \<in> sent" "raw = stringify (wp_json p) x \<or> raw = number_text p t @ ''.'' @ stringify (wp_json p) x"
    using assms(3) unfolding unforged_def checked_def by blast
  obtain r where r: "stringify (wp_json p) x = CHR ''{'' # r" "t < 2 ^ 53"
    using assms(1,2) x(1) by (fastforce simp: json_law_def dispatched_def)
  have "raw \<noteq> number_text p t @ ''.'' @ stringify (wp_json p) x"
    using assms(1,6) r by (auto simp: json_law_def number_text_def)
  then show ?thesis using x by blast
qed

lemma accepted_dispatched:
  assumes "number_law p" and "json_law (wp_json p)" and "dispatched sent" and "\<forall>raw. op_body o1 = Some raw \<longrightarrow> unforged p secret sent raw (op_headers o1)"
    and "op_secret o1 = Some secret" and "constructEvent p o1 = Inr ev"
  shows "\<exists>(x, t) \<in> sent. op_body o1 = Some (stringify (wp_json p) x) \<and>
    field x ''type'' = Some (JStr (ev_type ev)) \<and> field x ''data'' = Some (ev_data ev) \<and>
    (present (readHeader (op_headers o1) ''x-or-signature-v2'') \<longrightarrow>
      \<not> js_lt (case op_tolerance o1 of Some tol \<Rightarrow> tol | None \<Rightarrow> Fin 300) (jsint \<bar>op_now o1 - int t\<bar>))"
proof -
  let ?v2 = "readHeader (op_headers o1) ''x-or-signature-v2''" and ?v1 = "readHeader (op_headers o1) ''x-or-signature''"
  let ?tol = "case op_tolerance o1 of Some tol \<Rightarrow> tol | None \<Rightarrow> Fin 300"
  obtain raw where raw: "op_body o1 = Some raw" using assms(6) by (auto simp: constructEvent_def Let_def split: option.splits)
  have unf: "unforged p secret sent raw (op_headers o1)" using assms(4) raw by blast
  obtain eid where ev: "parseEvent p raw eid = Inr ev"
    using assms(6) raw by (auto simp: constructEvent_def Let_def split: if_splits sum.splits)
  obtain y where y: "parse (wp_json p) raw = Some y"
    using ev by (auto simp: parseEvent_def split: option.splits)
  have "\<exists>(x, t) \<in> sent. raw = stringify (wp_json p) x \<and> (present ?v2 \<longrightarrow> \<not> js_lt ?tol (jsint \<bar>op_now o1 - int t\<bar>))"
  proof (cases "present ?v2")
    case True
    then obtain h where h: "?v2 = Some h" by (auto simp: present_def)
    have tol: "(case op_tolerance o1 of None \<Rightarrow> DEFAULT_TOLERANCE_SECONDS | Some t \<Rightarrow> t) = ?tol"
      by (simp add: DEFAULT_TOLERANCE_SECONDS_def split: option.split)
    have "verifyV2 p raw secret h ?tol (op_now o1) = Inr ()"
      using assms(5,6) raw True h by (auto simp: constructEvent_def Let_def tol split: if_splits sum.splits)
    from v2_is_dispatched [OF assms(1-3) unf h this] show ?thesis by blast
  next
    case False
    then obtain h where h: "?v1 = Some h" using assms(5,6) raw by (auto simp: constructEvent_def Let_def present_def split: if_splits)
    have "verifyV1 p raw secret h = Inr ()"
      using assms(5,6) raw False h by (auto simp: constructEvent_def Let_def split: if_splits sum.splits)
    from v1_is_dispatched [OF assms(2,3) unf h this] y show ?thesis using False by simp
  qed
  then obtain x t where x: "(x, t) \<in> sent" "raw = stringify (wp_json p) x"
      "present ?v2 \<longrightarrow> \<not> js_lt ?tol (jsint \<bar>op_now o1 - int t\<bar>)" by blast
  have "parse (wp_json p) raw = Some x" using assms(2,3) x(1,2) by (fastforce simp: json_law_def dispatched_def)
  from parsed_event [OF ev this] show ?thesis using x raw by blast
qed

lemma hex_no_space: "list_all is_lower_hex s \<Longrightarrow> trim_text s = s"
  by (rule trim_text_plain) (cases "s = []"; simp add: hex_plain list_all_iff)

lemma replayed:
  assumes "announces x type_name d" and "parse (wp_json p) (stringify (wp_json p) x) = Some x" and "secret \<noteq> []" and "new_id \<noteq> []"
    and "(''X-OR-Signature'', sig) \<in> set (delivery_headers p secret (stringify (wp_json p) x) ts eid)" and "web_laws (wp_web p)"
  shows "constructEvent p \<lparr>op_body = Some (stringify (wp_json p) x),
      op_headers = [(''X-OR-Signature'', Text sig), (''X-OR-Event-Id'', Text new_id)],
      op_secret = Some secret, op_tolerance = tol, op_now = now\<rparr> = Inr \<lparr>ev_id = new_id, ev_type = type_name, ev_data = d\<rparr>"
proof -
  have sig: "sig = computeSignature (wp_web p) secret (stringify (wp_json p) x)"
    using assms(5) by (auto simp: delivery_headers_def Let_def)
  have v1: "verifyV1 p (stringify (wp_json p) x) secret sig = Inr ()"
    by (simp add: verifyV1_def hmac_same timing_safe_iff sig hex_no_space [OF signature_hex])
  have "length sig = 64"
    using hexEncode_hex [of "w_hmac (wp_web p) (w_encode (wp_web p) secret) (w_encode (wp_web p) (stringify (wp_json p) x))"] assms(6)
    by (simp add: sig computeSignature_def hexEncode_def web_lawsD)
  then have "sig \<noteq> []" by auto
  have hs: "readHeader [(''X-OR-Signature'', Text sig), (''X-OR-Event-Id'', Text new_id)] ''x-or-signature-v2'' = None"
      "readHeader [(''X-OR-Signature'', Text sig), (''X-OR-Event-Id'', Text new_id)] ''x-or-signature'' = Some sig"
      "readHeader [(''X-OR-Signature'', Text sig), (''X-OR-Event-Id'', Text new_id)] ''x-or-event-id'' = Some new_id"
    by (simp_all only: readHeader.simps header_names if_True if_False header_value.case)
  show ?thesis
    using assms(3,4) v1 \<open>sig \<noteq> []\<close> announced_event [OF assms(1,2)] by (simp add: constructEvent_def hs Let_def del: readHeader.simps)
qed

section \<open>A small platform\<close>

text \<open>An HMAC that keeps the message, and JSON texts that are numbers behind a brace.\<close>

definition brace_codec :: "json codec" where
  "brace_codec = \<lparr>stringify = (\<lambda>x. (case x of JObj _ \<Rightarrow> ''{'' | _ \<Rightarrow> []) @ nat_text (to_nat x)),
     parse = (\<lambda>s. if starts_with ''{'' s then Some (from_nat (digits_value (tl s))) else None)\<rparr>"

definition sample_platform2 :: wh_platform where
  "sample_platform2 = \<lparr>wp_web = sample_web\<lparr>w_hmac := \<lambda>k m. m\<rparr>, wp_json = brace_codec, wp_number = (\<lambda>n. ''1e'' @ nat_text n)\<rparr>"

definition sample_sync :: sync_completed where
  "sample_sync = \<lparr>sc_subaccount = ''s'', sc_connection = ''c'', sc_count = Fin 2, sc_provider = ''strike'', sc_ts = ''t''\<rparr>"

lemma sample_announces: "announces (buildSyncCompletedPayload sample_sync) ''sync.completed'' (JObj (completed_data sample_sync))"
  by (rule announces.completed)

lemma brace_law: "json_law brace_codec"
proof -
  have "parse brace_codec (nat_text t @ ''.'' @ CHR ''{'' # r) = None" for t r
  proof -
    obtain c s where c: "nat_text t = c # s" using nat_text_ends by (meson neq_Nil_conv)
    then have "is_digit c" using nat_text_ends [of t] by simp
    then have "c \<noteq> CHR ''{''" by (auto simp: is_digit_def)
    then show ?thesis by (simp add: brace_codec_def starts_with_def c)
  qed
  then show ?thesis
    by (simp add: json_law_def brace_codec_def starts_with_def digits_value_nat_text del: digits_value.simps)
qed

lemma sample_number_law: "number_law sample_platform2"
proof -
  have "set (nat_text n) \<subseteq> set ''0123456789.e+''" for n
  proof -
    have "set ''0123456789'' \<subseteq> set ''0123456789.e+''" by code_simp
    then show ?thesis using nat_text_ends [of n] unfolding is_digit_def list_all_iff by (meson subsetD subsetI)
  qed
  moreover have "''1e'' @ nat_text n \<noteq> nat_text t" for n t
  proof
    assume "''1e'' @ nat_text n = nat_text t"
    then have "CHR ''e'' \<in> set (nat_text t)" by (metis append_Cons list.set_intros)
    then have "is_digit (CHR ''e'')" using nat_text_ends [of t] by (simp add: list_all_iff)
    then show False by (simp add: is_digit_def)
  qed
  ultimately show ?thesis by (simp add: number_law_def sample_platform2_def is_digit_def)
qed

lemma sample_parses: "parse (wp_json sample_platform2) (stringify (wp_json sample_platform2) (buildSyncCompletedPayload i)) =
    Some (buildSyncCompletedPayload i)"
  using brace_law by (simp add: sample_platform2_def json_law_def buildSyncCompletedPayload_def)

lemma sample_signature_inject: "computeSignature (wp_web sample_platform2) k m = computeSignature (wp_web sample_platform2) k m' \<longleftrightarrow> m = m'"
proof -
  have "w_encode sample_web m = w_encode sample_web m' \<longleftrightarrow> m = m'"
    using web_lawsD(1) [OF sample_web_laws] by metis
  then show ?thesis
    using hexEncode_inject by (simp add: computeSignature_def sample_platform2_def hexEncode_def)
qed

section \<open>Properties\<close>

text \<open>
  C18: sender and package agree.  A payload that OrangeRails builds, signed and sent by the dispatcher,
  is accepted by \<open>constructEvent\<close> with the same secret, in whatever letter case the headers arrive,
  when the clocks differ by at most five minutes, and gives exactly the type and data of the payload
  under the delivery's event id.
\<close>

theorem delivery_verifies:
  assumes "announces x type_name d" and "parse (wp_json p) (stringify (wp_json p) x) = Some x"
    and "\<forall>k. map lower_char (recase k) = map lower_char k"
    and "secret \<noteq> []" and "eid \<noteq> []" and "0 < ts" and "ts < 2 ^ 53" and "\<bar>now - int ts\<bar> \<le> 300"
  shows "constructEvent p \<lparr>op_body = Some (stringify (wp_json p) x),
      op_headers = arrived recase (delivery_headers p secret (stringify (wp_json p) x) ts eid),
      op_secret = Some secret, op_tolerance = None, op_now = now\<rparr> = Inr \<lparr>ev_id = eid, ev_type = type_name, ev_data = d\<rparr>"
  by (rule delivery_accepted [OF assms])

theorem delivery_verifies_witness:
  "constructEvent sample_platform2 \<lparr>op_body = Some (stringify brace_codec (buildSyncCompletedPayload sample_sync)),
      op_headers = arrived (map lower_char) (delivery_headers sample_platform2 ''k'' (stringify brace_codec (buildSyncCompletedPayload sample_sync)) 1000 ''e''),
      op_secret = Some ''k'', op_tolerance = None, op_now = 1200\<rparr> =
     Inr \<lparr>ev_id = ''e'', ev_type = ''sync.completed'', ev_data = JObj (completed_data sample_sync)\<rparr>"
proof -
  have twice: "lower_char (lower_char c) = lower_char c" for c
  proof -
    have "\<not> (\<exists>c \<in> set ''ABCDEFGHIJKLMNOPQRSTUVWXYZ''. char_of (of_char c + (32 :: nat)) \<in> set ''ABCDEFGHIJKLMNOPQRSTUVWXYZ'')"
      by code_simp
    then show ?thesis unfolding lower_char_def by auto
  qed
  have "wp_json sample_platform2 = brace_codec" by (simp add: sample_platform2_def)
  then show ?thesis
    using delivery_verifies [OF sample_announces sample_parses, of "map lower_char" "''k''" "''e''" 1000 1200] by (simp add: twice)
qed

text \<open>
  C19: the receiver trusts nothing but deliveries.  When no valid code of a checked text is presented that
  the dispatcher did not sign, an event that \<open>constructEvent\<close> returns has the type and the data of a
  payload that was dispatched, read from exactly its bytes, and under the second signature scheme
  within the tolerance of the time of that dispatch.  The two schemes sign different texts with one
  key, and a signature of one is never good for the other.
\<close>

theorem only_dispatched_events:
  assumes "number_law p" and "json_law (wp_json p)" and "dispatched sent" and "\<forall>raw. op_body o1 = Some raw \<longrightarrow> unforged p secret sent raw (op_headers o1)"
    and "op_secret o1 = Some secret" and "constructEvent p o1 = Inr ev"
  shows "\<exists>(x, t) \<in> sent. op_body o1 = Some (stringify (wp_json p) x) \<and>
    field x ''type'' = Some (JStr (ev_type ev)) \<and> field x ''data'' = Some (ev_data ev) \<and>
    (present (readHeader (op_headers o1) ''x-or-signature-v2'') \<longrightarrow>
      \<not> js_lt (case op_tolerance o1 of Some tol \<Rightarrow> tol | None \<Rightarrow> Fin 300) (jsint \<bar>op_now o1 - int t\<bar>))"
  by (rule accepted_dispatched [OF assms])

theorem only_dispatched_events_witness:
  "\<exists>x. stringify brace_codec (buildSyncCompletedPayload sample_sync) = stringify brace_codec x \<and>
     field x ''type'' = Some (JStr ''sync.completed'') \<and> field x ''data'' = Some (JObj (completed_data sample_sync))"
proof -
  let ?p = sample_platform2 and ?x = "buildSyncCompletedPayload sample_sync"
  let ?b = "stringify brace_codec ?x"
  let ?hs = "arrived (\<lambda>k. k) (delivery_headers ?p ''k'' ?b 1000 ''e'')"
  let ?o = "\<lparr>op_body = Some ?b, op_headers = ?hs, op_secret = Some ''k'', op_tolerance = None, op_now = 1200\<rparr>"
  have json: "wp_json ?p = brace_codec" by (simp add: sample_platform2_def)
  let ?sig = "\<lambda>m. computeSignature (wp_web ?p) ''k'' m"
  have "readHeader ?hs ''x-or-signature-v2'' = Some (''t='' @ number_text ?p 1000 @ '',v1='' @ ?sig (number_text ?p 1000 @ ''.'' @ ?b))"
      "readHeader ?hs ''x-or-signature'' = Some (?sig ?b)"
    by (simp_all only: read_arrived [of "\<lambda>k. k"] simp_thms)
  then have "presented ?hs = {?sig (number_text ?p 1000 @ ''.'' @ ?b), ?sig ?b}"
    using parse_written_header [of 1000 ?p "wp_web ?p" "''k''" "number_text ?p 1000 @ ''.'' @ ?b"] hex_no_space [OF signature_hex]
    unfolding presented_def by auto
  then have "unforged ?p ''k'' {(?x, 1000)} ?b ?hs"
    unfolding unforged_def json using sample_signature_inject by auto
  moreover have "dispatched {(?x, 1000)}" by (simp add: dispatched_def buildSyncCompletedPayload_def)
  moreover have "constructEvent ?p ?o = Inr \<lparr>ev_id = ''e'', ev_type = ''sync.completed'', ev_data = JObj (completed_data sample_sync)\<rparr>"
    using delivery_accepted [OF sample_announces sample_parses, of "\<lambda>k. k" "''k''" "''e''" 1000 1200] by (simp add: json)
  ultimately show ?thesis
    using only_dispatched_events [of ?p "{(?x, 1000)}" ?o "''k''"] sample_number_law brace_law by (auto simp: json)
qed

text \<open>
  The event id is not signed, and the first scheme knows no time.  Whoever has seen one delivery
  can leave out its second signature and put any event id on it: the receiver accepts it again at any
  later time under the new id, by which it is meant to recognise repeated deliveries.
\<close>

theorem captured_delivery_replays:
  assumes "announces x type_name d" and "parse (wp_json p) (stringify (wp_json p) x) = Some x" and "secret \<noteq> []" and "new_id \<noteq> []"
    and "(''X-OR-Signature'', sig) \<in> set (delivery_headers p secret (stringify (wp_json p) x) ts eid)" and "web_laws (wp_web p)"
  shows "constructEvent p \<lparr>op_body = Some (stringify (wp_json p) x),
      op_headers = [(''X-OR-Signature'', Text sig), (''X-OR-Event-Id'', Text new_id)],
      op_secret = Some secret, op_tolerance = tol, op_now = now\<rparr> = Inr \<lparr>ev_id = new_id, ev_type = type_name, ev_data = d\<rparr>"
  by (rule replayed [OF assms])

theorem captured_delivery_replays_witness:
  "constructEvent (sample_platform2\<lparr>wp_web := sample_web\<rparr>) \<lparr>op_body = Some (stringify brace_codec (buildSyncCompletedPayload sample_sync)),
      op_headers = [(''X-OR-Signature'', Text (computeSignature sample_web ''k'' (stringify brace_codec (buildSyncCompletedPayload sample_sync)))),
        (''X-OR-Event-Id'', Text ''other'')],
      op_secret = Some ''k'', op_tolerance = None, op_now = 10 ^ 10\<rparr> =
     Inr \<lparr>ev_id = ''other'', ev_type = ''sync.completed'', ev_data = JObj (completed_data sample_sync)\<rparr>"
proof -
  let ?p = "sample_platform2\<lparr>wp_web := sample_web\<rparr>" and ?x = "buildSyncCompletedPayload sample_sync"
  have p: "wp_json ?p = brace_codec" "wp_web ?p = sample_web" by (simp_all add: sample_platform2_def)
  have parses: "parse (wp_json ?p) (stringify (wp_json ?p) ?x) = Some ?x" using sample_parses by simp
  have "(''X-OR-Signature'', computeSignature sample_web ''k'' (stringify brace_codec ?x)) \<in>
      set (delivery_headers ?p ''k'' (stringify brace_codec ?x) 1000 ''e'')"
    by (simp add: delivery_headers_def p Let_def)
  then show ?thesis
    using captured_delivery_replays [OF sample_announces parses, of "''k''" "''other''" _ 1000 "''e''" None "10 ^ 10"] sample_web_laws
    unfolding p by blast
qed

end
