(* ===== verification/WebhookQueue.thy ===== *)
theory WebhookQueue
  imports Webhooks
begin

text \<open>
  The delivery queue, \<open>or-webhook-dispatch/index.ts\<close>: one invocation takes the oldest pending rows of
  \<open>webhook_delivery\<close> and posts those whose backoff has elapsed.  The clock, the platforms, what the
  endpoints answer and whether an update of a row succeeds are parameters; the code ignores errors of
  its updates.  Times are milliseconds.
\<close>

section \<open>The queue\<close>

record delivery =
  dl_id :: string
  dl_platform :: string
  dl_payload :: json
  dl_attempts :: nat
  dl_last :: "int option"
  dl_done :: "int option"
  dl_error :: "string option"
  dl_event :: string
  dl_created :: int

record wh_target =
  tg_id :: string
  tg_url :: "string option"
  tg_secret :: "string option"

record wh_post =
  po_row :: string
  po_url :: string
  po_headers :: "(string \<times> string) list"
  po_body :: string
  po_time :: int

record dispatch_result =
  scanned :: nat
  attempted :: nat
  succeeded :: nat
  failed_count :: nat
  skipped_backoff :: nat
  abandoned :: nat

text \<open>
  For the row with a number in the batch: the times of the backoff check, of signing and of the update;
  whether the update is stored.  \<open>be_others\<close> is what other invocations do to the table before it.
\<close>

record batch_env =
  be_platform :: wh_platform
  be_select_error :: "string option"
  be_targets :: "string list \<Rightarrow> string + wh_target list"
  be_times :: "nat \<Rightarrow> int \<times> int \<times> int"
  be_sign_error :: "string \<Rightarrow> string option"
  be_fetch :: "nat \<Rightarrow> string \<Rightarrow> (string \<times> string) list \<Rightarrow> string \<Rightarrow> string + nat"
  be_stored :: "nat \<Rightarrow> bool"
  be_others :: "nat \<Rightarrow> delivery list \<Rightarrow> delivery list"

definition MAX_ATTEMPTS :: nat where "MAX_ATTEMPTS = 5"
definition BATCH_SIZE :: nat where "BATCH_SIZE = 50"
definition BACKOFF_BASE_SECONDS :: int where "BACKOFF_BASE_SECONDS = 60"
definition BACKOFF_MAX_SECONDS :: int where "BACKOFF_MAX_SECONDS = 3600"

definition backoff_ms :: "nat \<Rightarrow> int" where
  "backoff_ms attempts = min (BACKOFF_BASE_SECONDS * 2 ^ attempts) BACKOFF_MAX_SECONDS * 1000"

definition isBackoffElapsed :: "delivery \<Rightarrow> int \<Rightarrow> bool" where
  "isBackoffElapsed row now =
     (case dl_last row of None \<Rightarrow> True | Some l \<Rightarrow> dl_attempts row = 0 \<or> backoff_ms (dl_attempts row) \<le> now - l)"

text \<open>The query: pending rows, oldest first; rows of one time stay in the order of the table.\<close>

definition is_pending :: "delivery \<Rightarrow> bool" where
  "is_pending r \<longleftrightarrow> dl_done r = None \<and> dl_attempts r < MAX_ATTEMPTS"

definition select_pending :: "delivery list \<Rightarrow> delivery list" where
  "select_pending t = take BATCH_SIZE (sort_key dl_created (filter is_pending t))"

definition update_row :: "bool \<Rightarrow> string \<Rightarrow> (delivery \<Rightarrow> delivery) \<Rightarrow> delivery list \<Rightarrow> delivery list" where
  "update_row stored i f t = (if stored then map (\<lambda>r. if dl_id r = i then f r else r) t else t)"

text \<open>One answer of an endpoint: fine, or the text of the error.\<close>

definition post_outcome :: "string + nat \<Rightarrow> string option" where
  "post_outcome a = (case a of Inl m \<Rightarrow> Some m | Inr status \<Rightarrow> if 200 \<le> status \<and> status < 300 then None else Some (''HTTP '' @ nat_text status))"

definition bump :: "delivery \<Rightarrow> int \<Rightarrow> delivery \<Rightarrow> delivery" where
  "bump row now r = r\<lparr>dl_attempts := dl_attempts row + 1, dl_last := Some now\<rparr>"

type_synonym batch_state = "delivery list \<times> wh_post list \<times> dispatch_result"

definition dispatch_row :: "batch_env \<Rightarrow> (string \<rightharpoonup> wh_target) \<Rightarrow> nat \<Rightarrow> delivery \<Rightarrow> batch_state \<Rightarrow> batch_state" where
  "dispatch_row e platformById i row st =
     (let (t0, ps, res) = st; t = be_others e i t0; (checked_at, signed_at, stored_at) = be_times e i;
          upd = update_row (be_stored e i) (dl_id row) in
      if \<not> isBackoffElapsed row checked_at then (t, ps, res\<lparr>skipped_backoff := skipped_backoff res + 1\<rparr>)
      else case platformById (dl_platform row) of
             None \<Rightarrow> (upd (\<lambda>r. r\<lparr>dl_done := Some stored_at, dl_error := Some ''platform_webhook_disabled''\<rparr>) t, ps,
                      res\<lparr>abandoned := abandoned res + 1\<rparr>)
           | Some plat \<Rightarrow>
               if \<not> present (tg_url plat) \<or> \<not> present (tg_secret plat)
               then (upd (\<lambda>r. r\<lparr>dl_done := Some stored_at, dl_error := Some ''platform_webhook_disabled''\<rparr>) t, ps,
                     res\<lparr>abandoned := abandoned res + 1\<rparr>)
               else
                 (let url = the (tg_url plat); secret = the (tg_secret plat); res' = res\<lparr>attempted := attempted res + 1\<rparr>;
                      bodyStr = stringify (wp_json (be_platform e)) (dl_payload row) in
                  case be_sign_error e secret of
                    Some m \<Rightarrow> (upd (\<lambda>r. (bump row stored_at r)\<lparr>dl_error := Some (''sign_failed: '' @ take 200 m)\<rparr>) t, ps,
                               res'\<lparr>failed_count := failed_count res' + 1\<rparr>)
                  | None \<Rightarrow>
                      (let hs = delivery_headers (be_platform e) secret bodyStr (nat (signed_at div 1000)) (dl_event row);
                           ps' = ps @ [\<lparr>po_row = dl_id row, po_url = url, po_headers = hs, po_body = bodyStr, po_time = checked_at\<rparr>] in
                       case post_outcome (be_fetch e i url hs bodyStr) of
                         None \<Rightarrow> (upd (\<lambda>r. (bump row stored_at r)\<lparr>dl_done := Some stored_at, dl_error := None\<rparr>) t, ps',
                                  res'\<lparr>succeeded := succeeded res' + 1\<rparr>)
                       | Some m \<Rightarrow> (upd (\<lambda>r. (bump row stored_at r)\<lparr>dl_error := Some (take 500 m)\<rparr>) t, ps',
                                    res'\<lparr>failed_count := failed_count res' + 1\<rparr>))))"

fun dispatch_rows :: "batch_env \<Rightarrow> (string \<rightharpoonup> wh_target) \<Rightarrow> nat \<Rightarrow> delivery list \<Rightarrow> batch_state \<Rightarrow> batch_state" where
  "dispatch_rows e m i [] st = st"
| "dispatch_rows e m i (row # rows) st = dispatch_rows e m (Suc i) rows (dispatch_row e m i row st)"

definition no_result :: dispatch_result where
  "no_result = \<lparr>scanned = 0, attempted = 0, succeeded = 0, failed_count = 0, skipped_backoff = 0, abandoned = 0\<rparr>"

definition dispatchBatch :: "batch_env \<Rightarrow> delivery list \<Rightarrow> string + batch_state" where
  "dispatchBatch e t =
     (case be_select_error e of
        Some m \<Rightarrow> Inl m
      | None \<Rightarrow>
          (let pending = select_pending t; res = no_result\<lparr>scanned := length pending\<rparr> in
           if pending = [] then Inr (t, [], res)
           else case be_targets e (remdups (map dl_platform pending)) of
                  Inl m \<Rightarrow> Inl m
                | Inr targets \<Rightarrow> Inr (dispatch_rows e (map_of (rev (map (\<lambda>g. (tg_id g, g)) targets))) 0 pending (t, [], res))))"

section \<open>The endpoint\<close>

definition timingSafeEqual :: "string \<Rightarrow> string \<Rightarrow> bool" where
  "timingSafeEqual a b \<longleftrightarrow> length a = length b \<and>
     foldl (\<lambda>diff (x, y). diff OR (of_nat (of_char x) XOR of_nat (of_char y))) (0 :: 32 word) (zip a b) = 0"

datatype dispatch_reply = MethodNotAllowed | VaultReadError | TokenMissing | Unauthorized | Drained dispatch_result | InternalError

text \<open>The method, the token of the caller, and what reading the token of the worker gives: an exception, an
  error, or the token if there is one.  The table and the posts sent are the rest of the result.\<close>

definition serve_dispatch :: "batch_env \<Rightarrow> string \<Rightarrow> string option \<Rightarrow> (unit + string option) option \<Rightarrow> delivery list \<Rightarrow>
    dispatch_reply \<times> delivery list \<times> wh_post list" where
  "serve_dispatch e req_method callerToken vault t =
     (if req_method \<noteq> ''POST'' then (MethodNotAllowed, t, [])
      else case vault of
             None \<Rightarrow> (InternalError, t, [])
           | Some (Inl _) \<Rightarrow> (VaultReadError, t, [])
           | Some (Inr expected) \<Rightarrow>
               if \<not> present expected then (TokenMissing, t, [])
               else if \<not> present callerToken \<or> \<not> timingSafeEqual (the callerToken) (the expected) then (Unauthorized, t, [])
               else case dispatchBatch e t of
                      Inl _ \<Rightarrow> (InternalError, t, [])
                    | Inr (t', ps, res) \<Rightarrow> (Drained res, t', ps))"

text \<open>The queue is drained only for a POST that carries the token of the worker, whole: any other request
  changes no row and sends nothing.\<close>

theorem only_worker_drains:
  assumes "serve_dispatch e req_method callerToken vault t = (reply, t', ps)" and "t' \<noteq> t \<or> ps \<noteq> []"
  shows "\<exists>k. k \<noteq> [] \<and> req_method = ''POST'' \<and> callerToken = Some k \<and> vault = Some (Inr (Some k)) \<and>
    (\<exists>res. reply = Drained res \<and> dispatchBatch e t = Inr (t', ps, res))"
proof -
  have "timingSafeEqual = timingSafeEqualHex" by (simp add: fun_eq_iff timingSafeEqual_def timingSafeEqualHex_def)
  then have "timingSafeEqual a b \<longleftrightarrow> a = b" for a b by (simp add: timing_safe_iff)
  then show ?thesis
    using assms by (auto simp: serve_dispatch_def present_def split: if_splits option.splits sum.splits)
qed

section \<open>Histories\<close>

text \<open>
  Invocations one after the other, whose updates are stored and whose clock does not run backwards
  within a row, with new rows in between.
\<close>

definition steady :: "batch_env \<Rightarrow> bool" where
  "steady e \<longleftrightarrow> (\<forall>i. be_stored e i \<and> be_others e i = (\<lambda>t. t) \<and> fst (be_times e i) \<le> snd (snd (be_times e i)))"

inductive queue_run :: "json codec \<Rightarrow> delivery list \<Rightarrow> wh_post list \<Rightarrow> bool" for c where
  empty: "queue_run c [] []"
| enqueue: "queue_run c t ps \<Longrightarrow> dl_id r \<notin> dl_id ` set t \<Longrightarrow> dl_attempts r = 0 \<Longrightarrow> queue_run c (t @ [r]) ps"
| batch: "queue_run c t ps \<Longrightarrow> steady e \<Longrightarrow> wp_json (be_platform e) = c \<Longrightarrow> dispatchBatch e t = Inr (t', ps', res) \<Longrightarrow>
    queue_run c t' (ps @ ps')"

definition posts_of :: "string \<Rightarrow> wh_post list \<Rightarrow> wh_post list" where
  "posts_of i ps = filter (\<lambda>p. po_row p = i) ps"

definition spaced :: "int list \<Rightarrow> bool" where
  "spaced ts \<longleftrightarrow> (\<forall>k. Suc k < length ts \<longrightarrow> ts ! k + backoff_ms (Suc k) \<le> ts ! Suc k)"

definition row_ok :: "json codec \<Rightarrow> wh_post list \<Rightarrow> delivery \<Rightarrow> bool" where
  "row_ok c ps r \<longleftrightarrow> (let qs = posts_of (dl_id r) ps; ts = map po_time qs in
     length qs \<le> dl_attempts r \<and> dl_attempts r \<le> MAX_ATTEMPTS \<and> spaced ts \<and>
     (ts \<noteq> [] \<longrightarrow> (\<exists>l. dl_last r = Some l \<and> last ts \<le> l)) \<and>
     (\<forall>p \<in> set qs. po_body p = stringify c (dl_payload r) \<and> (''X-OR-Event-Id'', dl_event r) \<in> set (po_headers p)))"

definition queue_ok :: "json codec \<Rightarrow> delivery list \<Rightarrow> wh_post list \<Rightarrow> bool" where
  "queue_ok c t ps \<longleftrightarrow> distinct (map dl_id t) \<and> (\<forall>p \<in> set ps. po_row p \<in> dl_id ` set t) \<and> (\<forall>r \<in> set t. row_ok c ps r)"

lemma posts_of_append [simp]: "posts_of i (ps @ qs) = posts_of i ps @ posts_of i qs"
  by (simp add: posts_of_def)

lemma backoff_mono: "a \<le> b \<Longrightarrow> backoff_ms a \<le> backoff_ms b"
proof -
  assume "a \<le> b"
  then have "(2 :: int) ^ a \<le> 2 ^ b" by (simp add: power_increasing)
  then have "min (60 * 2 ^ a) 3600 \<le> min (60 * 2 ^ b) (3600 :: int)" by linarith
  then show ?thesis by (simp add: backoff_ms_def BACKOFF_BASE_SECONDS_def BACKOFF_MAX_SECONDS_def)
qed

lemma spaced_snoc:
  assumes "spaced ts" and "ts \<noteq> [] \<Longrightarrow> last ts + backoff_ms (length ts) \<le> x"
  shows "spaced (ts @ [x])"
  unfolding spaced_def
proof (intro allI impI)
  fix k assume k: "Suc k < length (ts @ [x])"
  show "(ts @ [x]) ! k + backoff_ms (Suc k) \<le> (ts @ [x]) ! Suc k"
  proof (cases "Suc k < length ts")
    case True
    then show ?thesis using assms(1) by (simp add: spaced_def nth_append)
  next
    case False
    then have "Suc k = length ts" using k by simp
    moreover from this have "ts \<noteq> []" by auto
    moreover from calculation have "ts ! k = last ts" by (metis diff_Suc_1 last_conv_nth)
    ultimately show ?thesis using assms(2) by (simp add: nth_append)
  qed
qed

lemma backoff_nonneg: "0 \<le> backoff_ms a"
  by (simp add: backoff_ms_def BACKOFF_BASE_SECONDS_def BACKOFF_MAX_SECONDS_def)

lemma update_ok:
  assumes "queue_ok c t ps" and "row \<in> set t" and "\<And>r. dl_id (f r) = dl_id r" and "\<forall>p \<in> set new. po_row p = dl_id row"
    and "row_ok c (ps @ new) (f row)"
  shows "queue_ok c (update_row True (dl_id row) f t) (ps @ new)"
proof -
  let ?t = "update_row True (dl_id row) f t"
  have ids: "map dl_id ?t = map dl_id t" by (simp add: update_row_def assms(3) comp_def)
  have "row_ok c (ps @ new) r'" if r': "r' \<in> set ?t" for r'
  proof -
    obtain r where r: "r \<in> set t" "r' = (if dl_id r = dl_id row then f r else r)"
      using r' by (auto simp: update_row_def)
    show ?thesis
    proof (cases "dl_id r = dl_id row")
      case True
      then have "r = row" using assms(1,2) r(1) by (auto simp: queue_ok_def distinct_map dest: inj_onD)
      then show ?thesis using r(2) assms(5) by simp
    next
      case False
      then have "posts_of (dl_id r) new = []" using assms(4) by (auto simp: posts_of_def filter_empty_conv)
      then show ?thesis using False r assms(1) by (simp add: queue_ok_def row_ok_def)
    qed
  qed
  moreover have "dl_id ` set ?t = dl_id ` set t" using ids by (metis list.set_map)
  ultimately show ?thesis using assms(1,2,4) ids by (auto simp: queue_ok_def)
qed

lemma row_ok_bump:
  assumes "row_ok c ps row" and "is_pending row" and "isBackoffElapsed row now" and "now \<le> after"
    and "f row = (bump row after row)\<lparr>dl_done := d, dl_error := e\<rparr>"
    and "new = [] \<or> (\<exists>p. new = [p] \<and> po_row p = dl_id row \<and> po_time p = now \<and> po_body p = stringify c (dl_payload row) \<and>
      (''X-OR-Event-Id'', dl_event row) \<in> set (po_headers p))"
  shows "row_ok c (ps @ new) (f row)"
proof -
  let ?ts = "map po_time (posts_of (dl_id row) ps)"
  have ok: "length (posts_of (dl_id row) ps) \<le> dl_attempts row" "spaced ?ts"
      "?ts \<noteq> [] \<longrightarrow> (\<exists>l. dl_last row = Some l \<and> last ?ts \<le> l)"
      "\<forall>p \<in> set (posts_of (dl_id row) ps). po_body p = stringify c (dl_payload row) \<and> (''X-OR-Event-Id'', dl_event row) \<in> set (po_headers p)"
    using assms(1) by (simp_all add: row_ok_def Let_def)
  have due: "last ?ts + backoff_ms (length ?ts) \<le> now" if "?ts \<noteq> []"
  proof -
    obtain l where l: "dl_last row = Some l" "last ?ts \<le> l" using ok(3) \<open>?ts \<noteq> []\<close> by blast
    have "0 < length (posts_of (dl_id row) ps)" using \<open>?ts \<noteq> []\<close> by simp
    then have "dl_attempts row \<noteq> 0" using ok(1) by linarith
    then have "backoff_ms (dl_attempts row) \<le> now - l" using assms(3) l(1) by (simp add: isBackoffElapsed_def)
    moreover have "backoff_ms (length ?ts) \<le> backoff_ms (dl_attempts row)" using ok(1) by (intro backoff_mono) simp
    ultimately show ?thesis using l(2) by linarith
  qed
  have att: "dl_attempts row + 1 \<le> MAX_ATTEMPTS" using assms(2) by (simp add: is_pending_def)
  have f: "dl_id (f row) = dl_id row" "dl_attempts (f row) = dl_attempts row + 1" "dl_last (f row) = Some after"
      "dl_payload (f row) = dl_payload row" "dl_event (f row) = dl_event row"
    by (simp_all add: assms(5) bump_def)
  have "?ts \<noteq> [] \<Longrightarrow> last ?ts \<le> after" using due backoff_nonneg [of "length ?ts"] assms(4) by force
  moreover have "spaced (?ts @ [now])" using spaced_snoc [OF ok(2)] due by simp
  ultimately show ?thesis
    using assms(6,4) ok att by (auto simp: row_ok_def f Let_def) (auto simp: posts_of_def)
qed

lemma dispatch_row_ok:
  assumes "queue_ok c t (h @ ps)" and "row \<in> set t" and "is_pending row" and "steady e" and "wp_json (be_platform e) = c"
    and "dispatch_row e m i row (t, ps, res) = (t', ps', res')"
  shows "queue_ok c t' (h @ ps') \<and> (\<forall>r \<in> set t. dl_id r \<noteq> dl_id row \<longrightarrow> r \<in> set t')"
proof -
  obtain tc ts td where times: "be_times e i = (tc, ts, td)" by (metis prod_cases3)
  have td: "tc \<le> td" "be_stored e i" "be_others e i t = t" using assms(4) times by (auto simp: steady_def dest: spec [of _ i])
  have row: "row_ok c (h @ ps) row" using assms(1,2) by (simp add: queue_ok_def)
  have kept: "\<forall>r \<in> set t. dl_id r \<noteq> dl_id row \<longrightarrow> r \<in> set (update_row s (dl_id row) f t)" for s f
    by (force simp: update_row_def)
  note defs = dispatch_row_def times td(2,3) Let_def
  show ?thesis
  proof (cases "isBackoffElapsed row tc")
    case False
    then show ?thesis using assms(1,6) by (simp add: defs)
  next
    case el: True
    have gone: "queue_ok c (update_row True (dl_id row) (\<lambda>r. r\<lparr>dl_done := Some td, dl_error := Some x\<rparr>) t) (h @ ps)" for x
      using update_ok [OF assms(1,2), of "\<lambda>r. r\<lparr>dl_done := Some td, dl_error := Some x\<rparr>" "[]"] row by (simp add: row_ok_def)
    show ?thesis
    proof (cases "\<exists>plat. m (dl_platform row) = Some plat \<and> present (tg_url plat) \<and> present (tg_secret plat)")
      case False
      then show ?thesis using assms(6) el gone kept by (auto simp: defs split: option.splits if_splits)
    next
      case True
      then obtain plat where plat: "m (dl_platform row) = Some plat" "present (tg_url plat)" "present (tg_secret plat)" by blast
      have bumped: "queue_ok c (update_row True (dl_id row) f t) (h @ (ps @ new))"
        if f: "f = (\<lambda>r. (bump row td r)\<lparr>dl_done := d r, dl_error := x\<rparr>)"
          and new: "new = [] \<or> (\<exists>p. new = [p] \<and> po_row p = dl_id row \<and> po_time p = tc \<and> po_body p = stringify c (dl_payload row) \<and>
            (''X-OR-Event-Id'', dl_event row) \<in> set (po_headers p))" for f d x new
      proof -
        have "dl_id (f r) = dl_id r" for r by (simp add: f bump_def)
        moreover have "\<forall>p \<in> set new. po_row p = dl_id row" using new by auto
        moreover have "row_ok c ((h @ ps) @ new) (f row)"
          by (rule row_ok_bump [where f = f and d = "d row" and e = x, OF row assms(3) el td(1) _ new]) (simp add: f)
        ultimately show ?thesis using update_ok [OF assms(1,2), of f new] by simp
      qed
      have same: "(bump row td r)\<lparr>dl_done := dl_done r, dl_error := y\<rparr> = (bump row td r)\<lparr>dl_error := y\<rparr>" for r y
        by (simp add: bump_def)
      let ?b = "stringify c (dl_payload row)"
      let ?hs = "delivery_headers (be_platform e) (the (tg_secret plat)) ?b (nat (ts div 1000)) (dl_event row)"
      let ?p = "\<lparr>po_row = dl_id row, po_url = the (tg_url plat), po_headers = ?hs, po_body = ?b, po_time = tc\<rparr>"
      have hs: "(''X-OR-Event-Id'', dl_event row) \<in> set ?hs" by (simp add: delivery_headers_def Let_def)
      show ?thesis
      proof (cases "be_sign_error e (the (tg_secret plat))")
        case (Some msg)
        have "t' = update_row True (dl_id row) (\<lambda>r. (bump row td r)\<lparr>dl_error := Some (''sign_failed: '' @ take 200 msg)\<rparr>) t \<and> ps' = ps"
          using assms(6) el plat Some by (simp add: defs)
        then show ?thesis using bumped [where d = dl_done and x = "Some (''sign_failed: '' @ take 200 msg)" and new = "[]", OF refl] kept by (simp add: same)
      next
        case None
        show ?thesis
        proof (cases "post_outcome (be_fetch e i (the (tg_url plat)) ?hs ?b)")
          case out: None
          have "t' = update_row True (dl_id row) (\<lambda>r. (bump row td r)\<lparr>dl_done := Some td, dl_error := None\<rparr>) t \<and> ps' = ps @ [?p]"
            using assms(6) el plat None out by (simp add: defs assms(5))
          then show ?thesis using bumped [where d = "\<lambda>r. Some td" and x = None and new = "[?p]", OF refl] hs kept by (simp add: same)
        next
          case out: (Some msg)
          have "t' = update_row True (dl_id row) (\<lambda>r. (bump row td r)\<lparr>dl_error := Some (take 500 msg)\<rparr>) t \<and> ps' = ps @ [?p]"
            using assms(6) el plat None out by (simp add: defs assms(5))
          then show ?thesis using bumped [where d = dl_done and x = "Some (take 500 msg)" and new = "[?p]", OF refl] hs kept by (simp add: same)
        qed
      qed
    qed
  qed
qed

lemma dispatch_rows_ok:
  assumes "queue_ok c t (h @ ps)" and "set rows \<subseteq> set t" and "\<forall>r \<in> set rows. is_pending r" and "distinct (map dl_id rows)"
    and "steady e" and "wp_json (be_platform e) = c" and "dispatch_rows e m i rows (t, ps, res) = (t', ps', res')"
  shows "queue_ok c t' (h @ ps')"
  using assms
proof (induction rows arbitrary: i t ps res)
  case (Cons row rows)
  obtain t1 ps1 res1 where one: "dispatch_row e m i row (t, ps, res) = (t1, ps1, res1)" by (metis prod_cases3)
  have step: "queue_ok c t1 (h @ ps1) \<and> (\<forall>r \<in> set t. dl_id r \<noteq> dl_id row \<longrightarrow> r \<in> set t1)"
    using Cons.prems by (intro dispatch_row_ok [OF Cons.prems(1) _ _ Cons.prems(5,6) one]) auto
  have "set rows \<subseteq> set t1"
  proof
    fix r assume r: "r \<in> set rows"
    moreover have "dl_id row \<notin> dl_id ` set rows" using Cons.prems(4) by simp
    ultimately have "dl_id r \<noteq> dl_id row" by (metis image_eqI)
    then show "r \<in> set t1" using step Cons.prems(2) r by auto
  qed
  then show ?case using Cons.IH [of t1 ps1 "Suc i" res1] step Cons.prems one by simp
qed simp

lemma select_pending_rows:
  assumes "distinct (map dl_id t)"
  shows "set (select_pending t) \<subseteq> set t" and "\<forall>r \<in> set (select_pending t). is_pending r" and "distinct (map dl_id (select_pending t))"
proof -
  let ?s = "sort_key dl_created (filter is_pending t)"
  have sub: "set (select_pending t) \<subseteq> set ?s" by (simp only: select_pending_def set_take_subset)
  then show "set (select_pending t) \<subseteq> set t" and "\<forall>r \<in> set (select_pending t). is_pending r" by auto
  have "distinct t" and inj: "inj_on dl_id (set t)" using assms by (simp_all add: distinct_map)
  then have "distinct (select_pending t)" by (simp add: select_pending_def)
  moreover have "inj_on dl_id (set (select_pending t))" using inj_on_subset [OF inj] sub by auto
  ultimately show "distinct (map dl_id (select_pending t))" by (simp add: distinct_map)
qed

lemma dispatchBatch_ok:
  assumes "queue_ok c t h" and "steady e" and "wp_json (be_platform e) = c" and "dispatchBatch e t = Inr (t', ps', res)"
  shows "queue_ok c t' (h @ ps')"
proof (cases "select_pending t = []")
  case True
  then show ?thesis using assms(1,4) by (auto simp: dispatchBatch_def Let_def split: option.splits)
next
  case False
  have ids: "distinct (map dl_id t)" using assms(1) by (simp add: queue_ok_def)
  obtain m where "dispatch_rows e m 0 (select_pending t) (t, [], no_result\<lparr>scanned := length (select_pending t)\<rparr>) = (t', ps', res)"
    using assms(4) False by (auto simp: dispatchBatch_def Let_def split: option.splits sum.splits)
  then show ?thesis
    using dispatch_rows_ok [of c t h "[]"] assms(1-3) select_pending_rows [OF ids] by simp
qed

lemma queue_run_ok: "queue_run c t ps \<Longrightarrow> queue_ok c t ps"
proof (induction rule: queue_run.induct)
  case empty
  then show ?case by (simp add: queue_ok_def)
next
  case (enqueue t ps r)
  have "po_row p \<noteq> dl_id r" if "p \<in> set ps" for p
    using enqueue.IH enqueue.hyps(2) that by (metis queue_ok_def)
  then have "posts_of (dl_id r) ps = []" by (simp add: posts_of_def filter_empty_conv)
  then have "row_ok c ps r" using enqueue.hyps(3) by (simp add: row_ok_def spaced_def)
  then show ?case using enqueue.IH enqueue.hyps(2) by (auto simp: queue_ok_def)
next
  case (batch t ps e t' ps' res)
  then show ?case by (intro dispatchBatch_ok)
qed


definition fresh_row :: delivery where
  "fresh_row = \<lparr>dl_id = ''fresh'', dl_platform = ''live'', dl_payload = JObj [], dl_attempts = 0, dl_last = None,
     dl_done = None, dl_error = None, dl_event = ''f'', dl_created = 100\<rparr>"

definition sample_env :: batch_env where
  "sample_env = \<lparr>be_platform = sample_platform2, be_select_error = None,
     be_targets = (\<lambda>ids. Inr [\<lparr>tg_id = ''live'', tg_url = Some ''u'', tg_secret = Some ''k''\<rparr>]), be_times = (\<lambda>i. (1000, 1000, 1000)),
     be_sign_error = (\<lambda>s. None), be_fetch = (\<lambda>i u hs b. Inr 200), be_stored = (\<lambda>i. True), be_others = (\<lambda>i t. t)\<rparr>"


text \<open>A queue whose fifty oldest rows wait, and one newer row that does not.\<close>

definition waiting_row :: "nat \<Rightarrow> delivery" where
  "waiting_row k = \<lparr>dl_id = replicate k CHR ''w'', dl_platform = ''dead'', dl_payload = JObj [], dl_attempts = 3, dl_last = Some 0,
     dl_done = None, dl_error = Some ''HTTP 500'', dl_event = ''e'', dl_created = int k\<rparr>"

lemma waiting_rows_posted:
  assumes "\<forall>r \<in> set rows. \<forall>i. \<not> isBackoffElapsed r (fst (be_times e i))" and "\<forall>i t. be_others e i t = t"
  shows "dispatch_rows e m i rows (t, ps, res) = (t, ps, res\<lparr>skipped_backoff := skipped_backoff res + length rows\<rparr>)"
  using assms(1)
proof (induction rows arbitrary: i res)
  case (Cons row rows)
  obtain tc ts td where times: "be_times e i = (tc, ts, td)" by (metis prod_cases3)
  moreover have "\<not> isBackoffElapsed row (fst (be_times e i))" using Cons.prems by simp
  ultimately have "dispatch_row e m i row (t, ps, res) = (t, ps, res\<lparr>skipped_backoff := skipped_backoff res + 1\<rparr>)"
    using assms(2) by (simp add: dispatch_row_def)
  then show ?case using Cons by simp
qed simp

lemma waiting_selected: "select_pending (map waiting_row [0..<50] @ [fresh_row]) = map waiting_row [0..<50]"
proof -
  have pending: "filter is_pending (map waiting_row [0..<50]) = map waiting_row [0..<50]"
    by (simp add: filter_id_conv is_pending_def waiting_row_def MAX_ATTEMPTS_def)
  have keys: "map dl_created (map waiting_row [0..<50] @ [fresh_row]) = map int [0..<50] @ [100]"
    by (simp add: waiting_row_def fresh_row_def comp_def)
  have "sorted (map int [0..<50] @ [100])" by (simp add: sorted_append sorted_map sorted_wrt_upt del: upt_rec_numeral)
  then have "sort_key dl_created (map waiting_row [0..<50] @ [fresh_row]) = map waiting_row [0..<50] @ [fresh_row]"
    unfolding keys [symmetric] by (rule sort_key_id_if_sorted)
  moreover have "filter is_pending (map waiting_row [0..<50] @ [fresh_row]) = map waiting_row [0..<50] @ [fresh_row]"
    by (simp only: filter_append pending) (simp add: is_pending_def fresh_row_def MAX_ATTEMPTS_def)
  ultimately have "select_pending (map waiting_row [0..<50] @ [fresh_row]) = take BATCH_SIZE (map waiting_row [0..<50] @ [fresh_row])"
    unfolding select_pending_def by (simp only:)
  then show ?thesis by (simp add: BATCH_SIZE_def del: upt_rec_numeral)
qed

text \<open>Fifty older rows that wait for their backoff keep every newer row from being posted, even one that
  was never tried: the query takes the oldest rows whether or not they are due.\<close>

theorem backoff_rows_block_queue:
  assumes "be_select_error e = None" and "be_targets e [''dead''] = Inr targets" and "\<forall>i t. be_others e i t = t"
    and "\<forall>i. fst (be_times e i) < 480000"
  shows "fresh_row \<in> set (map waiting_row [0..<50] @ [fresh_row]) \<and> is_pending fresh_row \<and> isBackoffElapsed fresh_row now \<and>
    dispatchBatch e (map waiting_row [0..<50] @ [fresh_row]) =
      Inr (map waiting_row [0..<50] @ [fresh_row], [], no_result\<lparr>scanned := 50, skipped_backoff := 50\<rparr>)"
proof -
  let ?rows = "map waiting_row [0..<50]"
  have wait: "\<forall>r \<in> set ?rows. \<forall>i. \<not> isBackoffElapsed r (fst (be_times e i))"
    using assms(4) by (auto simp: isBackoffElapsed_def waiting_row_def backoff_ms_def BACKOFF_BASE_SECONDS_def BACKOFF_MAX_SECONDS_def not_le
      simp del: upt_rec_numeral)
  have platforms: "remdups (map dl_platform ?rows) = [''dead'']"
  proof -
    have "map dl_platform ?rows = replicate 50 ''dead''" by (simp add: waiting_row_def comp_def map_replicate_const del: upt_rec_numeral)
    moreover have "remdups (replicate (Suc n) x) = [x]" for n and x :: string by (induction n) simp_all
    then have "remdups (replicate 50 ''dead'') = [''dead'']" by (metis numeral_eq_Suc)
    ultimately show ?thesis by simp
  qed
  have some: "?rows \<noteq> []" by (simp del: upt_rec_numeral)
  have "dispatchBatch e (?rows @ [fresh_row]) = Inr (?rows @ [fresh_row], [], no_result\<lparr>scanned := 50, skipped_backoff := 50\<rparr>)"
    unfolding dispatchBatch_def waiting_selected Let_def platforms
    using some by (simp add: assms(1,2) waiting_rows_posted [OF wait assms(3)] no_result_def del: upt_rec_numeral)
  then show ?thesis
    by (simp add: is_pending_def isBackoffElapsed_def fresh_row_def MAX_ATTEMPTS_def del: upt_rec_numeral)
qed

theorem backoff_rows_block_queue_witness:
  "isBackoffElapsed fresh_row 1000 \<and> dispatchBatch sample_env (map waiting_row [0..<50] @ [fresh_row]) =
     Inr (map waiting_row [0..<50] @ [fresh_row], [], no_result\<lparr>scanned := 50, skipped_backoff := 50\<rparr>)"
  using backoff_rows_block_queue [of sample_env _ 1000] by (simp add: sample_env_def del: upt_rec_numeral)

theorem only_worker_drains_witness:
  "serve_dispatch sample_env ''POST'' (Some ''tok'') (Some (Inr (Some ''tok''))) [fresh_row] \<noteq>
     serve_dispatch sample_env ''POST'' (Some ''tik'') (Some (Inr (Some ''tok''))) [fresh_row]"
proof -
  have "\<exists>t' ps res. dispatchBatch sample_env [fresh_row] = Inr (t', ps, res) \<and> ps \<noteq> []"
    by (simp add: dispatchBatch_def select_pending_def is_pending_def MAX_ATTEMPTS_def BATCH_SIZE_def dispatch_row_def sample_env_def
      update_row_def bump_def isBackoffElapsed_def post_outcome_def Let_def fresh_row_def)
  then obtain t' ps res where b: "dispatchBatch sample_env [fresh_row] = Inr (t', ps, res)" "ps \<noteq> []" by blast
  have "timingSafeEqual ''tok'' ''tok''" by code_simp
  then have ok: "serve_dispatch sample_env ''POST'' (Some ''tok'') (Some (Inr (Some ''tok''))) [fresh_row] = (Drained res, t', ps)"
    using b by (simp add: serve_dispatch_def present_def)
  show ?thesis
    using only_worker_drains [of sample_env "''POST''" "Some ''tik''" "Some (Inr (Some ''tok''))" "[fresh_row]" "Drained res" t' ps] ok b(2)
    by auto
qed

end
