(* ===== verification/VaultCrypto.thy ===== *)
theory VaultCrypto
  imports Webhooks "HOL-Library.Char_ord" "HOL-Library.List_Lexorder"
begin

text \<open>
  The primitives of the vault of the account application: \<open>src/lib/vault.ts\<close> (password stretch, AES-GCM on
  texts, verifier, wrapping of the master key, recovery codes), \<open>key-derivation.ts\<close> (the subkeys) and
  \<open>crypto-fields.ts\<close> (the fields of the tables).  Argon2id, AES-GCM, HKDF, HMAC, the text codec and the
  lower case of Unicode are parameters; random bytes are arguments, numbered in the order in which an
  operation draws them.
\<close>

unbundle bit_operations_syntax

section \<open>The platform\<close>

text \<open>The last three arguments of \<open>vw_seal\<close> and \<open>vw_open\<close>: nonce, additional data, text.  Argon2id may throw.\<close>

record vault_web =
  vw_encode :: "string \<Rightarrow> bytes"
  vw_decode :: "bytes \<Rightarrow> string"
  vw_lower :: "string \<Rightarrow> string"
  vw_seal :: "bytes \<Rightarrow> bytes \<Rightarrow> bytes \<Rightarrow> bytes \<Rightarrow> bytes"
  vw_open :: "bytes \<Rightarrow> bytes \<Rightarrow> bytes \<Rightarrow> bytes \<Rightarrow> bytes option"
  vw_hkdf :: "bytes \<Rightarrow> bytes \<Rightarrow> bytes \<Rightarrow> bytes"
  vw_hmac :: "bytes \<Rightarrow> bytes \<Rightarrow> bytes"
  vw_argon :: "bytes \<Rightarrow> bytes \<Rightarrow> bytes option"

type_synonym random = "nat \<Rightarrow> nat \<Rightarrow> bytes"

datatype data_kind = Credentials | Transactions

datatype vault_error =
  BadBase64 | TooShort | TagFailure | ArgonThrows | UnknownKeyVersion nat | NotExtractable | BadJson | NotAnObjectV
| WeakPassword string | CannotReopen string | OtherKeyMaterial string
| CodeMismatch | LegacyVault | WrongPassword | NoMigrationKeys | VaultLocked
| WrongWrapKey | ProbeDiffers | UncorroboratedKem | UncorroboratedSig
| NoDataKey data_kind | NoGeneration data_kind nat | TooManyGenerations data_kind | WrongKeyLength
| BadKeyring | BadEpoch | BadUserId | EpochExhausted

text \<open>What follows a step that may throw.\<close>

definition thenE :: "'e + 'a \<Rightarrow> ('a \<Rightarrow> 'e + 'b) \<Rightarrow> 'e + 'b" where
  "thenE x f = (case x of Inl e \<Rightarrow> Inl e | Inr a \<Rightarrow> f a)"

lemma thenE_simps [simp]: "thenE (Inl e) f = Inl e" "thenE (Inr a) f = f a"
  by (simp_all add: thenE_def)

lemma thenE_Inr: "thenE x f = Inr b \<longleftrightarrow> (\<exists>a. x = Inr a \<and> f a = Inr b)"
  by (cases x) simp_all

fun mapE :: "('a \<Rightarrow> 'e + 'b) \<Rightarrow> 'a list \<Rightarrow> 'e + 'b list" where
  "mapE f [] = Inr []"
| "mapE f (x # xs) = thenE (f x) (\<lambda>y. thenE (mapE f xs) (\<lambda>ys. Inr (y # ys)))"

section \<open>Keys and texts\<close>

text \<open>The bytes of a master key; a key for AES-GCM also knows whether it can be exported.\<close>

type_synonym hkdf_key = bytes

record aes_key =
  ak_raw :: bytes
  ak_extractable :: bool

definition base64ToBytes :: "string \<Rightarrow> vault_error + bytes" where
  "base64ToBytes b64 = (case b64decode b64 of None \<Rightarrow> Inl BadBase64 | Some bs \<Rightarrow> Inr bs)"

definition importAesKey :: "bytes \<Rightarrow> aes_key" where
  "importAesKey raw = \<lparr>ak_raw = raw, ak_extractable = True\<rparr>"

definition importAesKeyNonExtractable :: "bytes \<Rightarrow> aes_key" where
  "importAesKeyNonExtractable raw = \<lparr>ak_raw = raw, ak_extractable = False\<rparr>"

definition exportKey :: "aes_key \<Rightarrow> vault_error + bytes" where
  "exportKey k = (if ak_extractable k then Inr (ak_raw k) else Inl NotExtractable)"

definition ARGON2ID_V1_version :: nat where "ARGON2ID_V1_version = 1"
definition MIN_PASSWORD_LENGTH :: nat where "MIN_PASSWORD_LENGTH = 14"
definition CURRENT_VAULT_KEY_VERSION :: nat where "CURRENT_VAULT_KEY_VERSION = 2"
definition VAULT_VERIFIER_PLAINTEXT :: string where "VAULT_VERIFIER_PLAINTEXT = ''orangerails-vault-verifier-v1''"

definition generateVaultSalt :: "random \<Rightarrow> nat \<Rightarrow> string" where
  "generateVaultSalt rnd i = b64encode (rnd i 32)"

definition deriveMekRaw :: "vault_web \<Rightarrow> string \<Rightarrow> string \<Rightarrow> vault_error + bytes" where
  "deriveMekRaw w password saltBase64 =
     thenE (base64ToBytes saltBase64) (\<lambda>saltBytes.
       case vw_argon w (vw_encode w password) saltBytes of None \<Rightarrow> Inl ArgonThrows | Some raw \<Rightarrow> Inr raw)"

definition deriveMEK :: "vault_web \<Rightarrow> string \<Rightarrow> string \<Rightarrow> nat \<Rightarrow> vault_error + hkdf_key" where
  "deriveMEK w password saltBase64 version =
     (if version \<noteq> ARGON2ID_V1_version then Inl (UnknownKeyVersion version)
      else thenE (base64ToBytes saltBase64) (\<lambda>saltBytes.
        case vw_argon w (vw_encode w password) saltBytes of None \<Rightarrow> Inl ArgonThrows | Some hashBytes \<Rightarrow> Inr hashBytes))"

definition encryptString :: "vault_web \<Rightarrow> bytes \<Rightarrow> string \<Rightarrow> aes_key \<Rightarrow> string" where
  "encryptString w iv plaintext key = b64encode (iv @ vw_seal w (ak_raw key) iv [] (vw_encode w plaintext))"

definition decryptString :: "vault_web \<Rightarrow> string \<Rightarrow> aes_key \<Rightarrow> vault_error + string" where
  "decryptString w ciphertextB64 key =
     thenE (base64ToBytes ciphertextB64) (\<lambda>combined.
       if length combined < 12 + 16 then Inl TooShort
       else case vw_open w (ak_raw key) (take 12 combined) [] (drop 12 combined) of
              None \<Rightarrow> Inl TagFailure
            | Some plaintext \<Rightarrow> Inr (vw_decode w plaintext))"

definition createVaultVerifier :: "vault_web \<Rightarrow> bytes \<Rightarrow> aes_key \<Rightarrow> string" where
  "createVaultVerifier w iv verifierKey = encryptString w iv VAULT_VERIFIER_PLAINTEXT verifierKey"

definition timingSafeEqualStrings :: "string \<Rightarrow> string \<Rightarrow> bool" where
  "timingSafeEqualStrings a b \<longleftrightarrow> length a = length b \<and>
     foldl (\<lambda>diff (x, y). diff OR (of_nat (of_char x) XOR of_nat (of_char y))) (0 :: 32 word) (zip a b) = 0"

definition verifyVaultPassword :: "vault_web \<Rightarrow> aes_key \<Rightarrow> string \<Rightarrow> bool" where
  "verifyVaultPassword w verifierKey stored =
     (case decryptString w stored verifierKey of
        Inl _ \<Rightarrow> False
      | Inr decrypted \<Rightarrow> timingSafeEqualStrings decrypted VAULT_VERIFIER_PLAINTEXT)"

definition blocklist :: "string list" where
  "blocklist = [''password'', ''123456'', ''qwerty'', ''letmein'', ''orangerails'', ''bitcoin'']"

definition is_letter :: "char \<Rightarrow> bool" where
  "is_letter c \<longleftrightarrow> lower_char c \<in> set ''abcdefghijklmnopqrstuvwxyz''"

text \<open>The reason why a password is refused, if it is.\<close>

definition isPasswordAcceptable :: "vault_web \<Rightarrow> string \<Rightarrow> string option" where
  "isPasswordAcceptable w password =
     (if length password < MIN_PASSWORD_LENGTH then Some ''Password must be at least 14 characters.''
      else if list_ex (\<lambda>bad. js_includes bad (vw_lower w password)) blocklist then Some ''Password contains a common weak pattern.''
      else if password \<noteq> [] \<and> list_all is_letter password then Some ''Password must contain more than just letters.''
      else if password \<noteq> [] \<and> list_all is_digit password then Some ''Password cannot be digits only.''
      else None)"

section \<open>Wrapping the master key\<close>

definition generateMekBytes :: "random \<Rightarrow> nat \<Rightarrow> bytes" where
  "generateMekBytes rnd i = rnd i 32"

definition importMekAsHkdf :: "bytes \<Rightarrow> hkdf_key" where
  "importMekAsHkdf raw = raw"

definition deriveKek :: "vault_web \<Rightarrow> string \<Rightarrow> string \<Rightarrow> vault_error + aes_key" where
  "deriveKek w password saltBase64 = thenE (deriveMekRaw w password saltBase64) (\<lambda>raw. Inr (importAesKeyNonExtractable raw))"

definition wrapMekBytes :: "vault_web \<Rightarrow> bytes \<Rightarrow> bytes \<Rightarrow> aes_key \<Rightarrow> string" where
  "wrapMekBytes w iv mekRaw wrappingKey = encryptString w iv (b64encode mekRaw) wrappingKey"

definition unwrapMekBytes :: "vault_web \<Rightarrow> string \<Rightarrow> aes_key \<Rightarrow> vault_error + bytes" where
  "unwrapMekBytes w ciphertextB64 wrappingKey = thenE (decryptString w ciphertextB64 wrappingKey) base64ToBytes"

definition vault_bytesEqual :: "bytes \<Rightarrow> bytes \<Rightarrow> bool" where
  "vault_bytesEqual a b \<longleftrightarrow> length a = length b \<and> foldl (\<lambda>diff (x, y). diff OR (x XOR y)) 0 (zip a b) = 0"

definition assertMekEnvelopeReopens :: "vault_web \<Rightarrow> string \<Rightarrow> string \<Rightarrow> aes_key \<Rightarrow> bytes \<Rightarrow> vault_error + unit" where
  "assertMekEnvelopeReopens w what ciphertextB64 wrappingKey expectedMekRaw =
     (case unwrapMekBytes w ciphertextB64 wrappingKey of
        Inl _ \<Rightarrow> Inl (CannotReopen what)
      | Inr reopened \<Rightarrow> if vault_bytesEqual reopened expectedMekRaw then Inr () else Inl (OtherKeyMaterial what))"

section \<open>Recovery codes\<close>

definition RECOVERY_WORDS :: "string list" where
  "RECOVERY_WORDS = [
     ''abandon'', ''ability'', ''able'', ''about'', ''above'', ''absent'', ''absorb'', ''abstract'', ''absurd'',
     ''abuse'', ''access'', ''accident'', ''account'', ''accuse'', ''achieve'', ''acid'', ''acoustic'', ''acquire'',
     ''across'', ''act'', ''action'', ''actor'', ''actress'', ''actual'', ''adapt'', ''add'', ''addict'',
     ''address'', ''adjust'', ''admit'', ''adult'', ''advance'', ''advice'', ''aerobic'', ''affair'', ''afford'',
     ''afraid'', ''again'', ''age'', ''agent'', ''agree'', ''ahead'', ''aim'', ''air'', ''airport'',
     ''aisle'', ''alarm'', ''album'', ''alcohol'', ''alert'', ''alien'', ''all'', ''alley'', ''allow'',
     ''almost'', ''alone'', ''alpha'', ''already'', ''also'', ''alter'', ''always'', ''amateur'', ''amazing'',
     ''among'', ''amount'', ''amused'', ''analyst'', ''anchor'', ''ancient'', ''anger'', ''angle'', ''angry'',
     ''animal'', ''ankle'', ''announce'', ''annual'', ''another'', ''answer'', ''antenna'', ''antique'', ''anxiety'',
     ''any'', ''apart'', ''apology'', ''appear'', ''apple'', ''approve'', ''april'', ''arch'', ''arctic'',
     ''area'', ''arena'', ''argue'', ''arm'', ''armed'', ''armor'', ''army'', ''around'', ''arrange'',
     ''arrest'', ''arrive'', ''arrow'', ''art'', ''artefact'', ''artist'', ''aside'', ''ask'', ''aspect'',
     ''assault'', ''asset'', ''assist'', ''assume'', ''asthma'', ''athlete'', ''atom'', ''attack'', ''attend'',
     ''attitude'', ''attract'', ''auction'', ''audit'', ''august'', ''aunt'', ''author'', ''auto'', ''autumn'',
     ''average'', ''avocado'', ''avoid'', ''awake'', ''aware'', ''away'', ''awesome'', ''awful'', ''awkward'',
     ''axis'', ''baby'', ''bachelor'', ''bacon'', ''badge'', ''bag'', ''balance'', ''balcony'', ''ball'',
     ''bamboo'', ''banana'', ''banner'', ''bar'', ''barely'', ''bargain'', ''barrel'', ''base'', ''basic'',
     ''basket'', ''battle'', ''beach'', ''bean'', ''beauty'', ''become'', ''beef'', ''before'', ''begin'',
     ''behave'', ''behind'', ''believe'', ''below'', ''belt'', ''bench'', ''benefit'', ''best'', ''betray'',
     ''better'', ''between'', ''beyond'', ''bicycle'', ''bid'', ''bike'', ''bind'', ''biology'', ''bird'',
     ''birth'', ''bitter'', ''black'', ''blade'', ''blame'', ''blanket'', ''blast'', ''bleak'', ''bless'',
     ''blind'', ''blood'', ''blossom'', ''blouse'', ''blue'', ''blur'', ''blush'', ''board'', ''boat'',
     ''body'', ''boil'', ''bomb'', ''bone'', ''bonus'', ''book'', ''boost'', ''border'', ''boring'',
     ''borrow'', ''boss'', ''bottom'', ''bounce'', ''box'', ''boy'', ''bracket'', ''brain'', ''brand'',
     ''brass'', ''brave'', ''bread'', ''breeze'', ''brick'', ''bridge'', ''brief'', ''bright'', ''bring'',
     ''brisk'', ''broccoli'', ''broken'', ''bronze'', ''broom'', ''brother'', ''brown'', ''brush'', ''bubble'',
     ''buddy'', ''budget'', ''buffalo'', ''build'', ''bulb'', ''bulk'', ''bullet'', ''bundle'', ''bunker'',
     ''burden'', ''burger'', ''burst'', ''bus'', ''business'', ''busy'', ''butter'', ''buyer'', ''buzz'',
     ''cabin'', ''cable'', ''camel'', ''cargo'', ''cash'', ''castle'', ''casual'', ''call'']"

fun join_words :: "string list \<Rightarrow> string" where
  "join_words [] = []"
| "join_words [x] = x"
| "join_words (x # xs) = x @ '' '' @ join_words xs"

definition generateRecoveryCode :: "bytes \<Rightarrow> string" where
  "generateRecoveryCode bs = join_words (map (\<lambda>b. RECOVERY_WORDS ! unat b) bs)"

text \<open>A run of white space becomes one space.\<close>

fun collapse_spaces :: "string \<Rightarrow> string" where
  "collapse_spaces [] = []"
| "collapse_spaces (c # s) =
     (if is_space c then (case s of d # _ \<Rightarrow> if is_space d then collapse_spaces s else CHR '' '' # collapse_spaces s | [] \<Rightarrow> '' '')
      else c # collapse_spaces s)"

definition normalized_code :: "vault_web \<Rightarrow> string \<Rightarrow> string" where
  "normalized_code w recoveryCode = collapse_spaces (vw_lower w (trim_text recoveryCode))"

definition deriveRecoveryKek :: "vault_web \<Rightarrow> string \<Rightarrow> aes_key" where
  "deriveRecoveryKek w recoveryCode =
     \<lparr>ak_raw = vw_hkdf w (vw_encode w (normalized_code w recoveryCode)) (vw_encode w ''orangerails-recovery-kek-v1'') [],
      ak_extractable = False\<rparr>"

section \<open>Subkeys\<close>

datatype hkdf_context = CredentialsV1 | TransactionsV1 | VerifierV1 | PqcSecretWrapV1 | KeyringWrapV1 | BlindIndexV1

definition HKDF_CONTEXTS :: "hkdf_context \<Rightarrow> string" where
  "HKDF_CONTEXTS c = (case c of
     CredentialsV1 \<Rightarrow> ''orangerails-creds-v1'' | TransactionsV1 \<Rightarrow> ''orangerails-txns-v1''
   | VerifierV1 \<Rightarrow> ''orangerails-verifier-v1'' | PqcSecretWrapV1 \<Rightarrow> ''orangerails-pqc-secret-wrap-v1''
   | KeyringWrapV1 \<Rightarrow> ''orangerails-keyring-wrap-v1'' | BlindIndexV1 \<Rightarrow> ''orangerails-blind-index-v1'')"

definition deriveSubkey :: "vault_web \<Rightarrow> hkdf_key \<Rightarrow> hkdf_context \<Rightarrow> string \<Rightarrow> bool \<Rightarrow> vault_error + aes_key" where
  "deriveSubkey w mek ctx saltB64 extractable =
     thenE (base64ToBytes saltB64) (\<lambda>saltBytes.
       let rawBits = vw_hkdf w mek saltBytes (vw_encode w (HKDF_CONTEXTS ctx))
       in Inr (if extractable then importAesKey rawBits else importAesKeyNonExtractable rawBits))"

definition deriveCredentialsKey :: "vault_web \<Rightarrow> hkdf_key \<Rightarrow> string \<Rightarrow> vault_error + aes_key" where
  "deriveCredentialsKey w mek saltB64 = deriveSubkey w mek CredentialsV1 saltB64 True"

definition deriveTransactionsKey :: "vault_web \<Rightarrow> hkdf_key \<Rightarrow> string \<Rightarrow> vault_error + aes_key" where
  "deriveTransactionsKey w mek saltB64 = deriveSubkey w mek TransactionsV1 saltB64 True"

definition derivePqcSecretWrapKey :: "vault_web \<Rightarrow> hkdf_key \<Rightarrow> string \<Rightarrow> vault_error + aes_key" where
  "derivePqcSecretWrapKey w mek saltB64 = deriveSubkey w mek PqcSecretWrapV1 saltB64 False"

definition deriveKeyringWrapKey :: "vault_web \<Rightarrow> hkdf_key \<Rightarrow> string \<Rightarrow> vault_error + aes_key" where
  "deriveKeyringWrapKey w mek saltB64 =
     thenE (base64ToBytes saltB64) (\<lambda>saltBytes.
       Inr (importAesKeyNonExtractable (vw_hkdf w mek saltBytes (vw_encode w (HKDF_CONTEXTS KeyringWrapV1)))))"

text \<open>A key that can only sign.\<close>

definition vault_deriveBlindIndexKey :: "vault_web \<Rightarrow> hkdf_key \<Rightarrow> string \<Rightarrow> vault_error + bytes" where
  "vault_deriveBlindIndexKey w mek saltB64 =
     thenE (base64ToBytes saltB64) (\<lambda>saltBytes. Inr (vw_hkdf w mek saltBytes (vw_encode w (HKDF_CONTEXTS BlindIndexV1))))"

definition deriveVerifierKey :: "vault_web \<Rightarrow> hkdf_key \<Rightarrow> string \<Rightarrow> vault_error + aes_key" where
  "deriveVerifierKey w mek saltB64 =
     thenE (base64ToBytes saltB64) (\<lambda>saltBytes.
       Inr (importAesKeyNonExtractable (vw_hkdf w mek saltBytes (vw_encode w (HKDF_CONTEXTS VerifierV1)))))"

section \<open>Fields\<close>

definition encryptCredentials :: "vault_web \<Rightarrow> json codec \<Rightarrow> bytes \<Rightarrow> json \<Rightarrow> hkdf_key \<Rightarrow> string \<Rightarrow> vault_error + string" where
  "encryptCredentials w js iv payload mek saltB64 =
     thenE (deriveCredentialsKey w mek saltB64) (\<lambda>key. Inr (encryptString w iv (stringify js payload) key))"

definition decryptCredentials :: "vault_web \<Rightarrow> json codec \<Rightarrow> string \<Rightarrow> hkdf_key \<Rightarrow> string \<Rightarrow> vault_error + json" where
  "decryptCredentials w js ciphertextB64 mek saltB64 =
     thenE (deriveCredentialsKey w mek saltB64) (\<lambda>key. thenE (decryptString w ciphertextB64 key) (\<lambda>plaintext.
       case parse js plaintext of
         None \<Rightarrow> Inl BadJson
       | Some (JObj kvs) \<Rightarrow> Inr (JObj kvs)
       | Some _ \<Rightarrow> Inl NotAnObjectV))"

definition encryptTransaction :: "vault_web \<Rightarrow> json codec \<Rightarrow> bytes \<Rightarrow> json \<Rightarrow> hkdf_key \<Rightarrow> string \<Rightarrow> vault_error + string" where
  "encryptTransaction w js iv transaction mek saltB64 =
     thenE (deriveTransactionsKey w mek saltB64) (\<lambda>key. Inr (encryptString w iv (stringify js transaction) key))"

definition decryptTransaction :: "vault_web \<Rightarrow> json codec \<Rightarrow> string \<Rightarrow> hkdf_key \<Rightarrow> string \<Rightarrow> vault_error + json" where
  "decryptTransaction w js ciphertextB64 mek saltB64 =
     thenE (deriveTransactionsKey w mek saltB64) (\<lambda>key. thenE (decryptString w ciphertextB64 key) (\<lambda>plaintext.
       case parse js plaintext of None \<Rightarrow> Inl BadJson | Some x \<Rightarrow> if is_object x then Inr x else Inl NotAnObjectV))"

definition decryptTransactions :: "vault_web \<Rightarrow> json codec \<Rightarrow> string list \<Rightarrow> hkdf_key \<Rightarrow> string \<Rightarrow> vault_error + json list" where
  "decryptTransactions w js ciphertexts mek saltB64 =
     thenE (deriveTransactionsKey w mek saltB64) (\<lambda>key. mapE (\<lambda>c. thenE (decryptString w c key) (\<lambda>plaintext.
       case parse js plaintext of None \<Rightarrow> Inl BadJson | Some x \<Rightarrow> Inr x)) ciphertexts)"

definition encryptTransactions :: "vault_web \<Rightarrow> json codec \<Rightarrow> bytes list \<Rightarrow> json list \<Rightarrow> hkdf_key \<Rightarrow> string \<Rightarrow> vault_error + string list" where
  "encryptTransactions w js ivs transactions mek saltB64 =
     thenE (deriveTransactionsKey w mek saltB64) (\<lambda>key.
       Inr (map2 (\<lambda>iv t. encryptString w iv (stringify js t) key) ivs transactions))"

definition computeBlindIndex :: "vault_web \<Rightarrow> string option \<Rightarrow> bytes \<Rightarrow> string option" where
  "computeBlindIndex w v hmacKey =
     (if v = None \<or> v = Some [] then None
      else Some (b64encode (vw_hmac w hmacKey (vw_encode w (vw_lower w (trim_text (the v)))))))"

record transaction_row =
  encrypted_payload :: string
  hmac_type :: "string option"
  hmac_direction :: "string option"
  hmac_counterparty :: "string option"

definition text_at :: "json \<Rightarrow> string \<Rightarrow> string option" where
  "text_at x k = (case field x k of Some (JStr s) \<Rightarrow> Some s | _ \<Rightarrow> None)"

definition transaction_row_of :: "vault_web \<Rightarrow> json codec \<Rightarrow> aes_key \<Rightarrow> bytes \<Rightarrow> bytes \<Rightarrow> json \<Rightarrow> transaction_row" where
  "transaction_row_of w js encKey hmacKey iv tx =
     \<lparr>encrypted_payload = encryptString w iv (stringify js tx) encKey, hmac_type = computeBlindIndex w (text_at tx ''type'') hmacKey,
      hmac_direction = computeBlindIndex w (text_at tx ''direction'') hmacKey,
      hmac_counterparty = computeBlindIndex w (text_at tx ''counterparty'') hmacKey\<rparr>"

definition encryptTransactionRow :: "vault_web \<Rightarrow> json codec \<Rightarrow> bytes \<Rightarrow> json \<Rightarrow> hkdf_key \<Rightarrow> string \<Rightarrow> vault_error + transaction_row" where
  "encryptTransactionRow w js iv tx mek saltB64 =
     thenE (deriveTransactionsKey w mek saltB64) (\<lambda>encKey. thenE (vault_deriveBlindIndexKey w mek saltB64) (\<lambda>hmacKey.
       Inr (transaction_row_of w js encKey hmacKey iv tx)))"

definition encryptTransactionRows :: "vault_web \<Rightarrow> json codec \<Rightarrow> bytes list \<Rightarrow> json list \<Rightarrow> hkdf_key \<Rightarrow> string \<Rightarrow>
    vault_error + transaction_row list" where
  "encryptTransactionRows w js ivs transactions mek saltB64 =
     thenE (deriveTransactionsKey w mek saltB64) (\<lambda>encKey. thenE (vault_deriveBlindIndexKey w mek saltB64) (\<lambda>hmacKey.
       Inr (map2 (transaction_row_of w js encKey hmacKey) ivs transactions)))"

section \<open>What the code relies on\<close>

text \<open>
  The text codec gives a text back; AES-GCM opens exactly what it sealed under key, nonce and additional data;
  Argon2id as called here needs a password and eight bytes of salt, and gives 32 bytes, as HKDF does.
\<close>

definition vault_laws :: "vault_web \<Rightarrow> bool" where
  "vault_laws w \<longleftrightarrow> (\<forall>s. vw_decode w (vw_encode w s) = s) \<and> vw_encode w [] = [] \<and>
     (\<forall>k iv a p. length k = 32 \<longrightarrow> vw_open w k iv a (vw_seal w k iv a p) = Some p) \<and>
     (\<forall>k iv a c p. vw_open w k iv a c = Some p \<longrightarrow> c = vw_seal w k iv a p) \<and>
     (\<forall>k iv a p. length (vw_seal w k iv a p) = length p + 16) \<and>
     (\<forall>m s i. length (vw_hkdf w m s i) = 32) \<and> (\<forall>p s b. vw_argon w p s = Some b \<longrightarrow> length b = 32) \<and>
     (\<forall>p s. p \<noteq> [] \<longrightarrow> 8 \<le> length s \<longrightarrow> vw_argon w p s \<noteq> None) \<and>
     (\<forall>s. list_all (\<lambda>c. (of_char c :: nat) < 128) s \<longrightarrow> vw_lower w s = map lower_char s)"

lemma vault_lawsD:
  assumes "vault_laws w"
  shows "vw_decode w (vw_encode w s) = s" "length k = 32 \<Longrightarrow> vw_open w k iv a (vw_seal w k iv a p) = Some p"
    "vw_open w k iv a c = Some p \<Longrightarrow> c = vw_seal w k iv a p" "length (vw_seal w k iv a p) = length p + 16"
    "length (vw_hkdf w m s' i) = 32" "vw_argon w p' s'' = Some b \<Longrightarrow> length b = 32"
    "p'' \<noteq> [] \<Longrightarrow> 8 \<le> length s'' \<Longrightarrow> \<exists>b. vw_argon w p'' s'' = Some b"
    "list_all (\<lambda>c. (of_char c :: nat) < 128) t \<Longrightarrow> vw_lower w t = map lower_char t"
    "vw_encode w t = [] \<Longrightarrow> t = []"
proof -
  show "vw_encode w t = [] \<Longrightarrow> t = []" using assms unfolding vault_laws_def by metis
qed (use assms in \<open>auto simp: vault_laws_def\<close>)

definition random_ok :: "random \<Rightarrow> bool" where
  "random_ok rnd \<longleftrightarrow> (\<forall>i n. length (rnd i n) = n)"

lemma base64_bytes [simp]: "base64ToBytes (b64encode bs) = Inr bs"
  by (simp add: base64ToBytes_def base64_inverse)

lemma encrypted_opens:
  assumes "vault_laws w" and "length (ak_raw k) = 32" and "length iv = 12"
  shows "decryptString w (encryptString w iv p k) k = Inr p"
  using assms by (simp add: decryptString_def encryptString_def vault_lawsD)

text \<open>What opens was sealed by this key.\<close>

lemma opened_was_sealed:
  assumes "vault_laws w" and "decryptString w c k = Inr p"
  shows "\<exists>iv m. b64decode c = Some (iv @ vw_seal w (ak_raw k) iv [] m) \<and> length iv = 12 \<and> p = vw_decode w m"
proof -
  obtain bs where bs: "b64decode c = Some bs" "12 + 16 \<le> length bs"
      "\<exists>m. vw_open w (ak_raw k) (take 12 bs) [] (drop 12 bs) = Some m \<and> p = vw_decode w m"
    using assms(2) by (auto simp: decryptString_def base64ToBytes_def split: option.splits if_splits)
  then obtain m where m: "vw_open w (ak_raw k) (take 12 bs) [] (drop 12 bs) = Some m" "p = vw_decode w m" by blast
  have "bs = take 12 bs @ vw_seal w (ak_raw k) (take 12 bs) [] m"
    using vault_lawsD(3) [OF assms(1) m(1)] by (metis append_take_drop_id)
  moreover have "length (take 12 bs) = 12" using bs(2) by simp
  ultimately show ?thesis using bs(1) m(2) by metis
qed

lemma verify_iff: "verifyVaultPassword w k stored \<longleftrightarrow> decryptString w stored k = Inr VAULT_VERIFIER_PLAINTEXT"
proof -
  have "timingSafeEqualStrings a b \<longleftrightarrow> a = b" for a b
    using timing_safe_iff by (simp add: timingSafeEqualStrings_def timingSafeEqualHex_def)
  then show ?thesis by (simp add: verifyVaultPassword_def split: sum.splits)
qed

lemma vault_bytesEqual_iff: "vault_bytesEqual a b \<longleftrightarrow> a = b"
proof -
  have zero: "x XOR y = 0 \<longleftrightarrow> x = y" for x y :: byte
    by (metis xor.assoc xor_self_eq xor.left_neutral xor.right_neutral)
  have "foldl (\<lambda>diff (x, y). diff OR (x XOR y)) d ps = 0 \<longleftrightarrow> d = 0 \<and> list_all (\<lambda>(x, y). x = y) ps"
    for d :: byte and ps
  proof (induction ps arbitrary: d)
    case (Cons xy ps)
    obtain x y where xy: "xy = (x, y)" by fastforce
    have "d OR (x XOR y) = 0 \<longleftrightarrow> d = 0 \<and> x = y" using zero by (simp only: or_eq_0_iff)
    then show ?case using Cons by (simp add: xy)
  qed simp
  moreover have "length a = length b \<Longrightarrow> list_all (\<lambda>(x, y). x = y) (zip a b) \<longleftrightarrow> a = b"
    by (induction a b rule: list_induct2) auto
  ultimately show ?thesis unfolding vault_bytesEqual_def by auto
qed

lemma wrapped_mek_opens:
  assumes "vault_laws w" and "length (ak_raw k) = 32" and "length iv = 12"
  shows "unwrapMekBytes w (wrapMekBytes w iv mek k) k = Inr mek"
  using encrypted_opens [OF assms] by (simp add: unwrapMekBytes_def wrapMekBytes_def)

lemma fresh_envelope_reopens:
  assumes "vault_laws w" and "length (ak_raw k) = 32" and "length iv = 12"
  shows "assertMekEnvelopeReopens w what (wrapMekBytes w iv mek k) k mek = Inr ()"
  using wrapped_mek_opens [OF assms] by (simp add: assertMekEnvelopeReopens_def vault_bytesEqual_iff)

text \<open>A password stretches under every salt of eight bytes or more, and every subkey derives.\<close>

lemma kek_derives:
  assumes "vault_laws w" and "password \<noteq> []" and "8 \<le> length salt"
  shows "\<exists>k. deriveKek w password (b64encode salt) = Inr k \<and> length (ak_raw k) = 32"
proof -
  have "vw_encode w password \<noteq> []" using vault_lawsD(9) [OF assms(1)] assms(2) by metis
  then obtain b where "vw_argon w (vw_encode w password) salt = Some b" using vault_lawsD(7) [OF assms(1) _ assms(3)] by blast
  then show ?thesis using vault_lawsD(6) [OF assms(1)]
    by (auto simp: deriveKek_def deriveMekRaw_def importAesKeyNonExtractable_def)
qed

lemma subkey_derives:
  "deriveSubkey w mek ctx (b64encode salt) x =
     Inr \<lparr>ak_raw = vw_hkdf w mek salt (vw_encode w (HKDF_CONTEXTS ctx)), ak_extractable = x\<rparr>"
  by (simp add: deriveSubkey_def Let_def importAesKey_def importAesKeyNonExtractable_def)

lemma verifier_key_derives:
  "deriveVerifierKey w mek (b64encode salt) =
     Inr \<lparr>ak_raw = vw_hkdf w mek salt (vw_encode w (HKDF_CONTEXTS VerifierV1)), ak_extractable = False\<rparr>"
  by (simp add: deriveVerifierKey_def importAesKeyNonExtractable_def)

lemma recovery_kek_length: "vault_laws w \<Longrightarrow> length (ak_raw (deriveRecoveryKek w code)) = 32"
  by (simp add: deriveRecoveryKek_def vault_lawsD)

section \<open>Recovery codes are exact\<close>

lemma words_distinct: "distinct (take 256 RECOVERY_WORDS) \<and> length RECOVERY_WORDS = 260"
proof -
  have "successively (<) (take 256 RECOVERY_WORDS)" by code_simp
  then have "sorted_wrt (<) (take 256 RECOVERY_WORDS)" by (simp only: successively_conv_sorted_wrt [OF transp_on_less])
  moreover have "length RECOVERY_WORDS = 260" by code_simp
  ultimately show ?thesis using strict_sorted_iff by blast
qed

lemma word_letters: "i < 260 \<Longrightarrow> RECOVERY_WORDS ! i \<noteq> [] \<and> list_all (\<lambda>c. c \<in> set ''abcdefghijklmnopqrstuvwxyz'') (RECOVERY_WORDS ! i)"
proof -
  have "list_all (\<lambda>x. x \<noteq> [] \<and> list_all (\<lambda>c. c \<in> set ''abcdefghijklmnopqrstuvwxyz'') x) RECOVERY_WORDS" by code_simp
  then show "i < 260 \<Longrightarrow> ?thesis" using words_distinct by (simp add: list_all_length)
qed

lemma letter_plain:
  assumes "c \<in> set ''abcdefghijklmnopqrstuvwxyz''"
  shows "\<not> is_space c" "lower_char c = c" "(of_char c :: nat) < 128"
proof -
  have "list_all (\<lambda>c. \<not> is_space c \<and> lower_char c = c \<and> (of_char c :: nat) < 128) ''abcdefghijklmnopqrstuvwxyz''" by code_simp
  note this [unfolded list_all_iff, rule_format, OF assms]
  then show "\<not> is_space c" "lower_char c = c" "(of_char c :: nat) < 128" by blast+
qed

lemma split_join_words:
  assumes "ws \<noteq> []" and "\<forall>x \<in> set ws. CHR '' '' \<notin> set x"
  shows "split_on (CHR '' '') (join_words ws) = ws"
  using assms
proof (induction ws rule: join_words.induct)
  case (3 x y ys)
  then show ?case using split_on_first [of "CHR '' ''" x "join_words (y # ys)"] by simp
qed (simp_all add: split_on_plain)

lemma code_inject:
  assumes "generateRecoveryCode a = generateRecoveryCode b" and "a \<noteq> []" and "b \<noteq> []"
  shows "a = b"
proof -
  let ?words = "map (\<lambda>b :: byte. RECOVERY_WORDS ! unat b)"
  have byte: "unat x < 256" for x :: byte using unsigned_less [of x, where ?'a = nat] by simp
  have plain: "\<forall>x \<in> set (?words s). CHR '' '' \<notin> set x" for s
  proof
    fix x assume "x \<in> set (?words s)"
    then obtain i :: byte where "x = RECOVERY_WORDS ! unat i" by auto
    then have "\<forall>c \<in> set x. \<not> is_space c" using word_letters [of "unat i"] byte [of i] letter_plain(1) by (auto simp: list_all_iff)
    moreover have "is_space (CHR '' '')" by code_simp
    ultimately show "CHR '' '' \<notin> set x" by metis
  qed
  have "?words a = ?words b"
  proof -
    have split: "split_on (CHR '' '') (join_words (?words s)) = ?words s" if "s \<noteq> []" for s
      by (rule split_join_words [OF _ plain]) (simp add: that)
    have "join_words (?words a) = join_words (?words b)" using assms(1) by (simp only: generateRecoveryCode_def)
    then have "split_on (CHR '' '') (join_words (?words a)) = split_on (CHR '' '') (join_words (?words b))" by (rule arg_cong)
    then show ?thesis unfolding split [OF assms(2)] split [OF assms(3)] .
  qed
  moreover have "inj (\<lambda>b :: byte. RECOVERY_WORDS ! unat b)"
  proof (rule injI)
    fix x y :: byte assume "RECOVERY_WORDS ! unat x = RECOVERY_WORDS ! unat y"
    then have eq: "take 256 RECOVERY_WORDS ! unat x = take 256 RECOVERY_WORDS ! unat y" using byte by simp
    have len: "length (take 256 RECOVERY_WORDS) = 256" using words_distinct by simp
    have "unat x < length (take 256 RECOVERY_WORDS)" "unat y < length (take 256 RECOVERY_WORDS)" unfolding len by (rule byte)+
    from nth_eq_iff_index_eq [OF conjunct1 [OF words_distinct] this] have "unat x = unat y" using eq by (rule iffD1)
    then show "x = y" by (rule unsigned_word_eqI)
  qed
  ultimately show ?thesis by (metis inj_map_eq_map)
qed

text \<open>What a user types: each word in any case, with the white space behind it.\<close>

fun typed_text :: "(string \<times> string) list \<Rightarrow> string" where
  "typed_text [] = []"
| "typed_text ((x, gap) # r) = x @ gap @ typed_text r"

lemma collapse_word: "list_all (\<lambda>c. \<not> is_space c) x \<Longrightarrow> collapse_spaces (x @ s) = x @ collapse_spaces s"
  by (induction x) auto

lemma collapse_gap:
  assumes "gap \<noteq> []" and "list_all is_space gap" and "s \<noteq> []" and "\<not> is_space (hd s)"
  shows "collapse_spaces (gap @ s) = CHR '' '' # collapse_spaces s"
  using assms
proof (induction gap)
  case (Cons c gap)
  then show ?case by (cases gap; cases s) auto
qed simp

lemma space_lower: "is_space (lower_char c) \<longleftrightarrow> is_space c"
proof (cases "c \<in> set ''ABCDEFGHIJKLMNOPQRSTUVWXYZ''")
  case True
  have "list_all (\<lambda>c. \<not> is_space c \<and> \<not> is_space (lower_char c)) ''ABCDEFGHIJKLMNOPQRSTUVWXYZ''" by code_simp
  note this [unfolded list_all_iff, rule_format, OF True]
  then show ?thesis by blast
qed (simp add: lower_char_def)

lemma collapse_typed:
  assumes "ps \<noteq> []" and "\<forall>(x, gap) \<in> set ps. x \<noteq> [] \<and> list_all (\<lambda>c. \<not> is_space c) x \<and> list_all is_space gap"
    and "\<forall>p \<in> set (butlast ps). snd p \<noteq> []" and "snd (last ps) = []"
  shows "collapse_spaces (typed_text ps) = join_words (map fst ps)"
  using assms
proof (induction ps rule: typed_text.induct)
  case (2 x gap r)
  have x: "x \<noteq> []" "list_all (\<lambda>c. \<not> is_space c) x" "list_all is_space gap" using 2(3) by auto
  show ?case
  proof (cases r)
    case Nil
    then show ?thesis using x 2(5) collapse_word [of x "[]"] by simp
  next
    case (Cons p r')
    obtain y g where p: "p = (y, g)" by fastforce
    have y: "y \<noteq> []" "\<not> is_space (hd y)" using 2(3) Cons p by (auto simp: list_all_iff)
    have ne: "typed_text r \<noteq> []" and hd: "\<not> is_space (hd (typed_text r))" using y Cons p by auto
    have "gap \<noteq> []" using 2(4) Cons by simp
    then have "collapse_spaces (gap @ typed_text r) = CHR '' '' # collapse_spaces (typed_text r)"
      by (rule collapse_gap [OF _ x(3) ne hd])
    moreover have "collapse_spaces (typed_text r) = join_words (map fst r)"
      using 2(1) 2(3-5) Cons by (cases r') auto
    ultimately show ?thesis using collapse_word [OF x(2)] Cons p by simp
  qed
qed simp

lemma typed_ends:
  assumes "ps \<noteq> []" and "\<forall>(x, gap) \<in> set ps. x \<noteq> [] \<and> list_all (\<lambda>c. \<not> is_space c) x" and "snd (last ps) = []"
  shows "typed_text ps \<noteq> [] \<and> \<not> is_space (hd (typed_text ps)) \<and> \<not> is_space (last (typed_text ps))"
  using assms
proof (induction ps rule: typed_text.induct)
  case (2 x gap r)
  have x: "x \<noteq> []" "\<not> is_space (hd x)" "\<not> is_space (last x)" using 2(3) by (auto simp: list_all_iff)
  show ?case
  proof (cases r)
    case Nil
    then show ?thesis using x 2(4) by simp
  next
    case (Cons p r')
    then have "typed_text r \<noteq> [] \<and> \<not> is_space (last (typed_text r))" using 2(1) 2(3,4) by auto
    then show ?thesis using x by simp
  qed
qed simp

lemma trim_around:
  assumes "list_all is_space lead" and "list_all is_space trail" and "s \<noteq> []" and "\<not> is_space (hd s)" and "\<not> is_space (last s)"
  shows "trim_text (lead @ s @ trail) = s"
proof -
  have "dropWhile is_space (lead @ s @ trail) = s @ trail"
    using assms(1,3,4) by (induction lead) (auto simp: neq_Nil_conv)
  moreover have "dropWhile is_space (rev trail @ rev s) = rev s"
  proof -
    have "list_all is_space (rev trail)" using assms(2) by (simp add: list_all_iff)
    then show ?thesis using assms(3,5)
      by (induction "rev trail" arbitrary: trail) (auto simp: dropWhile_append list_all_iff dropWhile_eq_self_iff hd_rev)
  qed
  ultimately show ?thesis by (simp add: trim_text_def)
qed

lemma map_typed: "map lower_char (typed_text ps) = typed_text (map (\<lambda>(x, gap). (map lower_char x, map lower_char gap)) ps)"
  by (induction ps rule: typed_text.induct) simp_all

text \<open>A text that has the words in any case and any white space around them.\<close>

definition spells :: "string list \<Rightarrow> string \<Rightarrow> bool" where
  "spells ws typed \<longleftrightarrow> (\<exists>lead ps trail. typed = lead @ typed_text ps @ trail \<and> list_all is_space lead \<and> list_all is_space trail \<and>
     map (\<lambda>p. map lower_char (fst p)) ps = ws \<and> (\<forall>p \<in> set ps. list_all is_space (snd p)) \<and>
     (\<forall>p \<in> set (butlast ps). snd p \<noteq> []) \<and> snd (last ps) = [] \<and> list_all (\<lambda>c. (of_char c :: nat) < 128) (typed_text ps))"

lemma spelled_code:
  assumes "vault_laws w" and "bs \<noteq> []" and "spells (map (\<lambda>b. RECOVERY_WORDS ! unat b) bs) typed"
  shows "normalized_code w typed = generateRecoveryCode bs"
proof -
  let ?ws = "map (\<lambda>b :: byte. RECOVERY_WORDS ! unat b) bs"
  obtain lead ps trail where t: "typed = lead @ typed_text ps @ trail" "list_all is_space lead" "list_all is_space trail"
      and ws: "map (\<lambda>p. map lower_char (fst p)) ps = ?ws" and gaps: "\<forall>p \<in> set ps. list_all is_space (snd p)"
        "\<forall>p \<in> set (butlast ps). snd p \<noteq> []" "snd (last ps) = []"
      and ascii: "list_all (\<lambda>c. (of_char c :: nat) < 128) (typed_text ps)"
    using assms(3) unfolding spells_def by blast
  have ne: "ps \<noteq> []" using ws assms(2) by auto
  have byte: "unat x < 256" for x :: byte using unsigned_less [of x, where ?'a = nat] by simp
  have plain: "x \<noteq> [] \<and> list_all (\<lambda>c. \<not> is_space c) x" if mem: "x \<in> set ?ws" for x
  proof -
    obtain b :: byte where "x = RECOVERY_WORDS ! unat b" using mem by auto
    then show ?thesis using word_letters [of "unat b"] byte [of b] letter_plain(1) by (auto simp: list_all_iff)
  qed
  have words: "\<forall>(x, gap) \<in> set ps. x \<noteq> [] \<and> list_all (\<lambda>c. \<not> is_space c) x"
  proof (intro ballI, clarify)
    fix x gap assume "(x, gap) \<in> set ps"
    then have "map lower_char x \<in> set ?ws" unfolding ws [symmetric] by force
    from plain [OF this] show "x \<noteq> [] \<and> list_all (\<lambda>c. \<not> is_space c) x" by (simp add: list_all_iff space_lower)
  qed
  let ?low = "map (\<lambda>(x, gap). (map lower_char x, map lower_char gap)) ps"
  have "trim_text typed = typed_text ps"
    unfolding t(1) using typed_ends [OF ne words gaps(3)] by (intro trim_around t(2,3)) auto
  then have "normalized_code w typed = collapse_spaces (typed_text ?low)"
    using vault_lawsD(8) [OF assms(1) ascii] by (simp add: normalized_code_def map_typed)
  also have "\<dots> = join_words (map fst ?low)"
  proof (rule collapse_typed)
    show "?low \<noteq> []" using ne by simp
    show "\<forall>(x, gap) \<in> set ?low. x \<noteq> [] \<and> list_all (\<lambda>c. \<not> is_space c) x \<and> list_all is_space gap"
      using words gaps(1) by (fastforce simp: list_all_iff space_lower)
    show "\<forall>p \<in> set (butlast ?low). snd p \<noteq> []" using gaps(2) by (auto simp: map_butlast [symmetric])
    show "snd (last ?low) = []" using gaps(3) ne by (simp add: last_map case_prod_beta)
  qed
  also have "map fst ?low = ?ws" unfolding ws [symmetric] by (simp add: case_prod_beta)
  finally show ?thesis by (simp add: generateRecoveryCode_def)
qed

lemma own_spelling:
  assumes "bs \<noteq> []"
  shows "spells (map (\<lambda>b. RECOVERY_WORDS ! unat b) bs) (generateRecoveryCode bs)"
proof -
  let ?ws = "map (\<lambda>b :: byte. RECOVERY_WORDS ! unat b) bs"
  let ?ps = "map (\<lambda>x. (x, '' '')) (butlast ?ws) @ [(last ?ws, [])]"
  have ne: "?ws \<noteq> []" using assms by simp
  have shape: "typed_text (map (\<lambda>x. (x, '' '')) (butlast xs) @ [(last xs, [])]) = join_words xs" if "xs \<noteq> []" for xs :: "string list"
    using that by (induction xs rule: join_words.induct) simp_all
  have byte: "unat x < 256" for x :: byte using unsigned_less [of x, where ?'a = nat] by simp
  have letters: "list_all (\<lambda>c. c \<in> set ''abcdefghijklmnopqrstuvwxyz'') x" if mem: "x \<in> set ?ws" for x
  proof -
    obtain b :: byte where "x = RECOVERY_WORDS ! unat b" using mem by auto
    then show ?thesis using word_letters [of "unat b"] byte [of b] by simp
  qed
  have low: "map lower_char x = x" if "x \<in> set ?ws" for x
    using letters [OF that] letter_plain(2) by (simp add: list_all_iff map_idI)
  have ascii: "list_all (\<lambda>c. (of_char c :: nat) < 128) (join_words xs)" if "set xs \<subseteq> set ?ws" for xs
  proof -
    have "list_all (\<lambda>c. (of_char c :: nat) < 128) x" if "x \<in> set ?ws" for x
      using letters [OF that] letter_plain(3) unfolding list_all_iff by blast
    then have "\<forall>x \<in> set xs. list_all (\<lambda>c. (of_char c :: nat) < 128) x" using that by blast
    then show ?thesis by (induction xs rule: join_words.induct) simp_all
  qed
  have "map (\<lambda>p. map lower_char (fst p)) (map (\<lambda>x. (x, '' '')) xs @ [(x, [])]) = map (map lower_char) (xs @ [x])" for xs x
    by simp
  then have "map (\<lambda>p. map lower_char (fst p)) ?ps = map (map lower_char) ?ws" by (simp only: append_butlast_last_id [OF ne])
  also have "\<dots> = ?ws" by (rule map_idI) (rule low)
  finally have words: "map (\<lambda>p. map lower_char (fst p)) ?ps = ?ws" .
  have sp: "is_space (CHR '' '')" by code_simp
  show ?thesis unfolding spells_def
  proof (intro exI conjI)
    show "generateRecoveryCode bs = [] @ typed_text ?ps @ []" using shape [OF ne] by (simp add: generateRecoveryCode_def)
    show "list_all (\<lambda>c. (of_char c :: nat) < 128) (typed_text ?ps)" using shape [OF ne] ascii by simp
  qed (use words sp in auto)
qed

text \<open>C40: recovery codes are exact.  Two draws of twelve bytes give different codes, and whoever types the words of
  a code in any case, with any white space between and around them, gets the key of that code.\<close>

theorem recovery_code_exact:
  assumes "vault_laws w" and "length a = 12" and "length b = 12"
  shows "(generateRecoveryCode a = generateRecoveryCode b \<longleftrightarrow> a = b) \<and>
    (spells (map (\<lambda>b. RECOVERY_WORDS ! unat b) a) typed \<longrightarrow> deriveRecoveryKek w typed = deriveRecoveryKek w (generateRecoveryCode a))"
proof -
  have ne: "a \<noteq> []" "b \<noteq> []" using assms(2,3) by auto
  have "normalized_code w (generateRecoveryCode a) = generateRecoveryCode a" by (rule spelled_code [OF assms(1) ne(1) own_spelling [OF ne(1)]])
  then show ?thesis
    using spelled_code [OF assms(1) ne(1)] code_inject [OF _ ne] by (auto simp: deriveRecoveryKek_def)
qed

text \<open>A small platform: a tag of sixteen bytes that sums up key and additional data.\<close>

definition sample_tag :: "bytes \<Rightarrow> bytes \<Rightarrow> bytes" where
  "sample_tag k a = replicate 14 0 @ [foldl (+) 0 a, foldl (+) 0 k]"

definition sample_vault :: vault_web where
  "sample_vault = \<lparr>vw_encode = map (\<lambda>c. of_nat (of_char c)), vw_decode = map (\<lambda>b. char_of (unat b)), vw_lower = map lower_char,
     vw_seal = (\<lambda>k iv a p. p @ sample_tag k a),
     vw_open = (\<lambda>k iv a c. if drop (length c - 16) c = sample_tag k a then Some (take (length c - 16) c) else None),
     vw_hkdf = (\<lambda>m s i. foldl (+) 0 i # take 31 (m @ replicate 31 0)), vw_hmac = (\<lambda>k m. take 32 (k @ m)),
     vw_argon = (\<lambda>p s. Some (take 32 (p @ replicate 32 0)))\<rparr>"

definition sample_random :: random where
  "sample_random i n = replicate n (of_nat (i + 1))"

lemma sample_random_ok: "random_ok sample_random"
  by (simp add: random_ok_def sample_random_def)

lemma sample_vault_laws: "vault_laws sample_vault"
proof -
  have chars: "char_of (unat (of_nat (of_char c) :: byte)) = c" for c by (simp add: unat_of_nat)
  have len: "length (sample_tag k a) = 16" for k a by (simp add: sample_tag_def)
  have opens: "c = p @ sample_tag k a" if "drop (length c - 16) c = sample_tag k a" "take (length c - 16) c = p" for k a c p
    using that by (metis append_take_drop_id)
  show ?thesis
    unfolding vault_laws_def sample_vault_def by (simp add: comp_def chars len) (auto intro: opens simp: min_def)
qed

theorem recovery_code_exact_witness:
  "generateRecoveryCode (replicate 12 0) \<noteq> generateRecoveryCode (replicate 12 1) \<and>
     deriveRecoveryKek sample_vault (typed_text (replicate 11 (''ABANDON'', ''  '') @ [(''Abandon'', [])]) @ '' '') =
       deriveRecoveryKek sample_vault (generateRecoveryCode (replicate 12 0))"
proof -
  let ?typed = "typed_text (replicate 11 (''ABANDON'', ''  '') @ [(''Abandon'', [])]) @ '' ''"
  have "spells (map (\<lambda>b. RECOVERY_WORDS ! unat b) (replicate 12 (0 :: byte))) ?typed"
    unfolding spells_def
  proof (intro exI conjI)
    show "?typed = [] @ typed_text (replicate 11 (''ABANDON'', ''  '') @ [(''Abandon'', [])]) @ '' ''" by simp
    show "list_all (\<lambda>c. (of_char c :: nat) < 128) (typed_text (replicate 11 (''ABANDON'', ''  '') @ [(''Abandon'', [])]))" by code_simp
    show "list_all is_space '' ''" by code_simp
    show "map (\<lambda>p. map lower_char (fst p)) (replicate 11 (''ABANDON'', ''  '') @ [(''Abandon'', [])]) =
        map (\<lambda>b. RECOVERY_WORDS ! unat b) (replicate 12 (0 :: byte))"
      by code_simp
    have "list_all is_space ''  ''" by code_simp
    then show "\<forall>p \<in> set (replicate 11 (''ABANDON'', ''  '') @ [(''Abandon'', [])]). list_all is_space (snd p)" by auto
  qed auto
  moreover have "replicate 12 (0 :: byte) \<noteq> replicate 12 1" by (simp add: replicate_eq_replicate)
  ultimately show ?thesis
    using recovery_code_exact [OF sample_vault_laws, of "replicate 12 0" "replicate 12 1" ?typed] by simp
qed

end
