(* ===== verification/VaultSession.thy ===== *)
theory VaultSession
  imports VaultCrypto Handshake
begin

text \<open>
  The vault in a browser tab: \<open>context/VaultContext.tsx\<close> as a state with its operations, and the key
  pairs that travel with it, \<open>src/lib/pqc-lifecycle.ts\<close>.  Every operation gives its result and the state
  after it, also when it throws.  The two generators of key pairs are parameters.
\<close>

section \<open>Post-quantum secrets\<close>

record pqc_row =
  kem_public_key :: string
  kem_secret_wrapped :: string
  sig_public_key :: string
  sig_secret_wrapped :: string
  pqc_key_version :: nat

text \<open>A key pair: public and secret bytes.\<close>

type_synonym key_pair = "bytes \<times> bytes"

definition buildPqcKeyMaterial :: "vault_web \<Rightarrow> random \<Rightarrow> key_pair \<Rightarrow> key_pair \<Rightarrow> aes_key \<Rightarrow> pqc_row" where
  "buildPqcKeyMaterial w rnd kem sig wrapKey =
     \<lparr>kem_public_key = b64encode (fst kem), kem_secret_wrapped = encryptString w (rnd 0 12) (b64encode (snd kem)) wrapKey,
      sig_public_key = b64encode (fst sig), sig_secret_wrapped = encryptString w (rnd 1 12) (b64encode (snd sig)) wrapKey,
      pqc_key_version = 1\<rparr>"

definition unwrapPqcSecretKey :: "vault_web \<Rightarrow> aes_key \<Rightarrow> string \<Rightarrow> vault_error + bytes" where
  "unwrapPqcSecretKey w wrapKey secretWrappedB64 = thenE (decryptString w secretWrappedB64 wrapKey) base64ToBytes"

datatype carry_outcome = Absent | Rewrapped string | Dead

definition isAuthenticationTagFailure :: "vault_error \<Rightarrow> bool" where
  "isAuthenticationTagFailure err \<longleftrightarrow> err = TagFailure"

definition rewrapPqcSecretKey :: "vault_web \<Rightarrow> bytes \<Rightarrow> aes_key \<Rightarrow> aes_key \<Rightarrow> string \<Rightarrow> vault_error + carry_outcome" where
  "rewrapPqcSecretKey w iv oldWrapKey newWrapKey secretWrappedB64 =
     (case decryptString w secretWrappedB64 oldWrapKey of
        Inl err \<Rightarrow> if isAuthenticationTagFailure err then Inr Dead else Inl err
      | Inr secretBase64 \<Rightarrow> Inr (Rewrapped (encryptString w iv secretBase64 newWrapKey)))"

definition PQC_WRAP_KEY_PROBE :: string where
  "PQC_WRAP_KEY_PROBE = ''orangerails-pqc-wrap-key-probe-v1''"

definition assertPqcWrapKeyMatchesSalt :: "vault_web \<Rightarrow> bytes \<Rightarrow> aes_key \<Rightarrow> hkdf_key \<Rightarrow> string \<Rightarrow> vault_error + unit" where
  "assertPqcWrapKeyMatchesSalt w iv wrapKey mek saltB64 =
     thenE (derivePqcSecretWrapKey w mek saltB64) (\<lambda>expected.
       case decryptString w (encryptString w iv PQC_WRAP_KEY_PROBE expected) wrapKey of
         Inl err \<Rightarrow> if isAuthenticationTagFailure err then Inl WrongWrapKey else Inl err
       | Inr reopened \<Rightarrow> if reopened = PQC_WRAP_KEY_PROBE then Inr () else Inl ProbeDiffers)"

record carried =
  ca_kem :: "string option"
  ca_sig :: "string option"
  ca_replaced :: bool

definition carry :: "vault_web \<Rightarrow> bytes \<Rightarrow> aes_key \<Rightarrow> aes_key \<Rightarrow> string option \<Rightarrow> vault_error + carry_outcome" where
  "carry w iv oldWrapKey newWrapKey secret =
     (if present secret then rewrapPqcSecretKey w iv oldWrapKey newWrapKey (the secret) else Inr Absent)"

definition rewrapped_text :: "carry_outcome \<Rightarrow> string option" where
  "rewrapped_text x = (case x of Rewrapped s \<Rightarrow> Some s | _ \<Rightarrow> None)"

definition carryPqcSecretsAcrossRotation :: "vault_web \<Rightarrow> random \<Rightarrow> nat \<Rightarrow> aes_key \<Rightarrow> aes_key \<Rightarrow> hkdf_key \<Rightarrow> string \<Rightarrow>
    string option \<Rightarrow> string option \<Rightarrow> vault_error + carried" where
  "carryPqcSecretsAcrossRotation w rnd i oldWrapKey newWrapKey oldMek salt kem sig =
     thenE (assertPqcWrapKeyMatchesSalt w (rnd i 12) oldWrapKey oldMek salt) (\<lambda>_.
     thenE (carry w (rnd (i + 1) 12) oldWrapKey newWrapKey kem) (\<lambda>kemOutcome.
     thenE (carry w (rnd (i + 2) 12) oldWrapKey newWrapKey sig) (\<lambda>sigOutcome.
       if kemOutcome = Dead \<and> rewrapped_text sigOutcome = None then Inl UncorroboratedKem
       else if sigOutcome = Dead \<and> rewrapped_text kemOutcome = None then Inl UncorroboratedSig
       else Inr \<lparr>ca_kem = rewrapped_text kemOutcome, ca_sig = rewrapped_text sigOutcome,
              ca_replaced = (kemOutcome = Dead \<or> sigOutcome = Dead)\<rparr>)))"

section \<open>The state of a tab\<close>

record vault_state =
  mekRef :: "hkdf_key option"
  saltRef :: "string option"
  isUnlocked :: bool
  shownSalt :: "string option"
  oldCredsKey :: "aes_key option"
  oldTxnKey :: "aes_key option"

definition fresh_tab :: vault_state where
  "fresh_tab = \<lparr>mekRef = None, saltRef = None, isUnlocked = False, shownSalt = None, oldCredsKey = None, oldTxnKey = None\<rparr>"

text \<open>The assignments at the end of setup, unlock and recovery.\<close>

definition load_key :: "hkdf_key \<Rightarrow> string \<Rightarrow> vault_state \<Rightarrow> vault_state" where
  "load_key mek salt st = st\<lparr>mekRef := Some mek, saltRef := Some salt, shownSalt := Some salt, isUnlocked := True\<rparr>"

record setup_result =
  su_salt :: string
  su_verifier :: string
  su_encMek :: string
  su_recovery :: string
  su_code :: string
  su_version :: nat

definition setupVault :: "vault_web \<Rightarrow> random \<Rightarrow> string \<Rightarrow> vault_state \<Rightarrow> (vault_error + setup_result) \<times> vault_state" where
  "setupVault w rnd password st =
     (case isPasswordAcceptable w password of
        Some reason \<Rightarrow> (Inl (WeakPassword reason), st)
      | None \<Rightarrow>
          (let salt = generateVaultSalt rnd 0; mekRaw = generateMekBytes rnd 1; mek = importMekAsHkdf mekRaw;
               made = thenE (deriveKek w password salt) (\<lambda>kek. thenE (deriveVerifierKey w mek salt) (\<lambda>verifierKey.
                 let recoveryCode = generateRecoveryCode (rnd 4 12) in
                 Inr \<lparr>su_salt = salt, su_verifier = createVaultVerifier w (rnd 3 12) verifierKey,
                   su_encMek = wrapMekBytes w (rnd 2 12) mekRaw kek,
                   su_recovery = wrapMekBytes w (rnd 5 12) mekRaw (deriveRecoveryKek w recoveryCode),
                   su_code = recoveryCode, su_version = CURRENT_VAULT_KEY_VERSION\<rparr>))
           in case made of Inl e \<Rightarrow> (Inl e, st) | Inr r \<Rightarrow> (Inr r, load_key mek salt st)))"

definition opened_key :: "vault_web \<Rightarrow> string \<Rightarrow> string \<Rightarrow> nat \<Rightarrow> string option \<Rightarrow> vault_error + hkdf_key" where
  "opened_key w password storedSalt keyVersion encMek =
     (if 2 \<le> keyVersion \<and> present encMek
      then thenE (deriveKek w password storedSalt) (\<lambda>kek. thenE (unwrapMekBytes w (the encMek) kek) (\<lambda>mekRaw. Inr (importMekAsHkdf mekRaw)))
      else deriveMEK w password storedSalt ARGON2ID_V1_version)"

definition unlock :: "vault_web \<Rightarrow> string \<Rightarrow> string \<Rightarrow> string \<Rightarrow> nat \<Rightarrow> string option \<Rightarrow> vault_state \<Rightarrow> bool \<times> vault_state" where
  "unlock w password storedSalt verifier keyVersion encMek st =
     (case thenE (opened_key w password storedSalt keyVersion encMek) (\<lambda>mek.
             thenE (deriveVerifierKey w mek storedSalt) (\<lambda>verifierKey. Inr (mek, verifyVaultPassword w verifierKey verifier))) of
        Inl _ \<Rightarrow> (False, st)
      | Inr (mek, good) \<Rightarrow> if good then (True, load_key mek storedSalt st) else (False, st))"

record recovery_result =
  re_encMek :: string
  re_code :: string
  re_recovery :: string
  re_verifier :: string
  re_kem :: "string option"
  re_sig :: "string option"
  re_replaced :: bool

text \<open>The key of the code, once the verifier has accepted it.\<close>

definition recovered_key :: "vault_web \<Rightarrow> string \<Rightarrow> string \<Rightarrow> string \<Rightarrow> string \<Rightarrow> vault_error + hkdf_key" where
  "recovered_key w recoveryCode recovery storedSalt verifier =
     thenE (unwrapMekBytes w recovery (deriveRecoveryKek w recoveryCode)) (\<lambda>oldMekRaw.
       let oldMek = importMekAsHkdf oldMekRaw in
       thenE (deriveVerifierKey w oldMek storedSalt) (\<lambda>oldVerifierKey.
         if verifyVaultPassword w oldVerifierKey verifier then Inr oldMek else Inl CodeMismatch))"

definition rotated_key :: "vault_web \<Rightarrow> random \<Rightarrow> hkdf_key \<Rightarrow> string \<Rightarrow> string \<Rightarrow> string option \<Rightarrow> string option \<Rightarrow>
    vault_error + recovery_result" where
  "rotated_key w rnd oldMek storedSalt newPassword kem sig =
     (let newMekRaw = generateMekBytes rnd 0; newMek = importMekAsHkdf newMekRaw in
      thenE (derivePqcSecretWrapKey w oldMek storedSalt) (\<lambda>oldPqcWrapKey.
      thenE (derivePqcSecretWrapKey w newMek storedSalt) (\<lambda>newPqcWrapKey.
      thenE (carryPqcSecretsAcrossRotation w rnd 1 oldPqcWrapKey newPqcWrapKey oldMek storedSalt kem sig) (\<lambda>ca.
      thenE (deriveVerifierKey w newMek storedSalt) (\<lambda>newVerifierKey.
      thenE (deriveKek w newPassword storedSalt) (\<lambda>newKek.
        let newRecoveryCode = generateRecoveryCode (rnd 6 12) in
        Inr \<lparr>re_encMek = wrapMekBytes w (rnd 5 12) newMekRaw newKek, re_code = newRecoveryCode,
          re_recovery = wrapMekBytes w (rnd 7 12) newMekRaw (deriveRecoveryKek w newRecoveryCode),
          re_verifier = createVaultVerifier w (rnd 4 12) newVerifierKey,
          re_kem = ca_kem ca, re_sig = ca_sig ca, re_replaced = ca_replaced ca\<rparr>))))))"

text \<open>The old subkeys stay in the state even when a later step throws.\<close>

definition recoverWithCode :: "vault_web \<Rightarrow> random \<Rightarrow> string \<Rightarrow> string \<Rightarrow> string \<Rightarrow> string \<Rightarrow> string \<Rightarrow> string option \<Rightarrow> string option \<Rightarrow>
    vault_state \<Rightarrow> (vault_error + recovery_result) \<times> vault_state" where
  "recoverWithCode w rnd recoveryCode recovery storedSalt verifier newPassword kem sig st =
     (case recovered_key w recoveryCode recovery storedSalt verifier of
        Inl e \<Rightarrow> (Inl e, st)
      | Inr oldMek \<Rightarrow>
          (case deriveCredentialsKey w oldMek storedSalt of
             Inl e \<Rightarrow> (Inl e, st)
           | Inr oldCreds \<Rightarrow>
               (let st1 = st\<lparr>oldCredsKey := Some oldCreds\<rparr> in
                case deriveTransactionsKey w oldMek storedSalt of
                  Inl e \<Rightarrow> (Inl e, st1)
                | Inr oldTxn \<Rightarrow>
                    (let st2 = st1\<lparr>oldTxnKey := Some oldTxn\<rparr> in
                     case rotated_key w rnd oldMek storedSalt newPassword kem sig of
                       Inl e \<Rightarrow> (Inl e, st2)
                     | Inr r \<Rightarrow> (Inr r, load_key (importMekAsHkdf (generateMekBytes rnd 0)) storedSalt st2)))))"

text \<open>What a password change hands back, with the keys that its check of the stored envelopes closes over.\<close>

record change_result =
  ch_encMek :: string
  ch_code :: string
  ch_recovery :: string
  ch_newKek :: aes_key
  ch_newRecoveryKek :: aes_key
  ch_mekRaw :: bytes

definition verifyPersistedEnvelopes :: "vault_web \<Rightarrow> change_result \<Rightarrow> string \<Rightarrow> string \<Rightarrow> vault_error + unit" where
  "verifyPersistedEnvelopes w ch encMek recovery =
     thenE (assertMekEnvelopeReopens w ''The stored password key envelope'' encMek (ch_newKek ch) (ch_mekRaw ch)) (\<lambda>_.
       assertMekEnvelopeReopens w ''The stored recovery code envelope'' recovery (ch_newRecoveryKek ch) (ch_mekRaw ch))"

definition changed_wrap :: "vault_web \<Rightarrow> random \<Rightarrow> string \<Rightarrow> string \<Rightarrow> string \<Rightarrow> string \<Rightarrow> string \<Rightarrow> nat \<Rightarrow> vault_error + change_result" where
  "changed_wrap w rnd currentPassword newPassword storedSalt encMek verifier keyVersion =
     (case isPasswordAcceptable w newPassword of
        Some reason \<Rightarrow> Inl (WeakPassword reason)
      | None \<Rightarrow>
          if keyVersion < 2 \<or> encMek = [] then Inl LegacyVault
          else thenE (deriveKek w currentPassword storedSalt) (\<lambda>currentKek.
            thenE (unwrapMekBytes w encMek currentKek) (\<lambda>mekRaw.
            thenE (deriveVerifierKey w (importMekAsHkdf mekRaw) storedSalt) (\<lambda>verifierKey.
              if \<not> verifyVaultPassword w verifierKey verifier then Inl WrongPassword
              else thenE (deriveKek w newPassword storedSalt) (\<lambda>newKek.
                let newEncMek = wrapMekBytes w (rnd 0 12) mekRaw newKek; newCode = generateRecoveryCode (rnd 1 12);
                    newRecoveryKek = deriveRecoveryKek w newCode; newRecovery = wrapMekBytes w (rnd 2 12) mekRaw newRecoveryKek in
                thenE (assertMekEnvelopeReopens w ''The freshly built password key envelope'' newEncMek newKek mekRaw) (\<lambda>_.
                thenE (assertMekEnvelopeReopens w ''The freshly built recovery code envelope'' newRecovery newRecoveryKek mekRaw) (\<lambda>_.
                  Inr \<lparr>ch_encMek = newEncMek, ch_code = newCode, ch_recovery = newRecovery, ch_newKek = newKek,
                    ch_newRecoveryKek = newRecoveryKek, ch_mekRaw = mekRaw\<rparr>)))))))"

definition changeVaultPassword :: "vault_web \<Rightarrow> random \<Rightarrow> string \<Rightarrow> string \<Rightarrow> string \<Rightarrow> string \<Rightarrow> string \<Rightarrow> nat \<Rightarrow> vault_state \<Rightarrow>
    (vault_error + change_result) \<times> vault_state" where
  "changeVaultPassword w rnd currentPassword newPassword storedSalt encMek verifier keyVersion st =
     (case changed_wrap w rnd currentPassword newPassword storedSalt encMek verifier keyVersion of
        Inl e \<Rightarrow> (Inl e, st)
      | Inr ch \<Rightarrow> (Inr ch, st\<lparr>mekRef := Some (importMekAsHkdf (ch_mekRaw ch))\<rparr>))"

section \<open>Using the keys\<close>

definition migrate_with :: "vault_web \<Rightarrow> bytes \<Rightarrow> (hkdf_key \<Rightarrow> string \<Rightarrow> vault_error + aes_key) \<Rightarrow> aes_key option \<Rightarrow> vault_state \<Rightarrow>
    string \<Rightarrow> vault_error + string" where
  "migrate_with w iv derive oldKey st oldCiphertext =
     (if oldKey = None \<or> mekRef st = None \<or> \<not> present (saltRef st) then Inl NoMigrationKeys
      else thenE (derive (the (mekRef st)) (the (saltRef st))) (\<lambda>newKey.
        thenE (decryptString w oldCiphertext (the oldKey)) (\<lambda>plaintext. Inr (encryptString w iv plaintext newKey))))"

definition migrateCredentialsCiphertext :: "vault_web \<Rightarrow> bytes \<Rightarrow> vault_state \<Rightarrow> string \<Rightarrow> vault_error + string" where
  "migrateCredentialsCiphertext w iv st c = migrate_with w iv (deriveCredentialsKey w) (oldCredsKey st) st c"

definition migrateTransactionCiphertext :: "vault_web \<Rightarrow> bytes \<Rightarrow> vault_state \<Rightarrow> string \<Rightarrow> vault_error + string" where
  "migrateTransactionCiphertext w iv st c = migrate_with w iv (deriveTransactionsKey w) (oldTxnKey st) st c"

definition clearMigrationKeys :: "vault_state \<Rightarrow> vault_state" where
  "clearMigrationKeys st = st\<lparr>oldCredsKey := None, oldTxnKey := None\<rparr>"

definition lock :: "vault_state \<Rightarrow> vault_state" where
  "lock st = st\<lparr>mekRef := None, saltRef := None, shownSalt := None, isUnlocked := False\<rparr>"

definition requireUnlocked :: "vault_state \<Rightarrow> vault_error + hkdf_key \<times> string" where
  "requireUnlocked st =
     (if mekRef st = None \<or> \<not> present (saltRef st) then Inl VaultLocked else Inr (the (mekRef st), the (saltRef st)))"

definition with_unlocked :: "vault_state \<Rightarrow> (hkdf_key \<Rightarrow> string \<Rightarrow> vault_error + 'a) \<Rightarrow> vault_error + 'a" where
  "with_unlocked st f = thenE (requireUnlocked st) (\<lambda>(mek, salt). f mek salt)"

definition vault_encryptCredentials :: "vault_web \<Rightarrow> json codec \<Rightarrow> bytes \<Rightarrow> vault_state \<Rightarrow> json \<Rightarrow> vault_error + string" where
  "vault_encryptCredentials w js iv st payload = with_unlocked st (encryptCredentials w js iv payload)"

definition vault_decryptCredentials :: "vault_web \<Rightarrow> json codec \<Rightarrow> vault_state \<Rightarrow> string \<Rightarrow> vault_error + json" where
  "vault_decryptCredentials w js st c = with_unlocked st (decryptCredentials w js c)"

definition encryptText :: "vault_web \<Rightarrow> bytes \<Rightarrow> vault_state \<Rightarrow> string \<Rightarrow> vault_error + string" where
  "encryptText w iv st plaintext = with_unlocked st (\<lambda>mek salt.
     thenE (deriveTransactionsKey w mek salt) (\<lambda>key. Inr (encryptString w iv plaintext key)))"

definition decryptText :: "vault_web \<Rightarrow> vault_state \<Rightarrow> string \<Rightarrow> vault_error + string" where
  "decryptText w st c = with_unlocked st (\<lambda>mek salt. thenE (deriveTransactionsKey w mek salt) (decryptString w c))"

definition vault_encryptTransaction :: "vault_web \<Rightarrow> json codec \<Rightarrow> bytes \<Rightarrow> vault_state \<Rightarrow> json \<Rightarrow> vault_error + string" where
  "vault_encryptTransaction w js iv st transaction = with_unlocked st (encryptTransaction w js iv transaction)"

definition vault_decryptTransaction :: "vault_web \<Rightarrow> json codec \<Rightarrow> vault_state \<Rightarrow> string \<Rightarrow> vault_error + json" where
  "vault_decryptTransaction w js st c = with_unlocked st (decryptTransaction w js c)"

definition exportCredentialsKeyForSync :: "vault_web \<Rightarrow> vault_state \<Rightarrow> vault_error + string" where
  "exportCredentialsKeyForSync w st = with_unlocked st (\<lambda>mek salt.
     thenE (deriveCredentialsKey w mek salt) (\<lambda>key. thenE (exportKey key) (\<lambda>raw. Inr (b64encode raw))))"

definition exportTransactionsKeyForSync :: "vault_web \<Rightarrow> vault_state \<Rightarrow> vault_error + string" where
  "exportTransactionsKeyForSync w st = with_unlocked st (\<lambda>mek salt.
     thenE (deriveTransactionsKey w mek salt) (\<lambda>key. thenE (exportKey key) (\<lambda>raw. Inr (b64encode raw))))"

definition exportStealthKeyForWidget :: "vault_web \<Rightarrow> vault_state \<Rightarrow> vault_error + string" where
  "exportStealthKeyForWidget w st = with_unlocked st (\<lambda>mek salt.
     Inr (b64encode (vw_hkdf w mek [] (vw_encode w STEALTH_HKDF_INFO))))"

definition vault_blindIndex :: "vault_web \<Rightarrow> vault_state \<Rightarrow> string option \<Rightarrow> vault_error + string option" where
  "vault_blindIndex w st v = with_unlocked st (\<lambda>mek salt.
     thenE (vault_deriveBlindIndexKey w mek salt) (\<lambda>hmacKey. Inr (computeBlindIndex w v hmacKey)))"

section \<open>Opening again\<close>

lemma acceptable_nonempty: "isPasswordAcceptable w password = None \<Longrightarrow> password \<noteq> []"
  by (auto simp: isPasswordAcceptable_def MIN_PASSWORD_LENGTH_def)

text \<open>The stored fields that open to a key: by the password, and under the verifier.\<close>

definition verifier_accepts :: "vault_web \<Rightarrow> hkdf_key \<Rightarrow> string \<Rightarrow> string \<Rightarrow> bool" where
  "verifier_accepts w mek salt verifier \<longleftrightarrow>
     (\<exists>k. deriveVerifierKey w mek salt = Inr k \<and> verifyVaultPassword w k verifier)"

lemma unlock_true:
  "unlock w password salt verifier v encMek st = (True, st') \<longleftrightarrow>
     (\<exists>mek. opened_key w password salt v encMek = Inr mek \<and> verifier_accepts w mek salt verifier \<and> st' = load_key mek salt st)"
  by (auto simp: unlock_def verifier_accepts_def thenE_def split: sum.splits)

lemma recovered_iff:
  "recovered_key w code recovery salt verifier = Inr mek \<longleftrightarrow>
     unwrapMekBytes w recovery (deriveRecoveryKek w code) = Inr mek \<and> verifier_accepts w mek salt verifier"
  by (auto simp: recovered_key_def verifier_accepts_def thenE_def Let_def importMekAsHkdf_def split: sum.splits if_splits)

lemma fresh_verifier_accepts:
  assumes "vault_laws w" and "length iv = 12" and "deriveVerifierKey w mek (b64encode salt) = Inr k"
  shows "verifier_accepts w mek (b64encode salt) (createVaultVerifier w iv k)"
proof -
  have "length (ak_raw k) = 32" using assms(1,3) by (auto simp: verifier_key_derives vault_lawsD)
  then show ?thesis
    unfolding verifier_accepts_def using assms(3) encrypted_opens [OF assms(1) _ assms(2)]
    by (simp add: verify_iff createVaultVerifier_def)
qed

lemma wrapped_key_opens:
  assumes "vault_laws w" and "length iv = 12" and "deriveKek w password (b64encode salt) = Inr kek" and "2 \<le> v"
  shows "opened_key w password (b64encode salt) v (Some (wrapMekBytes w iv mek kek)) = Inr mek"
proof -
  have "length (ak_raw kek) = 32" using assms(1,3)
    by (auto simp: deriveKek_def deriveMekRaw_def thenE_Inr importAesKeyNonExtractable_def dest: vault_lawsD(6) split: option.splits)
  moreover have "wrapMekBytes w iv mek kek \<noteq> []" using assms(2) by (auto simp: wrapMekBytes_def encryptString_def b64encode_Nil)
  ultimately show ?thesis
    using assms(3,4) wrapped_mek_opens [OF assms(1) _ assms(2)] by (simp add: opened_key_def present_def importMekAsHkdf_def)
qed

lemma wrapped_key_recovers:
  assumes "vault_laws w" and "length iv = 12" and "verifier_accepts w mek salt verifier"
    and "deriveRecoveryKek w typed = deriveRecoveryKek w code"
  shows "recovered_key w typed (wrapMekBytes w iv mek (deriveRecoveryKek w code)) salt verifier = Inr mek"
  using wrapped_mek_opens [OF assms(1) recovery_kek_length [OF assms(1)] assms(2)] assms(3,4) by (simp add: recovered_iff)

lemma setup_opens:
  assumes "vault_laws w" and "random_ok rnd" and "isPasswordAcceptable w password = None"
  shows "\<exists>r st' mek. setupVault w rnd password st = (Inr r, st') \<and> mekRef st' = Some mek \<and> isUnlocked st' \<and>
    unlock w password (su_salt r) (su_verifier r) (su_version r) (Some (su_encMek r)) tab = (True, load_key mek (su_salt r) tab) \<and>
    (\<forall>typed. deriveRecoveryKek w typed = deriveRecoveryKek w (su_code r) \<longrightarrow>
       recovered_key w typed (su_recovery r) (su_salt r) (su_verifier r) = Inr mek)"
proof -
  let ?salt = "rnd 0 32" and ?mek = "rnd 1 32"
  have len: "length (rnd i n) = n" for i n using assms(2) by (simp add: random_ok_def)
  obtain kek where kek: "deriveKek w password (b64encode ?salt) = Inr kek"
    using kek_derives [OF assms(1) acceptable_nonempty [OF assms(3)], of ?salt] len by auto
  obtain vk where vk: "deriveVerifierKey w ?mek (b64encode ?salt) = Inr vk" by (simp add: verifier_key_derives)
  let ?v = "createVaultVerifier w (rnd 3 12) vk" and ?code = "generateRecoveryCode (rnd 4 12)"
  let ?r = "\<lparr>su_salt = b64encode ?salt, su_verifier = ?v, su_encMek = wrapMekBytes w (rnd 2 12) ?mek kek,
      su_recovery = wrapMekBytes w (rnd 5 12) ?mek (deriveRecoveryKek w ?code), su_code = ?code, su_version = 2\<rparr>"
  have set: "setupVault w rnd password st = (Inr ?r, load_key ?mek (b64encode ?salt) st)"
    using kek vk assms(3)
    by (simp add: setupVault_def generateVaultSalt_def generateMekBytes_def importMekAsHkdf_def Let_def CURRENT_VAULT_KEY_VERSION_def)
  have acc: "verifier_accepts w ?mek (b64encode ?salt) ?v" by (rule fresh_verifier_accepts [OF assms(1) len vk])
  have "unlock w password (su_salt ?r) (su_verifier ?r) (su_version ?r) (Some (su_encMek ?r)) tab =
      (True, load_key ?mek (su_salt ?r) tab)"
    unfolding unlock_true using wrapped_key_opens [OF assms(1) len kek, of 2] acc by auto
  then show ?thesis
    using set wrapped_key_recovers [OF assms(1) len acc] by (intro exI [of _ ?r] exI) (auto simp: load_key_def)
qed

text \<open>C36: a new vault opens again.  Setting up succeeds for every acceptable password; with the fields that it
  returns, in any tab, the password unlocks and the recovery code, however it is typed, recovers the same key.\<close>

theorem new_vault_opens:
  assumes "vault_laws w" and "random_ok rnd" and "isPasswordAcceptable w password = None"
  shows "\<exists>r st' mek. setupVault w rnd password st = (Inr r, st') \<and> mekRef st' = Some mek \<and> isUnlocked st' \<and>
    unlock w password (su_salt r) (su_verifier r) (su_version r) (Some (su_encMek r)) tab = (True, load_key mek (su_salt r) tab) \<and>
    (\<forall>typed. deriveRecoveryKek w typed = deriveRecoveryKek w (su_code r) \<longrightarrow>
       recovered_key w typed (su_recovery r) (su_salt r) (su_verifier r) = Inr mek)"
  by (rule setup_opens [OF assms])

text \<open>C37: a password change keeps the key.  When the current password unlocks a stored vault of version 2, the change to
  any acceptable password succeeds; with the new envelopes the new password unlocks and the new code recovers the same
  key, so everything that was sealed stays readable, and the check of the stored envelopes accepts them.\<close>

theorem password_change_keeps_key:
  assumes "vault_laws w" and "random_ok rnd" and "unlock w current (b64encode salt) verifier v (Some encMek) tab = (True, tab')"
    and "2 \<le> v" and "encMek \<noteq> []" and "8 \<le> length salt" and "isPasswordAcceptable w new_pw = None"
  shows "\<exists>ch mek. changeVaultPassword w rnd current new_pw (b64encode salt) encMek verifier v st = (Inr ch, st\<lparr>mekRef := Some mek\<rparr>) \<and>
    mekRef tab' = Some mek \<and>
    unlock w new_pw (b64encode salt) verifier v (Some (ch_encMek ch)) tab2 = (True, load_key mek (b64encode salt) tab2) \<and>
    recovered_key w (ch_code ch) (ch_recovery ch) (b64encode salt) verifier = Inr mek \<and>
    verifyPersistedEnvelopes w ch (ch_encMek ch) (ch_recovery ch) = Inr ()"
proof -
  have len: "length (rnd i n) = n" for i n using assms(2) by (simp add: random_ok_def)
  obtain mek where opens: "opened_key w current (b64encode salt) v (Some encMek) = Inr mek"
      and acc: "verifier_accepts w mek (b64encode salt) verifier" and tab': "tab' = load_key mek (b64encode salt) tab"
    using assms(3) unfolding unlock_true by blast
  obtain kek0 where kek0: "deriveKek w current (b64encode salt) = Inr kek0" "unwrapMekBytes w encMek kek0 = Inr mek"
    using opens assms(4,5) by (auto simp: opened_key_def present_def thenE_Inr importMekAsHkdf_def)
  obtain kek where kek: "deriveKek w new_pw (b64encode salt) = Inr kek" "length (ak_raw kek) = 32"
    using kek_derives [OF assms(1) acceptable_nonempty [OF assms(7)] assms(6)] by auto
  let ?code = "generateRecoveryCode (rnd 1 12)"
  let ?ch = "\<lparr>ch_encMek = wrapMekBytes w (rnd 0 12) mek kek, ch_code = ?code,
      ch_recovery = wrapMekBytes w (rnd 2 12) mek (deriveRecoveryKek w ?code), ch_newKek = kek,
      ch_newRecoveryKek = deriveRecoveryKek w ?code, ch_mekRaw = mek\<rparr>"
  have reopen: "assertMekEnvelopeReopens w what (wrapMekBytes w (rnd 0 12) mek kek) kek mek = Inr ()"
      "assertMekEnvelopeReopens w what (wrapMekBytes w (rnd 2 12) mek (deriveRecoveryKek w ?code)) (deriveRecoveryKek w ?code) mek = Inr ()"
    for what by (rule fresh_envelope_reopens [OF assms(1) kek(2) len])
      (rule fresh_envelope_reopens [OF assms(1) recovery_kek_length [OF assms(1)] len])
  obtain vk where vk: "deriveVerifierKey w mek (b64encode salt) = Inr vk" "verifyVaultPassword w vk verifier"
    using acc unfolding verifier_accepts_def by blast
  have "changed_wrap w rnd current new_pw (b64encode salt) encMek verifier v = Inr ?ch"
    using assms(4,5,7) kek0 vk kek(1) reopen by (simp add: changed_wrap_def Let_def importMekAsHkdf_def)
  then have change: "changeVaultPassword w rnd current new_pw (b64encode salt) encMek verifier v st = (Inr ?ch, st\<lparr>mekRef := Some mek\<rparr>)"
    by (simp add: changeVaultPassword_def importMekAsHkdf_def)
  have "unlock w new_pw (b64encode salt) verifier v (Some (ch_encMek ?ch)) tab2 = (True, load_key mek (b64encode salt) tab2)"
    unfolding unlock_true using wrapped_key_opens [OF assms(1) len kek(1) assms(4)] acc by auto
  moreover have "recovered_key w (ch_code ?ch) (ch_recovery ?ch) (b64encode salt) verifier = Inr mek"
    using wrapped_key_recovers [OF assms(1) len acc refl] by simp
  moreover have "verifyPersistedEnvelopes w ?ch (ch_encMek ?ch) (ch_recovery ?ch) = Inr ()"
    using reopen by (simp add: verifyPersistedEnvelopes_def)
  ultimately show ?thesis using change tab' by (intro exI [of _ ?ch] exI [of _ mek]) (simp add: load_key_def)
qed

definition sample_password :: string where "sample_password = ''correct horse 1''"

lemma sample_password_ok: "isPasswordAcceptable sample_vault sample_password = None"
  by code_simp

theorem new_vault_opens_witness:
  "\<exists>r st'. setupVault sample_vault sample_random sample_password fresh_tab = (Inr r, st') \<and>
     fst (unlock sample_vault sample_password (su_salt r) (su_verifier r) (su_version r) (Some (su_encMek r)) fresh_tab)"
  using new_vault_opens [OF sample_vault_laws sample_random_ok sample_password_ok, of fresh_tab fresh_tab] by fastforce

theorem password_change_keeps_key_witness:
  "\<exists>r st' ch st2. setupVault sample_vault sample_random sample_password fresh_tab = (Inr r, st') \<and>
     changeVaultPassword sample_vault sample_random sample_password ''another phrase'' (su_salt r) (su_encMek r) (su_verifier r) 2 st' = (Inr ch, st2) \<and>
     fst (unlock sample_vault ''another phrase'' (su_salt r) (su_verifier r) 2 (Some (ch_encMek ch)) fresh_tab)"
proof -
  obtain r st' mek where r: "setupVault sample_vault sample_random sample_password fresh_tab = (Inr r, st')"
      and open1: "unlock sample_vault sample_password (su_salt r) (su_verifier r) (su_version r) (Some (su_encMek r)) fresh_tab =
        (True, load_key mek (su_salt r) fresh_tab)"
    using setup_opens [OF sample_vault_laws sample_random_ok sample_password_ok, of fresh_tab fresh_tab] by blast
  have made: "su_salt r = b64encode (sample_random 0 32)" "su_version r = 2" "su_encMek r \<noteq> []"
    using r sample_password_ok
    by (auto simp: setupVault_def generateVaultSalt_def Let_def CURRENT_VAULT_KEY_VERSION_def thenE_def wrapMekBytes_def encryptString_def
      b64encode_Nil sample_random_def split: sum.splits)
  have ok: "isPasswordAcceptable sample_vault ''another phrase'' = None" by code_simp
  have "8 \<le> length (sample_random 0 32)" by (simp add: sample_random_def)
  from password_change_keeps_key [OF sample_vault_laws sample_random_ok open1 [unfolded made(1,2)] order_refl made(3) this ok, of st' fresh_tab]
  show ?thesis using r made by fastforce
qed

section \<open>Secrets that travel\<close>

lemma carry_cases:
  assumes "vault_laws w" and "length (ak_raw new) = 32" and "length iv = 12" and "carry w iv old new s = Inr x"
  shows "(x = Absent \<longleftrightarrow> \<not> present s) \<and> (x = Dead \<longrightarrow> decryptString w (the s) old = Inl TagFailure) \<and>
    (\<forall>c. x = Rewrapped c \<longrightarrow> (\<exists>p. decryptString w (the s) old = Inr p \<and> decryptString w c new = Inr p))"
  using assms encrypted_opens [OF assms(1-3)]
  by (auto simp: carry_def rewrapPqcSecretKey_def isAuthenticationTagFailure_def split: if_splits sum.splits)

lemma rewrapped_text_Some: "rewrapped_text x = Some c \<longleftrightarrow> x = Rewrapped c"
  by (cases x) (simp_all add: rewrapped_text_def)

text \<open>What a stored secret becomes: it travels, or it is dead and its sibling travels.\<close>

definition secret_fate :: "vault_web \<Rightarrow> aes_key \<Rightarrow> aes_key \<Rightarrow> string \<Rightarrow> string option \<Rightarrow> string option \<Rightarrow> string option \<Rightarrow> bool" where
  "secret_fate w old new s mine sibling other \<longleftrightarrow>
     (\<exists>p c. mine = Some c \<and> decryptString w s old = Inr p \<and> decryptString w c new = Inr p) \<or>
     (mine = None \<and> decryptString w s old = Inl TagFailure \<and>
       (\<exists>p c. other = Some c \<and> decryptString w (the sibling) old = Inr p \<and> decryptString w c new = Inr p))"

text \<open>C38: a stored post-quantum secret is dropped only when it is dead for certain.  When the secrets were carried over a
  rotation, each stored one opens under the new key to what it was, or its tag failed under the old key while that same key
  opened the other one; the flag for the user says whether one was dropped.\<close>

theorem pqc_secrets_carried:
  assumes "vault_laws w" and "random_ok rnd" and "length (ak_raw new) = 32"
    and "carryPqcSecretsAcrossRotation w rnd i old new mek salt kem sig = Inr ca"
  shows "(present kem \<longrightarrow> secret_fate w old new (the kem) (ca_kem ca) sig (ca_sig ca)) \<and>
    (present sig \<longrightarrow> secret_fate w old new (the sig) (ca_sig ca) kem (ca_kem ca)) \<and>
    (ca_replaced ca \<longleftrightarrow> present kem \<and> ca_kem ca = None \<or> present sig \<and> ca_sig ca = None)"
proof -
  have len: "length (rnd i n) = n" for i n using assms(2) by (simp add: random_ok_def)
  obtain x y where xy: "carry w (rnd (i + 1) 12) old new kem = Inr x" "carry w (rnd (i + 2) 12) old new sig = Inr y"
      and no: "\<not> (x = Dead \<and> rewrapped_text y = None)" "\<not> (y = Dead \<and> rewrapped_text x = None)"
      and ca: "ca = \<lparr>ca_kem = rewrapped_text x, ca_sig = rewrapped_text y, ca_replaced = (x = Dead \<or> y = Dead)\<rparr>"
    using assms(4) by (auto simp: carryPqcSecretsAcrossRotation_def thenE_Inr split: if_splits)
  note x = carry_cases [OF assms(1,3) len xy(1)] and y = carry_cases [OF assms(1,3) len xy(2)]
  show ?thesis
    using x y no unfolding ca secret_fate_def
    by (cases x; cases y) (auto simp: rewrapped_text_def)
qed

definition sample_wrap_key :: "byte \<Rightarrow> aes_key" where
  "sample_wrap_key b = importAesKeyNonExtractable
     (vw_hkdf sample_vault (replicate 32 b) (replicate 8 0) (vw_encode sample_vault (HKDF_CONTEXTS PqcSecretWrapV1)))"

definition sample_secret :: "byte \<Rightarrow> string" where
  "sample_secret b = encryptString sample_vault (replicate 12 0) ''secret'' (sample_wrap_key b)"

lemma sample_decrypts:
  assumes "length iv = 12"
  shows "decryptString sample_vault (encryptString sample_vault iv p k) k' =
    (if foldl (+) 0 (ak_raw k) = foldl (+) 0 (ak_raw k') then Inr p else Inl TagFailure)"
proof -
  have "vw_decode sample_vault (vw_encode sample_vault p) = p" by (rule vault_lawsD(1) [OF sample_vault_laws])
  then show ?thesis
    using assms by (simp add: decryptString_def encryptString_def sample_vault_def sample_tag_def)
qed

theorem pqc_secrets_carried_witness:
  "\<exists>ca. carryPqcSecretsAcrossRotation sample_vault sample_random 0 (sample_wrap_key 1) (sample_wrap_key 2) (replicate 32 1)
       (b64encode (replicate 8 0)) (Some (sample_secret 3)) (Some (sample_secret 1)) = Inr ca \<and>
     secret_fate sample_vault (sample_wrap_key 1) (sample_wrap_key 2) (sample_secret 1) (ca_sig ca) (Some (sample_secret 3)) (ca_kem ca) \<and>
     ca_replaced ca"
proof -
  let ?run = "carryPqcSecretsAcrossRotation sample_vault sample_random 0 (sample_wrap_key 1) (sample_wrap_key 2) (replicate 32 1)
       (b64encode (replicate 8 0)) (Some (sample_secret 3)) (Some (sample_secret 1))"
  have sums: "foldl (+) 0 (ak_raw (sample_wrap_key 1)) \<noteq> foldl (+) 0 (ak_raw (sample_wrap_key 3))" by code_simp
  have derived: "derivePqcSecretWrapKey sample_vault (replicate 32 1) (b64encode (replicate 8 0)) = Inr (sample_wrap_key 1)"
    by (simp add: derivePqcSecretWrapKey_def subkey_derives sample_wrap_key_def importAesKeyNonExtractable_def)
  have draws: "length (sample_random i n) = n" for i n by (simp add: sample_random_def)
  have "assertPqcWrapKeyMatchesSalt sample_vault (sample_random 0 12) (sample_wrap_key 1) (replicate 32 1) (b64encode (replicate 8 0)) = Inr ()"
    by (simp add: assertPqcWrapKeyMatchesSalt_def derived sample_decrypts draws)
  moreover have "sample_secret b \<noteq> []" for b by (simp add: sample_secret_def encryptString_def b64encode_Nil)
  ultimately obtain ca where ca: "?run = Inr ca" "ca_kem ca = None"
    using sums by (simp add: carryPqcSecretsAcrossRotation_def carry_def present_def rewrapPqcSecretKey_def sample_secret_def sample_decrypts
      isAuthenticationTagFailure_def rewrapped_text_def)
  have len: "length (ak_raw (sample_wrap_key 2)) = 32"
    by (simp add: sample_wrap_key_def importAesKeyNonExtractable_def vault_lawsD [OF sample_vault_laws])
  have "sample_secret 3 \<noteq> []" "sample_secret 1 \<noteq> []" by (simp_all add: sample_secret_def encryptString_def b64encode_Nil)
  then show ?thesis
    using pqc_secrets_carried [OF sample_vault_laws sample_random_ok len ca(1)] ca by (simp add: present_def)
qed

section \<open>A locked tab\<close>

inductive tab :: "vault_web \<Rightarrow> vault_state \<Rightarrow> bool" for w where
  start: "tab w fresh_tab"
| set_up: "tab w st \<Longrightarrow> setupVault w rnd password st = (r, st') \<Longrightarrow> tab w st'"
| unlocks: "tab w st \<Longrightarrow> unlock w password salt verifier v encMek st = (b, st') \<Longrightarrow> tab w st'"
| recovers: "tab w st \<Longrightarrow> recoverWithCode w rnd code recovery salt verifier new_pw kem sig st = (x, st') \<Longrightarrow> tab w st'"
| changes: "tab w st \<Longrightarrow> changeVaultPassword w rnd current new_pw salt encMek verifier v st = (y, st') \<Longrightarrow> tab w st'"
| clears: "tab w st \<Longrightarrow> tab w (clearMigrationKeys st)"
| locks: "tab w st \<Longrightarrow> tab w (lock st)"

lemma tab_inv: "tab w st \<Longrightarrow> shownSalt st = saltRef st \<and> (isUnlocked st \<longleftrightarrow> saltRef st \<noteq> None) \<and> (isUnlocked st \<longrightarrow> mekRef st \<noteq> None)"
proof (induction rule: tab.induct)
  case start
  then show ?case by (simp add: fresh_tab_def)
next
  case set_up
  then show ?case by (auto simp: setupVault_def Let_def load_key_def split: option.splits sum.splits)
next
  case unlocks
  then show ?case by (auto simp: unlock_def load_key_def split: sum.splits if_splits)
next
  case recovers
  then show ?case by (auto simp: recoverWithCode_def Let_def load_key_def split: sum.splits)
next
  case changes
  then show ?case by (auto simp: changeVaultPassword_def split: sum.splits)
qed (simp_all add: clearMigrationKeys_def lock_def)


text \<open>A tab that shows as locked can still hold the key: a password change that is under way when the user locks the tab
  puts it back afterwards.\<close>

theorem change_after_lock_keeps_key:
  assumes "changed_wrap w rnd current new_pw salt encMek verifier v = Inr ch"
  shows "mekRef (lock st) = None \<and> mekRef (snd (changeVaultPassword w rnd current new_pw salt encMek verifier v (lock st))) = Some (ch_mekRaw ch) \<and>
    \<not> isUnlocked (snd (changeVaultPassword w rnd current new_pw salt encMek verifier v (lock st)))"
  using assms by (simp add: changeVaultPassword_def lock_def importMekAsHkdf_def)


end
