(* ===== verification/Keyring.thy ===== *)
theory Keyring
  imports VaultCrypto
begin

text \<open>
  The keyring of the third envelope, \<open>src/lib/keyring.ts\<close>: random data keys in generations, the canonical JSON that
  is encrypted, the binding to a user and an epoch, and the upgrade of a vault of the second envelope.
  JSON text is a codec; random bytes are arguments.
\<close>

section \<open>Keyrings\<close>

definition KEYRING_VERSION :: nat where "KEYRING_VERSION = 1"
definition AAD_PREFIX :: string where "AAD_PREFIX = ''orangerails-keyring-v1''"
definition DATA_KEY_BYTES :: nat where "DATA_KEY_BYTES = 32"
definition IV_BYTES :: nat where "IV_BYTES = 12"
definition GCM_TAG_BYTES :: nat where "GCM_TAG_BYTES = 16"
definition MAX_GENERATIONS :: nat where "MAX_GENERATIONS = 8"

record data_key_entry =
  generation :: nat
  keyB64 :: string

record vault_keyring =
  kr_version :: nat
  kr_credentials :: "data_key_entry list"
  kr_transactions :: "data_key_entry list"
  kr_kem :: "string option"
  kr_sig :: "string option"

record keyring_binding =
  kb_user :: json
  kb_epoch :: json

definition randomKeyB64 :: "random \<Rightarrow> nat \<Rightarrow> string" where
  "randomKeyB64 rnd i = b64encode (rnd i DATA_KEY_BYTES)"

definition generateVaultKeyring :: "random \<Rightarrow> vault_keyring" where
  "generateVaultKeyring rnd =
     \<lparr>kr_version = KEYRING_VERSION, kr_credentials = [\<lparr>generation = 1, keyB64 = randomKeyB64 rnd 0\<rparr>],
      kr_transactions = [\<lparr>generation = 1, keyB64 = randomKeyB64 rnd 1\<rparr>], kr_kem = None, kr_sig = None\<rparr>"

definition withPqcSecrets :: "vault_keyring \<Rightarrow> string option \<Rightarrow> string option \<Rightarrow> vault_keyring" where
  "withPqcSecrets kr kem sig = kr\<lparr>kr_kem := kem, kr_sig := sig\<rparr>"

definition entriesFor :: "vault_keyring \<Rightarrow> data_kind \<Rightarrow> data_key_entry list" where
  "entriesFor kr kind = (case kind of Credentials \<Rightarrow> kr_credentials kr | Transactions \<Rightarrow> kr_transactions kr)"

definition latest_of :: "data_key_entry list \<Rightarrow> data_key_entry" where
  "latest_of entries = foldl (\<lambda>best e. if generation best < generation e then e else best) (hd entries) (tl entries)"

definition latestDataKey :: "vault_keyring \<Rightarrow> data_kind \<Rightarrow> vault_error + data_key_entry" where
  "latestDataKey kr kind = (if entriesFor kr kind = [] then Inl (NoDataKey kind) else Inr (latest_of (entriesFor kr kind)))"

definition dataKeyAt :: "vault_keyring \<Rightarrow> data_kind \<Rightarrow> nat \<Rightarrow> vault_error + data_key_entry" where
  "dataKeyAt kr kind g =
     (case find (\<lambda>e. generation e = g) (entriesFor kr kind) of None \<Rightarrow> Inl (NoGeneration kind g) | Some e \<Rightarrow> Inr e)"

text \<open>The sum is rounded to a double.\<close>

definition addDataKeyGeneration :: "random \<Rightarrow> vault_keyring \<Rightarrow> data_kind \<Rightarrow> vault_error + vault_keyring" where
  "addDataKeyGeneration rnd kr kind =
     (if MAX_GENERATIONS \<le> length (entriesFor kr kind) then Inl (TooManyGenerations kind)
      else thenE (latestDataKey kr kind) (\<lambda>l.
        let grown = entriesFor kr kind @ [\<lparr>generation = round53 (generation l + 1), keyB64 = randomKeyB64 rnd 0\<rparr>] in
        Inr (case kind of Credentials \<Rightarrow> kr\<lparr>kr_credentials := grown\<rparr> | Transactions \<Rightarrow> kr\<lparr>kr_transactions := grown\<rparr>)))"

definition importDataKey :: "data_key_entry \<Rightarrow> vault_error + aes_key" where
  "importDataKey entry = thenE (base64ToBytes (keyB64 entry)) (\<lambda>raw.
     if length raw \<noteq> DATA_KEY_BYTES then Inl WrongKeyLength else Inr (importAesKey raw))"

definition dataKeyFor :: "vault_keyring \<Rightarrow> data_kind \<Rightarrow> nat option \<Rightarrow> vault_error + aes_key" where
  "dataKeyFor kr kind g = thenE (case g of None \<Rightarrow> latestDataKey kr kind | Some n \<Rightarrow> dataKeyAt kr kind n) importDataKey"

section \<open>The canonical form\<close>

definition toWireEntries :: "data_key_entry list \<Rightarrow> json" where
  "toWireEntries entries = JArr (map (\<lambda>e. JObj [(''g'', JNum (jsint (int (generation e)))), (''k'', JStr (keyB64 e))]) (sort_key generation entries))"

definition or_null :: "string option \<Rightarrow> json" where
  "or_null x = (case x of None \<Rightarrow> JNull | Some s \<Rightarrow> JStr s)"

definition wire_of :: "vault_keyring \<Rightarrow> json" where
  "wire_of kr = JObj [(''v'', JNum (jsint (int (kr_version kr)))), (''creds'', toWireEntries (kr_credentials kr)),
     (''txns'', toWireEntries (kr_transactions kr)), (''kem'', or_null (kr_kem kr)), (''sig'', or_null (kr_sig kr))]"

definition encodeKeyring :: "json codec \<Rightarrow> vault_keyring \<Rightarrow> string" where
  "encodeKeyring js kr = stringify js (wire_of kr)"

fun decode_items :: "nat list \<Rightarrow> json list \<Rightarrow> vault_error + data_key_entry list" where
  "decode_items used [] = Inr []"
| "decode_items used (x # xs) =
     (case (field x ''g'', field x ''k'') of
        (Some (JNum g), Some (JStr k)) \<Rightarrow>
          if \<not> is_integer g \<or> int_of_num g < 1 \<or> k = [] \<or> nat (int_of_num g) \<in> set used then Inl BadKeyring
          else thenE (base64ToBytes k) (\<lambda>raw.
            if length raw \<noteq> DATA_KEY_BYTES then Inl BadKeyring
            else thenE (decode_items (nat (int_of_num g) # used) xs) (\<lambda>es. Inr (\<lparr>generation = nat (int_of_num g), keyB64 = k\<rparr> # es)))
      | _ \<Rightarrow> Inl BadKeyring)"

definition decodeEntries :: "json option \<Rightarrow> vault_error + data_key_entry list" where
  "decodeEntries raw = (case raw of
     Some (JArr xs) \<Rightarrow> if xs = [] \<or> MAX_GENERATIONS < length xs then Inl BadKeyring else decode_items [] xs
   | _ \<Rightarrow> Inl BadKeyring)"

definition optional_text :: "json option \<Rightarrow> vault_error + string option" where
  "optional_text x = (case x of None \<Rightarrow> Inr None | Some JNull \<Rightarrow> Inr None | Some (JStr s) \<Rightarrow> Inr (Some s) | _ \<Rightarrow> Inl BadKeyring)"

definition decode_wire :: "json \<Rightarrow> vault_error + vault_keyring" where
  "decode_wire x =
     (case x of
        JObj _ \<Rightarrow>
          if field x ''v'' \<noteq> Some (JNum (jsint (int KEYRING_VERSION))) then Inl BadKeyring
          else thenE (optional_text (field x ''kem'')) (\<lambda>kem. thenE (optional_text (field x ''sig'')) (\<lambda>sig.
            thenE (decodeEntries (field x ''creds'')) (\<lambda>creds. thenE (decodeEntries (field x ''txns'')) (\<lambda>txns.
              Inr \<lparr>kr_version = KEYRING_VERSION, kr_credentials = creds, kr_transactions = txns, kr_kem = kem, kr_sig = sig\<rparr>))))
      | _ \<Rightarrow> Inl BadKeyring)"

definition decodeKeyring :: "json codec \<Rightarrow> string \<Rightarrow> vault_error + vault_keyring" where
  "decodeKeyring js s = (case parse js s of None \<Rightarrow> Inl BadKeyring | Some x \<Rightarrow> decode_wire x)"

section \<open>Wrapping\<close>

definition MAX_SAFE_INTEGER :: int where "MAX_SAFE_INTEGER = 2 ^ 53 - 1"

definition canonicalKeyringEpoch :: "json \<Rightarrow> vault_error + string" where
  "canonicalKeyringEpoch v = (case v of
     JNum x \<Rightarrow> if \<not> is_integer x \<or> MAX_SAFE_INTEGER < \<bar>int_of_num x\<bar> \<or> int_of_num x < 1 then Inl BadEpoch else Inr (nat_text (nat (int_of_num x)))
   | JStr s \<Rightarrow> if s = [] \<or> hd s = CHR ''0'' \<or> \<not> list_all is_digit s then Inl BadEpoch
              else if MAX_SAFE_INTEGER < int (digits_value s) then Inl BadEpoch else Inr s
   | _ \<Rightarrow> Inl BadEpoch)"

definition canonicalizeUserId :: "json \<Rightarrow> vault_error + string" where
  "canonicalizeUserId v = (case v of
     JStr s \<Rightarrow> if s = [] then Inl BadUserId else if \<not> is_uuid s then Inl BadUserId else Inr (map lower_char s)
   | _ \<Rightarrow> Inl BadUserId)"

definition aadBytes :: "vault_web \<Rightarrow> keyring_binding \<Rightarrow> vault_error + bytes" where
  "aadBytes w b = thenE (canonicalizeUserId (kb_user b)) (\<lambda>userId. thenE (canonicalKeyringEpoch (kb_epoch b)) (\<lambda>epoch.
     Inr (vw_encode w (AAD_PREFIX @ ''|'' @ userId @ ''|'' @ epoch))))"

definition wrapKeyring :: "vault_web \<Rightarrow> json codec \<Rightarrow> bytes \<Rightarrow> vault_keyring \<Rightarrow> hkdf_key \<Rightarrow> string \<Rightarrow> keyring_binding \<Rightarrow> vault_error + string" where
  "wrapKeyring w js iv kr mek saltB64 b =
     thenE (aadBytes w b) (\<lambda>aad. thenE (deriveKeyringWrapKey w mek saltB64) (\<lambda>wrapKey.
       Inr (b64encode (iv @ vw_seal w (ak_raw wrapKey) iv aad (vw_encode w (encodeKeyring js kr))))))"

definition unwrapKeyring :: "vault_web \<Rightarrow> json codec \<Rightarrow> string \<Rightarrow> hkdf_key \<Rightarrow> string \<Rightarrow> keyring_binding \<Rightarrow> vault_error + vault_keyring" where
  "unwrapKeyring w js ciphertextB64 mek saltB64 b =
     thenE (aadBytes w b) (\<lambda>aad. thenE (base64ToBytes ciphertextB64) (\<lambda>combined.
       if length combined < IV_BYTES + GCM_TAG_BYTES then Inl TooShort
       else thenE (deriveKeyringWrapKey w mek saltB64) (\<lambda>wrapKey.
         case vw_open w (ak_raw wrapKey) (take IV_BYTES combined) aad (drop IV_BYTES combined) of
           None \<Rightarrow> Inl TagFailure
         | Some bs \<Rightarrow> decodeKeyring js (vw_decode w bs))))"

text \<open>The keyring, its new ciphertext, and the epoch to store with it.\<close>

definition rewrapKeyringUnderNewMek :: "vault_web \<Rightarrow> json codec \<Rightarrow> bytes \<Rightarrow> string \<Rightarrow> hkdf_key \<Rightarrow> hkdf_key \<Rightarrow> string \<Rightarrow> keyring_binding \<Rightarrow>
    vault_error + (vault_keyring \<times> string \<times> nat)" where
  "rewrapKeyringUnderNewMek w js iv ciphertextB64 oldMek newMek saltB64 b =
     thenE (canonicalKeyringEpoch (kb_epoch b)) (\<lambda>epoch_text.
       let keyringEpoch = digits_value epoch_text + 1 in
       if MAX_SAFE_INTEGER < int keyringEpoch then Inl EpochExhausted
       else thenE (unwrapKeyring w js ciphertextB64 oldMek saltB64 b) (\<lambda>kr.
         thenE (wrapKeyring w js iv kr newMek saltB64 \<lparr>kb_user = kb_user b, kb_epoch = JNum (jsint (int keyringEpoch))\<rparr>) (\<lambda>c.
           Inr (kr, c, keyringEpoch))))"

definition buildUpgradeKeyringFromV2 :: "vault_web \<Rightarrow> hkdf_key \<Rightarrow> string \<Rightarrow> string option \<Rightarrow> string option \<Rightarrow> vault_error + vault_keyring" where
  "buildUpgradeKeyringFromV2 w mek saltB64 kem sig =
     thenE (deriveCredentialsKey w mek saltB64) (\<lambda>credsKey. thenE (deriveTransactionsKey w mek saltB64) (\<lambda>txnKey.
       thenE (exportKey credsKey) (\<lambda>credsBytes. thenE (exportKey txnKey) (\<lambda>txnBytes.
         if length credsBytes \<noteq> DATA_KEY_BYTES \<or> length txnBytes \<noteq> DATA_KEY_BYTES then Inl WrongKeyLength
         else Inr \<lparr>kr_version = KEYRING_VERSION, kr_credentials = [\<lparr>generation = 1, keyB64 = b64encode credsBytes\<rparr>],
                kr_transactions = [\<lparr>generation = 1, keyB64 = b64encode txnBytes\<rparr>], kr_kem = kem, kr_sig = sig\<rparr>))))"

section \<open>Well-formed keyrings\<close>

definition entries_ok :: "data_key_entry list \<Rightarrow> bool" where
  "entries_ok es \<longleftrightarrow> es \<noteq> [] \<and> length es \<le> MAX_GENERATIONS \<and> distinct (map generation es) \<and>
     (\<forall>e \<in> set es. 1 \<le> generation e \<and> (\<exists>raw. b64decode (keyB64 e) = Some raw \<and> length raw = DATA_KEY_BYTES))"

definition keyring_ok :: "vault_keyring \<Rightarrow> bool" where
  "keyring_ok kr \<longleftrightarrow> kr_version kr = KEYRING_VERSION \<and> entries_ok (kr_credentials kr) \<and> entries_ok (kr_transactions kr)"

lemma find_distinct:
  assumes "distinct (map generation es)"
  shows "find (\<lambda>e. generation e = g) es = Some e \<longleftrightarrow> e \<in> set es \<and> generation e = g"
  using assms
proof (induction es)
  case (Cons d es)
  then show ?case by (cases "generation d = g") (auto simp: image_iff)
qed simp

lemma dataKeyAt_iff:
  assumes "keyring_ok kr"
  shows "dataKeyAt kr kind g = Inr e \<longleftrightarrow> e \<in> set (entriesFor kr kind) \<and> generation e = g"
proof -
  have "distinct (map generation (entriesFor kr kind))"
    using assms by (cases kind) (simp_all add: keyring_ok_def entries_ok_def entriesFor_def)
  from find_distinct [OF this, of g e] show ?thesis by (auto simp: dataKeyAt_def split: option.splits)
qed

lemma latest_fold:
  fixes b :: data_key_entry
  defines "pick \<equiv> \<lambda>best e :: data_key_entry. if generation best < generation e then e else best"
  shows "foldl pick b es \<in> set (b # es) \<and> (\<forall>e \<in> set (b # es). generation e \<le> generation (foldl pick b es))"
proof (induction es arbitrary: b)
  case (Cons d es)
  have c: "pick b d = b \<or> pick b d = d" "generation b \<le> generation (pick b d)" "generation d \<le> generation (pick b d)"
    by (simp_all add: pick_def)
  have "foldl pick (pick b d) es \<in> set (pick b d # es)" "\<forall>e \<in> set (pick b d # es). generation e \<le> generation (foldl pick (pick b d) es)"
    using Cons.IH [of "pick b d"] by simp_all
  then show ?case using c by (metis (no_types, lifting) foldl_Cons le_trans list.set_intros set_ConsD)
qed simp

lemma latest_of:
  assumes "es \<noteq> []"
  shows "latest_of es \<in> set es \<and> (\<forall>e \<in> set es. generation e \<le> generation (latest_of es))"
  using latest_fold [of "hd es" "tl es"] assms by (simp add: latest_of_def)

lemma decode_items_ok:
  "decode_items used xs = Inr es \<Longrightarrow> length es = length xs \<and> distinct (map generation es) \<and>
     (\<forall>e \<in> set es. generation e \<notin> set used \<and> 1 \<le> generation e \<and> (\<exists>raw. b64decode (keyB64 e) = Some raw \<and> length raw = DATA_KEY_BYTES))"
proof (induction used xs arbitrary: es rule: decode_items.induct)
  case (2 used x xs)
  obtain g k raw rest where gk: "field x ''g'' = Some (JNum g)" "field x ''k'' = Some (JStr k)"
      "\<not> (\<not> is_integer g \<or> int_of_num g < 1 \<or> k = [] \<or> nat (int_of_num g) \<in> set used)"
      "base64ToBytes k = Inr raw" "length raw = DATA_KEY_BYTES"
      "decode_items (nat (int_of_num g) # used) xs = Inr rest" "es = \<lparr>generation = nat (int_of_num g), keyB64 = k\<rparr> # rest"
    using 2(2) by (auto simp: thenE_Inr split: option.splits json.splits if_splits)
  have "b64decode k = Some raw" using gk(4) by (auto simp: base64ToBytes_def split: option.splits)
  then show ?case using 2(1) gk by force
qed simp

lemma decoded_ok: "decode_wire x = Inr kr \<Longrightarrow> keyring_ok kr"
  by (auto simp: decode_wire_def thenE_Inr keyring_ok_def entries_ok_def decodeEntries_def dest!: decode_items_ok split: json.splits if_splits option.splits)

lemma rat_integral_of_nat [simp]: "rat_integral (of_nat n)"
  using rat_integral_of_int [of "int n"] by simp

lemma decode_entry_list:
  assumes "distinct (map generation es)" and "\<forall>e \<in> set es. generation e \<notin> set used"
    and "\<forall>e \<in> set es. 1 \<le> generation e \<and> (\<exists>raw. b64decode (keyB64 e) = Some raw \<and> length raw = DATA_KEY_BYTES)"
  shows "decode_items used (map (\<lambda>e. JObj [(''g'', JNum (jsint (int (generation e)))), (''k'', JStr (keyB64 e))]) es) = Inr es"
  using assms
proof (induction es arbitrary: used)
  case (Cons e es)
  obtain raw where raw: "b64decode (keyB64 e) = Some raw" "length raw = DATA_KEY_BYTES" using Cons.prems(3) by auto
  have "keyB64 e \<noteq> []"
  proof
    assume "keyB64 e = []"
    moreover have "b64decode [] = Some []" by code_simp
    ultimately show False using raw by (simp add: DATA_KEY_BYTES_def)
  qed
  moreover have "\<forall>d \<in> set es. generation d \<notin> set (generation e # used)" using Cons.prems(1,2) by (auto simp: image_iff)
  ultimately show ?case using Cons raw by (simp add: base64ToBytes_def)
qed simp

lemma entries_ok_sorted:
  assumes "entries_ok es"
  shows "entries_ok (sort_key generation es)"
proof -
  have "length (sort_key generation es) = length es" by simp
  then have "sort_key generation es \<noteq> []" using assms by (metis entries_ok_def length_0_conv)
  then show ?thesis
    using assms distinct_map [of generation "sort_key generation es"] distinct_map [of generation es] by (simp add: entries_ok_def)
qed

lemma toWireEntries_ok:
  assumes "entries_ok es"
  shows "decodeEntries (Some (toWireEntries es)) = Inr (sort_key generation es)"
proof -
  note ok = entries_ok_sorted [OF assms]
  then have "decode_items [] (map (\<lambda>e. JObj [(''g'', JNum (jsint (int (generation e)))), (''k'', JStr (keyB64 e))]) (sort_key generation es)) =
      Inr (sort_key generation es)"
    using decode_entry_list [of "sort_key generation es" "[]"] by (simp add: entries_ok_def)
  moreover have "sort_key generation es \<noteq> []" "length es \<le> MAX_GENERATIONS" using ok by (simp_all add: entries_ok_def)
  ultimately show ?thesis by (simp add: decodeEntries_def toWireEntries_def)
qed

text \<open>The keyring with its entries in order.\<close>

definition in_order :: "vault_keyring \<Rightarrow> vault_keyring" where
  "in_order kr = kr\<lparr>kr_credentials := sort_key generation (kr_credentials kr), kr_transactions := sort_key generation (kr_transactions kr)\<rparr>"

lemma decode_encode:
  assumes "json_law js" and "keyring_ok kr"
  shows "decodeKeyring js (encodeKeyring js kr) = Inr (in_order kr)"
proof -
  have "parse js (encodeKeyring js kr) = Some (wire_of kr)" using assms(1) by (simp add: encodeKeyring_def json_law_def wire_of_def)
  moreover have "decode_wire (wire_of kr) = Inr (in_order kr)"
    using assms(2) toWireEntries_ok [of "kr_credentials kr"] toWireEntries_ok [of "kr_transactions kr"]
    by (auto simp: decode_wire_def wire_of_def keyring_ok_def optional_text_def or_null_def in_order_def split: option.splits)
  ultimately show ?thesis by (simp add: decodeKeyring_def)
qed

lemma in_order_same:
  assumes "keyring_ok kr"
  shows "keyring_ok (in_order kr) \<and> dataKeyAt (in_order kr) kind g = dataKeyAt kr kind g"
proof -
  have ok: "keyring_ok (in_order kr)" using assms entries_ok_sorted by (simp add: keyring_ok_def in_order_def)
  have "set (entriesFor (in_order kr) kind) = set (entriesFor kr kind)"
    by (cases kind) (simp_all add: entriesFor_def in_order_def)
  then have "dataKeyAt (in_order kr) kind g = Inr e \<longleftrightarrow> dataKeyAt kr kind g = Inr e" for e
    using dataKeyAt_iff [OF ok] dataKeyAt_iff [OF assms] by simp
  moreover have "(\<exists>e. dataKeyAt k kind g = Inr e) \<or> dataKeyAt k kind g = Inl (NoGeneration kind g)" for k
    by (auto simp: dataKeyAt_def split: option.splits)
  ultimately show ?thesis using ok by metis
qed

lemma wrap_key_length: "vault_laws w \<Longrightarrow> deriveKeyringWrapKey w mek saltB64 = Inr k \<Longrightarrow> length (ak_raw k) = 32"
  by (auto simp: deriveKeyringWrapKey_def thenE_Inr importAesKeyNonExtractable_def vault_lawsD(5))

lemma wrapped_opens:
  assumes "vault_laws w" and "json_law js" and "keyring_ok kr" and "length iv = 12"
    and c: "wrapKeyring w js iv kr mek saltB64 b = Inr c"
    and same: "canonicalizeUserId (kb_user b') = canonicalizeUserId (kb_user b)"
      "canonicalKeyringEpoch (kb_epoch b') = canonicalKeyringEpoch (kb_epoch b)"
  shows "unwrapKeyring w js c mek saltB64 b' = Inr (in_order kr)"
proof -
  obtain aad k where a: "aadBytes w b = Inr aad" "deriveKeyringWrapKey w mek saltB64 = Inr k"
      "c = b64encode (iv @ vw_seal w (ak_raw k) iv aad (vw_encode w (encodeKeyring js kr)))"
    using c by (auto simp: wrapKeyring_def thenE_Inr)
  have "aadBytes w b' = Inr aad" using a(1) same by (simp add: aadBytes_def)
  then show ?thesis
    using assms(4) wrap_key_length [OF assms(1) a(2)] vault_lawsD(1,2,4) [OF assms(1)] decode_encode [OF assms(2,3)]
    by (simp add: unwrapKeyring_def a IV_BYTES_def GCM_TAG_BYTES_def)
qed

section \<open>A sample\<close>

definition sample_keyring :: vault_keyring where
  "sample_keyring = withPqcSecrets (generateVaultKeyring sample_random) (Some ''kem'') None"

definition sample_binding :: keyring_binding where
  "sample_binding = \<lparr>kb_user = JStr ''AAAAAAAA-0000-4000-8000-00000000000a'', kb_epoch = JNum (jsint 7)\<rparr>"

definition same_binding :: keyring_binding where
  "same_binding = \<lparr>kb_user = JStr ''aaaaaaaa-0000-4000-8000-00000000000A'', kb_epoch = JStr ''7''\<rparr>"

abbreviation sample_iv :: bytes where "sample_iv \<equiv> replicate 12 3"
abbreviation sample_salt :: bytes where "sample_salt \<equiv> replicate 16 5"

lemma sample_keyring_ok: "keyring_ok sample_keyring"
  by (simp add: keyring_ok_def sample_keyring_def withPqcSecrets_def generateVaultKeyring_def entries_ok_def randomKeyB64_def
      base64_inverse MAX_GENERATIONS_def DATA_KEY_BYTES_def sample_random_def)

lemma binding_epochs:
  "canonicalKeyringEpoch (kb_epoch sample_binding) = Inr ''7''" "canonicalKeyringEpoch (kb_epoch same_binding) = Inr ''7''"
  by code_simp+

lemma binding_users:
  "canonicalizeUserId (kb_user sample_binding) = Inr ''aaaaaaaa-0000-4000-8000-00000000000a''"
  "canonicalizeUserId (kb_user same_binding) = Inr ''aaaaaaaa-0000-4000-8000-00000000000a''"
  by code_simp+

lemma sample_wraps: "\<exists>c. wrapKeyring w js iv kr mek (b64encode salt) sample_binding = Inr c"
  by (simp add: wrapKeyring_def aadBytes_def binding_epochs binding_users deriveKeyringWrapKey_def)

text \<open>
  C33: a keyring that was wrapped opens under the same master key and salt, for the same user in any case and the
  same epoch as a number or as text, and has at every generation the data key it had, and the same post-quantum
  secrets.
\<close>

theorem keyring_roundtrip:
  assumes "vault_laws w" and "json_law js" and "keyring_ok kr" and "length iv = 12"
    and "wrapKeyring w js iv kr mek saltB64 b = Inr c"
    and "canonicalizeUserId (kb_user b') = canonicalizeUserId (kb_user b)"
    and "canonicalKeyringEpoch (kb_epoch b') = canonicalKeyringEpoch (kb_epoch b)"
  shows "\<exists>kr'. unwrapKeyring w js c mek saltB64 b' = Inr kr' \<and> keyring_ok kr' \<and> kr_kem kr' = kr_kem kr \<and> kr_sig kr' = kr_sig kr \<and>
     (\<forall>kind g. dataKeyAt kr' kind g = dataKeyAt kr kind g)"
  using wrapped_opens [OF assms] in_order_same [OF assms(3)] by (simp add: in_order_def)

theorem keyring_roundtrip_witness:
  "\<exists>c kr'. wrapKeyring sample_vault brace_codec sample_iv sample_keyring [9] (b64encode sample_salt) sample_binding = Inr c \<and>
     unwrapKeyring sample_vault brace_codec c [9] (b64encode sample_salt) same_binding = Inr kr' \<and> kr_kem kr' = Some ''kem'' \<and>
     dataKeyAt kr' Transactions 1 = dataKeyAt sample_keyring Transactions 1"
proof -
  obtain c where c: "wrapKeyring sample_vault brace_codec sample_iv sample_keyring [9] (b64encode sample_salt) sample_binding = Inr c"
    using sample_wraps by blast
  have "length sample_iv = 12" by simp
  from keyring_roundtrip [OF sample_vault_laws brace_law sample_keyring_ok this c, of same_binding] c show ?thesis
    by (auto simp: binding_epochs binding_users sample_keyring_def withPqcSecrets_def simp del: One_nat_def)
qed

text \<open>The additional data names one user and one epoch.\<close>

lemma lower_uuid_length: "canonicalizeUserId x = Inr u \<Longrightarrow> length u = 36"
  by (auto simp: canonicalizeUserId_def is_uuid_def split: json.splits if_splits)

lemma aad_names:
  assumes "vault_laws w" and "aadBytes w b = Inr aad" and "aadBytes w b' = Inr aad"
  shows "canonicalizeUserId (kb_user b') = canonicalizeUserId (kb_user b) \<and> canonicalKeyringEpoch (kb_epoch b') = canonicalKeyringEpoch (kb_epoch b)"
proof -
  obtain u e u' e' where x: "canonicalizeUserId (kb_user b) = Inr u" "canonicalKeyringEpoch (kb_epoch b) = Inr e"
      "canonicalizeUserId (kb_user b') = Inr u'" "canonicalKeyringEpoch (kb_epoch b') = Inr e'"
      "aad = vw_encode w (AAD_PREFIX @ ''|'' @ u @ ''|'' @ e)" "aad = vw_encode w (AAD_PREFIX @ ''|'' @ u' @ ''|'' @ e')"
    using assms(2,3) by (auto simp: aadBytes_def thenE_Inr)
  then have "AAD_PREFIX @ ''|'' @ u @ ''|'' @ e = AAD_PREFIX @ ''|'' @ u' @ ''|'' @ e'"
    using vault_lawsD(1) [OF assms(1)] by metis
  then have "u @ ''|'' @ e = u' @ ''|'' @ e'" by simp
  then show ?thesis using lower_uuid_length x(1-4) by simp
qed

text \<open>
  The ciphertext was not forged: if it opens under the wrapping key with the additional data of the binding, it
  was sealed by \<open>wrapKeyring\<close> with this data, for one of the listed bindings and keyrings (what AES-GCM promises
  to who does not know the key).
\<close>

definition unforged_keyring :: "vault_web \<Rightarrow> json codec \<Rightarrow> aes_key \<Rightarrow> (keyring_binding \<times> vault_keyring) list \<Rightarrow> string \<Rightarrow> keyring_binding \<Rightarrow> bool" where
  "unforged_keyring w js k wrapped c b \<longleftrightarrow> (\<forall>bs aad p. base64ToBytes c = Inr bs \<longrightarrow> aadBytes w b = Inr aad \<longrightarrow>
     vw_open w (ak_raw k) (take IV_BYTES bs) aad (drop IV_BYTES bs) = Some p \<longrightarrow>
     (\<exists>(b0, kr) \<in> set wrapped. aadBytes w b0 = Inr aad \<and> p = vw_encode w (encodeKeyring js kr)))"

text \<open>
  C32: a keyring that opens is one that was wrapped for this very user and this very epoch: neither the row of
  another user nor the ciphertext of another epoch passes, for the separator cannot be part of a user or epoch.
\<close>

theorem keyring_bound_to_row:
  assumes "vault_laws w" and "json_law js" and "deriveKeyringWrapKey w mek saltB64 = Inr k" and "unforged_keyring w js k wrapped c b"
    and "\<forall>(b, kr) \<in> set wrapped. keyring_ok kr" and "unwrapKeyring w js c mek saltB64 b = Inr kr"
  shows "\<exists>(b0, kr0) \<in> set wrapped. canonicalizeUserId (kb_user b0) = canonicalizeUserId (kb_user b) \<and>
     canonicalKeyringEpoch (kb_epoch b0) = canonicalKeyringEpoch (kb_epoch b) \<and> kr = in_order kr0"
proof -
  obtain aad bs p where a: "aadBytes w b = Inr aad" "base64ToBytes c = Inr bs"
      "vw_open w (ak_raw k) (take IV_BYTES bs) aad (drop IV_BYTES bs) = Some p" "decodeKeyring js (vw_decode w p) = Inr kr"
    using assms(3,6) by (auto simp: unwrapKeyring_def thenE_Inr split: if_splits option.splits)
  then obtain b0 kr0 where b0: "(b0, kr0) \<in> set wrapped" "aadBytes w b0 = Inr aad" "p = vw_encode w (encodeKeyring js kr0)"
    using assms(4) unfolding unforged_keyring_def by blast
  have "decodeKeyring js (vw_decode w p) = Inr (in_order kr0)"
    using decode_encode [OF assms(2)] assms(5) b0(1,3) vault_lawsD(1) [OF assms(1)] by fastforce
  then show ?thesis using a(1,4) b0 aad_names [OF assms(1) a(1) b0(2)] by auto
qed

theorem keyring_bound_to_row_witness:
  "\<exists>c kr. wrapKeyring sample_vault brace_codec sample_iv sample_keyring [9] (b64encode sample_salt) sample_binding = Inr c \<and>
     unwrapKeyring sample_vault brace_codec c [9] (b64encode sample_salt) same_binding = Inr kr \<and> kr = in_order sample_keyring"
proof -
  obtain c where c: "wrapKeyring sample_vault brace_codec sample_iv sample_keyring [9] (b64encode sample_salt) sample_binding = Inr c"
    using sample_wraps by blast
  have iv: "length sample_iv = 12" by simp
  have "aadBytes w same_binding = aadBytes w sample_binding" for w by (simp add: aadBytes_def binding_epochs binding_users)
  moreover obtain k where k: "deriveKeyringWrapKey sample_vault [9] (b64encode sample_salt) = Inr k" by (simp add: deriveKeyringWrapKey_def)
  ultimately have unforged: "unforged_keyring sample_vault brace_codec k [(sample_binding, sample_keyring)] c same_binding"
    using c wrap_key_length [OF sample_vault_laws k] vault_lawsD(2) [OF sample_vault_laws]
    by (auto simp: unforged_keyring_def wrapKeyring_def thenE_Inr IV_BYTES_def)
  note opens = wrapped_opens [OF sample_vault_laws brace_law sample_keyring_ok iv c, of same_binding]
  show ?thesis
    using keyring_bound_to_row [OF sample_vault_laws brace_law k unforged _ opens] sample_keyring_ok opens c
    by (simp add: binding_epochs binding_users)
qed

text \<open>What opened is well formed, and wrapping needs only a binding and a salt.\<close>

lemma unwrapped_ok: "unwrapKeyring w js c mek saltB64 b = Inr kr \<Longrightarrow> keyring_ok kr"
  by (auto simp: unwrapKeyring_def thenE_Inr decodeKeyring_def intro: decoded_ok split: if_splits option.splits)

text \<open>
  C34: a change of the master key leaves every data key what it was: the new ciphertext opens under the new master
  key for the same user at the next epoch with the same keys, and it does not claim to be of the old epoch.  Only
  at the last safe integer is the change refused.
\<close>

theorem rewrap_keeps_data_keys:
  assumes "vault_laws w" and "json_law js" and "length iv = 12"
    and "unwrapKeyring w js c oldMek (b64encode salt) b = Inr kr" and "canonicalKeyringEpoch (kb_epoch b) = Inr e"
  shows "if MAX_SAFE_INTEGER \<le> int (digits_value e)
    then rewrapKeyringUnderNewMek w js iv c oldMek newMek (b64encode salt) b = Inl EpochExhausted
    else \<exists>c'. rewrapKeyringUnderNewMek w js iv c oldMek newMek (b64encode salt) b = Inr (kr, c', digits_value e + 1) \<and>
      (\<forall>b'. kb_user b' = kb_user b \<longrightarrow> canonicalKeyringEpoch (kb_epoch b') = Inr (nat_text (digits_value e + 1)) \<longrightarrow>
        (\<exists>kr'. unwrapKeyring w js c' newMek (b64encode salt) b' = Inr kr' \<and> kr_kem kr' = kr_kem kr \<and> kr_sig kr' = kr_sig kr \<and>
           (\<forall>kind g. dataKeyAt kr' kind g = dataKeyAt kr kind g)))"
proof (cases "MAX_SAFE_INTEGER \<le> int (digits_value e)")
  case True
  then show ?thesis using assms(5) by (simp add: rewrapKeyringUnderNewMek_def Let_def)
next
  case False
  let ?b = "\<lparr>kb_user = kb_user b, kb_epoch = JNum (jsint (int (digits_value e + 1)))\<rparr>"
  have epoch: "canonicalKeyringEpoch (kb_epoch ?b) = Inr (nat_text (digits_value e + 1))"
    using False is_integer_jsint [of "int (digits_value e + 1)"] int_of_num_jsint [of "int (digits_value e + 1)"]
    by (simp add: canonicalKeyringEpoch_def nat_add_distrib del: is_integer_jsint int_of_num_jsint)
  obtain u where u: "canonicalizeUserId (kb_user b) = Inr u" using assms(4) by (auto simp: unwrapKeyring_def thenE_Inr aadBytes_def)
  obtain c' where c': "wrapKeyring w js iv kr newMek (b64encode salt) ?b = Inr c'"
    using epoch u by (simp add: wrapKeyring_def aadBytes_def deriveKeyringWrapKey_def)
  have "rewrapKeyringUnderNewMek w js iv c oldMek newMek (b64encode salt) b = Inr (kr, c', digits_value e + 1)"
    using False assms(4,5) c' by (simp add: rewrapKeyringUnderNewMek_def Let_def)
  moreover have "unwrapKeyring w js c' newMek (b64encode salt) b' = Inr (in_order kr)"
    if "kb_user b' = kb_user b" "canonicalKeyringEpoch (kb_epoch b') = Inr (nat_text (digits_value e + 1))" for b'
    using wrapped_opens [OF assms(1,2) unwrapped_ok [OF assms(4)] assms(3) c', of b'] epoch that by simp
  ultimately show ?thesis using False in_order_same [OF unwrapped_ok [OF assms(4)]] by (auto simp: in_order_def)
qed

theorem rewrap_keeps_data_keys_witness:
  "\<exists>c c'. rewrapKeyringUnderNewMek sample_vault brace_codec sample_iv c [9] [8] (b64encode sample_salt) same_binding =
     Inr (in_order sample_keyring, c', 8)"
proof -
  obtain c where c: "wrapKeyring sample_vault brace_codec sample_iv sample_keyring [9] (b64encode sample_salt) sample_binding = Inr c"
    using sample_wraps by blast
  have iv: "length sample_iv = 12" by simp
  have opens: "unwrapKeyring sample_vault brace_codec c [9] (b64encode sample_salt) same_binding = Inr (in_order sample_keyring)"
    by (rule wrapped_opens [OF sample_vault_laws brace_law sample_keyring_ok iv c]) (simp_all add: binding_epochs binding_users)
  have "digits_value ''7'' = 7" "\<not> MAX_SAFE_INTEGER \<le> 7" by code_simp+
  then show ?thesis
    using rewrap_keeps_data_keys [OF sample_vault_laws brace_law iv opens binding_epochs(2), of "[8]"] by auto
qed

text \<open>
  C35: the keyring that a vault of the second envelope is upgraded to opens, with the keys of generation 1, every
  row that was sealed under the derived keys, whatever the master key becomes afterwards.
\<close>

theorem upgrade_reads_old_rows:
  assumes "vault_laws w" and "buildUpgradeKeyringFromV2 w mek saltB64 kem sig = Inr kr" and "length iv = 12"
  shows "keyring_ok kr \<and>
    (\<forall>x c. encryptTransaction w js iv x mek saltB64 = Inr c \<longrightarrow>
       thenE (dataKeyFor kr Transactions (Some 1)) (decryptString w c) = Inr (stringify js x)) \<and>
    (\<forall>x c. encryptCredentials w js iv x mek saltB64 = Inr c \<longrightarrow>
       thenE (dataKeyFor kr Credentials (Some 1)) (decryptString w c) = Inr (stringify js x))"
proof -
  obtain salt where salt: "base64ToBytes saltB64 = Inr salt"
    using assms(2) by (auto simp: buildUpgradeKeyringFromV2_def thenE_Inr deriveCredentialsKey_def deriveSubkey_def)
  let ?k = "\<lambda>ctx. \<lparr>ak_raw = vw_hkdf w mek salt (vw_encode w (HKDF_CONTEXTS ctx)), ak_extractable = True\<rparr>"
  have sub: "deriveSubkey w mek ctx saltB64 True = Inr (?k ctx)" for ctx
    using salt by (simp add: deriveSubkey_def Let_def importAesKey_def)
  have kr: "kr = \<lparr>kr_version = KEYRING_VERSION, kr_credentials = [\<lparr>generation = 1, keyB64 = b64encode (ak_raw (?k CredentialsV1))\<rparr>],
      kr_transactions = [\<lparr>generation = 1, keyB64 = b64encode (ak_raw (?k TransactionsV1))\<rparr>], kr_kem = kem, kr_sig = sig\<rparr>"
    using assms(2) by (auto simp: buildUpgradeKeyringFromV2_def deriveCredentialsKey_def deriveTransactionsKey_def sub exportKey_def
        thenE_Inr split: if_splits)
  have len: "length (ak_raw (?k ctx)) = 32" for ctx by (simp add: vault_lawsD(5) [OF assms(1)])
  then have key: "dataKeyFor kr kind (Some 1) = Inr (?k (case kind of Credentials \<Rightarrow> CredentialsV1 | Transactions \<Rightarrow> TransactionsV1))" for kind
    by (cases kind) (simp_all add: dataKeyFor_def dataKeyAt_def entriesFor_def kr importDataKey_def DATA_KEY_BYTES_def importAesKey_def)
  have "keyring_ok kr" using len by (simp add: keyring_ok_def entries_ok_def kr base64_inverse MAX_GENERATIONS_def DATA_KEY_BYTES_def)
  then show ?thesis
    using encrypted_opens [OF assms(1) len assms(3)]
    by (auto simp: encryptTransaction_def encryptCredentials_def deriveTransactionsKey_def deriveCredentialsKey_def sub key simp del: One_nat_def)
qed

theorem upgrade_reads_old_rows_witness:
  "\<exists>kr c. buildUpgradeKeyringFromV2 sample_vault [9] (b64encode sample_salt) None None = Inr kr \<and>
     encryptTransaction sample_vault brace_codec sample_iv (JObj []) [9] (b64encode sample_salt) = Inr c \<and>
     thenE (dataKeyFor kr Transactions (Some 1)) (decryptString sample_vault c) = Inr (stringify brace_codec (JObj []))"
proof -
  obtain kr where kr: "buildUpgradeKeyringFromV2 sample_vault [9] (b64encode sample_salt) None None = Inr kr"
    using vault_lawsD(5) [OF sample_vault_laws]
    by (simp add: buildUpgradeKeyringFromV2_def deriveCredentialsKey_def deriveTransactionsKey_def subkey_derives exportKey_def DATA_KEY_BYTES_def)
  obtain c where "encryptTransaction sample_vault brace_codec sample_iv (JObj []) [9] (b64encode sample_salt) = Inr c"
    by (simp add: encryptTransaction_def deriveTransactionsKey_def subkey_derives)
  moreover have "length sample_iv = 12" by simp
  ultimately show ?thesis using upgrade_reads_old_rows [OF sample_vault_laws kr, of sample_iv] kr by auto
qed

end
